(* ===== verification/Prelude.thy ===== *)
theory Prelude
  imports Complex_Main "HOL-Library.Word" "HOL-Library.Sublist"
begin

unbundle bit_operations_syntax

text \<open>
  Shared vocabulary of the development: the fixed-width integers and byte buffers of the
  program, the outcomes a piece of C++ code can have, and the state-and-outcome monad in
  which every stateful routine is written.

  An outcome is \<open>Ret\<close> for a normal return, \<open>Trap\<close> for behaviour the language leaves
  undefined or that kills the process (a read outside a buffer, a division by zero), and
  \<open>Stuck\<close> for a run that has not returned within the fuel it was given.  The predicate
  transformer \<open>wpx\<close> takes the verdict for \<open>Trap\<close> and for \<open>Stuck\<close> as arguments, so the
  rules for sequencing are proved once and serve partial correctness (\<open>wlp\<close>), freedom from
  traps (\<open>wp\<close>) and total correctness (\<open>twp\<close>).
\<close>

section \<open>Integers and buffers\<close>

type_synonym u8 = "8 word"
type_synonym u16 = "16 word"
type_synonym u32 = "32 word"
type_synonym u64 = "64 word"
type_synonym bytes = "u8 list"

text \<open>A C++ integer of some width is computed with by wrap-around; \<open>u64_of\<close> is the conversion
  of a vector size.\<close>

abbreviation u64_of :: "nat \<Rightarrow> u64" where
  "u64_of n \<equiv> word_of_nat n"

section \<open>Outcomes\<close>

datatype 'a outcome = Ret 'a | Trap | Stuck

primrec obind :: "'a outcome \<Rightarrow> ('a \<Rightarrow> 'b outcome) \<Rightarrow> 'b outcome" where
  "obind (Ret a) f = f a"
| "obind Trap f = Trap"
| "obind Stuck f = Stuck"

lemma obind_eq_Ret [simp]: "obind m f = Ret b \<longleftrightarrow> (\<exists>a. m = Ret a \<and> f a = Ret b)"
  by (cases m) auto

lemma obind_eq_Stuck: "obind m f = Stuck \<longleftrightarrow> m = Stuck \<or> (\<exists>a. m = Ret a \<and> f a = Stuck)"
  by (cases m) auto

lemma obind_eq_Trap: "obind m f = Trap \<longleftrightarrow> m = Trap \<or> (\<exists>a. m = Ret a \<and> f a = Trap)"
  by (cases m) auto

lemma obind_assoc: "obind (obind m f) g = obind m (\<lambda>a. obind (f a) g)"
  by (cases m) auto

lemma obind_cong [fundef_cong]:
  "m = m' \<Longrightarrow> (\<And>a. m' = Ret a \<Longrightarrow> f a = f' a) \<Longrightarrow> obind m f = obind m' f'"
  by (cases m') auto

section \<open>Stateful routines\<close>

type_synonym ('s, 'a) io = "'s \<Rightarrow> ('a \<times> 's) outcome"

definition ioret :: "'a \<Rightarrow> ('s, 'a) io" where
  "ioret a = (\<lambda>s. Ret (a, s))"

definition iob :: "('s, 'a) io \<Rightarrow> ('a \<Rightarrow> ('s, 'b) io) \<Rightarrow> ('s, 'b) io" where
  "iob m f = (\<lambda>s. obind (m s) (\<lambda>(a, s'). f a s'))"

text \<open>A computation without effect, a read and a write of the state.\<close>

definition iolift :: "'a outcome \<Rightarrow> ('s, 'a) io" where
  "iolift r = (\<lambda>s. obind r (\<lambda>a. Ret (a, s)))"

definition ioget :: "('s \<Rightarrow> 'a) \<Rightarrow> ('s, 'a) io" where
  "ioget f = (\<lambda>s. Ret (f s, s))"

definition ioupd :: "('s \<Rightarrow> 's) \<Rightarrow> ('s, unit) io" where
  "ioupd f = (\<lambda>s. Ret ((), f s))"

definition iostuck :: "('s, 'a) io" where
  "iostuck = (\<lambda>s. Stuck)"

definition iotrap :: "('s, 'a) io" where
  "iotrap = (\<lambda>s. Trap)"

lemma ioret_apply [simp]: "ioret a s = Ret (a, s)"
  by (simp add: ioret_def)

lemma ioget_apply [simp]: "ioget f s = Ret (f s, s)"
  by (simp add: ioget_def)

lemma ioupd_apply [simp]: "ioupd f s = Ret ((), f s)"
  by (simp add: ioupd_def)

lemma iolift_apply [simp]: "iolift (Ret a) s = Ret (a, s)" "iolift Trap s = Trap"
  "iolift Stuck s = Stuck"
  by (simp_all add: iolift_def)

lemma iostuck_apply: "iostuck s = Stuck"
  by (simp add: iostuck_def)

lemma iotrap_apply: "iotrap s = Trap"
  by (simp add: iotrap_def)

lemma iob_apply_Ret: "m s = Ret (a, s') \<Longrightarrow> iob m f s = f a s'"
  by (simp add: iob_def)

lemma iob_eq_Ret [simp]:
  "iob m f s = Ret (b, s') \<longleftrightarrow> (\<exists>a t. m s = Ret (a, t) \<and> f a t = Ret (b, s'))"
  by (auto simp: iob_def split: prod.splits)

lemma iob_eq_Stuck:
  "iob m f s = Stuck \<longleftrightarrow> m s = Stuck \<or> (\<exists>a t. m s = Ret (a, t) \<and> f a t = Stuck)"
  by (auto simp: iob_def obind_eq_Stuck split: prod.splits)

lemma iob_eq_Trap:
  "iob m f s = Trap \<longleftrightarrow> m s = Trap \<or> (\<exists>a t. m s = Ret (a, t) \<and> f a t = Trap)"
  by (auto simp: iob_def obind_eq_Trap split: prod.splits)

lemma iob_ioret [simp]: "iob (ioret a) f = f a"
  by (simp add: iob_def)

lemma iob_assoc: "iob (iob m f) g = iob m (\<lambda>a. iob (f a) g)"
  by (rule ext) (auto simp: iob_def obind_assoc split_def)

section \<open>Predicate transformers\<close>

definition wpx :: "bool \<Rightarrow> bool \<Rightarrow> ('s, 'a) io \<Rightarrow> ('a \<Rightarrow> 's \<Rightarrow> bool) \<Rightarrow> 's \<Rightarrow> bool" where
  "wpx t k m Q s = (case m s of Ret (a, s') \<Rightarrow> Q a s' | Trap \<Rightarrow> t | Stuck \<Rightarrow> k)"

abbreviation wlp :: "('s, 'a) io \<Rightarrow> ('a \<Rightarrow> 's \<Rightarrow> bool) \<Rightarrow> 's \<Rightarrow> bool" where
  "wlp \<equiv> wpx True True"

abbreviation wp :: "('s, 'a) io \<Rightarrow> ('a \<Rightarrow> 's \<Rightarrow> bool) \<Rightarrow> 's \<Rightarrow> bool" where
  "wp \<equiv> wpx False True"

abbreviation twp :: "('s, 'a) io \<Rightarrow> ('a \<Rightarrow> 's \<Rightarrow> bool) \<Rightarrow> 's \<Rightarrow> bool" where
  "twp \<equiv> wpx False False"

named_theorems wp_rules "predicate transformer equations of the program's routines"

lemma wpx_ret [simp, wp_rules]: "wpx t k (ioret a) Q = Q a"
  by (rule ext) (simp add: wpx_def)

lemma wpx_get [simp, wp_rules]: "wpx t k (ioget f) Q s = Q (f s) s"
  by (simp add: wpx_def)

lemma wpx_upd [simp, wp_rules]: "wpx t k (ioupd f) Q s = Q () (f s)"
  by (simp add: wpx_def)

lemma wpx_stuck [simp, wp_rules]: "wpx t k iostuck Q s = k"
  by (simp add: wpx_def iostuck_def)

lemma wpx_trap [simp, wp_rules]: "wpx t k iotrap Q s = t"
  by (simp add: wpx_def iotrap_def)

lemma wpx_bind [simp, wp_rules]: "wpx t k (iob m f) Q = wpx t k m (\<lambda>a. wpx t k (f a) Q)"
proof
  show "wpx t k (iob m f) Q s = wpx t k m (\<lambda>a. wpx t k (f a) Q) s" for s
    by (cases "m s") (auto simp: wpx_def iob_def)
qed

lemma wpx_lift [simp, wp_rules]:
  "wpx t k (iolift r) Q s = (case r of Ret a \<Rightarrow> Q a s | Trap \<Rightarrow> t | Stuck \<Rightarrow> k)"
  by (cases r) (auto simp: wpx_def)

lemma wpx_lift_Ret [simp, wp_rules]: "wpx t k (iolift (Ret a)) Q = Q a"
  by (rule ext) simp

lemma wpx_if [simp, wp_rules]:
  "wpx t k (if b then m else m') Q s = (if b then wpx t k m Q s else wpx t k m' Q s)"
  by simp

lemma wpx_ifI:
  "(b \<Longrightarrow> wpx t k m Q s) \<Longrightarrow> (\<not> b \<Longrightarrow> wpx t k m' Q s) \<Longrightarrow> wpx t k (if b then m else m') Q s"
  by simp

lemma wpx_optionI:
  "(x = None \<Longrightarrow> wpx t k m Q s) \<Longrightarrow> (\<And>a. x = Some a \<Longrightarrow> wpx t k (f a) Q s) \<Longrightarrow>
   wpx t k (case x of None \<Rightarrow> m | Some a \<Rightarrow> f a) Q s"
  by (cases x) auto

lemma wpx_sumI:
  "(\<And>e. x = Inl e \<Longrightarrow> wpx t k (m e) Q s) \<Longrightarrow> (\<And>a. x = Inr a \<Longrightarrow> wpx t k (f a) Q s) \<Longrightarrow>
   wpx t k (case x of Inl e \<Rightarrow> m e | Inr a \<Rightarrow> f a) Q s"
  by (cases x) auto

lemma wpx_mono:
  "wpx t k m Q s \<Longrightarrow> (\<And>a s'. m s = Ret (a, s') \<Longrightarrow> Q a s' \<Longrightarrow> R a s') \<Longrightarrow> wpx t k m R s"
  by (auto simp: wpx_def split: outcome.splits)

lemma wpx_weaken:
  "wpx t k m Q s \<Longrightarrow> (t \<Longrightarrow> t') \<Longrightarrow> (k \<Longrightarrow> k') \<Longrightarrow> (\<And>a s'. Q a s' \<Longrightarrow> R a s') \<Longrightarrow> wpx t' k' m R s"
  by (auto simp: wpx_def split: outcome.splits)

lemma wpx_conj: "wpx t k m Q s \<Longrightarrow> wpx t k m R s \<Longrightarrow> wpx t k m (\<lambda>a s'. Q a s' \<and> R a s') s"
  by (auto simp: wpx_def split: outcome.splits)

lemma wlp_Ret: "wlp m Q s \<Longrightarrow> m s = Ret (a, s') \<Longrightarrow> Q a s'"
  by (simp add: wpx_def)

lemma wlpI: "(\<And>a s'. m s = Ret (a, s') \<Longrightarrow> Q a s') \<Longrightarrow> wlp m Q s"
  by (auto simp: wpx_def split: outcome.splits)

lemma wp_not_Trap: "wp m Q s \<Longrightarrow> m s \<noteq> Trap"
  by (auto simp: wpx_def)

lemma twp_returns: "twp m Q s \<Longrightarrow> \<exists>a s'. m s = Ret (a, s') \<and> Q a s'"
  by (auto simp: wpx_def split: outcome.splits)

lemma wpx_total: "wp m Q s \<Longrightarrow> twp m R s \<Longrightarrow> twp m Q s"
  by (auto simp: wpx_def split: outcome.splits)

section \<open>What a routine preserves\<close>

text \<open>\<open>stays t k P m\<close>: started where \<open>P\<close> holds, the routine ends where it holds; it may trap if \<open>t\<close>
  and may not return if \<open>k\<close>.  The rules of the collection \<open>stays_intros\<close> take a routine apart along
  its sequencing and its branches.  Three instances have names: what a routine keeps of the state if
  it returns, a routine that never traps, and one that comes back.\<close>

definition stays :: "bool \<Rightarrow> bool \<Rightarrow> ('s \<Rightarrow> bool) \<Rightarrow> ('s, 'a) io \<Rightarrow> bool" where
  "stays t k P m \<longleftrightarrow> (\<forall>s. P s \<longrightarrow> wpx t k m (\<lambda>_ s'. P s') s)"

abbreviation keeps :: "('s \<Rightarrow> 'c) \<Rightarrow> 'c \<Rightarrow> ('s, 'a) io \<Rightarrow> bool" where
  "keeps g c m \<equiv> stays True True (\<lambda>s. g s = c) m"

abbreviation safe :: "bool \<Rightarrow> ('s, 'a) io \<Rightarrow> bool" where
  "safe k m \<equiv> stays False k (\<lambda>_. True) m"

abbreviation replies :: "bool \<Rightarrow> ('s \<Rightarrow> bool) \<Rightarrow> ('s, 'a) io \<Rightarrow> bool" where
  "replies t P m \<equiv> stays t False P m"

named_theorems stays_intros "rules that take a routine apart"

lemma stays_wpx: "stays t k P m \<Longrightarrow> P s \<Longrightarrow> (\<And>a s'. P s' \<Longrightarrow> Q a s') \<Longrightarrow> wpx t k m Q s"
  unfolding stays_def by (blast intro: wpx_weaken)

lemma stays_weaken: "stays t k P m \<Longrightarrow> (t \<Longrightarrow> t') \<Longrightarrow> (k \<Longrightarrow> k') \<Longrightarrow> stays t' k' P m"
  unfolding stays_def by (blast intro: wpx_weaken)

lemma stays_ret [stays_intros]: "stays t k P (ioret a)"
  by (simp add: stays_def)

lemma stays_get [stays_intros]: "stays t k P (ioget f)"
  by (simp add: stays_def)

lemma stays_upd: "(\<And>s. P s \<Longrightarrow> P (f s)) \<Longrightarrow> stays t k P (ioupd f)"
  by (simp add: stays_def)

lemma stays_stuck [stays_intros]: "stays t True P iostuck" and stays_trap [stays_intros]: "stays True k P iotrap"
  by (simp_all add: stays_def)

lemma stays_lift: "(r = Trap \<Longrightarrow> t) \<Longrightarrow> (r = Stuck \<Longrightarrow> k) \<Longrightarrow> stays t k P (iolift r)"
  by (cases r) (auto simp: stays_def)

lemma stays_bind [stays_intros]:
  "stays t k P m \<Longrightarrow> (\<And>a. stays t k P (f a)) \<Longrightarrow> stays t k P (iob m f)"
  unfolding stays_def wpx_bind by (blast intro: wpx_weaken)

lemma stays_bind_where:
  "(\<And>s. P s \<Longrightarrow> wpx t k m (\<lambda>a s'. P s' \<and> Q a) s) \<Longrightarrow> (\<And>a. Q a \<Longrightarrow> stays t k P (f a)) \<Longrightarrow> stays t k P (iob m f)"
  unfolding stays_def wpx_bind by (blast intro: wpx_weaken)

lemma stays_if [stays_intros]:
  "(b \<Longrightarrow> stays t k P m) \<Longrightarrow> (\<not> b \<Longrightarrow> stays t k P m') \<Longrightarrow> stays t k P (if b then m else m')"
  by simp

lemma stays_let [stays_intros]: "(\<And>x. x = a \<Longrightarrow> stays t k P (f x)) \<Longrightarrow> stays t k P (let x = a in f x)"
  by simp

lemma stays_option [stays_intros]:
  "(x = None \<Longrightarrow> stays t k P m) \<Longrightarrow> (\<And>a. x = Some a \<Longrightarrow> stays t k P (f a)) \<Longrightarrow>
   stays t k P (case x of None \<Rightarrow> m | Some a \<Rightarrow> f a)"
  by (cases x) auto

lemma stays_sum [stays_intros]:
  "(\<And>e. x = Inl e \<Longrightarrow> stays t k P (m e)) \<Longrightarrow> (\<And>a. x = Inr a \<Longrightarrow> stays t k P (f a)) \<Longrightarrow>
   stays t k P (case x of Inl e \<Rightarrow> m e | Inr a \<Rightarrow> f a)"
  by (cases x) auto

lemma stays_prod [stays_intros]:
  "(\<And>a b. x = (a, b) \<Longrightarrow> stays t k P (f a b)) \<Longrightarrow> stays t k P (case x of (a, b) \<Rightarrow> f a b)"
  by (cases x) auto

lemma stays_list [stays_intros]:
  "(x = [] \<Longrightarrow> stays t k P m) \<Longrightarrow> (\<And>y ys. x = y # ys \<Longrightarrow> stays t k P (f y ys)) \<Longrightarrow>
   stays t k P (case x of [] \<Rightarrow> m | y # ys \<Rightarrow> f y ys)"
  by (cases x) auto

text \<open>What a routine keeps.\<close>

lemma staysD: "stays t k P m \<Longrightarrow> P s \<Longrightarrow> m s = Ret (a, s') \<Longrightarrow> P s'"
  by (auto simp: stays_def wpx_def)

lemma keepsD: "keeps g c m \<Longrightarrow> g s = c \<Longrightarrow> m s = Ret (a, s') \<Longrightarrow> g s' = c"
  by (auto simp: stays_def wpx_def)

lemma keeps_wlp: "keeps g c m \<Longrightarrow> g s = c \<Longrightarrow> wlp m (\<lambda>_ s'. g s' = c) s"
  by (simp add: stays_def)

lemma keeps_lift [stays_intros]: "stays True True P (iolift r)"
  by (rule stays_lift) simp_all

text \<open>Routines that do not trap; with \<open>k = False\<close> they also return.\<close>

lemma safe_wp: "safe k m \<Longrightarrow> wpx False k m (\<lambda>_ _. True) s"
  by (simp add: stays_def)

lemma safe_not_Trap: "safe k m \<Longrightarrow> m s \<noteq> Trap"
  by (auto simp: stays_def wpx_def split: outcome.splits)

lemma safe_returns: "safe False m \<Longrightarrow> \<exists>a s'. m s = Ret (a, s')"
  unfolding stays_def by (blast dest: twp_returns)

lemma safe_weaken: "safe k m \<Longrightarrow> safe True m"
  by (erule stays_weaken) simp_all

lemma safe_upd [stays_intros]: "stays t k (\<lambda>_. True) (ioupd f)"
  by (simp add: stays_def)

lemma safe_lift_Ret: "\<exists>a. r = Ret a \<Longrightarrow> safe k (iolift r)"
  by (auto simp: stays_def)

lemma safe_lift_bind:
  "r \<noteq> Trap \<Longrightarrow> (\<not> k \<Longrightarrow> r \<noteq> Stuck) \<Longrightarrow> (\<And>a. r = Ret a \<Longrightarrow> safe k (f a)) \<Longrightarrow>
   safe k (iob (iolift r) f)"
  by (cases r) (auto simp: stays_def)

text \<open>Routines that come back.\<close>

lemma repliesD: "replies False P m \<Longrightarrow> P s \<Longrightarrow> \<exists>a s'. m s = Ret (a, s') \<and> P s'"
  by (auto simp: stays_def dest: twp_returns)

text \<open>A routine that returns unless it traps, and does not trap.\<close>

lemma replies_total:
  assumes "replies True P m" and "\<And>s. P s \<Longrightarrow> m s \<noteq> Trap"
  shows "replies False P m"
  using assms by (auto simp: stays_def wpx_def split: outcome.splits)

section \<open>Decimal numerals\<close>

text \<open>\<open>std::to_string\<close> of an unsigned value.\<close>

fun dec_digits :: "nat \<Rightarrow> string" where
  "dec_digits n =
     (if n < 10 then [char_of (48 + n)] else dec_digits (n div 10) @ [char_of (48 + n mod 10)])"

declare dec_digits.simps [simp del]

definition show_u64 :: "u64 \<Rightarrow> string" where
  "show_u64 w = dec_digits (unat w)"

definition show_int :: "int \<Rightarrow> string" where
  "show_int i = (if i < 0 then ''-'' @ dec_digits (nat (- i)) else dec_digits (nat i))"

text \<open>The value a string of decimal digits denotes, used to state that printing is faithful.\<close>

definition dec_value :: "string \<Rightarrow> nat" where
  "dec_value s = foldl (\<lambda>v c. 10 * v + (of_char c - 48)) 0 s"

lemma dec_value_append1: "dec_value (s @ [c]) = 10 * dec_value s + (of_char c - 48)"
  by (simp add: dec_value_def)

lemma of_char_digit: "n < 10 \<Longrightarrow> of_char (char_of (48 + n) :: char) = (48 + n :: nat)"
  by (simp add: of_char_of)

lemma dec_value_digits: "dec_value (dec_digits n) = n"
proof (induction n rule: dec_digits.induct)
  case (1 n)
  show ?case
  proof (cases "n < 10")
    case True
    then have "dec_digits n = [char_of (48 + n)]"
      by (subst dec_digits.simps) simp
    with True show ?thesis
      using of_char_digit [of n] by (simp add: dec_value_def)
  next
    case False
    then have "dec_digits n = dec_digits (n div 10) @ [char_of (48 + n mod 10)]"
      by (subst dec_digits.simps) simp
    then show ?thesis
      using 1 [OF False] of_char_digit [of "n mod 10"] by (simp add: dec_value_append1)
  qed
qed

lemma dec_digits_inject [simp]: "dec_digits m = dec_digits n \<longleftrightarrow> m = n"
  by (metis dec_value_digits)

lemma show_u64_inject [simp]: "show_u64 v = show_u64 w \<longleftrightarrow> v = w"
  by (simp add: show_u64_def word_unat_eq_iff)

lemma div_minus_mult: "(p :: nat) * q \<le> x \<Longrightarrow> 0 < p \<Longrightarrow> (x - p * q) div p = x div p - q"
proof -
  assume "p * q \<le> x" "0 < p"
  then have "x div p = (p * q + (x - p * q)) div p" by simp
  also have "\<dots> = q + (x - p * q) div p" using \<open>0 < p\<close> by (subst div_mult_self4) auto
  finally show ?thesis by simp
qed

section \<open>Words\<close>

named_theorems unat_rules "moving a word computation to the natural numbers"

lemma unat_lt_u64 [simp]: "unat (x :: u64) < 18446744073709551616"
  using unsigned_less [of x, where ?'a = nat] by simp

lemma unat_lt_u32 [simp]: "unat (x :: u32) < 4294967296"
  using unsigned_less [of x, where ?'a = nat] by simp

lemma unat_lt_u16 [simp]: "unat (x :: u16) < 65536"
  using unsigned_less [of x, where ?'a = nat] by simp

lemma unat_lt_u8 [simp]: "unat (x :: u8) < 256"
  using unsigned_less [of x, where ?'a = nat] by simp

lemmas unat_lt_trans = less_trans [OF unat_lt_u8] less_trans [OF unat_lt_u16]
  less_trans [OF unat_lt_u32]

lemma unat_add_u64 [unat_rules]:
  "unat (x :: u64) + unat y < 18446744073709551616 \<Longrightarrow> unat (x + y) = unat x + unat y"
  by (simp add: unat_word_ariths)

lemma unat_mult_u64 [unat_rules]:
  "unat (x :: u64) * unat y < 18446744073709551616 \<Longrightarrow> unat (x * y) = unat x * unat y"
  by (simp add: unat_word_ariths)

lemma unat_sub_u64 [unat_rules]: "(y :: u64) \<le> x \<Longrightarrow> unat (x - y) = unat x - unat y"
  by (rule unat_sub)

lemma word_le_unat: "(x :: 'a::len word) \<le> y \<longleftrightarrow> unat x \<le> unat y"
  by (rule word_le_nat_alt)

lemma word_less_unat: "(x :: 'a::len word) < y \<longleftrightarrow> unat x < unat y"
  by (rule word_less_nat_alt)

lemma unat_u64_of [simp]: "n < 18446744073709551616 \<Longrightarrow> unat (u64_of n) = n"
  by (simp add: unat_of_nat take_bit_eq_mod)

lemma unat_ucast_up_u64 [simp]: "unat (ucast (x :: u32) :: u64) = unat x"
  "unat (ucast (y :: u16) :: u64) = unat y" "unat (ucast (z :: u8) :: u64) = unat z"
  by (simp_all add: unsigned_ucast_eq take_bit_nat_eq_self_iff unat_lt_trans)

lemma unat_ucast_up_u32 [simp]: "unat (ucast (y :: u16) :: u32) = unat y"
  "unat (ucast (z :: u8) :: u32) = unat z"
  by (simp_all add: unsigned_ucast_eq take_bit_nat_eq_self_iff unat_lt_trans)

lemma unat_ucast_up_u16 [simp]: "unat (ucast (z :: u8) :: u16) = unat z"
  by (simp add: unsigned_ucast_eq take_bit_nat_eq_self_iff unat_lt_trans)

lemma unat_pow2_u64 [unat_rules]: "k < 64 \<Longrightarrow> unat (2 ^ k :: u64) = 2 ^ k"
proof -
  assume "k < 64"
  then have "(2 :: nat) ^ k < 2 ^ 64" by (intro power_strict_increasing) auto
  then show ?thesis using unat_u64_of [of "2 ^ k"] by simp
qed

text \<open>Rounding down to a multiple of a power of two.\<close>

lemma and_not_mask_eq: "(x :: 'a::len word) AND NOT (mask k) = x - take_bit k x"
proof -
  have "(x AND NOT (mask k)) + take_bit k x = (x AND NOT (mask k)) OR take_bit k x"
    by (rule disjunctive_add) (simp add: bit_simps)
  also have "\<dots> = x"
    by (rule bit_word_eqI) (auto simp: bit_simps)
  finally show ?thesis by (metis add_diff_cancel_right')
qed

lemma unat_take_bit: "unat (take_bit k (x :: 'a::len word)) = unat x mod 2 ^ k"
  by (simp add: unsigned_take_bit_eq flip: take_bit_eq_mod)

lemma unat_and_not_mask [unat_rules]:
  "unat ((x :: 'a::len word) AND NOT (2 ^ k - 1)) = 2 ^ k * (unat x div 2 ^ k)"
proof -
  have "take_bit k x \<le> x"
    by (simp add: word_le_unat unat_take_bit)
  then have "unat (x - take_bit k x) = unat x - unat x mod 2 ^ k"
    by (simp add: unat_sub unat_take_bit)
  then show ?thesis
    by (simp add: mask_eq_decr_exp [symmetric] and_not_mask_eq minus_mod_eq_mult_div)
qed

end
