(* ===== verification/Sys.thy ===== *)
theory Sys
  imports Prelude
begin

text \<open>
  The operating system as the program sees it.  Every system call the modelled routines make
  is a field of the record \<open>sys\<close>: a function of the call's arguments and of the outside world
  (\<open>'w\<close>, of which nothing is known) that gives the call's result and the world after it.
  The record is a parameter of the model; what a property needs to know of it is stated as a
  hypothesis (\<open>posix_disk\<close> below), never as a definition.

  \<open>mach\<close> is the root of the program's state: the world alone.  The components extend it with
  their own objects.
\<close>

section \<open>System calls\<close>

type_synonym fd = int

text \<open>\<open>errno\<close>: the interrupted call, which the callers retry, or an error with the text
  \<open>strerror\<close> gives for it.\<close>

datatype errno = EINTR | Errno string

fun strerror :: "errno \<Rightarrow> string" where
  "strerror EINTR = ''Interrupted system call''"
| "strerror (Errno s) = s"

datatype file_kind = KBlock | KRegular | KDirectory | KOther

record stat =
  st_kind :: file_kind
  st_blksize :: int

text \<open>How \<open>Device::open\<close> opens a node: \<open>O_RDWR | O_CLOEXEC\<close>, with or without \<open>O_DIRECT\<close>.
  A mode with \<open>O_TRUNC\<close> does not exist.\<close>

datatype open_mode = ORdwr | ORdwrDirect

record 'w sys =
  sys_open :: "string \<Rightarrow> open_mode \<Rightarrow> 'w \<Rightarrow> fd \<times> 'w"
  sys_close :: "fd \<Rightarrow> 'w \<Rightarrow> unit \<times> 'w"
  sys_fstat :: "fd \<Rightarrow> 'w \<Rightarrow> stat option \<times> 'w"
  sys_blkssz :: "fd \<Rightarrow> 'w \<Rightarrow> u32 option \<times> 'w"
  sys_blksize64 :: "fd \<Rightarrow> 'w \<Rightarrow> u64 option \<times> 'w"
  sys_lseek_end :: "fd \<Rightarrow> 'w \<Rightarrow> int \<times> 'w"
  sys_pagesize :: "'w \<Rightarrow> int \<times> 'w"
  sys_pread :: "fd \<Rightarrow> nat \<Rightarrow> u64 \<Rightarrow> 'w \<Rightarrow> (errno + bytes) \<times> 'w"
  sys_pwrite :: "fd \<Rightarrow> bytes \<Rightarrow> u64 \<Rightarrow> 'w \<Rightarrow> (errno + nat) \<times> 'w"
  sys_fdatasync :: "fd \<Rightarrow> 'w \<Rightarrow> errno option \<times> 'w"
  sys_sync_range :: "fd \<Rightarrow> u64 \<Rightarrow> u64 \<Rightarrow> bool \<Rightarrow> 'w \<Rightarrow> errno option \<times> 'w"
  sys_cachestat :: "fd \<Rightarrow> u64 \<Rightarrow> u64 \<Rightarrow> 'w \<Rightarrow> (u64 \<times> u64) option \<times> 'w"
  sys_mmap :: "fd \<Rightarrow> u64 \<Rightarrow> u64 \<Rightarrow> 'w \<Rightarrow> bool \<times> 'w"
  sys_mincore :: "fd \<Rightarrow> u64 \<Rightarrow> u64 \<Rightarrow> 'w \<Rightarrow> bytes option \<times> 'w"
  sys_memalign :: "u64 \<Rightarrow> u64 \<Rightarrow> 'w \<Rightarrow> bool \<times> 'w"
  sys_steady :: "'w \<Rightarrow> rat \<times> 'w"
  sys_time :: "'w \<Rightarrow> int \<times> 'w"
  sys_load_paused :: "'w \<Rightarrow> bool \<times> 'w"
  sys_load_stop :: "'w \<Rightarrow> bool \<times> 'w"
  sys_fuel :: nat

text \<open>
  \<open>sys_fuel\<close> bounds the iterations of a loop whose end depends on the outside world alone (a
  call interrupted again and again, a pause nobody ends).  A run that needs more is \<open>Stuck\<close>,
  the model's "has not returned".

  A call that reads returns at most the bytes it was asked for, and one that writes reports
  at most the bytes it was given: the kernel cannot exceed the buffer.
\<close>

record 'w mach =
  world :: 'w

definition sysc :: "('w \<Rightarrow> 'a \<times> 'w) \<Rightarrow> (('w, 'z) mach_scheme, 'a) io" where
  "sysc f = (\<lambda>s. case f (world s) of (a, w') \<Rightarrow> Ret (a, s\<lparr>world := w'\<rparr>))"

definition call_pread :: "'w sys \<Rightarrow> fd \<Rightarrow> nat \<Rightarrow> u64 \<Rightarrow> 'w \<Rightarrow> (errno + bytes) \<times> 'w" where
  "call_pread os fd n off w =
     (case sys_pread os fd n off w of
        (Inl e, w') \<Rightarrow> (Inl e, w')
      | (Inr bs, w') \<Rightarrow> (Inr (take n bs), w'))"

definition call_pwrite :: "'w sys \<Rightarrow> fd \<Rightarrow> bytes \<Rightarrow> u64 \<Rightarrow> 'w \<Rightarrow> (errno + nat) \<times> 'w" where
  "call_pwrite os fd bs off w =
     (case sys_pwrite os fd bs off w of
        (Inl e, w') \<Rightarrow> (Inl e, w')
      | (Inr k, w') \<Rightarrow> (Inr (min k (length bs)), w'))"

lemma wpx_sysc [simp, wp_rules]:
  "wpx t k (sysc f) Q s = (case f (world s) of (a, w') \<Rightarrow> Q a (s\<lparr>world := w'\<rparr>))"
  by (simp add: wpx_def sysc_def split: prod.splits)

lemma sysc_eq_Ret: "sysc f s = Ret (a, s') \<longleftrightarrow> (\<exists>w'. f (world s) = (a, w') \<and> s' = s\<lparr>world := w'\<rparr>)"
  by (auto simp: sysc_def split: prod.splits)

lemma call_pread_length: "call_pread os fd n off w = (Inr bs, w') \<Longrightarrow> length bs \<le> n"
  by (auto simp: call_pread_def split: prod.splits sum.splits)

lemma call_pwrite_le: "call_pwrite os fd bs off w = (Inr k, w') \<Longrightarrow> k \<le> length bs"
  by (auto simp: call_pwrite_def split: prod.splits sum.splits)

text \<open>A routine that never traps and changes nothing but the world; \<open>k\<close> tells whether it may
  fail to return.\<close>

definition world_only :: "bool \<Rightarrow> (('w, 'z) mach_scheme, 'a) io \<Rightarrow> bool" where
  "world_only k m \<longleftrightarrow> (\<forall>s. wpx False k m (\<lambda>_ s'. \<exists>w. s' = s\<lparr>world := w\<rparr>) s)"

lemma world_only_wpx:
  "world_only k m \<Longrightarrow> (\<And>a w. Q a (s\<lparr>world := w\<rparr>)) \<Longrightarrow> wpx False k m Q s"
  unfolding world_only_def by (erule allE, erule wpx_weaken) auto

lemma world_only_sysc: "world_only k (sysc f)"
  by (auto simp: world_only_def split: prod.splits)

lemma world_only_ret: "world_only k (ioret a)"
  unfolding world_only_def
proof
  fix s :: "('a, 'b) mach_scheme"
  show "wpx False k (ioret a) (\<lambda>_ s'. \<exists>w. s' = s\<lparr>world := w\<rparr>) s"
    by (auto intro: exI [of _ "world s"])
qed

lemma world_only_bind:
  "world_only k m \<Longrightarrow> (\<And>a. world_only k (f a)) \<Longrightarrow> world_only k (iob m f)"
  unfolding world_only_def by (fastforce elim!: wpx_weaken)

lemma world_only_wlp: "world_only k m \<Longrightarrow> wlp m (\<lambda>_ s'. \<exists>w. s' = s\<lparr>world := w\<rparr>) s"
  unfolding world_only_def by (erule allE, erule wpx_weaken) auto

lemma keeps_sysc:
  "(\<And>w. g (snd (f w)) = g w) \<Longrightarrow> keeps (\<lambda>s. g (world s)) c (sysc f)"
  by (simp add: stays_def split_def)

section \<open>What a disk promises\<close>

text \<open>
  \<open>overwrite\<close> is a byte store with a run of bytes replaced.  The contract \<open>posix_disk\<close> says of
  a system and of an observation \<open>content\<close> of the world, the bytes behind the descriptors in
  \<open>fds\<close>, which are fewer than a file offset can count: a read gives bytes stored at the offset
  and changes none; a write inside the store that reports a count has stored that many of the
  bytes it was given, one that fails has stored some initial part of them (none when it was only
  interrupted), and neither has changed anything else; every other call leaves the bytes alone.
\<close>

definition overwrite :: "nat \<Rightarrow> bytes \<Rightarrow> bytes \<Rightarrow> bytes" where
  "overwrite off bs c = take off c @ bs @ drop (off + length bs) c"

definition stored_at :: "bytes \<Rightarrow> nat \<Rightarrow> bytes \<Rightarrow> bool" where
  "stored_at c off bs \<longleftrightarrow> take (length bs) (drop off c) = bs"

definition posix_read :: "'w sys \<Rightarrow> fd set \<Rightarrow> ('w \<Rightarrow> bytes) \<Rightarrow> bool" where
  "posix_read os fds content \<longleftrightarrow>
     (\<forall>fd n off w. content (snd (sys_pread os fd n off w)) = content w) \<and>
     (\<forall>fd n off w bs. fd \<in> fds \<longrightarrow> fst (call_pread os fd n off w) = Inr bs \<longrightarrow>
        stored_at (content w) (unat off) bs)"

definition posix_write :: "'w sys \<Rightarrow> fd set \<Rightarrow> ('w \<Rightarrow> bytes) \<Rightarrow> bool" where
  "posix_write os fds content \<longleftrightarrow>
     (\<forall>fd bs off w. fd \<in> fds \<longrightarrow> unat off + length bs \<le> length (content w) \<longrightarrow>
        (case call_pwrite os fd bs off w of
           (Inr n, w') \<Rightarrow> content w' = overwrite (unat off) (take n bs) (content w)
         | (Inl e, w') \<Rightarrow>
             (\<exists>k \<le> (if e = EINTR then 0 else length bs).
                content w' = overwrite (unat off) (take k bs) (content w))))"

definition posix_quiet :: "'w sys \<Rightarrow> ('w \<Rightarrow> bytes) \<Rightarrow> bool" where
  "posix_quiet os content \<longleftrightarrow>
     (\<forall>fd w. content (snd (sys_fdatasync os fd w)) = content w) \<and>
     (\<forall>fd a b c w. content (snd (sys_sync_range os fd a b c w)) = content w) \<and>
     (\<forall>fd a b w. content (snd (sys_cachestat os fd a b w)) = content w) \<and>
     (\<forall>fd a b w. content (snd (sys_mmap os fd a b w)) = content w) \<and>
     (\<forall>fd a b w. content (snd (sys_mincore os fd a b w)) = content w) \<and>
     (\<forall>a b w. content (snd (sys_memalign os a b w)) = content w) \<and>
     (\<forall>w. content (snd (sys_pagesize os w)) = content w) \<and>
     (\<forall>w. content (snd (sys_steady os w)) = content w) \<and>
     (\<forall>w. content (snd (sys_time os w)) = content w) \<and>
     (\<forall>w. content (snd (sys_load_paused os w)) = content w) \<and>
     (\<forall>w. content (snd (sys_load_stop os w)) = content w)"

definition posix_disk :: "'w sys \<Rightarrow> fd set \<Rightarrow> ('w \<Rightarrow> bytes) \<Rightarrow> bool" where
  "posix_disk os fds content \<longleftrightarrow>
     posix_read os fds content \<and> posix_write os fds content \<and> posix_quiet os content"

lemma stored_at_Nil [simp]: "stored_at c off []"
  by (simp add: stored_at_def)

lemma stored_at_append:
  "stored_at c off bs \<Longrightarrow> stored_at c (off + length bs) cs \<Longrightarrow> stored_at c off (bs @ cs)"
  by (simp add: stored_at_def take_add add.commute)

lemma stored_at_take:
  assumes "stored_at c off bs"
  shows "stored_at c off (take k bs)"
proof -
  have "take (length (take k bs)) (drop off c) = take k (take (length bs) (drop off c))"
    by (simp add: min.commute)
  also have "\<dots> = take k bs"
    using assms by (simp add: stored_at_def)
  finally show ?thesis by (simp add: stored_at_def)
qed

lemma stored_at_drop:
  assumes "stored_at c off bs"
  shows "stored_at c (off + k) (drop k bs)"
proof -
  have "take (length (drop k bs)) (drop (off + k) c) = drop k (take (length bs) (drop off c))"
    by (simp add: drop_take add.commute)
  also have "\<dots> = drop k bs"
    using assms by (simp add: stored_at_def)
  finally show ?thesis by (simp add: stored_at_def)
qed

lemma overwrite_stored: "stored_at c off bs \<Longrightarrow> overwrite off bs c = c"
  unfolding overwrite_def stored_at_def
  by (metis append_take_drop_id drop_drop add.commute)

lemma length_overwrite: "off + length bs \<le> length c \<Longrightarrow> length (overwrite off bs c) = length c"
  by (simp add: overwrite_def)

lemma stored_at_bound:
  assumes "stored_at c off bs" and "bs \<noteq> []"
  shows "off + length bs \<le> length c"
proof -
  have "length (take (length bs) (drop off c)) = length bs"
    using assms(1) by (simp add: stored_at_def)
  then have "min (length c - off) (length bs) = length bs" by simp
  moreover have "0 < length bs" using assms(2) by simp
  ultimately show ?thesis by linarith
qed

lemma call_pwrite_world [simp]:
  "snd (call_pwrite os fd bs off w) = snd (sys_pwrite os fd bs off w)"
  by (auto simp: call_pwrite_def split: prod.splits sum.splits)

lemma call_pread_world [simp]:
  "snd (call_pread os fd n off w) = snd (sys_pread os fd n off w)"
  by (auto simp: call_pread_def split: prod.splits sum.splits)


lemma posix_write_back:
  assumes "posix_write os fds content" and "fd \<in> fds"
    and "stored_at (content w) (unat off) bs" and "bs \<noteq> []"
  shows "content (snd (sys_pwrite os fd bs off w)) = content w"
proof -
  have "unat off + length bs \<le> length (content w)"
    using assms by (intro stored_at_bound)
  then have "case call_pwrite os fd bs off w of
      (Inr n, w') \<Rightarrow> content w' = overwrite (unat off) (take n bs) (content w)
    | (Inl e, w') \<Rightarrow>
        (\<exists>k \<le> (if e = EINTR then 0 else length bs).
           content w' = overwrite (unat off) (take k bs) (content w))"
    using assms(1,2) by (simp add: posix_write_def)
  then have "content (snd (call_pwrite os fd bs off w)) = content w"
    by (auto simp: overwrite_stored [OF stored_at_take [OF assms(3)]]
        simp del: call_pwrite_world split: prod.splits sum.splits)
  then show ?thesis by simp
qed


section \<open>A disk that keeps its promises\<close>

text \<open>
  A concrete system for the witnesses: the world is the byte store itself, calls never fail
  inside it, the clocks stand still and nobody pauses the worker.
\<close>

definition ram_sys :: "bytes sys" where
  "ram_sys =
     \<lparr>sys_open = \<lambda>p m w. (case m of ORdwr \<Rightarrow> 3 | ORdwrDirect \<Rightarrow> 4, w),
      sys_close = \<lambda>f w. ((), w),
      sys_fstat = \<lambda>f w. (Some \<lparr>st_kind = KRegular, st_blksize = 4096\<rparr>, w),
      sys_blkssz = \<lambda>f w. (Some 512, w),
      sys_blksize64 = \<lambda>f w. (Some (u64_of (length w)), w),
      sys_lseek_end = \<lambda>f w. (int (length w), w),
      sys_pagesize = \<lambda>w. (4096, w),
      sys_pread = \<lambda>f n off w. (Inr (take n (drop (unat off) w)), w),
      sys_pwrite = \<lambda>f bs off w.
        (if unat off + length bs \<le> length w
         then (Inr (length bs), overwrite (unat off) bs w)
         else (Inl (Errno ''No space left on device''), w)),
      sys_fdatasync = \<lambda>f w. (None, w),
      sys_sync_range = \<lambda>f a b c w. (None, w),
      sys_cachestat = \<lambda>f a b w. (Some (0, 0), w),
      sys_mmap = \<lambda>f a b w. (True, w),
      sys_mincore = \<lambda>f a b w. (None, w),
      sys_memalign = \<lambda>a b w. (True, w),
      sys_steady = \<lambda>w. (0, w),
      sys_time = \<lambda>w. (0, w),
      sys_load_paused = \<lambda>w. (False, w),
      sys_load_stop = \<lambda>w. (False, w),
      sys_fuel = 1\<rparr>"

lemma ram_sys_disk: "posix_disk ram_sys UNIV id"
proof -
  have st: "stored_at w k (take n (drop k w))" for w :: bytes and k n
    by (simp add: stored_at_def min_def)
  have "posix_read ram_sys UNIV id"
    by (auto simp: posix_read_def ram_sys_def call_pread_def min_def intro: st)
  moreover have "posix_write ram_sys UNIV id"
    by (auto simp: posix_write_def ram_sys_def call_pwrite_def)
  moreover have "posix_quiet ram_sys id"
    by (simp add: posix_quiet_def ram_sys_def)
  ultimately show ?thesis by (simp add: posix_disk_def)
qed

text \<open>A system that refuses every call, to be overridden field by field.\<close>

definition null_sys :: "'w sys" where
  "null_sys =
     \<lparr>sys_open = \<lambda>p m w. (-1, w),
      sys_close = \<lambda>f w. ((), w),
      sys_fstat = \<lambda>f w. (None, w),
      sys_blkssz = \<lambda>f w. (None, w),
      sys_blksize64 = \<lambda>f w. (None, w),
      sys_lseek_end = \<lambda>f w. (-1, w),
      sys_pagesize = \<lambda>w. (-1, w),
      sys_pread = \<lambda>f n off w. (Inl (Errno ''Bad file descriptor''), w),
      sys_pwrite = \<lambda>f bs off w. (Inl (Errno ''Bad file descriptor''), w),
      sys_fdatasync = \<lambda>f w. (Some (Errno ''Bad file descriptor''), w),
      sys_sync_range = \<lambda>f a b c w. (Some (Errno ''Bad file descriptor''), w),
      sys_cachestat = \<lambda>f a b w. (None, w),
      sys_mmap = \<lambda>f a b w. (False, w),
      sys_mincore = \<lambda>f a b w. (None, w),
      sys_memalign = \<lambda>a b w. (False, w),
      sys_steady = \<lambda>w. (0, w),
      sys_time = \<lambda>w. (0, w),
      sys_load_paused = \<lambda>w. (False, w),
      sys_load_stop = \<lambda>w. (False, w),
      sys_fuel = 1\<rparr>"

lemma posix_disk_mono: "posix_disk os A content \<Longrightarrow> B \<subseteq> A \<Longrightarrow> posix_disk os B content"
  unfolding posix_disk_def posix_read_def posix_write_def by (meson subsetD)

end
