(* ===== verification/Catalog.thy ===== *)
theory Catalog
  imports Prelude "HOL-Library.AList"
begin

text \<open>
  The catalog behind \<open>Store\<close> (\<open>src/db/store.hpp\<close>, \<open>store.cpp\<close>): its tables, the SQL statements
  that the code runs on them, and the routines that run with the lock held.

  The tables are lists of rows.  A statement of the code is a function on them, written after its
  SQL text; whether its preparation and its steps succeed is up to the environment \<open>sql_env\<close>, so
  every error path is a branch of the model.  Names and texts are bound as C strings, which end at
  the first zero character.  On a closed database the preparation of every statement fails; asking
  for the last row id there is a null pointer access, which is \<open>Trap\<close>.
\<close>

section \<open>Data\<close>

datatype verify_status = VsUnknown | VsOk | VsFail | VsOther int

definition vs_of_int :: "int \<Rightarrow> verify_status" where
  "vs_of_int i = (if i = 0 then VsUnknown else if i = 1 then VsOk else if i = 2 then VsFail else VsOther i)"

fun int_of_vs :: "verify_status \<Rightarrow> int" where
  "int_of_vs VsUnknown = 0"
| "int_of_vs VsOk = 1"
| "int_of_vs VsFail = 2"
| "int_of_vs (VsOther i) = i"

record object_record =
  or_path :: string
  or_size :: int
  or_sha1 :: bytes
  or_has_sha1 :: bool
  or_last_massage :: int
  or_massage_count :: int
  or_verify_status :: verify_status
  or_verify_count :: int
  or_verified_at :: int

definition object_init :: "string \<Rightarrow> object_record" where
  "object_init p = \<lparr>or_path = p, or_size = 0, or_sha1 = replicate 20 0, or_has_sha1 = False,
     or_last_massage = 0, or_massage_count = 0, or_verify_status = VsUnknown, or_verify_count = 0,
     or_verified_at = 0\<rparr>"

record extent_record =
  er_path :: string
  er_offset :: int
  er_length :: int
  er_status :: int

text \<open>The columns that the tables \<open>object\<close> and \<open>file\<close> share.\<close>

record row_data =
  rw_sha1 :: "bytes option"
  rw_size :: int
  rw_last_massage :: int
  rw_massage_count :: int
  rw_verify_status :: int
  rw_verify_count :: int
  rw_verified_at :: int

record object_row =
  ob_id :: int
  ob_vol :: int
  ob_type :: string
  ob_data :: row_data

record folder_row =
  fd_id :: int
  fd_vol :: int
  fd_parent :: int
  fd_name :: string

record file_row =
  fl_id :: int
  fl_folder :: int
  fl_name :: string
  fl_data :: row_data

record extent_row =
  ex_path :: string
  ex_offset :: int
  ex_length :: int
  ex_status :: int
  ex_updated_at :: int

text \<open>The database: the device and volume rows are only their ids, as the code never reads them.
  \<open>st_legacy\<close> is the table \<open>objects\<close> of earlier versions, if there is one.\<close>

record store =
  st_open :: bool
  st_path :: string
  st_devices :: "int list"
  st_volumes :: "int list"
  st_objects :: "object_row list"
  st_folders :: "folder_row list"
  st_files :: "file_row list"
  st_extents :: "extent_row list"
  st_meta :: "(string \<times> string) list"
  st_legacy :: "(string \<times> row_data) list option"
  st_last :: int
  st_ticks :: nat

text \<open>The environment: whether the preparation at a tick fails; whether a run fails and after how
  many rows; the time; the rows of an integrity check.\<close>

record sql_env =
  se_prep :: "nat \<Rightarrow> string option"
  se_step :: "nat \<Rightarrow> (string \<times> nat) option"
  se_now :: "nat \<Rightarrow> int"
  se_check :: "nat \<Rightarrow> string option list"

type_synonym 'a db = "(store, 'a) io"

section \<open>Statements\<close>

datatype sql_error = PrepErr string | StepErr string

definition tick :: "nat db" where
  "tick = iob (ioget st_ticks) (\<lambda>n. iob (ioupd (\<lambda>s. s\<lparr>st_ticks := n + 1\<rparr>)) (\<lambda>_. ioret n))"

definition misuse :: string where
  "misuse = ''bad parameter or other API misuse''"

definition prepare :: "sql_env \<Rightarrow> string option db" where
  "prepare e =
     iob (ioget st_open) (\<lambda>opened.
     if \<not> opened then ioret (Some misuse)
     else iob tick (\<lambda>n. ioret (se_prep e n)))"

text \<open>A writing statement: \<open>f\<close> is its effect, \<open>Inl\<close> a constraint that it violates.\<close>

definition step_stmt :: "sql_env \<Rightarrow> (store \<Rightarrow> string + store) \<Rightarrow> (string option) db" where
  "step_stmt e f =
     iob tick (\<lambda>n.
     case se_step e n of
       Some (msg, _) \<Rightarrow> ioret (Some msg)
     | None \<Rightarrow>
         iob (ioget f) (\<lambda>r.
         case r of
           Inl msg \<Rightarrow> ioret (Some msg)
         | Inr s \<Rightarrow> iob (ioupd (\<lambda>_. s)) (\<lambda>_. ioret None)))"

definition run_stmt :: "sql_env \<Rightarrow> (store \<Rightarrow> string + store) \<Rightarrow> (sql_error option) db" where
  "run_stmt e f =
     iob (prepare e) (\<lambda>p.
     case p of
       Some msg \<Rightarrow> ioret (Some (PrepErr msg))
     | None \<Rightarrow> iob (step_stmt e f) (\<lambda>r. ioret (map_option StepErr r)))"

text \<open>A query, with the rows that its loop gets to see: a failing step ends the loop like the last
  row does.\<close>

definition run_query :: "sql_env \<Rightarrow> (store \<Rightarrow> 'a list) \<Rightarrow> (string + 'a list) db" where
  "run_query e q =
     iob (prepare e) (\<lambda>p.
     case p of
       Some msg \<Rightarrow> ioret (Inl msg)
     | None \<Rightarrow>
         iob tick (\<lambda>n.
         iob (ioget q) (\<lambda>rows.
         ioret (Inr (case se_step e n of Some (_, k) \<Rightarrow> take k rows | None \<Rightarrow> rows)))))"

text \<open>The first row, or none: what a query amounts to whose errors are not looked at.\<close>

definition query_first :: "sql_env \<Rightarrow> (store \<Rightarrow> 'a list) \<Rightarrow> 'a option db" where
  "query_first e q =
     iob (run_query e q) (\<lambda>r.
     ioret (case r of Inl _ \<Rightarrow> None | Inr [] \<Rightarrow> None | Inr (x # _) \<Rightarrow> Some x))"

definition last_insert_rowid :: "int db" where
  "last_insert_rowid =
     iob (ioget st_open) (\<lambda>opened. if opened then ioget st_last else iotrap)"

fun sql_message :: "sql_error \<Rightarrow> string" where
  "sql_message (PrepErr m) = m"
| "sql_message (StepErr m) = m"

definition cstr :: "string \<Rightarrow> string" where
  "cstr = takeWhile (\<lambda>c. c \<noteq> CHR 0x00)"

text \<open>A new row id: one more than the largest.\<close>

definition next_id :: "int list \<Rightarrow> int" where
  "next_id ids = foldr max ids 0 + 1"

definition row_of :: "object_record \<Rightarrow> row_data" where
  "row_of o1 =
     \<lparr>rw_sha1 = (if or_has_sha1 o1 then Some (or_sha1 o1) else None), rw_size = or_size o1,
      rw_last_massage = or_last_massage o1, rw_massage_count = or_massage_count o1,
      rw_verify_status = int_of_vs (or_verify_status o1), rw_verify_count = or_verify_count o1,
      rw_verified_at = or_verified_at o1\<rparr>"

definition read_sha1 :: "bytes option \<Rightarrow> object_record \<Rightarrow> object_record" where
  "read_sha1 blob o1 =
     (case blob of
        Some b \<Rightarrow> if length b = 20 then o1\<lparr>or_sha1 := b, or_has_sha1 := True\<rparr> else o1\<lparr>or_has_sha1 := False\<rparr>
      | None \<Rightarrow> o1\<lparr>or_has_sha1 := False\<rparr>)"

definition read_row :: "row_data \<Rightarrow> object_record \<Rightarrow> object_record" where
  "read_row d o1 =
     (read_sha1 (rw_sha1 d) (o1\<lparr>or_size := rw_size d\<rparr>))
       \<lparr>or_last_massage := rw_last_massage d, or_massage_count := rw_massage_count d,
        or_verify_status := vs_of_int (rw_verify_status d), or_verify_count := rw_verify_count d,
        or_verified_at := rw_verified_at d\<rparr>"

text \<open>The update of a conflicting row: \<open>COALESCE(excluded.sha1, object.sha1)\<close>, the rest replaced.\<close>

definition merge_row :: "row_data \<Rightarrow> row_data \<Rightarrow> row_data" where
  "merge_row old new = (case rw_sha1 new of None \<Rightarrow> new\<lparr>rw_sha1 := rw_sha1 old\<rparr> | Some _ \<Rightarrow> new)"

definition insert_folder :: "int \<Rightarrow> int \<Rightarrow> string \<Rightarrow> store \<Rightarrow> string + store" where
  "insert_folder vol parent name s =
     (if \<exists>r \<in> set (st_folders s). fd_vol r = vol \<and> fd_parent r = parent \<and> fd_name r = name
      then Inl ''UNIQUE constraint failed: folder.vol_id, folder.parent_id, folder.basename''
      else
        let i = next_id (map fd_id (st_folders s)) in
        Inr (s\<lparr>st_folders := st_folders s @ [\<lparr>fd_id = i, fd_vol = vol, fd_parent = parent, fd_name = name\<rparr>],
               st_last := i\<rparr>))"

definition find_folder :: "int \<Rightarrow> int \<Rightarrow> string \<Rightarrow> store \<Rightarrow> int list" where
  "find_folder vol parent name s =
     map fd_id (filter (\<lambda>r. fd_vol r = vol \<and> fd_parent r = parent \<and> fd_name r = name) (st_folders s))"

definition upsert_object_row :: "int \<Rightarrow> string \<Rightarrow> row_data \<Rightarrow> store \<Rightarrow> string + store" where
  "upsert_object_row vol ty d s =
     (if \<exists>r \<in> set (st_objects s). ob_vol r = vol \<and> ob_type r = ty
      then Inr (s\<lparr>st_objects := map (\<lambda>r. if ob_vol r = vol \<and> ob_type r = ty
                    then r\<lparr>ob_data := merge_row (ob_data r) d\<rparr> else r) (st_objects s)\<rparr>)
      else
        let i = next_id (map ob_id (st_objects s)) in
        Inr (s\<lparr>st_objects := st_objects s @ [\<lparr>ob_id = i, ob_vol = vol, ob_type = ty, ob_data = d\<rparr>],
               st_last := i\<rparr>))"

definition upsert_file_row :: "int \<Rightarrow> string \<Rightarrow> row_data \<Rightarrow> store \<Rightarrow> string + store" where
  "upsert_file_row folder name d s =
     (if \<exists>r \<in> set (st_files s). fl_folder r = folder \<and> fl_name r = name
      then Inr (s\<lparr>st_files := map (\<lambda>r. if fl_folder r = folder \<and> fl_name r = name
                    then r\<lparr>fl_data := merge_row (fl_data r) d\<rparr> else r) (st_files s)\<rparr>)
      else
        let i = next_id (map fl_id (st_files s)) in
        Inr (s\<lparr>st_files := st_files s @ [\<lparr>fl_id = i, fl_folder = folder, fl_name = name, fl_data = d\<rparr>],
               st_last := i\<rparr>))"

definition upsert_meta :: "string \<Rightarrow> string \<Rightarrow> store \<Rightarrow> string + store" where
  "upsert_meta key val s = Inr (s\<lparr>st_meta := AList.update key val (st_meta s)\<rparr>)"

section \<open>Paths\<close>

definition special_path :: "string \<Rightarrow> bool" where
  "special_path p \<longleftrightarrow> 2 \<le> length p \<and> p ! 0 = CHR '':'' \<and> p ! 1 = CHR '':''"

text \<open>The loop over the characters: the parts so far and the one being read.\<close>

fun split_loop :: "string \<Rightarrow> string list \<Rightarrow> string \<Rightarrow> string list" where
  "split_loop [] parts cur = (if cur \<noteq> [] then parts @ [cur] else parts)"
| "split_loop (c # cs) parts cur =
     (if c = CHR ''/'' then split_loop cs (if cur \<noteq> [] then parts @ [cur] else parts) []
      else split_loop cs parts (cur @ [c]))"

definition strip_slashes :: "string \<Rightarrow> string" where
  "strip_slashes p =
     rev (dropWhile (\<lambda>c. c = CHR ''/'') (rev (dropWhile (\<lambda>c. c = CHR ''/'') p)))"

text \<open>The directories and the name; the name is empty when the path has no part.\<close>

definition split_file_path :: "string \<Rightarrow> string list \<times> string" where
  "split_file_path p =
     (let parts = split_loop (strip_slashes p) [] [] in
      if parts = [] then ([], []) else (butlast parts, last parts))"

section \<open>Numbers in text\<close>

definition is_digit :: "char \<Rightarrow> bool" where
  "is_digit c \<longleftrightarrow> 48 \<le> (of_char c :: nat) \<and> (of_char c :: nat) \<le> 57"

definition is_space :: "char \<Rightarrow> bool" where
  "is_space c \<longleftrightarrow> c \<in> {CHR '' '', CHR 0x09, CHR 0x0A, CHR 0x0B, CHR 0x0C, CHR 0x0D}"

text \<open>The number at the front of a text, as \<open>strtoll\<close> finds it, before it is cut to the type.\<close>

definition parse_int :: "string \<Rightarrow> int" where
  "parse_int s =
     (let s = dropWhile is_space s;
          neg = (s \<noteq> [] \<and> hd s = CHR ''-'');
          s = (if s \<noteq> [] \<and> hd s \<in> {CHR ''-'', CHR ''+''} then tl s else s);
          v = int (dec_value (takeWhile is_digit s)) in
      if neg then - v else v)"

definition strtoll :: "string \<Rightarrow> int" where
  "strtoll s = max (- (2 ^ 63)) (min (2 ^ 63 - 1) (parse_int s))"

section \<open>Volume and folders\<close>

definition set_meta :: "sql_env \<Rightarrow> string \<Rightarrow> string \<Rightarrow> (string option) db" where
  "set_meta e key val =
     iob (run_stmt e (upsert_meta (cstr key) (cstr val))) (\<lambda>r.
     ioret (case r of None \<Rightarrow> None | Some err \<Rightarrow> Some (sql_message err)))"

definition ensure_root_folder_locked :: "sql_env \<Rightarrow> int \<Rightarrow> int db" where
  "ensure_root_folder_locked e vol =
     iob (query_first e (find_folder vol 0 [])) (\<lambda>r.
     case r of
       Some i \<Rightarrow> ioret i
     | None \<Rightarrow> iob (run_stmt e (insert_folder vol 0 [])) (\<lambda>_. last_insert_rowid))"

definition insert_device :: "store \<Rightarrow> string + store" where
  "insert_device s =
     (let i = next_id (st_devices s) in Inr (s\<lparr>st_devices := st_devices s @ [i], st_last := i\<rparr>))"

definition insert_volume :: "int \<Rightarrow> store \<Rightarrow> string + store" where
  "insert_volume dev s =
     (let i = next_id (st_volumes s) in Inr (s\<lparr>st_volumes := st_volumes s @ [i], st_last := i\<rparr>))"

definition vol_key :: string where
  "vol_key = ''current_vol_id''"

definition meta_rows :: "string \<Rightarrow> store \<Rightarrow> string list" where
  "meta_rows key s = (case map_of (st_meta s) key of None \<Rightarrow> [] | Some v \<Rightarrow> [v])"

definition ensure_volume_locked :: "sql_env \<Rightarrow> int db" where
  "ensure_volume_locked e =
     iob (query_first e (meta_rows vol_key)) (\<lambda>r.
     let i = (case r of None \<Rightarrow> [] | Some v \<Rightarrow> v) in
     if i \<noteq> [] \<and> 0 < strtoll i then ioret (strtoll i)
     else
       iob (run_stmt e insert_device) (\<lambda>_.
       iob last_insert_rowid (\<lambda>dev.
       iob (run_stmt e (insert_volume dev)) (\<lambda>_.
       iob last_insert_rowid (\<lambda>vol.
       iob (set_meta e vol_key (show_int vol)) (\<lambda>_.
       iob (ensure_root_folder_locked e vol) (\<lambda>_.
       ioret vol)))))))"

text \<open>The id, or 0 with a message.\<close>

definition ensure_folder_locked :: "sql_env \<Rightarrow> int \<Rightarrow> int \<Rightarrow> string \<Rightarrow> (int \<times> string) db" where
  "ensure_folder_locked e vol parent name =
     iob (run_query e (find_folder vol parent (cstr name))) (\<lambda>r.
     case r of
       Inl msg \<Rightarrow> ioret (0, msg)
     | Inr (i # _) \<Rightarrow> ioret (i, [])
     | Inr [] \<Rightarrow>
         iob (run_stmt e (insert_folder vol parent (cstr name))) (\<lambda>r.
         case r of
           Some err \<Rightarrow> ioret (0, sql_message err)
         | None \<Rightarrow> iob last_insert_rowid (\<lambda>i. ioret (i, []))))"

fun ensure_folders :: "sql_env \<Rightarrow> int \<Rightarrow> int \<Rightarrow> string list \<Rightarrow> (int \<times> string) db" where
  "ensure_folders e vol parent [] = ioret (parent, [])"
| "ensure_folders e vol parent (d # ds) =
     iob (ensure_folder_locked e vol parent d) (\<lambda>(i, msg).
     if i \<le> 0 then ioret (i, msg) else ensure_folders e vol i ds)"

section \<open>Objects\<close>

text \<open>\<open>None\<close> is success, \<open>Some\<close> a message.\<close>

definition upsert_special_locked :: "sql_env \<Rightarrow> object_record \<Rightarrow> (string option) db" where
  "upsert_special_locked e o1 =
     iob (ensure_volume_locked e) (\<lambda>vol.
     iob (run_stmt e (upsert_object_row vol (cstr (or_path o1)) (row_of o1))) (\<lambda>r.
     ioret (map_option sql_message r)))"

definition upsert_file_locked :: "sql_env \<Rightarrow> object_record \<Rightarrow> (string option) db" where
  "upsert_file_locked e o1 =
     (case split_file_path (or_path o1) of (dirs, base) \<Rightarrow>
      if base = [] then ioret (Some ''empty file path'')
      else
        iob (ensure_volume_locked e) (\<lambda>vol.
        iob (ensure_root_folder_locked e vol) (\<lambda>parent.
        iob (ensure_folders e vol parent dirs) (\<lambda>(parent, msg).
        if dirs \<noteq> [] \<and> parent \<le> 0 then ioret (Some msg)
        else
          iob (run_stmt e (upsert_file_row parent (cstr base) (row_of o1))) (\<lambda>r.
          ioret (map_option sql_message r))))))"

definition object_rows :: "int \<Rightarrow> string \<Rightarrow> store \<Rightarrow> object_row list" where
  "object_rows vol ty s = filter (\<lambda>r. ob_vol r = vol \<and> ob_type r = ty) (st_objects s)"

definition file_rows :: "int \<Rightarrow> string \<Rightarrow> store \<Rightarrow> file_row list" where
  "file_rows folder name s = filter (\<lambda>r. fl_folder r = folder \<and> fl_name r = name) (st_files s)"

definition get_special_locked :: "sql_env \<Rightarrow> string \<Rightarrow> object_record \<Rightarrow> (object_record option) db" where
  "get_special_locked e p o1 =
     iob (ensure_volume_locked e) (\<lambda>vol.
     iob (query_first e (object_rows vol (cstr p))) (\<lambda>r.
     ioret (map_option (\<lambda>row. read_row (ob_data row) (o1\<lparr>or_path := ob_type row\<rparr>)) r)))"

fun find_folders :: "sql_env \<Rightarrow> int \<Rightarrow> int \<Rightarrow> string list \<Rightarrow> (int option) db" where
  "find_folders e vol parent [] = ioret (Some parent)"
| "find_folders e vol parent (d # ds) =
     iob (query_first e (find_folder vol parent (cstr d))) (\<lambda>r.
     case r of None \<Rightarrow> ioret None | Some i \<Rightarrow> find_folders e vol i ds)"

definition get_file_locked :: "sql_env \<Rightarrow> string \<Rightarrow> object_record \<Rightarrow> (object_record option) db" where
  "get_file_locked e p o1 =
     (case split_file_path p of (dirs, base) \<Rightarrow>
      if base = [] then ioret None
      else
        iob (ensure_volume_locked e) (\<lambda>vol.
        iob (ensure_root_folder_locked e vol) (\<lambda>root_id.
        iob (find_folders e vol root_id dirs) (\<lambda>r.
        case r of
          None \<Rightarrow> ioret None
        | Some parent \<Rightarrow>
            iob (query_first e (file_rows parent (cstr base))) (\<lambda>r.
            ioret (map_option (\<lambda>row. read_row (fl_data row) (o1\<lparr>or_path := p\<rparr>)) r))))))"

section \<open>Lemmas: paths\<close>

definition path_of :: "string list \<Rightarrow> string" where
  "path_of parts = concat (map (\<lambda>d. CHR ''/'' # d) parts)"

definition good_part :: "string \<Rightarrow> bool" where
  "good_part d \<longleftrightarrow> d \<noteq> [] \<and> CHR ''/'' \<notin> set d"

lemma split_loop_parts: "split_loop cs parts cur = parts @ split_loop cs [] cur"
proof (induction cs arbitrary: parts cur)
  case (Cons c cs)
  show ?case
    by (cases "c = CHR ''/''"; cases "cur = []")
      (simp_all add: Cons [of "parts @ [cur]"] Cons [of "[cur]"] Cons [of parts])
qed simp

lemma split_loop_part:
  "CHR ''/'' \<notin> set d \<Longrightarrow> split_loop (d @ cs) [] cur = split_loop cs [] (cur @ d)"
  by (induction d arbitrary: cur) auto

lemma split_loop_good:
  "\<forall>d \<in> set parts. good_part d \<Longrightarrow> CHR ''/'' \<notin> set cur \<Longrightarrow>
   \<forall>d \<in> set (split_loop cs parts cur). good_part d"
proof (induction cs arbitrary: parts cur)
  case (Cons c cs)
  have "\<forall>d \<in> set (if cur \<noteq> [] then parts @ [cur] else parts). good_part d"
    using Cons.prems by (auto simp: good_part_def)
  then show ?case
    using Cons.IH [of _ "[]"] Cons.IH [OF Cons.prems(1), of "cur @ [c]"] Cons.prems(2) by simp
qed (auto simp: good_part_def)

lemma split_loop_empty: "split_loop p [] cur = [] \<Longrightarrow> cur = [] \<and> set p \<subseteq> {CHR ''/''}"
proof (induction p arbitrary: cur)
  case (Cons c p)
  then show ?case
    using split_loop_parts [of p "[cur]" "[]"] by (auto split: if_splits)
qed (simp split: if_splits)

lemma split_loop_path:
  "\<forall>d \<in> set parts. good_part d \<Longrightarrow> CHR ''/'' \<notin> set cur \<Longrightarrow>
   split_loop (path_of parts) [] cur = (if cur = [] then parts else cur # parts)"
proof (induction parts arbitrary: cur)
  case (Cons d parts)
  have d: "CHR ''/'' \<notin> set d" "d \<noteq> []" using Cons.prems by (auto simp: good_part_def)
  then have "split_loop (d @ path_of parts) [] [] = d # parts"
    using Cons by (simp add: split_loop_part)
  then show ?case
    using split_loop_parts [of "d @ path_of parts" "[cur]" "[]"] by (simp add: path_of_def)
qed (simp add: path_of_def)

text \<open>Slashes at the ends make no difference to the loop.\<close>

lemma split_loop_strip_front: "split_loop (dropWhile (\<lambda>c. c = CHR ''/'') p) [] [] = split_loop p [] []"
  by (induction p) auto

lemma split_loop_replicate: "split_loop (replicate n CHR ''/'') [] cur = (if cur = [] then [] else [cur])"
proof (induction n arbitrary: cur)
  case (Suc n)
  then show ?case
    using split_loop_parts [of "replicate n CHR ''/''" "[cur]" "[]"] by simp
qed simp

lemma split_loop_append_slashes:
  "split_loop (p @ replicate n CHR ''/'') [] cur = split_loop p [] cur"
proof (induction p arbitrary: cur)
  case Nil
  then show ?case by (simp add: split_loop_replicate)
next
  case (Cons c p)
  then show ?case
    using split_loop_parts [of "p @ replicate n CHR ''/''" "[cur]"] split_loop_parts [of p "[cur]"] by simp
qed

lemma split_strip: "split_loop (strip_slashes p) [] [] = split_loop p [] []"
proof -
  let ?q = "dropWhile (\<lambda>c. c = CHR ''/'') p"
  let ?tl = "takeWhile (\<lambda>c. c = CHR ''/'') (rev ?q)"
  have "?tl = replicate (length ?tl) CHR ''/''"
    by (rule replicate_eqI) (auto dest: set_takeWhileD)
  then obtain n where n: "?tl = replicate n CHR ''/''" by blast
  have "?q = rev (dropWhile (\<lambda>c. c = CHR ''/'') (rev ?q)) @ rev ?tl"
    by (metis rev_append rev_rev_ident takeWhile_dropWhile_id)
  then have "?q = strip_slashes p @ replicate n CHR ''/''"
    by (simp add: strip_slashes_def n)
  then have "split_loop ?q [] [] = split_loop (strip_slashes p) [] []"
    by (metis split_loop_append_slashes)
  then show ?thesis by (simp add: split_loop_strip_front)
qed

lemma split_file_path_parts:
  "split_file_path p = (case split_loop p [] [] of [] \<Rightarrow> ([], []) | parts \<Rightarrow> (butlast parts, last parts))"
  by (auto simp: split_file_path_def Let_def split_strip split: list.splits)

lemma split_file_path_snoc:
  "split_loop p [] [] = dirs @ [base] \<Longrightarrow> split_file_path p = (dirs, base)"
  by (simp add: split_file_path_def Let_def split_strip)

text \<open>Paths are taken apart into their parts: leading, trailing and repeated slashes make no
  difference, no part is empty or contains a slash, and putting the parts together again and taking
  the result apart gives the same parts.\<close>

theorem split_file_path_roundtrip:
  "(dirs, base) = split_file_path p \<Longrightarrow>
     (base = [] \<longrightarrow> dirs = [] \<and> set p \<subseteq> {CHR ''/''}) \<and>
     (base \<noteq> [] \<longrightarrow> (\<forall>d \<in> set (dirs @ [base]). good_part d) \<and>
        split_file_path (path_of (dirs @ [base])) = (dirs, base) \<and>
        split_file_path (replicate m CHR ''/'' @ p @ replicate n CHR ''/'') = (dirs, base))"
proof -
  assume s: "(dirs, base) = split_file_path p"
  let ?parts = "split_loop p [] []"
  have good: "\<forall>d \<in> set ?parts. good_part d" by (rule split_loop_good) simp_all
  show ?thesis
  proof (cases "?parts = []")
    case True
    then show ?thesis using s split_loop_empty [of p "[]"] by (simp add: split_file_path_parts)
  next
    case False
    then have parts: "?parts = dirs @ [base]"
      using s by (auto simp: split_file_path_parts split: list.splits)
    have "split_loop (replicate m CHR ''/'' @ p @ replicate n CHR ''/'') [] [] = ?parts"
      using split_loop_append_slashes [of "replicate m CHR ''/'' @ p" n "[]"]
      by (induction m) auto
    moreover have "split_loop (path_of (dirs @ [base])) [] [] = dirs @ [base]"
      using split_loop_path [of "dirs @ [base]" "[]"] good parts by simp
    ultimately show ?thesis
      using good parts by (auto simp: split_file_path_snoc good_part_def)
  qed
qed

lemma split_file_path_roundtrip_witness:
  "split_file_path (replicate 1 CHR ''/'' @ ''//usr/lib/x/'' @ replicate 2 CHR ''/'') = ([''usr'', ''lib''], ''x'')"
  using split_file_path_roundtrip [of "[''usr'', ''lib'']" "''x''" "''//usr/lib/x/''" 1 2]
  by (simp add: split_file_path_def strip_slashes_def)

section \<open>Lemmas: running without failures\<close>

definition healthy :: "sql_env \<Rightarrow> bool" where
  "healthy e \<longleftrightarrow> (\<forall>n. se_prep e n = None \<and> se_step e n = None)"

text \<open>States that differ in the tick count only, and what a routine does up to it.\<close>

definition eqt :: "store \<Rightarrow> store \<Rightarrow> bool" where
  "eqt s s' \<longleftrightarrow> (\<exists>k. s = s'\<lparr>st_ticks := k\<rparr>)"

definition does :: "'a db \<Rightarrow> store \<Rightarrow> 'a \<Rightarrow> store \<Rightarrow> bool" where
  "does m s r s' \<longleftrightarrow> (\<forall>s0. eqt s0 s \<longrightarrow> (\<exists>s1. m s0 = Ret (r, s1) \<and> eqt s1 s'))"

lemma eqt_refl [simp]: "eqt s s"
  unfolding eqt_def by (rule exI [of _ "st_ticks s"]) simp

lemma does_ret: "does (ioret a) s a s"
  by (simp add: does_def)

lemma does_Ret [simp]: "does (\<lambda>s. Ret (a, s)) s a s"
  by (simp add: does_def)

lemma does_bind: "does m s a s1 \<Longrightarrow> does (f a) s1 b s2 \<Longrightarrow> does (iob m f) s b s2"
  unfolding does_def iob_def by fastforce

lemma does_lift: "does m s a s1 \<Longrightarrow> f a = ioret b \<Longrightarrow> does (iob m f) s b s1"
  by (rule does_bind) (assumption, metis does_ret)

lemma does_result: "does m s r s' \<Longrightarrow> \<exists>k. m s = Ret (r, s'\<lparr>st_ticks := k\<rparr>)"
  unfolding does_def eqt_def by (metis eqt_def eqt_refl)

text \<open>Queries and statements that look at the tables only.\<close>

definition blind_query :: "(store \<Rightarrow> 'a) \<Rightarrow> bool" where
  "blind_query q \<longleftrightarrow> (\<forall>s k. q (s\<lparr>st_ticks := k\<rparr>) = q s)"

definition blind_stmt :: "(store \<Rightarrow> string + store) \<Rightarrow> bool" where
  "blind_stmt f \<longleftrightarrow> (\<forall>s k. f (s\<lparr>st_ticks := k\<rparr>) = map_sum id (\<lambda>s'. s'\<lparr>st_ticks := k\<rparr>) (f s))"

lemma ticks_twice [simp]: "s\<lparr>st_ticks := k, st_ticks := l\<rparr> = s\<lparr>st_ticks := l\<rparr>"
  by simp

lemma blind_queries [simp]:
  "blind_query (find_folder v p n)" "blind_query (object_rows v ty)" "blind_query (file_rows f n)"
  "blind_query (meta_rows key)"
  by (simp_all add: blind_query_def find_folder_def object_rows_def file_rows_def meta_rows_def)

lemma blind_stmts [simp]:
  "blind_stmt (insert_folder v p n)" "blind_stmt (upsert_object_row v ty d)"
  "blind_stmt (upsert_file_row f n d)" "blind_stmt (upsert_meta key val)"
  "blind_stmt insert_device" "blind_stmt (insert_volume dev)"
  by (auto simp: blind_stmt_def insert_folder_def upsert_object_row_def upsert_file_row_def
      upsert_meta_def insert_device_def insert_volume_def Let_def)

lemma prepare_healthy:
  "healthy e \<Longrightarrow> st_open s \<Longrightarrow> prepare e s = Ret (None, s\<lparr>st_ticks := st_ticks s + 1\<rparr>)"
  by (simp add: prepare_def tick_def healthy_def iob_def)

lemma run_query_does:
  assumes "healthy e" and "st_open s" and "blind_query q"
  shows "does (run_query e q) s (Inr (q s)) s"
  unfolding does_def
proof (intro allI impI)
  fix s0 assume "eqt s0 s"
  then obtain k where k: "s0 = s\<lparr>st_ticks := k\<rparr>" by (auto simp: eqt_def)
  have "run_query e q s0 = Ret (Inr (q s), s\<lparr>st_ticks := k + 2\<rparr>)"
    using assms unfolding run_query_def
    by (simp add: k prepare_healthy iob_def tick_def blind_query_def) (simp add: healthy_def)
  then show "\<exists>s1. run_query e q s0 = Ret (Inr (q s), s1) \<and> eqt s1 s"
    by (auto simp: eqt_def)
qed

definition first_row :: "'a list \<Rightarrow> 'a option" where
  "first_row xs = (case xs of [] \<Rightarrow> None | x # _ \<Rightarrow> Some x)"

lemma first_row_in: "first_row xs = Some x \<Longrightarrow> x \<in> set xs"
  by (simp add: first_row_def split: list.splits)

lemma query_first_does:
  "healthy e \<Longrightarrow> st_open s \<Longrightarrow> blind_query q \<Longrightarrow> does (query_first e q) s (first_row (q s)) s"
  unfolding query_first_def
  by (rule does_lift [OF run_query_does]) (auto simp: first_row_def split: list.splits)

lemma step_stmt_does:
  assumes "healthy e" and "blind_stmt f" and "f s = Inr s'"
  shows "does (step_stmt e f) s None s'"
  unfolding does_def
proof (intro allI impI)
  fix s0 assume "eqt s0 s"
  then obtain k where k: "s0 = s\<lparr>st_ticks := k\<rparr>" by (auto simp: eqt_def)
  have "step_stmt e f s0 = Ret (None, s'\<lparr>st_ticks := k + 1\<rparr>)"
    using assms unfolding step_stmt_def
    by (simp add: k iob_def tick_def blind_stmt_def) (simp add: healthy_def)
  then show "\<exists>s1. step_stmt e f s0 = Ret (None, s1) \<and> eqt s1 s'"
    by (auto simp: eqt_def)
qed

lemma prepare_does: "healthy e \<Longrightarrow> st_open s \<Longrightarrow> does (prepare e) s None s"
  by (auto simp: does_def eqt_def prepare_healthy)

lemma run_stmt_does:
  "healthy e \<Longrightarrow> st_open s \<Longrightarrow> blind_stmt f \<Longrightarrow> f s = Inr s' \<Longrightarrow> does (run_stmt e f) s None s'"
  unfolding run_stmt_def
  by (rule does_bind [OF prepare_does]) (simp_all, rule does_lift [OF step_stmt_does], simp_all)

lemma last_insert_rowid_does: "st_open s \<Longrightarrow> does last_insert_rowid s (st_last s) s"
  by (auto simp: does_def last_insert_rowid_def iob_def eqt_def)

section \<open>The catalog as a map\<close>

text \<open>The keys of the tables are unique, and every row belongs to a folder that exists.\<close>

definition keys_ok :: "store \<Rightarrow> bool" where
  "keys_ok s \<longleftrightarrow>
     distinct (map fd_id (st_folders s)) \<and> (\<forall>r \<in> set (st_folders s). 0 < fd_id r) \<and>
     distinct (map (\<lambda>r. (fd_vol r, fd_parent r, fd_name r)) (st_folders s)) \<and>
     distinct (map (\<lambda>r. (fl_folder r, fl_name r)) (st_files s)) \<and> distinct (map fl_id (st_files s)) \<and>
     distinct (map (\<lambda>r. (ob_vol r, ob_type r)) (st_objects s)) \<and> distinct (map ob_id (st_objects s)) \<and>
     distinct (map fst (st_meta s))"

definition linked :: "store \<Rightarrow> bool" where
  "linked s \<longleftrightarrow>
     (\<forall>r \<in> set (st_files s). fl_folder r \<in> fd_id ` set (st_folders s)) \<and>
     (\<forall>r \<in> set (st_folders s). fd_parent r = 0 \<or> fd_parent r \<in> fd_id ` set (st_folders s))"

text \<open>An opened database with a current volume and its root folder.\<close>

definition ready :: "store \<Rightarrow> int \<Rightarrow> int \<Rightarrow> bool" where
  "ready s vol root_id \<longleftrightarrow> st_open s \<and> 0 < vol \<and> vol < 2 ^ 63 \<and> map_of (st_meta s) vol_key = Some (show_int vol) \<and>
     first_row (find_folder vol 0 [] s) = Some root_id \<and> keys_ok s \<and> linked s"

fun resolve :: "store \<Rightarrow> int \<Rightarrow> int \<Rightarrow> string list \<Rightarrow> int option" where
  "resolve s vol parent [] = Some parent"
| "resolve s vol parent (d # ds) =
     (case first_row (find_folder vol parent (cstr d) s) of
        None \<Rightarrow> None | Some i \<Rightarrow> resolve s vol i ds)"

definition lookup :: "store \<Rightarrow> int \<Rightarrow> int \<Rightarrow> string \<Rightarrow> row_data option" where
  "lookup s vol root_id p =
     (if special_path p then map_option ob_data (first_row (object_rows vol (cstr p) s))
      else
        case split_file_path p of (dirs, base) \<Rightarrow>
          if base = [] then None
          else
            case resolve s vol root_id dirs of
              None \<Rightarrow> None
            | Some f \<Rightarrow> map_option fl_data (first_row (file_rows f (cstr base) s)))"

text \<open>The key under which a path is stored.\<close>

definition path_key :: "string \<Rightarrow> string + string list" where
  "path_key p =
     (if special_path p then Inl (cstr p)
      else Inr (case split_file_path p of (dirs, base) \<Rightarrow> if base = [] then [] else map cstr (dirs @ [base])))"

section \<open>Lemmas: numbers in text\<close>

lemma digit_chars: "n < 10 \<Longrightarrow> is_digit (char_of (48 + n :: nat))"
  by (simp add: is_digit_def of_char_digit)

lemma dec_digits_are_digits: "\<forall>c \<in> set (dec_digits n). is_digit c"
proof (induction n rule: dec_digits.induct)
  case (1 n)
  then show ?case
    using digit_chars [of n] digit_chars [of "n mod 10"] by (subst dec_digits.simps) auto
qed

lemma dec_digits_ne [simp]: "dec_digits n \<noteq> []"
  by (subst dec_digits.simps) simp

lemma digit_not_sign: "is_digit c \<Longrightarrow> \<not> is_space c \<and> c \<noteq> CHR ''-'' \<and> c \<noteq> CHR ''+'' \<and> c \<noteq> CHR 0x00"
  by (auto simp: is_digit_def is_space_def)

lemma parse_dec_digits: "parse_int (dec_digits n) = int n"
proof -
  obtain c cs where c: "dec_digits n = c # cs" by (metis dec_digits_ne list.exhaust)
  have d: "\<forall>c \<in> set (dec_digits n). is_digit c" by (rule dec_digits_are_digits)
  then have "is_digit c" by (simp add: c)
  then have "dropWhile is_space (dec_digits n) = dec_digits n" "hd (dec_digits n) \<notin> {CHR ''-'', CHR ''+''}"
    using digit_not_sign by (auto simp: c)
  moreover have "dec_value (takeWhile is_digit (dec_digits n)) = n"
    using d by (metis dec_value_digits takeWhile_eq_all_conv)
  ultimately show ?thesis by (simp add: parse_int_def Let_def dec_value_digits)
qed

lemma strtoll_show_int: "0 \<le> v \<Longrightarrow> v < 2 ^ 63 \<Longrightarrow> strtoll (show_int v) = v"
  by (simp add: strtoll_def show_int_def parse_dec_digits)

lemma show_int_ne [simp]: "show_int v \<noteq> []"
  by (simp add: show_int_def)

lemma cstr_id: "CHR 0x00 \<notin> set s \<Longrightarrow> cstr s = s"
  by (auto simp: cstr_def takeWhile_eq_all_conv)

lemma cstr_idem [simp]: "cstr (cstr s) = cstr s"
  by (simp add: cstr_def)

lemma cstr_show_int [simp]: "cstr (show_int v) = show_int v"
proof (rule cstr_id)
  have "CHR 0x00 \<notin> set (dec_digits n)" for n
    using dec_digits_are_digits [of n] digit_not_sign by blast
  then show "CHR 0x00 \<notin> set (show_int v)" by (simp add: show_int_def)
qed

section \<open>Lemmas: what the routines do\<close>

lemma ensure_volume_does:
  assumes "healthy e" and "ready s vol rt"
  shows "does (ensure_volume_locked e) s vol s"
proof -
  have v: "first_row (meta_rows vol_key s) = Some (show_int vol)" "st_open s" "strtoll (show_int vol) = vol" "0 < vol"
    using assms(2) by (auto simp: ready_def meta_rows_def first_row_def strtoll_show_int)
  show ?thesis
    unfolding ensure_volume_locked_def
    by (rule does_lift [OF query_first_does [OF assms(1) v(2)]]) (use v in \<open>simp_all add: Let_def\<close>)
qed

lemma ensure_root_does:
  assumes "healthy e" and "ready s vol rt"
  shows "does (ensure_root_folder_locked e vol) s rt s"
proof -
  have r: "first_row (find_folder vol 0 [] s) = Some rt" "st_open s"
    using assms(2) by (auto simp: ready_def)
  show ?thesis
    unfolding ensure_root_folder_locked_def
    by (rule does_lift [OF query_first_does [OF assms(1) r(2)]]) (use r in simp_all)
qed

lemma find_folders_does:
  assumes "healthy e" and "st_open s"
  shows "does (find_folders e vol parent ds) s (resolve s vol parent ds) s"
proof (induction ds arbitrary: parent)
  case Nil
  then show ?case by (simp add: does_ret)
next
  case (Cons d ds)
  show ?case
    unfolding find_folders.simps
    by (rule does_bind [OF query_first_does [OF assms]])
      (auto simp: does_ret Cons split: option.splits)
qed

lemma get_special_does:
  assumes "healthy e" and "ready s vol rt" and "special_path p"
  shows "does (get_special_locked e p o1) s
    (map_option (\<lambda>d. read_row d (o1\<lparr>or_path := cstr p\<rparr>)) (lookup s vol rt p)) s"
proof -
  have op: "st_open s" using assms(2) by (simp add: ready_def)
  have ty: "first_row (object_rows vol (cstr p) s) = Some row \<Longrightarrow> ob_type row = cstr p" for row
    by (drule first_row_in) (simp add: object_rows_def)
  show ?thesis
    unfolding get_special_locked_def
    by (rule does_bind [OF ensure_volume_does [OF assms(1,2)]],
        rule does_lift [OF query_first_does [OF assms(1) op]])
      (use assms(3) ty in \<open>auto simp: lookup_def option.map_comp comp_def map_option_case split: option.splits\<close>)
qed

lemma get_file_does:
  assumes "healthy e" and "ready s vol rt" and "\<not> special_path p"
  shows "does (get_file_locked e p o1) s
    (map_option (\<lambda>d. read_row d (o1\<lparr>or_path := p\<rparr>)) (lookup s vol rt p)) s"
proof -
  have op: "st_open s" using assms(2) by (simp add: ready_def)
  obtain dirs base where sp: "split_file_path p = (dirs, base)" by (cases "split_file_path p")
  show ?thesis
  proof (cases "base = []")
    case True
    then show ?thesis using assms(3) by (simp add: get_file_locked_def lookup_def sp does_ret)
  next
    case False
    have "does (case resolve s vol rt dirs of None \<Rightarrow> ioret None
        | Some parent \<Rightarrow> iob (query_first e (file_rows parent (cstr base)))
            (\<lambda>r. ioret (map_option (\<lambda>row. read_row (fl_data row) (o1\<lparr>or_path := p\<rparr>)) r))) s
        (map_option (\<lambda>d. read_row d (o1\<lparr>or_path := p\<rparr>)) (lookup s vol rt p)) s"
    proof (cases "resolve s vol rt dirs")
      case None
      then show ?thesis using False assms(3) by (simp add: lookup_def sp does_ret)
    next
      case (Some f)
      show ?thesis
        unfolding Some option.case
        by (rule does_lift [OF query_first_does [OF assms(1) op]])
          (use False assms(3) Some in \<open>simp_all add: lookup_def sp option.map_comp comp_def\<close>)
    qed
    then show ?thesis
      unfolding get_file_locked_def sp prod.case if_not_P [OF False]
      by (intro does_bind [OF ensure_volume_does [OF assms(1,2)]] does_bind [OF ensure_root_does [OF assms(1,2)]]
          does_bind [OF find_folders_does [OF assms(1) op]])
  qed
qed

section \<open>Lemmas: the tree of folders\<close>

lemma next_id_pos: "0 < next_id ids"
  by (induction ids) (auto simp: next_id_def)

lemma next_id_greater: "i \<in> set ids \<Longrightarrow> i < next_id ids"
  by (induction ids) (auto simp: next_id_def)

lemma next_id_fresh: "next_id ids \<notin> set ids"
  using next_id_greater by blast

lemma find_folder_in:
  "first_row (find_folder v p n s) = Some i \<Longrightarrow>
   \<exists>r \<in> set (st_folders s). fd_id r = i \<and> fd_vol r = v \<and> fd_parent r = p \<and> fd_name r = n"
  by (drule first_row_in) (auto simp: find_folder_def)

lemma find_folder_None:
  "first_row (find_folder v p n s) = None \<longleftrightarrow>
   \<not> (\<exists>r \<in> set (st_folders s). fd_vol r = v \<and> fd_parent r = p \<and> fd_name r = n)"
proof -
  have "find_folder v p n s = [] \<longleftrightarrow>
      \<not> (\<exists>r \<in> set (st_folders s). fd_vol r = v \<and> fd_parent r = p \<and> fd_name r = n)"
    by (auto simp: find_folder_def filter_empty_conv)
  then show ?thesis by (auto simp: first_row_def split: list.splits)
qed

lemma folder_id_unique:
  "keys_ok s \<Longrightarrow> r \<in> set (st_folders s) \<Longrightarrow> r' \<in> set (st_folders s) \<Longrightarrow> fd_id r = fd_id r' \<Longrightarrow> r = r'"
  unfolding keys_ok_def distinct_map by (blast dest: inj_onD)

lemma resolve_append:
  "resolve s v p (ds @ es) = (case resolve s v p ds of None \<Rightarrow> None | Some q \<Rightarrow> resolve s v q es)"
  by (induction ds arbitrary: p) (auto split: option.splits)

lemma resolve_in:
  "resolve s v p ds = Some f \<Longrightarrow> p \<in> fd_id ` set (st_folders s) \<Longrightarrow> f \<in> fd_id ` set (st_folders s)"
proof (induction ds arbitrary: p)
  case (Cons d ds)
  then obtain i where i: "first_row (find_folder v p (cstr d) s) = Some i" "resolve s v i ds = Some f"
    by (auto split: option.splits)
  then have "i \<in> fd_id ` set (st_folders s)" using find_folder_in by blast
  then show ?case using Cons.IH i(2) by blast
qed simp

lemma resolve_cstr: "map cstr ds = map cstr es \<Longrightarrow> resolve s v p ds = resolve s v p es"
proof (induction ds arbitrary: p es)
  case (Cons d ds)
  then obtain e es' where "es = e # es'" "cstr d = cstr e" "map cstr ds = map cstr es'" by (cases es) auto
  then show ?case using Cons.IH by (auto split: option.splits)
qed simp

text \<open>Different paths lead to different folders.\<close>

lemma folder_id_pos: "keys_ok s \<Longrightarrow> i \<in> fd_id ` set (st_folders s) \<Longrightarrow> 0 < i"
  by (auto simp: keys_ok_def)

lemma resolve_snoc:
  assumes "keys_ok s" and "rt \<in> fd_id ` set (st_folders s)" and "resolve s v rt (ds @ [d]) = Some f"
  shows "\<exists>p r. resolve s v rt ds = Some p \<and> 0 < p \<and> r \<in> set (st_folders s) \<and> fd_id r = f \<and>
    fd_parent r = p \<and> fd_name r = cstr d"
proof -
  from assms(3) obtain p where p: "resolve s v rt ds = Some p" "first_row (find_folder v p (cstr d) s) = Some f"
    by (auto simp: resolve_append split: option.splits)
  have "0 < p" by (rule folder_id_pos [OF assms(1) resolve_in [OF p(1) assms(2)]])
  with find_folder_in [OF p(2)] p(1) show ?thesis by blast
qed

lemma resolve_not_root:
  assumes "keys_ok s" and root: "first_row (find_folder v 0 [] s) = Some rt"
  shows "resolve s v rt (ds @ [d]) \<noteq> Some rt"
proof
  assume r: "resolve s v rt (ds @ [d]) = Some rt"
  obtain rr where rr: "rr \<in> set (st_folders s)" "fd_id rr = rt" "fd_parent rr = 0"
    using find_folder_in [OF root] by blast
  then have "rt \<in> fd_id ` set (st_folders s)" by blast
  from resolve_snoc [OF assms(1) this r] obtain r' where r': "r' \<in> set (st_folders s)" "fd_id r' = rt" "0 < fd_parent r'"
    by blast
  then have "r' = rr" using folder_id_unique [OF assms(1) r'(1) rr(1)] rr(2) by simp
  then show False using r'(3) rr(3) by simp
qed

lemma resolve_inject:
  assumes "keys_ok s" and root: "first_row (find_folder v 0 [] s) = Some rt"
  shows "resolve s v rt ds = Some f \<Longrightarrow> resolve s v rt es = Some f \<Longrightarrow> map cstr ds = map cstr es"
proof (induction ds arbitrary: es f rule: rev_induct)
  case Nil
  then show ?case using resolve_not_root [OF assms] by (cases es rule: rev_cases) auto
next
  case (snoc d ds)
  have rt: "rt \<in> fd_id ` set (st_folders s)" using find_folder_in [OF root] by blast
  from resolve_snoc [OF assms(1) rt snoc.prems(1)] obtain r where r: "resolve s v rt ds = Some (fd_parent r)"
    "r \<in> set (st_folders s)" "fd_id r = f" "fd_name r = cstr d" by blast
  show ?case
  proof (cases es rule: rev_cases)
    case Nil
    then show ?thesis using snoc.prems resolve_not_root [OF assms, of ds d] by simp
  next
    case es: (snoc es' e)
    from resolve_snoc [OF assms(1) rt snoc.prems(2) [unfolded es]] obtain r' where
      r': "resolve s v rt es' = Some (fd_parent r')" "r' \<in> set (st_folders s)" "fd_id r' = f" "fd_name r' = cstr e"
      by blast
    have "r' = r" using folder_id_unique [OF assms(1) r'(2) r(2)] r'(3) r(3) by simp
    then show ?thesis using snoc.IH [OF r(1), of es'] r' r(4) by (simp add: es)
  qed
qed

text \<open>A new folder leads nowhere, and everything else leads where it led.\<close>

definition add_folder :: "int \<Rightarrow> int \<Rightarrow> string \<Rightarrow> store \<Rightarrow> store" where
  "add_folder vol parent name s =
     (let i = next_id (map fd_id (st_folders s)) in
      s\<lparr>st_folders := st_folders s @ [\<lparr>fd_id = i, fd_vol = vol, fd_parent = parent, fd_name = name\<rparr>],
        st_last := i\<rparr>)"

lemma insert_folder_add:
  "first_row (find_folder vol parent name s) = None \<Longrightarrow>
   insert_folder vol parent name s = Inr (add_folder vol parent name s)"
  by (simp add: find_folder_None insert_folder_def add_folder_def Let_def)

lemma add_folder_tables [simp]:
  "st_files (add_folder vol parent name s) = st_files s" "st_objects (add_folder vol parent name s) = st_objects s"
  "st_meta (add_folder vol parent name s) = st_meta s" "st_open (add_folder vol parent name s) = st_open s"
  "st_extents (add_folder vol parent name s) = st_extents s"
  "st_last (add_folder vol parent name s) = next_id (map fd_id (st_folders s))"
  "fd_id ` set (st_folders (add_folder vol parent name s)) =
     insert (next_id (map fd_id (st_folders s))) (fd_id ` set (st_folders s))"
  by (auto simp: add_folder_def Let_def)

lemma first_row_simps [simp]: "first_row [] = None" "first_row (x # xs) = Some x"
  by (simp_all add: first_row_def)

lemma first_row_append: "first_row (xs @ ys) = (case first_row xs of None \<Rightarrow> first_row ys | Some x \<Rightarrow> Some x)"
  by (simp add: first_row_def split: list.splits)

lemma find_folder_add:
  "first_row (find_folder v p n (add_folder vol parent name s)) =
     (case first_row (find_folder v p n s) of
        Some j \<Rightarrow> Some j
      | None \<Rightarrow> if v = vol \<and> p = parent \<and> n = name then Some (next_id (map fd_id (st_folders s))) else None)"
proof -
  have "find_folder v p n (add_folder vol parent name s) = find_folder v p n s @
      (if v = vol \<and> p = parent \<and> n = name then [next_id (map fd_id (st_folders s))] else [])"
    by (simp add: find_folder_def add_folder_def Let_def)
  then show ?thesis by (auto simp: first_row_append split: option.splits)
qed

lemma fresh_folder: "next_id (map fd_id (st_folders s)) \<notin> fd_id ` set (st_folders s)"
  using next_id_fresh [of "map fd_id (st_folders s)"] by simp

lemma resolve_add_mono:
  "resolve s v p ds = Some f \<Longrightarrow> resolve (add_folder vol parent name s) v p ds = Some f"
  by (induction ds arbitrary: p) (auto simp: find_folder_add split: option.splits)

lemma resolve_add_new:
  assumes "linked s" and "parent \<in> fd_id ` set (st_folders s)"
  shows "resolve (add_folder vol parent name s) v (next_id (map fd_id (st_folders s))) (d # ds) = None"
proof -
  let ?i = "next_id (map fd_id (st_folders s))"
  have "first_row (find_folder v ?i (cstr d) s) = None"
    unfolding find_folder_None using assms(1) fresh_folder [of s] next_id_pos [of "map fd_id (st_folders s)"]
    by (metis linked_def less_irrefl)
  moreover have "?i \<noteq> parent" using assms(2) fresh_folder [of s] by blast
  ultimately show ?thesis by (simp add: find_folder_add)
qed

lemma resolve_add_old:
  assumes "linked s" and "parent \<in> fd_id ` set (st_folders s)"
  shows "resolve (add_folder vol parent name s) v p ds = Some f \<Longrightarrow>
    f \<noteq> next_id (map fd_id (st_folders s)) \<Longrightarrow> resolve s v p ds = Some f"
proof (induction ds arbitrary: p)
  case (Cons d ds)
  let ?i = "next_id (map fd_id (st_folders s))"
  obtain j where j: "first_row (find_folder v p (cstr d) (add_folder vol parent name s)) = Some j"
      "resolve (add_folder vol parent name s) v j ds = Some f"
    using Cons.prems(1) by (auto split: option.splits)
  have "j \<noteq> ?i"
  proof
    assume "j = ?i"
    then show False
      using j(2) Cons.prems(2) resolve_add_new [OF assms, of vol name v] by (cases ds) auto
  qed
  then have "first_row (find_folder v p (cstr d) s) = Some j"
    using j(1) by (auto simp: find_folder_add split: option.splits if_splits)
  then show ?case using Cons.IH [OF j(2) Cons.prems(2)] by simp
qed simp

lemma lookup_add:
  assumes "linked s" and "parent \<in> fd_id ` set (st_folders s)"
  shows "lookup (add_folder vol parent name s) v rt q = lookup s v rt q"
proof -
  let ?s = "add_folder vol parent name s" and ?i = "next_id (map fd_id (st_folders s))"
  have none: "file_rows ?i n s = []" for n
  proof -
    have "fl_folder r \<noteq> ?i" if "r \<in> set (st_files s)" for r
      using assms(1) fresh_folder [of s] that by (metis linked_def)
    then show ?thesis by (auto simp: file_rows_def filter_empty_conv)
  qed
  have files: "file_rows f n ?s = file_rows f n s" for f n by (simp add: file_rows_def)
  have obs: "object_rows v n ?s = object_rows v n s" for n by (simp add: object_rows_def)
  obtain dirs base where sp: "split_file_path q = (dirs, base)" by (cases "split_file_path q")
  consider (same) "resolve ?s v rt dirs = resolve s v rt dirs"
    | (new) "resolve ?s v rt dirs = Some ?i" "resolve s v rt dirs = None"
    using resolve_add_old [OF assms, of vol name v rt dirs] resolve_add_mono [of s v rt dirs]
    by (cases "resolve ?s v rt dirs"; cases "resolve s v rt dirs") fastforce+
  then show ?thesis
    by cases (simp_all add: lookup_def sp files obs none split: option.split)
qed

text \<open>What making folders keeps.\<close>

definition extends :: "int \<Rightarrow> int \<Rightarrow> store \<Rightarrow> store \<Rightarrow> bool" where
  "extends vol rt s s' \<longleftrightarrow> ready s' vol rt \<and> (\<forall>q. lookup s' vol rt q = lookup s vol rt q) \<and>
     (\<forall>p ds f. resolve s vol p ds = Some f \<longrightarrow> resolve s' vol p ds = Some f) \<and>
     fd_id ` set (st_folders s) \<subseteq> fd_id ` set (st_folders s') \<and> st_extents s' = st_extents s"

lemma extends_refl: "ready s vol rt \<Longrightarrow> extends vol rt s s"
  by (simp add: extends_def)

lemma extends_trans: "extends vol rt s s1 \<Longrightarrow> extends vol rt s1 s2 \<Longrightarrow> extends vol rt s s2"
  unfolding extends_def by (elim conjE, intro conjI) (simp_all add: subset_trans)

lemma keys_ok_add:
  assumes "keys_ok s" and "first_row (find_folder vol parent name s) = None"
  shows "keys_ok (add_folder vol parent name s)"
  using assms fresh_folder [of s] next_id_pos [of "map fd_id (st_folders s)"]
  unfolding keys_ok_def find_folder_None add_folder_def Let_def by auto

lemma extends_add:
  assumes "ready s vol rt" and "first_row (find_folder vol parent name s) = None"
    and "parent \<in> fd_id ` set (st_folders s)"
  shows "extends vol rt s (add_folder vol parent name s)"
proof -
  let ?s = "add_folder vol parent name s"
  have lk: "linked s" "keys_ok s" using assms(1) by (auto simp: ready_def)
  have "linked ?s"
    using lk(1) assms(3) unfolding linked_def add_folder_tables by (auto simp: add_folder_def Let_def)
  then have "ready ?s vol rt"
    using assms(1) keys_ok_add [OF lk(2) assms(2)] by (auto simp: ready_def find_folder_add)
  then show ?thesis
    using lookup_add [OF lk(1) assms(3)] resolve_add_mono by (auto simp: extends_def)
qed

lemma ensure_folder_does:
  assumes "healthy e" and "ready s vol rt" and "parent \<in> fd_id ` set (st_folders s)"
  shows "\<exists>s' j. does (ensure_folder_locked e vol parent d) s (j, []) s' \<and> extends vol rt s s' \<and>
    j \<in> fd_id ` set (st_folders s') \<and> first_row (find_folder vol parent (cstr d) s') = Some j"
proof -
  have op: "st_open s" using assms(2) by (simp add: ready_def)
  note q = run_query_does [OF assms(1) op blind_queries(1), of vol parent "cstr d"]
  show ?thesis
  proof (cases "find_folder vol parent (cstr d) s")
    case (Cons j js)
    then have f: "first_row (find_folder vol parent (cstr d) s) = Some j" by (simp add: first_row_def)
    have "does (ensure_folder_locked e vol parent d) s (j, []) s"
      unfolding ensure_folder_locked_def by (rule does_lift [OF q]) (simp add: Cons)
    then show ?thesis using f find_folder_in [OF f] extends_refl [OF assms(2)] by blast
  next
    case Nil
    then have none: "first_row (find_folder vol parent (cstr d) s) = None" by (simp add: first_row_def)
    let ?s = "add_folder vol parent (cstr d) s" and ?j = "next_id (map fd_id (st_folders s))"
    have st: "does (run_stmt e (insert_folder vol parent (cstr d))) s None ?s"
      by (rule run_stmt_does [OF assms(1) op blind_stmts(1) insert_folder_add [OF none]])
    have last: "does last_insert_rowid ?s ?j ?s"
      using last_insert_rowid_does [of ?s] op by simp
    have ins: "does (iob (run_stmt e (insert_folder vol parent (cstr d))) (\<lambda>r.
         case r of Some err \<Rightarrow> ioret (0, sql_message err)
         | None \<Rightarrow> iob last_insert_rowid (\<lambda>i. ioret (i, [])))) s (?j, []) ?s"
      by (rule does_bind [OF st]) (simp, rule does_lift [OF last], simp)
    have "does (ensure_folder_locked e vol parent d) s (?j, []) ?s"
      unfolding ensure_folder_locked_def by (rule does_bind [OF q]) (simp add: Nil ins)
    moreover have "first_row (find_folder vol parent (cstr d) ?s) = Some ?j"
      using none by (simp add: find_folder_add)
    ultimately show ?thesis
      using extends_add [OF assms(2) none assms(3)]
      by (intro exI [of _ ?s] exI [of _ ?j] conjI) simp_all
  qed
qed

lemma ensure_folders_does:
  assumes "healthy e"
  shows "ready s vol rt \<Longrightarrow> parent \<in> fd_id ` set (st_folders s) \<Longrightarrow>
    \<exists>s' f. does (ensure_folders e vol parent ds) s (f, []) s' \<and> extends vol rt s s' \<and>
      f \<in> fd_id ` set (st_folders s') \<and> resolve s' vol parent ds = Some f"
proof (induction ds arbitrary: s parent)
  case Nil
  then show ?case
    using extends_refl by (intro exI [of _ s] exI [of _ parent]) simp
next
  case (Cons d ds)
  obtain s1 j where s1: "does (ensure_folder_locked e vol parent d) s (j, []) s1" "extends vol rt s s1"
      "j \<in> fd_id ` set (st_folders s1)" "first_row (find_folder vol parent (cstr d) s1) = Some j"
    using ensure_folder_does [OF assms Cons.prems] by blast
  have r1: "ready s1 vol rt" using s1(2) by (simp add: extends_def)
  then have "0 < j" using folder_id_pos s1(3) by (auto simp: ready_def)
  obtain s2 f where s2: "does (ensure_folders e vol j ds) s1 (f, []) s2" "extends vol rt s1 s2"
      "f \<in> fd_id ` set (st_folders s2)" "resolve s2 vol j ds = Some f"
    using Cons.IH [OF r1 s1(3)] by blast
  have "resolve s1 vol parent [d] = Some j" using s1(4) by simp
  then have "resolve s2 vol parent [d] = Some j" using s2(2) by (simp only: extends_def)
  then have "resolve s2 vol parent ([d] @ ds) = Some f" using s2(4) by (simp only: resolve_append option.case)
  moreover have "does (ensure_folders e vol parent (d # ds)) s (f, []) s2"
    unfolding ensure_folders.simps by (rule does_bind [OF s1(1)]) (use \<open>0 < j\<close> s2(1) in simp)
  ultimately show ?case using s2 extends_trans [OF s1(2) s2(2)] by (metis append_Cons append_Nil)
qed

section \<open>Lemmas: storing a row\<close>

definition put_file :: "int \<Rightarrow> string \<Rightarrow> row_data \<Rightarrow> store \<Rightarrow> store" where
  "put_file folder name d s = (case upsert_file_row folder name d s of Inr s' \<Rightarrow> s' | Inl _ \<Rightarrow> s)"

definition put_object :: "int \<Rightarrow> string \<Rightarrow> row_data \<Rightarrow> store \<Rightarrow> store" where
  "put_object vol ty d s = (case upsert_object_row vol ty d s of Inr s' \<Rightarrow> s' | Inl _ \<Rightarrow> s)"

lemma upsert_put: "upsert_file_row folder name d s = Inr (put_file folder name d s)"
  "upsert_object_row vol ty d s = Inr (put_object vol ty d s)"
  by (auto simp: put_file_def put_object_def upsert_file_row_def upsert_object_row_def Let_def)

lemma put_tables [simp]:
  "st_folders (put_file f n d s) = st_folders s" "st_objects (put_file f n d s) = st_objects s"
  "st_meta (put_file f n d s) = st_meta s" "st_open (put_file f n d s) = st_open s"
  "st_extents (put_file f n d s) = st_extents s"
  "st_folders (put_object v ty d s) = st_folders s" "st_files (put_object v ty d s) = st_files s"
  "st_meta (put_object v ty d s) = st_meta s" "st_open (put_object v ty d s) = st_open s"
  "st_extents (put_object v ty d s) = st_extents s"
  by (simp_all add: put_file_def put_object_def upsert_file_row_def upsert_object_row_def Let_def)

text \<open>The row that is stored: the new one, with the old hash if it brings none.\<close>

definition stored_row :: "row_data option \<Rightarrow> row_data \<Rightarrow> row_data" where
  "stored_row old new = (case old of None \<Rightarrow> new | Some d \<Rightarrow> merge_row d new)"

lemma filter_map_keyed:
  assumes "\<And>r. P (g r) = P r"
  shows "filter P (map g xs) = map g (filter P xs)"
  by (induction xs) (simp_all add: assms)

lemma first_row_map: "first_row (map g xs) = map_option g (first_row xs)"
  by (cases xs) simp_all

lemma put_file_rows:
  "map_option fl_data (first_row (file_rows f n (put_file folder name d s))) =
     (if f = folder \<and> n = name then Some (stored_row (map_option fl_data (first_row (file_rows f n s))) d)
      else map_option fl_data (first_row (file_rows f n s)))"
proof (cases "\<exists>r \<in> set (st_files s). fl_folder r = folder \<and> fl_name r = name")
  case True
  let ?g = "\<lambda>r. if fl_folder r = folder \<and> fl_name r = name then r\<lparr>fl_data := merge_row (fl_data r) d\<rparr> else r"
  have rows: "file_rows f n (put_file folder name d s) = map ?g (file_rows f n s)"
    using True by (simp add: file_rows_def put_file_def upsert_file_row_def filter_map_keyed)
  show ?thesis
  proof (cases "first_row (file_rows f n s)")
    case None
    have "\<not> (f = folder \<and> n = name)"
    proof
      assume "f = folder \<and> n = name"
      then have "file_rows f n s \<noteq> []" using True by (auto simp: file_rows_def filter_empty_conv)
      then show False using None by (cases "file_rows f n s") simp_all
    qed
    then show ?thesis using None by (auto simp: rows first_row_map)
  next
    case (Some r)
    then have "r \<in> set (file_rows f n s)" by (rule first_row_in)
    then have "fl_folder r = f" "fl_name r = n" by (simp_all add: file_rows_def)
    then show ?thesis using Some by (auto simp: rows first_row_map stored_row_def)
  qed
next
  case False
  then have "file_rows f n (put_file folder name d s) = file_rows f n s @ (if f = folder \<and> n = name
      then [\<lparr>fl_id = next_id (map fl_id (st_files s)), fl_folder = folder, fl_name = name, fl_data = d\<rparr>] else [])"
    by (auto simp: file_rows_def put_file_def upsert_file_row_def Let_def)
  moreover have "f = folder \<and> n = name \<Longrightarrow> file_rows f n s = []"
    using False by (auto simp: file_rows_def filter_empty_conv)
  ultimately show ?thesis by (auto simp: first_row_append stored_row_def split: option.splits)
qed

lemma put_object_rows:
  "map_option ob_data (first_row (object_rows v n (put_object vol ty d s))) =
     (if v = vol \<and> n = ty then Some (stored_row (map_option ob_data (first_row (object_rows v n s))) d)
      else map_option ob_data (first_row (object_rows v n s)))"
proof (cases "\<exists>r \<in> set (st_objects s). ob_vol r = vol \<and> ob_type r = ty")
  case True
  let ?g = "\<lambda>r. if ob_vol r = vol \<and> ob_type r = ty then r\<lparr>ob_data := merge_row (ob_data r) d\<rparr> else r"
  have rows: "object_rows v n (put_object vol ty d s) = map ?g (object_rows v n s)"
    using True by (simp add: object_rows_def put_object_def upsert_object_row_def filter_map_keyed)
  show ?thesis
  proof (cases "first_row (object_rows v n s)")
    case None
    have "\<not> (v = vol \<and> n = ty)"
    proof
      assume "v = vol \<and> n = ty"
      then have "object_rows v n s \<noteq> []" using True by (auto simp: object_rows_def filter_empty_conv)
      then show False using None by (cases "object_rows v n s") simp_all
    qed
    then show ?thesis using None by (auto simp: rows first_row_map)
  next
    case (Some r)
    then have "r \<in> set (object_rows v n s)" by (rule first_row_in)
    then have "ob_vol r = v" "ob_type r = n" by (simp_all add: object_rows_def)
    then show ?thesis using Some by (auto simp: rows first_row_map stored_row_def)
  qed
next
  case False
  then have "object_rows v n (put_object vol ty d s) = object_rows v n s @ (if v = vol \<and> n = ty
      then [\<lparr>ob_id = next_id (map ob_id (st_objects s)), ob_vol = vol, ob_type = ty, ob_data = d\<rparr>] else [])"
    by (auto simp: object_rows_def put_object_def upsert_object_row_def Let_def)
  moreover have "v = vol \<and> n = ty \<Longrightarrow> object_rows v n s = []"
    using False by (auto simp: object_rows_def filter_empty_conv)
  ultimately show ?thesis by (auto simp: first_row_append stored_row_def split: option.splits)
qed

lemma resolve_put [simp]:
  "resolve (put_file f n d s) v p ds = resolve s v p ds"
  "resolve (put_object vol ty d s) v p ds = resolve s v p ds"
  by (induction ds arbitrary: p) (auto simp: find_folder_def split: option.splits)

lemma put_keys:
  "map (\<lambda>r. (fl_folder r, fl_name r)) (st_files (put_file f n d s)) =
     (if (f, n) \<in> (\<lambda>r. (fl_folder r, fl_name r)) ` set (st_files s) then map (\<lambda>r. (fl_folder r, fl_name r)) (st_files s)
      else map (\<lambda>r. (fl_folder r, fl_name r)) (st_files s) @ [(f, n)])"
  "map fl_id (st_files (put_file f n d s)) =
     (if (f, n) \<in> (\<lambda>r. (fl_folder r, fl_name r)) ` set (st_files s) then map fl_id (st_files s)
      else map fl_id (st_files s) @ [next_id (map fl_id (st_files s))])"
  "map (\<lambda>r. (ob_vol r, ob_type r)) (st_objects (put_object v ty d s)) =
     (if (v, ty) \<in> (\<lambda>r. (ob_vol r, ob_type r)) ` set (st_objects s) then map (\<lambda>r. (ob_vol r, ob_type r)) (st_objects s)
      else map (\<lambda>r. (ob_vol r, ob_type r)) (st_objects s) @ [(v, ty)])"
  "map ob_id (st_objects (put_object v ty d s)) =
     (if (v, ty) \<in> (\<lambda>r. (ob_vol r, ob_type r)) ` set (st_objects s) then map ob_id (st_objects s)
      else map ob_id (st_objects s) @ [next_id (map ob_id (st_objects s))])"
  by (auto simp: put_file_def put_object_def upsert_file_row_def upsert_object_row_def Let_def)

lemma keys_ok_put:
  assumes "keys_ok s"
  shows "keys_ok (put_file f n d s)" and "keys_ok (put_object v ty d s)"
proof -
  have fresh: "next_id (map fl_id (st_files s)) \<notin> fl_id ` set (st_files s)"
    "next_id (map ob_id (st_objects s)) \<notin> ob_id ` set (st_objects s)"
    using next_id_fresh [of "map fl_id (st_files s)"] next_id_fresh [of "map ob_id (st_objects s)"] by simp_all
  show "keys_ok (put_file f n d s)" "keys_ok (put_object v ty d s)"
    using assms fresh unfolding keys_ok_def put_keys put_tables by simp_all
qed

lemma ready_put:
  assumes "ready s vol rt"
  shows "f \<in> fd_id ` set (st_folders s) \<Longrightarrow> ready (put_file f n d s) vol rt"
    and "ready (put_object v ty d s) vol rt"
proof -
  have keep: "find_folder vol 0 [] (put_file f n d s) = find_folder vol 0 [] s"
    "find_folder vol 0 [] (put_object v ty d s) = find_folder vol 0 [] s"
    by (simp_all add: find_folder_def)
  show "ready (put_file f n d s) vol rt" if "f \<in> fd_id ` set (st_folders s)"
  proof -
    have "fl_folder ` set (st_files (put_file f n d s)) \<subseteq> insert f (fl_folder ` set (st_files s))"
      by (auto simp: put_file_def upsert_file_row_def Let_def)
    then have "linked (put_file f n d s)"
      using assms that unfolding ready_def linked_def by auto
    then show ?thesis using assms keys_ok_put(1) [of s f n d] keep by (simp add: ready_def)
  qed
  have "linked (put_object v ty d s)" using assms by (simp add: ready_def linked_def)
  then show "ready (put_object v ty d s) vol rt"
    using assms keys_ok_put(2) [of s v ty d] keep by (simp add: ready_def)
qed

text \<open>Storing an object changes the map at its key only.\<close>

definition stores :: "int \<Rightarrow> int \<Rightarrow> store \<Rightarrow> string \<Rightarrow> row_data \<Rightarrow> store \<Rightarrow> bool" where
  "stores vol rt s p d s' \<longleftrightarrow> ready s' vol rt \<and> st_extents s' = st_extents s \<and>
     (\<forall>q. lookup s' vol rt q =
        (if path_key q = path_key p then Some (stored_row (lookup s vol rt p) d) else lookup s vol rt q))"

lemma upsert_special_does:
  assumes "healthy e" and "ready s vol rt" and "special_path (or_path o1)"
  shows "\<exists>s'. does (upsert_special_locked e o1) s None s' \<and> stores vol rt s (or_path o1) (row_of o1) s'"
proof -
  let ?p = "or_path o1" and ?d = "row_of o1"
  let ?s = "put_object vol (cstr ?p) ?d s"
  have op: "st_open s" using assms(2) by (simp add: ready_def)
  have "does (upsert_special_locked e o1) s None ?s"
    unfolding upsert_special_locked_def
    by (rule does_bind [OF ensure_volume_does [OF assms(1,2)]],
        rule does_lift [OF run_stmt_does [OF assms(1) op blind_stmts(2) upsert_put(2)]]) simp
  moreover have "lookup ?s vol rt q =
      (if path_key q = path_key ?p then Some (stored_row (lookup s vol rt ?p) ?d) else lookup s vol rt q)" for q
  proof (cases "special_path q")
    case True
    then show ?thesis using assms(3) by (simp add: lookup_def path_key_def put_object_rows)
  next
    case False
    have "file_rows f n ?s = file_rows f n s" for f n by (simp add: file_rows_def)
    then show ?thesis using False assms(3) by (simp add: lookup_def path_key_def split: prod.splits option.splits)
  qed
  ultimately show ?thesis
    using ready_put(2) [OF assms(2)] by (auto simp: stores_def)
qed

lemma upsert_file_does:
  assumes "healthy e" and "ready s vol rt" and "\<not> special_path (or_path o1)" and "path_key (or_path o1) \<noteq> Inr []"
  shows "\<exists>s'. does (upsert_file_locked e o1) s None s' \<and> stores vol rt s (or_path o1) (row_of o1) s'"
proof -
  let ?p = "or_path o1" and ?d = "row_of o1"
  obtain dirs base where sp: "split_file_path ?p = (dirs, base)" by (cases "split_file_path ?p")
  have base: "base \<noteq> []" using assms(3,4) by (auto simp: path_key_def sp)
  have "first_row (find_folder vol 0 [] s) = Some rt" using assms(2) by (simp add: ready_def)
  then have rt: "rt \<in> fd_id ` set (st_folders s)" using find_folder_in by blast
  obtain s1 f where s1: "does (ensure_folders e vol rt dirs) s (f, []) s1" "extends vol rt s s1"
      "f \<in> fd_id ` set (st_folders s1)" "resolve s1 vol rt dirs = Some f"
    using ensure_folders_does [OF assms(1,2) rt] by blast
  have r1: "ready s1 vol rt" and same: "lookup s1 vol rt q = lookup s vol rt q" for q
    using s1(2) by (simp_all add: extends_def)
  then have k1: "keys_ok s1" "st_open s1" "first_row (find_folder vol 0 [] s1) = Some rt"
    by (simp_all add: ready_def)
  have fpos: "0 < f" using folder_id_pos [OF k1(1) s1(3)] .
  let ?s = "put_file f (cstr base) ?d s1"
  have st: "does (run_stmt e (upsert_file_row f (cstr base) ?d)) s1 None ?s"
    by (rule run_stmt_does [OF assms(1) k1(2) blind_stmts(3) upsert_put(1)])
  have "does (upsert_file_locked e o1) s None ?s"
    unfolding upsert_file_locked_def sp prod.case if_not_P [OF base]
    by (rule does_bind [OF ensure_volume_does [OF assms(1,2)]],
        rule does_bind [OF ensure_root_does [OF assms(1,2)]], rule does_bind [OF s1(1)])
      (use fpos in \<open>simp, intro does_lift [OF st], simp\<close>)
  moreover have "lookup ?s vol rt q =
      (if path_key q = path_key ?p then Some (stored_row (lookup s1 vol rt ?p) ?d) else lookup s1 vol rt q)" for q
  proof (cases "special_path q")
    case True
    have "object_rows vol n ?s = object_rows vol n s1" for n by (simp add: object_rows_def)
    then show ?thesis using True assms(3) by (simp add: lookup_def path_key_def)
  next
    case False
    obtain dq bq where q: "split_file_path q = (dq, bq)" by (cases "split_file_path q")
    have key: "path_key q = path_key ?p \<longleftrightarrow> bq \<noteq> [] \<and> map cstr dq = map cstr dirs \<and> cstr bq = cstr base"
      using False assms(3) base by (auto simp: path_key_def q sp)
    show ?thesis
    proof (cases "bq = []")
      case True
      then show ?thesis using False key by (simp add: lookup_def q)
    next
      case bq: False
      show ?thesis
      proof (cases "resolve s1 vol rt dq")
        case None
        have "map cstr dq \<noteq> map cstr dirs"
        proof
          assume "map cstr dq = map cstr dirs"
          then show False using resolve_cstr [of dq dirs s1 vol rt] None s1(4) by simp
        qed
        then show ?thesis using None key False bq by (simp add: lookup_def q)
      next
        case (Some g)
        have "g = f \<longleftrightarrow> map cstr dq = map cstr dirs"
          using resolve_cstr [of dq dirs s1 vol rt] resolve_inject [OF k1(1,3), of dq g dirs] Some s1(4) by auto
        then show ?thesis
          using False bq Some s1(4) assms(3) base key
          by (auto simp: lookup_def q sp put_file_rows)
      qed
    qed
  qed
  ultimately show ?thesis
    using ready_put(1) [OF r1 s1(3)] s1(2) same by (auto simp: stores_def extends_def)
qed

end
