(* ===== verification/Host.thy ===== *)
theory Host
  imports Sys Catalog
begin

text \<open>
  The host outside the device, as \<open>src/mount\<close> sees it: processes started through the shell, mounts,
  directories and name spaces, and the two process-wide flags \<open>g_gui\<close> and \<open>g_in_user_mount_ns\<close>.  As
  in \<open>sys\<close>, each call is a field, a function of its arguments and of the outside world.

  The theory also holds the text routines that the files of \<open>src/mount\<close> share (\<open>shell_quote\<close>, the
  splitting of lines and words, searching) and \<open>src/mount/userns.cpp\<close>.
\<close>

section \<open>Calls\<close>

record node_stat =
  nd_kind :: file_kind
  nd_rdev :: u64

text \<open>What \<open>system\<close> returns: an error, an exit status, or the end by a signal.\<close>

datatype wait_status = NotRun | Exited int | Killed

datatype name_space = NewUser | NewNs

record 'w host =
  hs_realpath :: "string \<Rightarrow> 'w \<Rightarrow> string option \<times> 'w"
  hs_stat :: "string \<Rightarrow> 'w \<Rightarrow> node_stat option \<times> 'w"
  hs_system :: "string \<Rightarrow> 'w \<Rightarrow> wait_status \<times> 'w"
  hs_popen :: "string \<Rightarrow> 'w \<Rightarrow> string option \<times> 'w"
  hs_proc_mounts :: "'w \<Rightarrow> string \<times> 'w"
  hs_umount :: "string \<Rightarrow> bool \<Rightarrow> 'w \<Rightarrow> bool \<times> 'w"
  hs_mount :: "string \<Rightarrow> string \<Rightarrow> string \<Rightarrow> bool \<Rightarrow> 'w \<Rightarrow> bool \<times> 'w"
  hs_mkdir :: "string \<Rightarrow> 'w \<Rightarrow> unit \<times> 'w"
  hs_mkdtemp :: "string \<Rightarrow> 'w \<Rightarrow> string option \<times> 'w"
  hs_rmdir :: "string \<Rightarrow> 'w \<Rightarrow> unit \<times> 'w"
  hs_readable :: "string \<Rightarrow> 'w \<Rightarrow> bool \<times> 'w"
  hs_gui :: "'w \<Rightarrow> bool \<times> 'w"
  hs_in_ns :: "'w \<Rightarrow> bool \<times> 'w"
  hs_set_in_ns :: "'w \<Rightarrow> unit \<times> 'w"
  hs_userns_clone :: "'w \<Rightarrow> string option \<times> 'w"
  hs_proc_status :: "'w \<Rightarrow> string \<times> 'w"
  hs_euid :: "'w \<Rightarrow> nat \<times> 'w"
  hs_egid :: "'w \<Rightarrow> nat \<times> 'w"
  hs_unshare :: "name_space \<Rightarrow> 'w \<Rightarrow> (bool \<times> string) option \<times> 'w"
  hs_proc_open :: "string \<Rightarrow> 'w \<Rightarrow> (string + fd) \<times> 'w"
  hs_proc_write :: "fd \<Rightarrow> string \<Rightarrow> 'w \<Rightarrow> (int \<times> string) \<times> 'w"
  hs_close :: "fd \<Rightarrow> 'w \<Rightarrow> unit \<times> 'w"
  hs_private_root :: "'w \<Rightarrow> bool \<times> 'w"
  hs_setenv :: "string \<Rightarrow> string \<Rightarrow> 'w \<Rightarrow> unit \<times> 'w"

text \<open>
  \<open>hs_umount\<close> takes whether \<open>MNT_DETACH\<close> is set, \<open>hs_mount\<close> whether \<open>MS_RDONLY\<close> is.  \<open>hs_popen\<close> gives
  all that the command wrote, \<open>hs_proc_mounts\<close> the text of \<open>/proc/mounts\<close>, empty if it cannot be
  opened.  \<open>hs_unshare\<close> gives the error, with whether it is \<open>EINVAL\<close>; \<open>hs_proc_write\<close> the bytes
  written, or a negative number, and the text of \<open>errno\<close> after it.
\<close>

section \<open>Text\<close>

text \<open>\<open>std::getline\<close> until the text ends: the pieces between the separators.\<close>

fun getlines_from :: "char \<Rightarrow> string \<Rightarrow> string \<Rightarrow> string list" where
  "getlines_from c acc [] = (if acc = [] then [] else [rev acc])"
| "getlines_from c acc (x # xs) =
     (if x = c then rev acc # getlines_from c [] xs else getlines_from c (x # acc) xs)"

definition getlines :: "char \<Rightarrow> string \<Rightarrow> string list" where
  "getlines c s = getlines_from c [] s"

text \<open>The words that \<open>operator >>\<close> takes from a stream.\<close>

fun tokens_from :: "string \<Rightarrow> string \<Rightarrow> string list" where
  "tokens_from acc [] = (if acc = [] then [] else [rev acc])"
| "tokens_from acc (x # xs) =
     (if is_space x then (if acc = [] then [] else [rev acc]) @ tokens_from [] xs else tokens_from (x # acc) xs)"

definition tokens :: "string \<Rightarrow> string list" where
  "tokens s = tokens_from [] s"

text \<open>\<open>std::string::find\<close>: what comes after the first occurrence.\<close>

fun after_sub :: "string \<Rightarrow> string \<Rightarrow> string option" where
  "after_sub pat [] = (if pat = [] then Some [] else None)"
| "after_sub pat (c # s) =
     (if take (length pat) (c # s) = pat then Some (drop (length pat) (c # s)) else after_sub pat s)"

definition contains :: "string \<Rightarrow> string \<Rightarrow> bool" where
  "contains pat s \<longleftrightarrow> after_sub pat s \<noteq> None"

definition starts_with :: "string \<Rightarrow> string \<Rightarrow> bool" where
  "starts_with pat s \<longleftrightarrow> take (length pat) s = pat"

definition trim_ws :: "string \<Rightarrow> string" where
  "trim_ws s = rev (dropWhile is_space (rev (dropWhile is_space s)))"

definition options_has_ro :: "string \<Rightarrow> bool" where
  "options_has_ro opts \<longleftrightarrow> ''ro'' \<in> set (getlines CHR '','' opts)"

definition quote_char :: string where
  "quote_char = [CHR 0x27]"

fun quote_body :: "string \<Rightarrow> string" where
  "quote_body [] = []"
| "quote_body (c # s) =
     (if c = CHR 0x27 then [CHR 0x27, CHR 0x5C, CHR 0x27, CHR 0x27] else [c]) @ quote_body s"

definition shell_quote :: "string \<Rightarrow> string" where
  "shell_quote s = quote_char @ quote_body s @ quote_char"

section \<open>Commands and paths\<close>

type_synonym ('w, 'z, 'a) host_io = "(('w, 'z) mach_scheme, 'a) io"

definition run_shell :: "'w host \<Rightarrow> string \<Rightarrow> ('w, 'z, int) host_io" where
  "run_shell hs cmd =
     iob (sysc (hs_system hs cmd)) (\<lambda>rc. ioret (case rc of Exited n \<Rightarrow> n | _ \<Rightarrow> -1))"

definition run_capture :: "'w host \<Rightarrow> string \<Rightarrow> ('w, 'z, string) host_io" where
  "run_capture hs cmd =
     iob (sysc (hs_popen hs cmd)) (\<lambda>r. ioret (case r of None \<Rightarrow> [] | Some out \<Rightarrow> out))"

definition which_ok :: "'w host \<Rightarrow> string \<Rightarrow> ('w, 'z, bool) host_io" where
  "which_ok hs bin =
     iob (run_shell hs (''command -v '' @ shell_quote bin @ '' >/dev/null 2>&1'')) (\<lambda>rc. ioret (rc = 0))"

definition real_or_self :: "'w host \<Rightarrow> string \<Rightarrow> ('w, 'z, string) host_io" where
  "real_or_self hs path =
     iob (sysc (hs_realpath hs path)) (\<lambda>r. ioret (case r of None \<Rightarrow> path | Some p \<Rightarrow> p))"

definition is_kind :: "'w host \<Rightarrow> file_kind \<Rightarrow> string \<Rightarrow> ('w, 'z, bool) host_io" where
  "is_kind hs k path =
     iob (sysc (hs_stat hs path)) (\<lambda>st. ioret (case st of None \<Rightarrow> False | Some st \<Rightarrow> nd_kind st = k))"

definition path_is_regular_file :: "'w host \<Rightarrow> string \<Rightarrow> ('w, 'z, bool) host_io" where
  "path_is_regular_file hs path = is_kind hs KRegular path"

definition path_is_block :: "'w host \<Rightarrow> string \<Rightarrow> ('w, 'z, bool) host_io" where
  "path_is_block hs path = is_kind hs KBlock path"

definition path_is_directory :: "'w host \<Rightarrow> string \<Rightarrow> ('w, 'z, bool) host_io" where
  "path_is_directory hs path = is_kind hs KDirectory path"

text \<open>Files and loop devices: what is mounted without asking for a password.\<close>

definition no_auth_target :: "'w host \<Rightarrow> string \<Rightarrow> ('w, 'z, bool) host_io" where
  "no_auth_target hs path =
     iob (path_is_regular_file hs path) (\<lambda>reg.
     if reg then ioret True
     else iob (real_or_self hs path) (\<lambda>p. ioret (starts_with ''/dev/loop'' p)))"

section \<open>The user and mount name space\<close>

text \<open>A file of \<open>/proc\<close> that is written in one go; \<open>err\<close> is the text behind the caller's pointer.\<close>

definition write_proc_file ::
  "'w host \<Rightarrow> string \<Rightarrow> string \<Rightarrow> string \<Rightarrow> ('w, 'z, bool \<times> string) host_io" where
  "write_proc_file hs path content err =
     iob (sysc (hs_proc_open hs path)) (\<lambda>r.
     case r of
       Inl msg \<Rightarrow> ioret (False, path @ '': '' @ msg)
     | Inr f \<Rightarrow>
         iob (sysc (hs_proc_write hs f content)) (\<lambda>(n, msg).
         iob (sysc (hs_close hs f)) (\<lambda>_.
         if n < 0 \<or> n \<noteq> int (length content) then ioret (False, path @ '': '' @ msg)
         else ioret (True, err))))"

definition userns_allowed :: "'w host \<Rightarrow> ('w, 'z, bool) host_io" where
  "userns_allowed hs =
     iob (sysc (hs_userns_clone hs)) (\<lambda>r.
     ioret (case r of None \<Rightarrow> True | Some text \<Rightarrow> strtoll text \<noteq> 0))"

text \<open>The number after the line that starts with \<open>Threads:\<close>, 0 if there is none.\<close>

fun thread_count :: "string list \<Rightarrow> int" where
  "thread_count [] = 0"
| "thread_count (l # ls) =
     (case tokens l of
        [] \<Rightarrow> thread_count ls
      | k # rest \<Rightarrow>
          if k = ''Threads:'' then
            (case rest @ concat (map tokens ls) of [] \<Rightarrow> 0 | x # _ \<Rightarrow> strtoll x)
          else thread_count ls)"

definition many_threads :: string where
  "many_threads = ''unshare(CLONE_NEWUSER): process is multi-threaded '' @
     ''(enter user mount namespace before starting threads)''"

text \<open>The steps, each of which must go well; what has been done by then is not undone.\<close>

definition ensure_user_mount_ns :: "'w host \<Rightarrow> string \<Rightarrow> ('w, 'z, bool \<times> string) host_io" where
  "ensure_user_mount_ns hs err =
     iob (sysc (hs_in_ns hs)) (\<lambda>inside.
     if inside then ioret (True, err)
     else
       iob (userns_allowed hs) (\<lambda>allowed.
       if \<not> allowed
       then ioret (False, ''unprivileged user namespaces disabled (kernel.unprivileged_userns_clone=0)'')
       else
         iob (sysc (hs_proc_status hs)) (\<lambda>status.
         if 1 < thread_count (getlines CHR 0x0A status) then ioret (False, many_threads)
         else
           iob (sysc (hs_euid hs)) (\<lambda>uid.
           iob (sysc (hs_egid hs)) (\<lambda>gid.
           iob (sysc (hs_unshare hs NewUser)) (\<lambda>r.
           case r of
             Some (einval, msg) \<Rightarrow>
               ioret (False, ''unshare(CLONE_NEWUSER): '' @ msg @
                 (if einval then '' (often: already in a user ns, or process is multi-threaded)'' else []))
           | None \<Rightarrow>
               iob (write_proc_file hs ''/proc/self/setgroups'' (''deny'' @ [CHR 0x0A]) err) (\<lambda>(ok, err).
               if \<not> ok then ioret (False, err)
               else
                 iob (write_proc_file hs ''/proc/self/uid_map'' (''0 '' @ dec_digits uid @ '' 1'' @ [CHR 0x0A]) err) (\<lambda>(ok, err).
                 if \<not> ok then ioret (False, err)
                 else
                   iob (write_proc_file hs ''/proc/self/gid_map'' (''0 '' @ dec_digits gid @ '' 1'' @ [CHR 0x0A]) err) (\<lambda>(ok, err).
                   if \<not> ok then ioret (False, err)
                   else
                     iob (sysc (hs_unshare hs NewNs)) (\<lambda>r.
                     case r of
                       Some (_, msg) \<Rightarrow> ioret (False, ''unshare(CLONE_NEWNS): '' @ msg)
                     | None \<Rightarrow>
                         iob (sysc (hs_private_root hs)) (\<lambda>_.
                         iob (sysc (hs_setenv hs ''GIO_USE_VFS'' ''local'')) (\<lambda>_.
                         iob (sysc (hs_set_in_ns hs)) (\<lambda>_.
                         ioret (True, err))))))))))))))"

end
