(* ===== verification/Store.thy ===== *)
theory Store
  imports Catalog "HOL-Library.List_Lexorder" "HOL-Library.Char_ord"
begin

text \<open>
  The operations of \<open>Store\<close> (\<open>src/db/store.cpp\<close>): opening and migrating a database, objects, extents,
  settings, folders and deletion.

  What \<open>sqlite3_open\<close> finds at a path is an argument of \<open>open_store\<close>.  The recursion over the
  folders that \<open>delete_folder\<close> removes is counted by \<open>fuel\<close>.
\<close>

section \<open>Opening\<close>

text \<open>The statements that create the tables have no effect on a model that has them all.\<close>

definition exec_ddl :: "sql_env \<Rightarrow> (string option) db" where
  "exec_ddl e = iob (run_stmt e Inr) (\<lambda>r. ioret (map_option sql_message r))"

definition table_exists :: "sql_env \<Rightarrow> (store \<Rightarrow> bool) \<Rightarrow> bool db" where
  "table_exists e present =
     iob (query_first e (\<lambda>s. if present s then [()] else [])) (\<lambda>r. ioret (r \<noteq> None))"

definition legacy_record :: "string \<times> row_data \<Rightarrow> object_record" where
  "legacy_record row = (read_row (snd row) (object_init (fst row)))\<lparr>or_verified_at := 0\<rparr>"

fun import_rows :: "sql_env \<Rightarrow> object_record list \<Rightarrow> unit db" where
  "import_rows e [] = ioret ()"
| "import_rows e (o1 # os) =
     iob (if special_path (or_path o1) then upsert_special_locked e o1
          else if or_path o1 \<noteq> [] then upsert_file_locked e o1
          else ioret None) (\<lambda>_. import_rows e os)"

definition legacy_rows :: "store \<Rightarrow> (string \<times> row_data) list" where
  "legacy_rows s = (case st_legacy s of None \<Rightarrow> [] | Some rows \<Rightarrow> rows)"

definition import_legacy_objects :: "sql_env \<Rightarrow> unit db" where
  "import_legacy_objects e =
     iob (table_exists e (\<lambda>s. st_legacy s \<noteq> None)) (\<lambda>yes.
     if \<not> yes then ioret ()
     else
       iob (run_query e legacy_rows) (\<lambda>r.
       case r of
         Inl _ \<Rightarrow> ioret ()
       | Inr rows \<Rightarrow>
           iob (import_rows e (map legacy_record rows)) (\<lambda>_.
           iob (run_stmt e (\<lambda>s. Inr (s\<lparr>st_legacy := None\<rparr>))) (\<lambda>_. ioret ()))))"

definition migrate :: "sql_env \<Rightarrow> (string option) db" where
  "migrate e =
     iob (exec_ddl e) (\<lambda>r.
     case r of
       Some msg \<Rightarrow> ioret (Some msg)
     | None \<Rightarrow>
         iob (run_stmt e Inr) (\<lambda>_.
         iob (import_legacy_objects e) (\<lambda>_. ioret None)))"

definition close_store :: "unit db" where
  "close_store = ioupd (\<lambda>s. s\<lparr>st_open := False, st_path := []\<rparr>)"

definition open_store :: "sql_env \<Rightarrow> string + store \<Rightarrow> string \<Rightarrow> (string option) db" where
  "open_store e found path =
     iob (ioupd (\<lambda>s. if st_open s then s\<lparr>st_open := False, st_path := []\<rparr> else s)) (\<lambda>_.
     case found of
       Inl msg \<Rightarrow> ioret (Some msg)
     | Inr content \<Rightarrow>
         iob (ioupd (\<lambda>s. content\<lparr>st_open := True, st_path := st_path s, st_ticks := st_ticks s\<rparr>)) (\<lambda>_.
         iob (migrate e) (\<lambda>r.
         case r of
           Some msg \<Rightarrow> iob (ioupd (\<lambda>s. s\<lparr>st_open := False\<rparr>)) (\<lambda>_. ioret (Some msg))
         | None \<Rightarrow> iob (ioupd (\<lambda>s. s\<lparr>st_path := path\<rparr>)) (\<lambda>_. ioret None))))"

definition not_open :: string where
  "not_open = ''database not open''"

text \<open>The lines of a check, joined, and whether all are fine.\<close>

fun check_lines :: "string option list \<Rightarrow> string \<Rightarrow> bool \<Rightarrow> bool \<times> string" where
  "check_lines [] out ok = (ok, out)"
| "check_lines (None # ls) out ok = check_lines ls out ok"
| "check_lines (Some t # ls) out ok =
     check_lines ls ((if out \<noteq> [] then out @ [CHR 0x0A] else out) @ t) (ok \<and> t = ''ok'')"

text \<open>The verdict and the report, or an error.\<close>

definition check_integrity :: "sql_env \<Rightarrow> (string + bool \<times> string) db" where
  "check_integrity e =
     iob (ioget st_open) (\<lambda>opened.
     if \<not> opened then ioret (Inl not_open)
     else
       iob (run_query e (\<lambda>s. se_check e (st_ticks s))) (\<lambda>r.
       case r of
         Inl msg \<Rightarrow> ioret (Inl msg)
       | Inr rows \<Rightarrow>
           (case check_lines rows [] True of (ok, out) \<Rightarrow>
            ioret (Inr (ok, if out = [] then ''(empty)'' else out)))))"

section \<open>Objects\<close>

definition upsert_locked :: "sql_env \<Rightarrow> object_record \<Rightarrow> (string option) db" where
  "upsert_locked e o1 =
     (if special_path (or_path o1) then upsert_special_locked e o1 else upsert_file_locked e o1)"

definition get_locked :: "sql_env \<Rightarrow> string \<Rightarrow> object_record \<Rightarrow> (object_record option) db" where
  "get_locked e p o1 =
     (if special_path p then get_special_locked e p o1 else get_file_locked e p o1)"

definition upsert_object :: "sql_env \<Rightarrow> object_record \<Rightarrow> (string option) db" where
  "upsert_object e o1 =
     iob (ioget st_open) (\<lambda>opened.
     if \<not> opened then ioret (Some not_open) else upsert_locked e o1)"

text \<open>The record filled in, if there is one.\<close>

definition get_object :: "sql_env \<Rightarrow> string \<Rightarrow> object_record \<Rightarrow> (string + object_record option) db" where
  "get_object e p o1 =
     iob (ioget st_open) (\<lambda>opened.
     if \<not> opened then ioret (Inl not_open)
     else iob (get_locked e p o1) (\<lambda>r. ioret (Inr r)))"

definition now_secs :: "sql_env \<Rightarrow> int db" where
  "now_secs e = iob (ioget st_ticks) (\<lambda>n. ioret (se_now e n))"

text \<open>The three changes read the record of the path, or start a new one, and store it changed.\<close>

definition record_of :: "sql_env \<Rightarrow> string \<Rightarrow> object_record db" where
  "record_of e p =
     iob (get_locked e p (object_init [])) (\<lambda>r.
     ioret (case r of None \<Rightarrow> object_init p | Some o1 \<Rightarrow> o1))"

definition bump_massage :: "sql_env \<Rightarrow> string \<Rightarrow> int \<Rightarrow> (string option) db" where
  "bump_massage e p sz =
     iob (record_of e p) (\<lambda>o1.
     iob (now_secs e) (\<lambda>t.
     let o1 = o1\<lparr>or_size := sz, or_last_massage := t, or_massage_count := or_massage_count o1 + 1\<rparr> in
     if special_path p then upsert_special_locked e o1 else upsert_file_locked e o1))"

definition set_sha1 :: "sql_env \<Rightarrow> string \<Rightarrow> bytes \<Rightarrow> (string option) db" where
  "set_sha1 e p sha =
     iob (record_of e p) (\<lambda>o1.
     let o1 = o1\<lparr>or_sha1 := sha, or_has_sha1 := True\<rparr> in
     if special_path p then upsert_special_locked e o1 else upsert_file_locked e o1)"

definition bump_verify :: "sql_env \<Rightarrow> string \<Rightarrow> verify_status \<Rightarrow> bytes option \<Rightarrow> (string option) db" where
  "bump_verify e p vs sha =
     iob (record_of e p) (\<lambda>o1.
     iob (now_secs e) (\<lambda>t.
     let o1 = (case sha of None \<Rightarrow> o1 | Some b \<Rightarrow> o1\<lparr>or_sha1 := b, or_has_sha1 := True\<rparr>);
         o1 = o1\<lparr>or_verify_status := vs, or_verify_count := or_verify_count o1 + 1, or_verified_at := t\<rparr> in
     if special_path p then upsert_special_locked e o1 else upsert_file_locked e o1))"

text \<open>The recursive query over the folders: their ids and paths, level by level.  No folder is
  reached twice, so as many levels as there are folders are enough.\<close>

fun tree_levels :: "nat \<Rightarrow> store \<Rightarrow> (int \<times> string) list \<Rightarrow> (int \<times> string) list" where
  "tree_levels 0 s lvl = []"
| "tree_levels (Suc n) s lvl =
     (if lvl = [] then []
      else lvl @ tree_levels n s (concat (map (\<lambda>(i, path).
        map (\<lambda>r. (fd_id r, if path = [] then fd_name r else path @ ''/'' @ fd_name r))
          (filter (\<lambda>r. fd_parent r = i) (st_folders s))) lvl)))"

definition folder_tree :: "int \<Rightarrow> store \<Rightarrow> (int \<times> string) list" where
  "folder_tree vol s =
     tree_levels (length (st_folders s) + 1) s
       (map (\<lambda>i. (i, [])) (find_folder vol 0 [] s))"

definition listed_files :: "int \<Rightarrow> store \<Rightarrow> (string \<times> row_data) list" where
  "listed_files vol s =
     sort_key fst (concat (map (\<lambda>r.
       map (\<lambda>(i, path). (if path = [] then ''/'' @ fl_name r else ''/'' @ path @ ''/'' @ fl_name r, fl_data r))
         (filter (\<lambda>(i, path). i = fl_folder r) (folder_tree vol s))) (st_files s)))"

definition listed_objects :: "int \<Rightarrow> store \<Rightarrow> (string \<times> row_data) list" where
  "listed_objects vol s =
     sort_key fst (map (\<lambda>r. (ob_type r, ob_data r)) (filter (\<lambda>r. ob_vol r = vol) (st_objects s)))"

definition listed_record :: "string \<times> row_data \<Rightarrow> object_record" where
  "listed_record row = read_row (snd row) (object_init (fst row))"

text \<open>The records, with a message if something failed.\<close>

definition list_objects :: "sql_env \<Rightarrow> (object_record list \<times> string) db" where
  "list_objects e =
     iob (ioget st_open) (\<lambda>opened.
     if \<not> opened then ioret ([], not_open)
     else
       iob (ensure_volume_locked e) (\<lambda>vol.
       iob (run_query e (listed_objects vol)) (\<lambda>r.
       let out = (case r of Inl _ \<Rightarrow> [] | Inr rows \<Rightarrow> map listed_record rows) in
       iob (run_query e (listed_files vol)) (\<lambda>r.
       case r of
         Inl msg \<Rightarrow> ioret (out, msg)
       | Inr rows \<Rightarrow> ioret (out @ map listed_record rows, [])))))"

section \<open>Extents and settings\<close>

definition delete_extents :: "string \<Rightarrow> store \<Rightarrow> string + store" where
  "delete_extents path s = Inr (s\<lparr>st_extents := filter (\<lambda>r. ex_path r \<noteq> path) (st_extents s)\<rparr>)"

definition insert_extent :: "string \<Rightarrow> int \<Rightarrow> extent_record \<Rightarrow> store \<Rightarrow> string + store" where
  "insert_extent path now x s =
     Inr (s\<lparr>st_extents := st_extents s @ [\<lparr>ex_path = path, ex_offset = er_offset x,
       ex_length = er_length x, ex_status = er_status x, ex_updated_at = now\<rparr>]\<rparr>)"

fun insert_extents :: "sql_env \<Rightarrow> string \<Rightarrow> int \<Rightarrow> extent_record list \<Rightarrow> (string option) db" where
  "insert_extents e path now [] = ioret None"
| "insert_extents e path now (x # xs) =
     iob (step_stmt e (insert_extent path now x)) (\<lambda>r.
     case r of Some msg \<Rightarrow> ioret (Some msg) | None \<Rightarrow> insert_extents e path now xs)"

definition replace_extents :: "sql_env \<Rightarrow> string \<Rightarrow> extent_record list \<Rightarrow> (string option) db" where
  "replace_extents e path exts =
     iob (run_stmt e (delete_extents (cstr path))) (\<lambda>r.
     case r of
       Some err \<Rightarrow> ioret (Some (sql_message err))
     | None \<Rightarrow>
         iob (prepare e) (\<lambda>p.
         case p of
           Some msg \<Rightarrow> ioret (Some msg)
         | None \<Rightarrow>
             iob (now_secs e) (\<lambda>now.
             insert_extents e (cstr path) now exts)))"

text \<open>The value, \<open>None\<close> if there is none; or an error.\<close>

definition get_meta :: "sql_env \<Rightarrow> string \<Rightarrow> (string + string option) db" where
  "get_meta e key =
     iob (run_query e (meta_rows (cstr key))) (\<lambda>r.
     ioret (map_sum id first_row r))"

definition bad_extent_rows :: "store \<Rightarrow> extent_row list" where
  "bad_extent_rows s = sort_key ex_offset (filter (\<lambda>r. ex_status r \<noteq> 0) (st_extents s))"

definition bad_extents :: "sql_env \<Rightarrow> (extent_record list \<times> string) db" where
  "bad_extents e =
     iob (run_query e bad_extent_rows) (\<lambda>r.
     case r of
       Inl msg \<Rightarrow> ioret ([], msg)
     | Inr rows \<Rightarrow> ioret (map (\<lambda>r. \<lparr>er_path = ex_path r, er_offset = ex_offset r,
         er_length = ex_length r, er_status = ex_status r\<rparr>) rows, []))"

definition default_sha1_days :: int where
  "default_sha1_days = 183"

text \<open>The C library's \<open>atoi\<close>: the 64-bit number, cut to 32 bits.\<close>

definition c_atoi :: "string \<Rightarrow> int" where
  "c_atoi s = signed_take_bit 31 (strtoll s)"

definition sha1_valid_days :: "sql_env \<Rightarrow> int db" where
  "sha1_valid_days e =
     iob (get_meta e ''sha1_valid_days'') (\<lambda>r.
     ioret (case r of
       Inr (Some v) \<Rightarrow> if v = [] then default_sha1_days
                      else if 0 < c_atoi v then c_atoi v else default_sha1_days
     | _ \<Rightarrow> default_sha1_days))"

definition set_sha1_valid_days :: "sql_env \<Rightarrow> int \<Rightarrow> (string option) db" where
  "set_sha1_valid_days e days = set_meta e ''sha1_valid_days'' (show_int (if days < 1 then 1 else days))"

section \<open>Folders\<close>

definition current_volume_id :: "sql_env \<Rightarrow> int db" where
  "current_volume_id e =
     iob (ioget st_open) (\<lambda>opened. if \<not> opened then ioret 0 else ensure_volume_locked e)"

definition ensure_folder :: "sql_env \<Rightarrow> int \<Rightarrow> string \<Rightarrow> (int \<times> string) db" where
  "ensure_folder e parent name =
     iob (ioget st_open) (\<lambda>opened.
     if \<not> opened then ioret (0, not_open)
     else
       iob (ensure_volume_locked e) (\<lambda>vol.
       iob (if parent \<le> 0 then ensure_root_folder_locked e vol else ioret parent) (\<lambda>parent.
       ensure_folder_locked e vol parent name)))"

record dir_entry =
  de_name :: string
  de_directory :: bool
  de_id :: int
  de_size :: int
  de_sha1 :: "bytes option"
  de_verify_status :: verify_status
  de_verified_at :: int

definition folder_children :: "int \<Rightarrow> int \<Rightarrow> store \<Rightarrow> folder_row list" where
  "folder_children vol i s = filter (\<lambda>r. fd_vol r = vol \<and> fd_parent r = i) (st_folders s)"

definition dir_folders :: "int \<Rightarrow> int \<Rightarrow> store \<Rightarrow> dir_entry list" where
  "dir_folders vol i s =
     map (\<lambda>r. \<lparr>de_name = fd_name r, de_directory = True, de_id = fd_id r, de_size = 0, de_sha1 = None,
       de_verify_status = VsUnknown, de_verified_at = 0\<rparr>)
       (sort_key fd_name (filter (\<lambda>r. fd_name r \<noteq> []) (folder_children vol i s)))"

definition dir_files :: "int \<Rightarrow> store \<Rightarrow> dir_entry list" where
  "dir_files i s =
     map (\<lambda>r. \<lparr>de_name = fl_name r, de_directory = False, de_id = fl_id r, de_size = rw_size (fl_data r),
       de_sha1 = (case rw_sha1 (fl_data r) of Some b \<Rightarrow> if length b = 20 then Some b else None | None \<Rightarrow> None),
       de_verify_status = vs_of_int (rw_verify_status (fl_data r)),
       de_verified_at = rw_verified_at (fl_data r)\<rparr>)
       (sort_key fl_name (filter (\<lambda>r. fl_folder r = i) (st_files s)))"

definition list_db_dir :: "sql_env \<Rightarrow> int \<Rightarrow> (dir_entry list \<times> string) db" where
  "list_db_dir e i =
     iob (ioget st_open) (\<lambda>opened.
     if \<not> opened then ioret ([], not_open)
     else
       iob (ensure_volume_locked e) (\<lambda>vol.
       iob (ensure_root_folder_locked e vol) (\<lambda>rt.
       let i = (if i \<le> 0 then rt else i) in
       iob (run_query e (dir_folders vol i)) (\<lambda>r.
       let out = (case r of Inl _ \<Rightarrow> [] | Inr ds \<Rightarrow> ds) in
       iob (run_query e (dir_files i)) (\<lambda>r.
       case r of Inl msg \<Rightarrow> ioret (out, msg) | Inr fs \<Rightarrow> ioret (out @ fs, []))))))"

definition file_record_count :: "sql_env \<Rightarrow> (int \<times> string) db" where
  "file_record_count e =
     iob (ioget st_open) (\<lambda>opened.
     if \<not> opened then ioret (0, not_open)
     else
       iob (query_first e (\<lambda>s. [int (length (st_files s))])) (\<lambda>r.
       ioret (case r of None \<Rightarrow> 0 | Some n \<Rightarrow> n, [])))"

section \<open>Deletion\<close>

definition delete_object_row :: "int \<Rightarrow> string \<Rightarrow> store \<Rightarrow> string + store" where
  "delete_object_row vol ty s =
     Inr (s\<lparr>st_objects := filter (\<lambda>r. \<not> (ob_vol r = vol \<and> ob_type r = ty)) (st_objects s)\<rparr>)"

definition delete_file_row :: "int \<Rightarrow> string \<Rightarrow> store \<Rightarrow> string + store" where
  "delete_file_row folder name s =
     Inr (s\<lparr>st_files := filter (\<lambda>r. \<not> (fl_folder r = folder \<and> fl_name r = name)) (st_files s)\<rparr>)"

text \<open>The extents are dropped even when the row could not be; a statement that cannot be prepared
  ends the operation before.\<close>

definition drop_row :: "sql_env \<Rightarrow> string \<Rightarrow> (store \<Rightarrow> string + store) \<Rightarrow> (string option) db" where
  "drop_row e path del =
     iob (run_stmt e del) (\<lambda>r.
     case r of
       Some (PrepErr msg) \<Rightarrow> ioret (Some msg)
     | _ \<Rightarrow>
         iob (replace_extents e path []) (\<lambda>_.
         ioret (map_option sql_message r)))"

definition delete_file :: "sql_env \<Rightarrow> string \<Rightarrow> (string option) db" where
  "delete_file e path =
     iob (ioget st_open) (\<lambda>opened.
     if \<not> opened then ioret (Some not_open)
     else if special_path path then
       iob (ensure_volume_locked e) (\<lambda>vol. drop_row e path (delete_object_row vol (cstr path)))
     else
       iob (get_file_locked e path (object_init [])) (\<lambda>r.
       if r = None then ioret None
       else
         (case split_file_path path of (dirs, base) \<Rightarrow>
          iob (ensure_volume_locked e) (\<lambda>vol.
          iob (ensure_root_folder_locked e vol) (\<lambda>parent.
          iob (ensure_folders e vol parent dirs) (\<lambda>(parent, msg).
          if dirs \<noteq> [] \<and> parent \<le> 0 then ioret (Some msg)
          else drop_row e path (delete_file_row parent (cstr base))))))))"

definition delete_folder_files :: "int \<Rightarrow> store \<Rightarrow> string + store" where
  "delete_folder_files i s = Inr (s\<lparr>st_files := filter (\<lambda>r. fl_folder r \<noteq> i) (st_files s)\<rparr>)"

definition delete_folder_row :: "int \<Rightarrow> store \<Rightarrow> string + store" where
  "delete_folder_row i s = Inr (s\<lparr>st_folders := filter (\<lambda>r. fd_id r \<noteq> i) (st_folders s)\<rparr>)"

text \<open>The loop over the children, and the folder itself.\<close>

fun delete_children :: "(int \<Rightarrow> (string option) db) \<Rightarrow> int list \<Rightarrow> (string option) db" where
  "delete_children rec [] = ioret None"
| "delete_children rec (c # cs) =
     iob (rec c) (\<lambda>r. case r of Some msg \<Rightarrow> ioret (Some msg) | None \<Rightarrow> delete_children rec cs)"

fun delete_folder :: "nat \<Rightarrow> sql_env \<Rightarrow> int \<Rightarrow> (string option) db" where
  "delete_folder 0 e i = iostuck"
| "delete_folder (Suc fuel) e i =
     iob (ioget st_open) (\<lambda>opened.
     if \<not> opened then ioret (Some not_open)
     else if i \<le> 0 then ioret None
     else
       iob (ensure_volume_locked e) (\<lambda>vol.
       iob (ensure_root_folder_locked e vol) (\<lambda>rt.
       if i = rt then ioret None
       else
         iob (run_query e (\<lambda>s. map fd_id (folder_children vol i s))) (\<lambda>r.
         iob (delete_children (\<lambda>c. delete_folder fuel e c) (case r of Inl _ \<Rightarrow> [] | Inr cs \<Rightarrow> cs)) (\<lambda>r.
         case r of
           Some msg \<Rightarrow> ioret (Some msg)
         | None \<Rightarrow>
             iob (run_stmt e (delete_folder_files i)) (\<lambda>r.
             case r of
               Some err \<Rightarrow> ioret (Some (sql_message err))
             | None \<Rightarrow>
                 iob (run_stmt e (delete_folder_row i)) (\<lambda>r.
                 ioret (map_option sql_message r))))))))"

section \<open>The place of the database\<close>

definition is_alnum :: "char \<Rightarrow> bool" where
  "is_alnum c \<longleftrightarrow> is_digit c \<or>
     65 \<le> (of_char c :: nat) \<and> (of_char c :: nat) \<le> 90 \<or>
     97 \<le> (of_char c :: nat) \<and> (of_char c :: nat) \<le> 122"

definition after_last_slash :: "string \<Rightarrow> string" where
  "after_last_slash s = rev (takeWhile (\<lambda>c. c \<noteq> CHR ''/'') (rev s))"

definition default_db_path :: "string option \<Rightarrow> string \<Rightarrow> string" where
  "default_db_path home target =
     (let cache = (case home of Some h \<Rightarrow> h @ ''/.cache/reflash'' | None \<Rightarrow> ''/tmp/reflash'');
          base = map (\<lambda>c. if is_alnum c \<or> c \<in> {CHR ''.'', CHR ''-'', CHR ''_''} then c else CHR ''_'')
                   (after_last_slash target) in
      cache @ ''/'' @ base @ ''.sqlite'')"

section \<open>Lemmas: ticks do not matter\<close>

lemma find_folder_ticks [simp]: "find_folder v p n (s\<lparr>st_ticks := k\<rparr>) = find_folder v p n s"
  by (simp add: find_folder_def)

lemma resolve_ticks [simp]: "resolve (s\<lparr>st_ticks := k\<rparr>) v p ds = resolve s v p ds"
  by (induction ds arbitrary: p) (auto split: option.splits)

lemma lookup_ticks [simp]: "lookup (s\<lparr>st_ticks := k\<rparr>) vol rt q = lookup s vol rt q"
  by (auto simp: lookup_def object_rows_def file_rows_def split: prod.splits option.splits)

lemma ready_ticks [simp]: "ready (s\<lparr>st_ticks := k\<rparr>) vol rt = ready s vol rt"
  by (simp add: ready_def keys_ok_def linked_def)

lemma stores_ticks [simp]: "stores vol rt s p d (s'\<lparr>st_ticks := k\<rparr>) = stores vol rt s p d s'"
  by (simp add: stores_def)

section \<open>Lemmas: the store as a map\<close>

definition key_ok :: "string \<Rightarrow> bool" where
  "key_ok p \<longleftrightarrow> path_key p \<noteq> Inr []"

text \<open>The record that \<open>get\<close> makes of a row.\<close>

definition as_record :: "string \<Rightarrow> object_record \<Rightarrow> row_data \<Rightarrow> object_record" where
  "as_record p o1 d = read_row d (o1\<lparr>or_path := (if special_path p then cstr p else p)\<rparr>)"

lemma get_locked_does:
  "healthy e \<Longrightarrow> ready s vol rt \<Longrightarrow>
   does (get_locked e p o1) s (map_option (as_record p o1) (lookup s vol rt p)) s"
  using get_special_does [of e s vol rt p o1] get_file_does [of e s vol rt p o1]
  by (cases "special_path p") (simp_all add: get_locked_def as_record_def [abs_def])

lemma upsert_locked_does:
  "healthy e \<Longrightarrow> ready s vol rt \<Longrightarrow> key_ok (or_path o1) \<Longrightarrow>
   \<exists>s'. does (upsert_locked e o1) s None s' \<and> stores vol rt s (or_path o1) (row_of o1) s'"
  using upsert_special_does [of e s vol rt o1] upsert_file_does [of e s vol rt o1]
  by (cases "special_path (or_path o1)") (simp_all add: upsert_locked_def key_ok_def)

lemma get_opened: "st_open s \<Longrightarrow> does (ioget st_open) s True s"
  by (auto simp: does_def eqt_def)

lemma special_cstr: "special_path p \<Longrightarrow> special_path (cstr p) \<and> path_key (cstr p) = path_key p"
proof -
  assume p: "special_path p"
  then obtain r where r: "p = CHR '':'' # CHR '':'' # r"
    by (cases p; cases "tl p") (auto simp: special_path_def)
  then have "special_path (cstr p)" by (simp add: special_path_def cstr_def)
  then show ?thesis using p by (simp add: path_key_def)
qed

text \<open>A row survives being read into a record and written back.\<close>

lemma int_vs [simp]: "int_of_vs (vs_of_int i) = i"
  by (simp add: vs_of_int_def)

lemma merge_read_row:
  "merge_row d (row_of (read_row d o1)) = d"
  by (cases d) (auto simp: merge_row_def row_of_def read_row_def read_sha1_def split: option.splits)

section \<open>Lemmas: changing a record\<close>

lemma record_of_does:
  assumes "healthy e" and "ready s vol rt"
  shows "does (record_of e p) s
    (case lookup s vol rt p of None \<Rightarrow> object_init p | Some d \<Rightarrow> as_record p (object_init []) d) s"
  unfolding record_of_def
  by (rule does_lift [OF get_locked_does [OF assms]]) (simp split: option.split)

lemma now_secs_does: "\<exists>t k. now_secs e s = Ret (t, s) \<and> t = se_now e k"
  by (auto simp: now_secs_def iob_def)

lemma record_path:
  "or_path (case l of None \<Rightarrow> object_init p | Some d \<Rightarrow> as_record p (object_init []) d) =
     (if l \<noteq> None \<and> special_path p then cstr p else p)"
  by (auto simp: object_init_def as_record_def read_row_def read_sha1_def split: option.splits)

lemma change_does:
  assumes "healthy e" and "ready s vol rt" and "key_ok p"
    and path: "or_path o1 = (if special_path p then cstr p else p) \<or> or_path o1 = p"
  shows "\<exists>s'. does (if special_path p then upsert_special_locked e o1 else upsert_file_locked e o1) s None s' \<and>
    stores vol rt s p (row_of o1) s'"
proof -
  have key: "path_key (or_path o1) = path_key p" "special_path (or_path o1) = special_path p"
    "lookup s vol rt (or_path o1) = lookup s vol rt p"
    using path special_cstr [of p] by (auto simp: lookup_def split: if_splits)
  obtain s' where "does (upsert_locked e o1) s None s'" "stores vol rt s (or_path o1) (row_of o1) s'"
    using upsert_locked_does [OF assms(1,2), of o1] assms(3) key by (auto simp: key_ok_def)
  then show ?thesis using key by (auto simp: upsert_locked_def stores_def)
qed

lemma upsert_object_does:
  assumes "healthy e" and "ready s vol rt" and "key_ok (or_path o1)"
  shows "\<exists>s'. upsert_object e o1 s = Ret (None, s') \<and> stores vol rt s (or_path o1) (row_of o1) s'"
proof -
  have op: "st_open s" using assms(2) by (simp add: ready_def)
  obtain s1 where s1: "does (upsert_locked e o1) s None s1" "stores vol rt s (or_path o1) (row_of o1) s1"
    using upsert_locked_does [OF assms] by blast
  have "does (upsert_object e o1) s None s1"
    unfolding upsert_object_def by (rule does_bind [OF get_opened [OF op]]) (simp add: s1(1))
  from does_result [OF this]
  obtain k where k: "upsert_object e o1 s = Ret (None, s1\<lparr>st_ticks := k\<rparr>)" by blast
  show ?thesis by (rule exI [of _ "s1\<lparr>st_ticks := k\<rparr>"]) (simp add: k s1(2))
qed

lemma get_object_does:
  assumes "healthy e" and "ready s vol rt"
  shows "\<exists>k. get_object e q o0 s = Ret (Inr (map_option (as_record q o0) (lookup s vol rt q)), s\<lparr>st_ticks := k\<rparr>)"
proof (rule does_result)
  have "st_open s" using assms(2) by (simp add: ready_def)
  moreover have "does (iob (get_locked e q o0) (\<lambda>r. ioret (Inr r))) s
      (Inr (map_option (as_record q o0) (lookup s vol rt q))) s"
    by (rule does_lift [OF get_locked_does [OF assms]]) simp
  ultimately show "does (get_object e q o0) s (Inr (map_option (as_record q o0) (lookup s vol rt q))) s"
    unfolding get_object_def by (intro does_bind [OF get_opened]) simp_all
qed

text \<open>Reading the record of a path, changing it and storing it.\<close>

definition current :: "store \<Rightarrow> int \<Rightarrow> int \<Rightarrow> string \<Rightarrow> object_record" where
  "current s vol rt p =
     (case lookup s vol rt p of None \<Rightarrow> object_init p | Some d \<Rightarrow> as_record p (object_init []) d)"

definition change_record :: "sql_env \<Rightarrow> string \<Rightarrow> (int \<Rightarrow> object_record \<Rightarrow> object_record) \<Rightarrow> int \<Rightarrow> object_record \<Rightarrow> (string option) db" where
  "change_record e p f t o1 =
     (if special_path p then upsert_special_locked e (f t o1) else upsert_file_locked e (f t o1))"

lemma change_record_does:
  assumes "healthy e" and "ready s vol rt" and "key_ok p" and path: "\<And>t o1. or_path (f t o1) = or_path o1"
  shows "\<exists>s' t. iob (record_of e p) (\<lambda>o1. iob (now_secs e) (\<lambda>t. change_record e p f t o1)) s = Ret (None, s') \<and>
      stores vol rt s p (row_of (f t (current s vol rt p))) s'"
    and "\<exists>s'. iob (record_of e p) (\<lambda>o1. change_record e p f 0 o1) s = Ret (None, s') \<and>
      stores vol rt s p (row_of (f 0 (current s vol rt p))) s'"
proof -
  let ?o = "current s vol rt p"
  obtain k where k: "record_of e p s = Ret (?o, s\<lparr>st_ticks := k\<rparr>)"
    using does_result [OF record_of_does [OF assms(1,2), of p]] by (auto simp: current_def)
  let ?s = "s\<lparr>st_ticks := k\<rparr>"
  have r: "ready ?s vol rt" using assms(2) by simp
  have run: "\<exists>s'. change_record e p f t ?o ?s = Ret (None, s') \<and> stores vol rt s p (row_of (f t ?o)) s'" for t
  proof -
    have "or_path (f t ?o) = (if special_path p then cstr p else p) \<or> or_path (f t ?o) = p"
      using record_path [where l = "lookup s vol rt p" and p = p] by (simp add: path current_def split: if_splits)
    from change_does [OF assms(1) r assms(3) this] obtain s1
      where s1: "does (change_record e p f t ?o) ?s None s1" "stores vol rt ?s p (row_of (f t ?o)) s1"
      by (auto simp: change_record_def)
    from does_result [OF s1(1)] obtain l where "change_record e p f t ?o ?s = Ret (None, s1\<lparr>st_ticks := l\<rparr>)"
      by blast
    moreover have "stores vol rt s p (row_of (f t ?o)) (s1\<lparr>st_ticks := l\<rparr>)"
      using s1(2) by (simp add: stores_def)
    ultimately show ?thesis by blast
  qed
  show "\<exists>s'. iob (record_of e p) (\<lambda>o1. change_record e p f 0 o1) s = Ret (None, s') \<and>
      stores vol rt s p (row_of (f 0 ?o)) s'"
    using run [of 0] k by (simp add: iob_apply_Ret)
  show "\<exists>s' t. iob (record_of e p) (\<lambda>o1. iob (now_secs e) (\<lambda>t. change_record e p f t o1)) s = Ret (None, s') \<and>
      stores vol rt s p (row_of (f t ?o)) s'"
    using run [of "se_now e k"] k by (auto simp: iob_apply_Ret now_secs_def)
qed

lemma bump_massage_change:
  "bump_massage e p sz = iob (record_of e p) (\<lambda>o1. iob (now_secs e) (\<lambda>t.
     change_record e p (\<lambda>t o1. o1\<lparr>or_size := sz, or_last_massage := t, or_massage_count := or_massage_count o1 + 1\<rparr>) t o1))"
  by (simp add: bump_massage_def change_record_def Let_def)

lemma set_sha1_change:
  "set_sha1 e p sha = iob (record_of e p) (\<lambda>o1.
     change_record e p (\<lambda>t o1. o1\<lparr>or_sha1 := sha, or_has_sha1 := True\<rparr>) 0 o1)"
  by (simp add: set_sha1_def change_record_def Let_def)

lemma bump_verify_change:
  "bump_verify e p vs sha = iob (record_of e p) (\<lambda>o1. iob (now_secs e) (\<lambda>t.
     change_record e p (\<lambda>t o1. (case sha of None \<Rightarrow> o1 | Some b \<Rightarrow> o1\<lparr>or_sha1 := b, or_has_sha1 := True\<rparr>)
       \<lparr>or_verify_status := vs, or_verify_count :=
          or_verify_count (case sha of None \<Rightarrow> o1 | Some b \<Rightarrow> o1\<lparr>or_sha1 := b, or_has_sha1 := True\<rparr>) + 1,
        or_verified_at := t\<rparr>) t o1))"
  by (simp add: bump_verify_def change_record_def Let_def)

lemma stores_lookup:
  "stores vol rt s p d s' \<Longrightarrow> lookup s' vol rt p = Some (stored_row (lookup s vol rt p) d)"
  "stores vol rt s p d s' \<Longrightarrow> ready s' vol rt"
  by (simp_all add: stores_def)

lemma current_Some: "lookup s vol rt p = Some d \<Longrightarrow> current s vol rt p = as_record p (object_init []) d"
  by (simp add: current_def)

section \<open>Lemmas: the extents of a path\<close>

lemma extents_apart [simp]:
  "lookup (s\<lparr>st_extents := xs\<rparr>) vol rt q = lookup s vol rt q"
  "ready (s\<lparr>st_extents := xs\<rparr>) vol rt = ready s vol rt"
proof -
  have f: "find_folder v p n (s\<lparr>st_extents := xs\<rparr>) = find_folder v p n s" for v p n
    by (simp add: find_folder_def)
  have "resolve (s\<lparr>st_extents := xs\<rparr>) v p ds = resolve s v p ds" for v p ds
    by (induction ds arbitrary: p) (auto simp: f split: option.splits)
  then show "lookup (s\<lparr>st_extents := xs\<rparr>) vol rt q = lookup s vol rt q"
    by (auto simp: lookup_def object_rows_def file_rows_def split: prod.splits option.splits)
  show "ready (s\<lparr>st_extents := xs\<rparr>) vol rt = ready s vol rt"
    by (simp add: ready_def keys_ok_def linked_def f)
qed

text \<open>The rows of a path, and what they say.\<close>

definition path_extents :: "string \<Rightarrow> store \<Rightarrow> (int \<times> int \<times> int) list" where
  "path_extents p s =
     map (\<lambda>r. (ex_offset r, ex_length r, ex_status r)) (filter (\<lambda>r. ex_path r = cstr p) (st_extents s))"

definition extent_row_of :: "string \<Rightarrow> int \<Rightarrow> extent_record \<Rightarrow> extent_row" where
  "extent_row_of p now x = \<lparr>ex_path = p, ex_offset = er_offset x, ex_length = er_length x,
     ex_status = er_status x, ex_updated_at = now\<rparr>"

lemma blind_extents [simp]: "blind_stmt (delete_extents p)" "blind_stmt (insert_extent p now x)"
  by (simp_all add: blind_stmt_def delete_extents_def insert_extent_def)

lemma insert_extents_does:
  "healthy e \<Longrightarrow> does (insert_extents e p now xs) s None (s\<lparr>st_extents := st_extents s @ map (extent_row_of p now) xs\<rparr>)"
proof (induction xs arbitrary: s)
  case (Cons x xs)
  let ?s = "s\<lparr>st_extents := st_extents s @ [extent_row_of p now x]\<rparr>"
  have "does (step_stmt e (insert_extent p now x)) s None ?s"
    by (rule step_stmt_does [OF Cons.prems]) (simp_all add: insert_extent_def extent_row_of_def)
  then show ?case
    unfolding insert_extents.simps by (rule does_bind) (use Cons.IH [OF Cons.prems, of ?s] in simp)
qed (simp add: does_ret)

lemma replace_extents_does:
  assumes "healthy e" and "st_open s"
  shows "\<exists>now k. replace_extents e p xs s = Ret (None, 
    s\<lparr>st_extents := filter (\<lambda>r. ex_path r \<noteq> cstr p) (st_extents s) @ map (extent_row_of (cstr p) now) xs, st_ticks := k\<rparr>)"
proof -
  let ?s = "s\<lparr>st_extents := filter (\<lambda>r. ex_path r \<noteq> cstr p) (st_extents s)\<rparr>"
  have "does (run_stmt e (delete_extents (cstr p))) s None ?s"
    by (rule run_stmt_does [OF assms]) (simp_all add: delete_extents_def)
  from does_result [OF this] obtain k where k: "run_stmt e (delete_extents (cstr p)) s = Ret (None, ?s\<lparr>st_ticks := k\<rparr>)" by blast
  have pr: "prepare e (?s\<lparr>st_ticks := k\<rparr>) = Ret (None, ?s\<lparr>st_ticks := k + 1\<rparr>)"
    using prepare_healthy [OF assms(1), of "?s\<lparr>st_ticks := k\<rparr>"] assms(2) by simp
  obtain now where now: "now_secs e (?s\<lparr>st_ticks := k + 1\<rparr>) = Ret (now, ?s\<lparr>st_ticks := k + 1\<rparr>)"
    using now_secs_does [of e "?s\<lparr>st_ticks := k + 1\<rparr>"] by blast
  from does_result [OF insert_extents_does [OF assms(1), of "cstr p" now xs "?s\<lparr>st_ticks := k + 1\<rparr>"]]
  obtain l where "insert_extents e (cstr p) now xs (?s\<lparr>st_ticks := k + 1\<rparr>) =
      Ret (None, s\<lparr>st_extents := filter (\<lambda>r. ex_path r \<noteq> cstr p) (st_extents s) @
        map (extent_row_of (cstr p) now) xs, st_ticks := l\<rparr>)" by auto
  then have "replace_extents e p xs s = Ret (None, s\<lparr>st_extents := filter (\<lambda>r. ex_path r \<noteq> cstr p) (st_extents s) @
        map (extent_row_of (cstr p) now) xs, st_ticks := l\<rparr>)"
    using k pr now by (simp add: replace_extents_def iob_def)
  then show ?thesis by blast
qed

text \<open>The row of a path, or the one that it starts with.\<close>

definition row_at :: "store \<Rightarrow> int \<Rightarrow> int \<Rightarrow> string \<Rightarrow> row_data" where
  "row_at s vol rt p = (case lookup s vol rt p of None \<Rightarrow> row_of (object_init p) | Some d \<Rightarrow> d)"

lemma bump_massage_does:
  assumes "healthy e" and "ready s vol rt" and "key_ok p"
  shows "\<exists>s' t. bump_massage e p sz s = Ret (None, s') \<and> ready s' vol rt \<and> st_extents s' = st_extents s \<and>
    (\<forall>q. lookup s' vol rt q = (if path_key q = path_key p then
       Some ((row_at s vol rt p)\<lparr>rw_size := sz, rw_last_massage := t, rw_massage_count := rw_massage_count (row_at s vol rt p) + 1\<rparr>)
     else lookup s vol rt q))"
proof -
  let ?f = "\<lambda>t o1. o1\<lparr>or_size := sz, or_last_massage := t, or_massage_count := or_massage_count o1 + 1\<rparr>"
  obtain s' t where s': "bump_massage e p sz s = Ret (None, s')" "stores vol rt s p (row_of (?f t (current s vol rt p))) s'"
    using change_record_does(1) [OF assms, of ?f] by (auto simp: bump_massage_change)
  have "stored_row (lookup s vol rt p) (row_of (?f t (current s vol rt p))) =
      (row_at s vol rt p)\<lparr>rw_size := sz, rw_last_massage := t, rw_massage_count := rw_massage_count (row_at s vol rt p) + 1\<rparr>"
  proof (cases "lookup s vol rt p")
    case None
    then show ?thesis by (simp add: current_def stored_row_def row_at_def row_of_def object_init_def)
  next
    case (Some d)
    then show ?thesis
      by (cases d) (auto simp: current_Some [OF Some] stored_row_def row_at_def merge_row_def row_of_def as_record_def
          read_row_def read_sha1_def split: option.splits)
  qed
  then show ?thesis
    using s' by (intro exI [of _ s'] exI [of _ t]) (simp add: stores_def)
qed

section \<open>Properties: the store is a map\<close>

text \<open>C16: without failures the store behaves as a map from paths to records, whatever the tables
  look like inside: storing a record makes it the value of its path, with the old hash kept when
  it brings none, and changes no other path; reading gives the value back; paths that differ in
  slashes only are the same.  The catalog is again one of which this holds.\<close>

theorem store_refines_map:
  assumes "healthy e" and "ready s vol rt" and "key_ok (or_path o1)"
  shows "\<exists>s'. upsert_object e o1 s = Ret (None, s') \<and> ready s' vol rt \<and>
    (\<forall>q. lookup s' vol rt q =
       (if path_key q = path_key (or_path o1) then Some (stored_row (lookup s vol rt (or_path o1)) (row_of o1))
        else lookup s vol rt q)) \<and>
    (\<forall>q o0. \<exists>k. get_object e q o0 s' =
       Ret (Inr (map_option (as_record q o0) (lookup s' vol rt q)), s'\<lparr>st_ticks := k\<rparr>))"
proof -
  obtain s1 where k: "upsert_object e o1 s = Ret (None, s1)" and s1: "stores vol rt s (or_path o1) (row_of o1) s1"
    using upsert_object_does [OF assms] by blast
  let ?s = s1
  have r: "ready ?s vol rt" using s1 by (simp add: stores_def)
  have "\<exists>k. get_object e q o0 ?s = Ret (Inr (map_option (as_record q o0) (lookup ?s vol rt q)), ?s\<lparr>st_ticks := k\<rparr>)" for q o0
    by (rule get_object_does [OF assms(1) r])
  moreover have "\<forall>q. lookup ?s vol rt q = (if path_key q = path_key (or_path o1)
      then Some (stored_row (lookup s vol rt (or_path o1)) (row_of o1)) else lookup s vol rt q)"
    using s1 by (simp add: stores_def)
  ultimately show ?thesis using k r by blast
qed

text \<open>A catalog with a volume and its root folder, and an environment without failures, for the
  witnesses.\<close>

definition calm_env :: sql_env where
  "calm_env = \<lparr>se_prep = \<lambda>_. None, se_step = \<lambda>_. None, se_now = int, se_check = \<lambda>_. [Some ''ok'']\<rparr>"

definition new_store :: store where
  "new_store = \<lparr>st_open = True, st_path = ''db'', st_devices = [1], st_volumes = [1], st_objects = [],
     st_folders = [\<lparr>fd_id = 1, fd_vol = 1, fd_parent = 0, fd_name = []\<rparr>], st_files = [], st_extents = [],
     st_meta = [(vol_key, ''1'')], st_legacy = None, st_last = 1, st_ticks = 0\<rparr>"

lemma calm_healthy: "healthy calm_env"
  by (simp add: healthy_def calm_env_def)

lemma new_store_ready: "ready new_store 1 1"
proof -
  have "show_int 1 = ''1''"
    by (simp add: show_int_def) (subst dec_digits.simps, simp add: char_of_def bit_0)
  then show ?thesis
    by (simp add: ready_def new_store_def find_folder_def keys_ok_def linked_def)
qed

lemma usr_x_key: "split_file_path ''/usr/x'' = ([''usr''], ''x'')" "\<not> special_path ''/usr/x''"
  by (simp_all add: split_file_path_def strip_slashes_def special_path_def)

lemma usr_x_object: "key_ok (or_path (object_init ''/usr/x''))"
  by (simp add: key_ok_def path_key_def usr_x_key object_init_def cstr_def)

lemma store_refines_map_witness:
  "\<exists>s'. upsert_object calm_env (object_init ''/usr/x'') new_store = Ret (None, s') \<and> ready s' 1 1"
  using store_refines_map [OF calm_healthy new_store_ready usr_x_object] by blast

text \<open>Massaging a file is counted without losing anything: one more massage, the size and the
  time given, the hash and the verification as they were; nothing else changes.\<close>

theorem bump_massage_counts:
  assumes "healthy e" and "ready s vol rt" and "key_ok p" and "lookup s vol rt p = Some d"
  shows "\<exists>s' t. bump_massage e p sz s = Ret (None, s') \<and> ready s' vol rt \<and>
    (\<forall>q. lookup s' vol rt q = (if path_key q = path_key p then
       Some (d\<lparr>rw_size := sz, rw_last_massage := t, rw_massage_count := rw_massage_count d + 1\<rparr>)
     else lookup s vol rt q))"
  using bump_massage_does [OF assms(1-3), of sz] assms(4) by (auto simp: row_at_def)

definition usr_store :: store where
  "usr_store = new_store\<lparr>st_files := [\<lparr>fl_id = 1, fl_folder = 1, fl_name = ''x'',
     fl_data = row_of (object_init ''/x'')\<rparr>]\<rparr>"

lemma usr_store_ready: "ready usr_store 1 1"
  using new_store_ready
  by (simp add: ready_def usr_store_def keys_ok_def linked_def find_folder_def new_store_def)

lemma usr_store_lookup: "lookup usr_store 1 1 ''/x'' = Some (row_of (object_init ''/x''))" "key_ok ''/x''"
  by (simp_all add: lookup_def special_path_def split_file_path_def strip_slashes_def file_rows_def
      usr_store_def cstr_def key_ok_def path_key_def)

lemma bump_massage_counts_witness:
  "\<exists>s'. bump_massage calm_env ''/x'' 4096 usr_store = Ret (None, s') \<and>
     map_option rw_massage_count (lookup s' 1 1 ''/x'') = Some 1"
  using bump_massage_counts [OF calm_healthy usr_store_ready usr_store_lookup(2,1), of 4096]
  by (force simp: row_of_def object_init_def)

section \<open>Lemmas: what every operation keeps, failures included\<close>

text \<open>An observation of the tables that no statement of a routine changes; \<open>safe_stmt g f\<close> is what
  is to be shown of the statements.\<close>

definition safe_stmt :: "(store \<Rightarrow> bool) \<Rightarrow> (store \<Rightarrow> string + store) \<Rightarrow> bool" where
  "safe_stmt g f \<longleftrightarrow> (\<forall>s s'. g s \<longrightarrow> f s = Inr s' \<longrightarrow> g s')"

definition tickless :: "(store \<Rightarrow> bool) \<Rightarrow> bool" where
  "tickless g \<longleftrightarrow> (\<forall>s k. g (s\<lparr>st_ticks := k\<rparr>) = g s)"

abbreviation holds :: "(store \<Rightarrow> bool) \<Rightarrow> 'a db \<Rightarrow> bool" where
  "holds g m \<equiv> stays True True g m"

lemma holds_tick: "tickless g \<Longrightarrow> holds g tick"
  unfolding tick_def tickless_def by (intro stays_intros stays_upd) simp

lemma holds_prepare: "tickless g \<Longrightarrow> holds g (prepare e)"
  unfolding prepare_def by (intro stays_intros holds_tick)

lemma holds_step_stmt: "tickless g \<Longrightarrow> safe_stmt g f \<Longrightarrow> holds g (step_stmt e f)"
  unfolding step_stmt_def
proof (intro stays_bind holds_tick)
  fix n assume "safe_stmt g f"
  then have "holds g (iob (ioget f) (\<lambda>r. case r of Inl msg \<Rightarrow> ioret (Some msg)
      | Inr s \<Rightarrow> iob (ioupd (\<lambda>_. s)) (\<lambda>_. ioret None)))"
    by (auto simp: stays_def safe_stmt_def wpx_def iob_def split: sum.splits)
  then show "holds g (case se_step e n of Some (msg, _) \<Rightarrow> ioret (Some msg)
      | None \<Rightarrow> iob (ioget f) (\<lambda>r. case r of Inl msg \<Rightarrow> ioret (Some msg)
          | Inr s \<Rightarrow> iob (ioupd (\<lambda>_. s)) (\<lambda>_. ioret None)))"
    by (auto intro: stays_intros split: option.split)
qed

lemma holds_run_stmt: "tickless g \<Longrightarrow> safe_stmt g f \<Longrightarrow> holds g (run_stmt e f)"
  unfolding run_stmt_def by (intro stays_intros holds_prepare holds_step_stmt)

lemma holds_run_query: "tickless g \<Longrightarrow> holds g (run_query e q)"
  unfolding run_query_def by (intro stays_intros holds_prepare holds_tick)

lemma holds_query_first: "tickless g \<Longrightarrow> holds g (query_first e q)"
  unfolding query_first_def by (intro stays_intros holds_run_query)

lemma holds_last_insert_rowid: "holds g last_insert_rowid"
  unfolding last_insert_rowid_def by (intro stays_intros)

lemma holds_now_secs: "holds g (now_secs e)"
  unfolding now_secs_def by (intro stays_intros)

text \<open>The statements that make volumes, folders, settings and rows.\<close>

definition safe_inserts :: "(store \<Rightarrow> bool) \<Rightarrow> bool" where
  "safe_inserts g \<longleftrightarrow> tickless g \<and> safe_stmt g insert_device \<and> (\<forall>dev. safe_stmt g (insert_volume dev)) \<and>
     (\<forall>v p n. safe_stmt g (insert_folder v p n)) \<and> (\<forall>k v. safe_stmt g (upsert_meta k v)) \<and>
     (\<forall>v ty d. safe_stmt g (upsert_object_row v ty d)) \<and> (\<forall>f n d. safe_stmt g (upsert_file_row f n d))"

lemma holds_ensure_root: "safe_inserts g \<Longrightarrow> holds g (ensure_root_folder_locked e vol)"
  unfolding ensure_root_folder_locked_def safe_inserts_def
  by (intro stays_intros holds_query_first holds_run_stmt holds_last_insert_rowid) blast+

lemma holds_set_meta: "safe_inserts g \<Longrightarrow> holds g (set_meta e k v)"
  unfolding set_meta_def safe_inserts_def by (intro stays_intros holds_run_stmt) blast+

lemma holds_ensure_volume:
  assumes "safe_inserts g"
  shows "holds g (ensure_volume_locked e)"
  using assms unfolding ensure_volume_locked_def Let_def
  by (intro stays_intros holds_ensure_root holds_set_meta holds_query_first holds_run_stmt
      holds_last_insert_rowid) (simp_all add: safe_inserts_def)

lemma holds_ensure_folder: "safe_inserts g \<Longrightarrow> holds g (ensure_folder_locked e vol parent name)"
  unfolding ensure_folder_locked_def
  by (intro stays_bind holds_run_query)
    (auto simp: safe_inserts_def split: sum.split list.split
      intro!: stays_intros holds_run_stmt holds_last_insert_rowid)

lemma holds_ensure_folders: "safe_inserts g \<Longrightarrow> holds g (ensure_folders e vol parent ds)"
  by (induction ds arbitrary: parent) (auto intro!: stays_intros holds_ensure_folder)

lemma holds_find_folders: "tickless g \<Longrightarrow> holds g (find_folders e vol parent ds)"
  by (induction ds arbitrary: parent) (auto intro!: stays_intros holds_query_first)

lemma holds_upsert_special: "safe_inserts g \<Longrightarrow> holds g (upsert_special_locked e o1)"
  unfolding upsert_special_locked_def
  by (intro stays_intros holds_ensure_volume holds_run_stmt) (simp_all add: safe_inserts_def)

lemma holds_upsert_file: "safe_inserts g \<Longrightarrow> holds g (upsert_file_locked e o1)"
  unfolding upsert_file_locked_def
  by (intro stays_intros holds_ensure_volume holds_ensure_root holds_ensure_folders holds_run_stmt)
    (simp_all add: safe_inserts_def)

lemma holds_get_special: "safe_inserts g \<Longrightarrow> holds g (get_special_locked e p o1)"
  unfolding get_special_locked_def
  by (intro stays_intros holds_ensure_volume holds_query_first) (simp_all add: safe_inserts_def)

lemma holds_get_file: "safe_inserts g \<Longrightarrow> holds g (get_file_locked e p o1)"
  unfolding get_file_locked_def
  by (intro stays_intros holds_ensure_volume holds_ensure_root holds_find_folders holds_query_first)
    (simp_all add: safe_inserts_def)

lemma holds_record_of: "safe_inserts g \<Longrightarrow> holds g (record_of e p)"
  unfolding record_of_def get_locked_def by (intro stays_intros holds_get_special holds_get_file)

lemmas holds_objects = holds_upsert_special holds_upsert_file holds_record_of holds_now_secs
  holds_get_special holds_get_file

section \<open>Every operation, in any order\<close>

datatype store_op =
    SUpsert object_record
  | SGet string
  | SBumpMassage string int
  | SSetSha1 string bytes
  | SBumpVerify string verify_status "bytes option"
  | SListObjects
  | SReplaceExtents string "extent_record list"
  | SSetMeta string string
  | SGetMeta string
  | SBadExtents
  | SSha1Days
  | SSetSha1Days int
  | SVolume
  | SEnsureFolder int string
  | SListDir int
  | SCount
  | SDeleteFile string
  | SDeleteFolder int
  | SCheck
  | SImport
  | SClose

definition skip_result :: "'a db \<Rightarrow> unit db" where
  "skip_result m = iob m (\<lambda>_. ioret ())"

fun run_store_op :: "nat \<Rightarrow> sql_env \<Rightarrow> store_op \<Rightarrow> unit db" where
  "run_store_op fuel e (SUpsert o1) = skip_result (upsert_object e o1)"
| "run_store_op fuel e (SGet p) = skip_result (get_object e p (object_init []))"
| "run_store_op fuel e (SBumpMassage p n) = skip_result (bump_massage e p n)"
| "run_store_op fuel e (SSetSha1 p b) = skip_result (set_sha1 e p b)"
| "run_store_op fuel e (SBumpVerify p v b) = skip_result (bump_verify e p v b)"
| "run_store_op fuel e SListObjects = skip_result (list_objects e)"
| "run_store_op fuel e (SReplaceExtents p xs) = skip_result (replace_extents e p xs)"
| "run_store_op fuel e (SSetMeta k v) = skip_result (set_meta e k v)"
| "run_store_op fuel e (SGetMeta k) = skip_result (get_meta e k)"
| "run_store_op fuel e SBadExtents = skip_result (bad_extents e)"
| "run_store_op fuel e SSha1Days = skip_result (sha1_valid_days e)"
| "run_store_op fuel e (SSetSha1Days n) = skip_result (set_sha1_valid_days e n)"
| "run_store_op fuel e SVolume = skip_result (current_volume_id e)"
| "run_store_op fuel e (SEnsureFolder p n) = skip_result (ensure_folder e p n)"
| "run_store_op fuel e (SListDir i) = skip_result (list_db_dir e i)"
| "run_store_op fuel e SCount = skip_result (file_record_count e)"
| "run_store_op fuel e (SDeleteFile p) = skip_result (delete_file e p)"
| "run_store_op fuel e (SDeleteFolder i) = skip_result (delete_folder fuel e i)"
| "run_store_op fuel e SCheck = skip_result (check_integrity e)"
| "run_store_op fuel e SImport = skip_result (import_legacy_objects e)"
| "run_store_op fuel e SClose = close_store"

fun run_store_ops :: "nat \<Rightarrow> sql_env \<Rightarrow> store_op list \<Rightarrow> unit db" where
  "run_store_ops fuel e [] = ioret ()"
| "run_store_ops fuel e (op # ops) = iob (run_store_op fuel e op) (\<lambda>_. run_store_ops fuel e ops)"

text \<open>The other statements of the operations.\<close>

definition safe_all :: "(store \<Rightarrow> bool) \<Rightarrow> bool" where
  "safe_all g \<longleftrightarrow> safe_inserts g \<and> (\<forall>p. safe_stmt g (delete_extents p)) \<and>
     (\<forall>p t x. safe_stmt g (insert_extent p t x)) \<and> (\<forall>v ty. safe_stmt g (delete_object_row v ty)) \<and>
     (\<forall>f n. safe_stmt g (delete_file_row f n)) \<and> (\<forall>i. safe_stmt g (delete_folder_files i)) \<and>
     (\<forall>i. safe_stmt g (delete_folder_row i)) \<and> safe_stmt g (\<lambda>s. Inr (s\<lparr>st_legacy := None\<rparr>)) \<and>
     (\<forall>s. g s \<longrightarrow> g (s\<lparr>st_open := False, st_path := []\<rparr>))"

lemma safe_allD:
  "safe_all g \<Longrightarrow> safe_inserts g" "safe_all g \<Longrightarrow> tickless g"
  by (simp_all add: safe_all_def safe_inserts_def)

lemma holds_skip: "holds g m \<Longrightarrow> holds g (skip_result m)"
  unfolding skip_result_def by (intro stays_intros)

lemma holds_insert_extents: "safe_all g \<Longrightarrow> holds g (insert_extents e p t xs)"
  by (induction xs) (auto intro!: stays_intros holds_step_stmt simp: safe_allD safe_all_def)

lemma holds_replace_extents: "safe_all g \<Longrightarrow> holds g (replace_extents e p xs)"
  unfolding replace_extents_def
  by (intro stays_intros holds_run_stmt holds_prepare holds_now_secs holds_insert_extents)
    (simp_all add: safe_allD, simp add: safe_all_def)

lemma holds_drop_row: "safe_all g \<Longrightarrow> safe_stmt g f \<Longrightarrow> holds g (drop_row e p f)"
  unfolding drop_row_def
  by (intro stays_bind holds_run_stmt)
    (auto simp: safe_allD intro!: stays_intros holds_replace_extents split: option.split sql_error.split)

lemma holds_delete_file:
  assumes "safe_all g"
  shows "holds g (delete_file e p)"
  using assms safe_allD [OF assms] unfolding delete_file_def
  by (intro stays_intros holds_ensure_volume holds_ensure_root holds_ensure_folders holds_get_file holds_drop_row)
    (simp_all add: safe_all_def)

lemma holds_delete_children: "(\<And>c. holds g (rec c)) \<Longrightarrow> holds g (delete_children rec cs)"
  by (induction cs) (auto intro!: stays_intros)

lemma holds_delete_folder:
  assumes "safe_inserts g" and "\<And>i. safe_stmt g (delete_folder_files i)" and "\<And>i. safe_stmt g (delete_folder_row i)"
  shows "holds g (delete_folder fuel e i)"
proof (induction fuel arbitrary: i)
  case (Suc fuel)
  have "tickless g" using assms(1) by (simp add: safe_inserts_def)
  then show ?case
    unfolding delete_folder.simps
    by (intro stays_intros holds_ensure_volume holds_ensure_root holds_run_query holds_delete_children Suc
        holds_run_stmt assms)
qed (simp add: stays_intros)

lemma holds_import_rows: "safe_inserts g \<Longrightarrow> holds g (import_rows e os)"
  by (induction os) (auto intro!: stays_intros holds_objects)

lemma holds_import: "safe_all g \<Longrightarrow> holds g (import_legacy_objects e)"
  unfolding import_legacy_objects_def table_exists_def
  by (intro stays_intros holds_query_first holds_run_query holds_import_rows holds_run_stmt)
    (simp_all add: safe_allD, simp add: safe_all_def)

lemma holds_store_op:
  assumes "safe_all g"
  shows "holds g (run_store_op fuel e op)"
proof -
  note g = safe_allD [OF assms]
  have del: "holds g (delete_folder fuel e i)" for i
    by (rule holds_delete_folder) (use assms in \<open>simp_all add: safe_all_def\<close>)
  have close: "holds g close_store"
    unfolding close_store_def by (rule stays_upd) (use assms in \<open>simp add: safe_all_def\<close>)
  show ?thesis
    using assms g
    by (cases op;
        simp only: run_store_op.simps upsert_object_def upsert_locked_def get_object_def get_locked_def
          bump_massage_def set_sha1_def bump_verify_def list_objects_def Let_def get_meta_def
          bad_extents_def sha1_valid_days_def set_sha1_valid_days_def current_volume_id_def
          ensure_folder_def list_db_dir_def file_record_count_def check_integrity_def;
        (intro holds_skip stays_intros holds_objects holds_ensure_volume holds_ensure_root
          holds_ensure_folder holds_set_meta holds_run_query holds_query_first holds_replace_extents
          holds_delete_file holds_import del close)?)
qed

lemma holds_store_ops: "safe_all g \<Longrightarrow> holds g (run_store_ops fuel e ops)"
  by (induction ops) (auto intro!: stays_intros holds_store_op)

section \<open>Properties that hold whatever fails\<close>

lemma keys_safe_inserts: "safe_inserts keys_ok"
proof -
  have "safe_stmt keys_ok (insert_folder v p n)" for v p n
    unfolding safe_stmt_def
  proof (intro allI impI)
    fix s s' assume k: "keys_ok s" and i: "insert_folder v p n s = Inr s'"
    then have none: "first_row (find_folder v p n s) = None"
      by (auto simp: find_folder_None insert_folder_def split: if_splits)
    then show "keys_ok s'" using keys_ok_add [OF k none] i by (simp add: insert_folder_add)
  qed
  moreover have "safe_stmt keys_ok (upsert_meta k v)" for k v
    by (auto simp: safe_stmt_def keys_ok_def upsert_meta_def distinct_update)
  moreover have "safe_stmt keys_ok (upsert_object_row v ty d)" "safe_stmt keys_ok (upsert_file_row f n d)" for v ty d f n
    by (auto simp: safe_stmt_def upsert_put keys_ok_put)
  moreover have "safe_stmt keys_ok insert_device" "safe_stmt keys_ok (insert_volume dev)" for dev
    by (auto simp: safe_stmt_def keys_ok_def insert_device_def insert_volume_def Let_def)
  ultimately show ?thesis by (simp add: safe_inserts_def tickless_def keys_ok_def)
qed

lemma distinct_map_filter_ok: "distinct (map k xs) \<Longrightarrow> distinct (map k (filter P xs))"
  by (simp add: distinct_map_filter)

lemma keys_safe_all: "safe_all keys_ok"
  using keys_safe_inserts
  by (auto simp: safe_all_def safe_stmt_def keys_ok_def delete_extents_def insert_extent_def
      delete_object_row_def delete_file_row_def delete_folder_files_def delete_folder_row_def
      distinct_map_filter_ok)



text \<open>Deleting a folder, whatever happens, leaves every extent row in place, also those of the
  files that it deletes; they stay behind without an owner, unlike those of a file that is deleted
  by its path.\<close>

theorem delete_folder_keeps_extents:
  assumes "delete_folder fuel e i s = Ret (r, s')"
  shows "st_extents s' = st_extents s"
proof -
  let ?g = "\<lambda>s'. st_extents s' = st_extents s"
  have "safe_inserts ?g"
    by (auto simp: safe_inserts_def tickless_def safe_stmt_def insert_device_def insert_volume_def
        insert_folder_def upsert_meta_def upsert_put Let_def split: if_splits)
  moreover have "safe_stmt ?g (delete_folder_files i)" "safe_stmt ?g (delete_folder_row i)" for i
    by (auto simp: safe_stmt_def delete_folder_files_def delete_folder_row_def)
  ultimately have "holds ?g (delete_folder fuel e i)" by (rule holds_delete_folder)
  from staysD [OF this refl assms] show ?thesis .
qed

lemma delete_folder_keeps_extents_witness:
  "\<exists>s'. delete_folder 1 calm_env 0 (new_store\<lparr>st_extents := [\<lparr>ex_path = ''/x'', ex_offset = 0, ex_length = 512,
       ex_status = 1, ex_updated_at = 0\<rparr>]\<rparr>) = Ret (None, s') \<and> length (st_extents s') = 1"
  using delete_folder_keeps_extents [of 1 calm_env 0 "new_store\<lparr>st_extents := [\<lparr>ex_path = ''/x'', ex_offset = 0,
       ex_length = 512, ex_status = 1, ex_updated_at = 0\<rparr>]\<rparr>" None]
  by (simp add: iob_def new_store_def)

text \<open>The number of days for which a hash counts is always positive, whatever the settings table
  holds and whatever fails; and a number that is set is the number that is read.\<close>

theorem sha1_days_setting:
  assumes "healthy e" and "st_open s" and "days < 2 ^ 31"
  shows "(\<exists>s1 s2. set_sha1_valid_days e days s = Ret (None, s1) \<and> sha1_valid_days e s1 = Ret (max 1 days, s2)) \<and>
    (\<forall>e' s' n s''. sha1_valid_days e' s' = Ret (n, s'') \<longrightarrow> 1 \<le> n)"
proof
  let ?key = "''sha1_valid_days''" and ?v = "show_int (max 1 days)"
  have key: "cstr ?key = ?key" by (simp add: cstr_def)
  let ?s = "s\<lparr>st_meta := AList.update ?key ?v (st_meta s)\<rparr>"
  have "(if days < 1 then 1 else days) = max 1 days" by simp
  then have "does (set_sha1_valid_days e days) s None ?s"
    unfolding set_sha1_valid_days_def set_meta_def
    by (intro does_lift [OF run_stmt_does [OF assms(1,2) blind_stmts(4)]])
      (simp_all only: upsert_meta_def key cstr_show_int option.case)
  then obtain k where k: "set_sha1_valid_days e days s = Ret (None, ?s\<lparr>st_ticks := k\<rparr>)"
    using does_result [of "set_sha1_valid_days e days" s None ?s] by blast
  let ?s1 = "?s\<lparr>st_ticks := k\<rparr>"
  have n: "c_atoi ?v = max 1 days"
    using assms(3) by (simp add: c_atoi_def strtoll_show_int signed_take_bit_int_eq_self)
  have rows: "meta_rows ?key ?s1 = [?v]" by (simp add: meta_rows_def update_conv')
  have "does (get_meta e ?key) ?s1 (Inr (Some ?v)) ?s1"
    unfolding get_meta_def key
    by (rule does_lift [OF run_query_does [OF assms(1) _ blind_queries(4)]]) (use assms(2) rows in simp_all)
  then have "does (sha1_valid_days e) ?s1 (max 1 days) ?s1"
    unfolding sha1_valid_days_def by (rule does_lift) (auto simp: n less_max_iff_disj)
  then show "\<exists>s1 s2. set_sha1_valid_days e days s = Ret (None, s1) \<and> sha1_valid_days e s1 = Ret (max 1 days, s2)"
    using k does_result [of "sha1_valid_days e" ?s1 "max 1 days" ?s1] by blast
next
  have "1 \<le> n" if "sha1_valid_days e' s' = Ret (n, s'')" for e' s' n s''
    using that by (cases "get_meta e' ''sha1_valid_days'' s'")
      (auto simp: sha1_valid_days_def iob_def default_sha1_days_def split: sum.splits option.splits if_splits)
  then show "\<forall>e' s' n s''. sha1_valid_days e' s' = Ret (n, s'') \<longrightarrow> 1 \<le> n" by blast
qed

lemma sha1_days_setting_witness:
  "\<exists>s1 s2. set_sha1_valid_days calm_env 90 new_store = Ret (None, s1) \<and> sha1_valid_days calm_env s1 = Ret (90, s2)"
  using conjunct1 [OF sha1_days_setting [OF calm_healthy, of new_store 90]] by (simp add: new_store_def)

end
