(* ===== verification/Pause.thy ===== *)
theory Pause
  imports Sys
begin

text \<open>
  \<open>PauseControl\<close> (\<open>src/engine/pause.hpp\<close>, \<open>pause.cpp\<close>): two flags that the
  user-interface threads set and the worker polls between blocks.  The flags and their four
  writers are \<open>pause_ctl\<close>; the worker's \<open>wait_if_paused\<close> reads them through the loads of
  \<open>sys\<close>, since other threads may have written between any two of its reads.  The second half
  instantiates these loads with an explicit interleaving: a list of batches of operations,
  one batch taking effect before each load.
\<close>

section \<open>The flags\<close>

record pause_ctl =
  paused_flag :: bool
  stop_flag :: bool

definition pause_init :: pause_ctl where
  "pause_init = \<lparr>paused_flag = False, stop_flag = False\<rparr>"

datatype pause_op = OpPause | OpResume | OpStop | OpReset

fun pause_step :: "pause_op \<Rightarrow> pause_ctl \<Rightarrow> pause_ctl" where
  "pause_step OpPause c = c\<lparr>paused_flag := True\<rparr>"
| "pause_step OpResume c = c\<lparr>paused_flag := False\<rparr>"
| "pause_step OpStop c = c\<lparr>stop_flag := True\<rparr>"
| "pause_step OpReset c = c\<lparr>paused_flag := False, stop_flag := False\<rparr>"

abbreviation pause_run :: "pause_op list \<Rightarrow> pause_ctl \<Rightarrow> pause_ctl" where
  "pause_run \<equiv> fold pause_step"

lemma stop_sticky: "OpReset \<notin> set ops \<Longrightarrow> stop_flag c \<Longrightarrow> stop_flag (pause_run ops c)"
proof (induction ops arbitrary: c)
  case (Cons x ops)
  then show ?case by (cases x) auto
qed simp

section \<open>The worker's wait\<close>

definition stop_requested :: "'w sys \<Rightarrow> (('w, 'z) mach_scheme, bool) io" where
  "stop_requested os = sysc (sys_load_stop os)"

fun wait_loop :: "nat \<Rightarrow> 'w sys \<Rightarrow> (('w, 'z) mach_scheme, bool) io" where
  "wait_loop 0 os = iostuck"
| "wait_loop (Suc n) os =
     iob (sysc (sys_load_paused os)) (\<lambda>paused.
       if paused then
         iob (sysc (sys_load_stop os)) (\<lambda>stop.
           if stop then ioret False else wait_loop n os)
       else
         iob (sysc (sys_load_stop os)) (\<lambda>stop. ioret (\<not> stop)))"

definition wait_if_paused :: "'w sys \<Rightarrow> (('w, 'z) mach_scheme, bool) io" where
  "wait_if_paused os = wait_loop (sys_fuel os) os"

text \<open>The wait only loads flags: it traps on no input and touches nothing but the world.\<close>

definition loads_keep :: "'w sys \<Rightarrow> ('w \<Rightarrow> 'c) \<Rightarrow> bool" where
  "loads_keep os g \<longleftrightarrow>
     (\<forall>w. g (snd (sys_load_paused os w)) = g w) \<and> (\<forall>w. g (snd (sys_load_stop os w)) = g w)"

lemma wait_loop_frame:
  assumes "loads_keep os g"
  shows "wp (wait_loop n os) (\<lambda>_ s'. \<exists>w'. s' = s\<lparr>world := w'\<rparr> \<and> g w' = g (world s)) s"
proof (induction n arbitrary: s)
  case 0
  show ?case by simp
next
  case (Suc n)
  have IH: "wp (wait_loop n os) (\<lambda>_ s'. \<exists>w'. s' = s\<lparr>world := w'\<rparr> \<and> g w' = g (world s))
      (s\<lparr>world := w\<rparr>)" if "g w = g (world s)" for w
    using Suc [of "s\<lparr>world := w\<rparr>"] that by (auto elim!: wpx_weaken)
  have keep: "g (snd (sys_load_paused os w)) = g w" "g (snd (sys_load_stop os w)) = g w" for w
    using assms by (auto simp: loads_keep_def)
  show ?case
    by (auto split: prod.splits intro!: IH) (metis keep snd_conv)+
qed

lemma wait_if_paused_frame:
  "loads_keep os g \<Longrightarrow>
   wp (wait_if_paused os) (\<lambda>_ s'. \<exists>w'. s' = s\<lparr>world := w'\<rparr> \<and> g w' = g (world s)) s"
  unfolding wait_if_paused_def by (rule wait_loop_frame)

lemma loads_keep_posix: "posix_quiet os content \<Longrightarrow> loads_keep os content"
  by (simp add: posix_quiet_def loads_keep_def)

section \<open>Interleaving with the writers\<close>

record pause_world =
  ctl :: pause_ctl
  sched :: "pause_op list list"

definition sched_load :: "(pause_ctl \<Rightarrow> bool) \<Rightarrow> pause_world \<Rightarrow> bool \<times> pause_world" where
  "sched_load sel w =
     (case sched w of
        [] \<Rightarrow> (sel (ctl w), w)
      | ops # rest \<Rightarrow>
          (let c = pause_run ops (ctl w) in (sel c, w\<lparr>ctl := c, sched := rest\<rparr>)))"

definition pause_sched :: "pause_world sys \<Rightarrow> bool" where
  "pause_sched os \<longleftrightarrow>
     sys_load_paused os = sched_load paused_flag \<and> sys_load_stop os = sched_load stop_flag"

lemma sched_load_Nil: "sched w = [] \<Longrightarrow> sched_load sel w = (sel (ctl w), w)"
  by (simp add: sched_load_def)

lemma sched_load_result: "sched_load sel w = (b, w') \<Longrightarrow> b = sel (ctl w')"
  by (auto simp: sched_load_def Let_def split: list.splits)

lemma sched_load_shrinks: "sched_load sel w = (b, w') \<Longrightarrow> length (sched w') = length (sched w) - 1"
  by (auto simp: sched_load_def Let_def split: list.splits)

lemma sched_load_final:
  "sched_load sel w = (b, w') \<Longrightarrow>
   pause_run (concat (sched w')) (ctl w') = pause_run (concat (sched w)) (ctl w)"
  by (auto simp: sched_load_def Let_def split: list.splits)

text \<open>The value returned is what the stop flag said at the last load; \<open>True\<close> means that no
  stop had been requested by then.\<close>

lemma wait_loop_result:
  assumes "pause_sched os"
  shows "wlp (wait_loop n os) (\<lambda>b s'. b \<longleftrightarrow> \<not> stop_flag (ctl (world s'))) s"
proof (induction n arbitrary: s)
  case 0
  show ?case by simp
next
  case (Suc n)
  show ?case
    using assms sched_load_result [of stop_flag] Suc
    by (auto simp: pause_sched_def split: prod.splits)
qed

text \<open>
  The wait comes back once the schedule has run out in a state that is not "paused and not
  stopped": every turn of the loop consumes at least one batch while there is one.
\<close>

lemma wait_loop_returns:
  assumes "pause_sched os"
    and "pause_run (concat (sched (world s))) (ctl (world s)) = c"
    and "\<not> paused_flag c \<or> stop_flag c"
    and "length (sched (world s)) < n"
  shows "twp (wait_loop n os) (\<lambda>_ _. True) s"
  using assms(2,4)
proof (induction n arbitrary: s)
  case 0
  then show ?case by simp
next
  case (Suc n)
  note os = assms(1) [unfolded pause_sched_def]
  obtain p w1 where p: "sched_load paused_flag (world s) = (p, w1)" by force
  obtain st w2 where st: "sched_load stop_flag w1 = (st, w2)" by force
  have run: "pause_run (concat (sched w2)) (ctl w2) = c"
    using sched_load_final [OF p] sched_load_final [OF st] Suc.prems(1) by simp
  have "twp (wait_loop n os) (\<lambda>_ _. True) (s\<lparr>world := w2\<rparr>)" if "p" "\<not> st"
  proof (rule Suc.IH)
    show "pause_run (concat (sched (world (s\<lparr>world := w2\<rparr>)))) (ctl (world (s\<lparr>world := w2\<rparr>))) = c"
      using run by simp
    have "sched (world s) \<noteq> []"
    proof
      assume "sched (world s) = []"
      then have "w2 = world s" "p = paused_flag (ctl (world s))" "st = stop_flag (ctl (world s))"
        using p st by (auto simp: sched_load_def)
      then show False using that assms(3) Suc.prems(1) \<open>sched (world s) = []\<close> by simp
    qed
    then show "length (sched (world (s\<lparr>world := w2\<rparr>))) < n"
      using Suc.prems(2) sched_load_shrinks [OF p] sched_load_shrinks [OF st]
      by (cases "sched (world s)") auto
  qed
  then show ?case
    using os p st by (auto split: prod.splits)
qed

end
