(* ===== verification/Progress.thy ===== *)
theory Progress
  imports Pause
begin

text \<open>
  \<open>Progress\<close> (\<open>src/engine/progress.hpp\<close>, \<open>progress.cpp\<close>): the counters, the cell map and
  the log that the worker writes and the user interface reads.  Each member function is an
  operation on the record \<open>progress\<close>; those that read a clock take the time they read as an
  argument, and the last section reads the clocks through \<open>sys\<close>.  The mutex makes every
  member function one atomic step, so a run of the object is a list of operations.

  The transfer rate and the estimated time are \<open>double\<close> in the program; here they are exact
  rationals.  Everything else is computed at the program's widths.
\<close>

section \<open>Data\<close>

datatype cell_status = Pending | CellOk | ReadErr | WriteErr | Cached

datatype log_level = LTrace | LDebug | LInfo | LWarn | LError

record log_entry =
  le_offset :: u64
  le_length :: u64
  le_message :: string
  le_status :: cell_status
  le_level :: log_level
  le_time :: int

record progress =
  p_bytes_done :: u64
  p_bytes_total :: u64
  p_block_size :: u64
  p_cell_size :: u64
  p_cell_shift :: nat
  p_rate :: rat
  p_eta :: rat
  p_start_time :: rat
  p_paused :: bool
  p_finished :: bool
  p_failed :: bool
  p_input_locked :: bool
  p_phase :: string
  p_cells :: "cell_status list"
  p_logs :: "log_entry list"
  p_pending_logs :: "log_entry list"
  p_last_bytes :: u64
  p_last_time :: rat

definition progress_init :: progress where
  "progress_init =
     \<lparr>p_bytes_done = 0, p_bytes_total = 0, p_block_size = 4096, p_cell_size = 4096,
      p_cell_shift = 0, p_rate = 0, p_eta = -1, p_start_time = 0, p_paused = False,
      p_finished = False, p_failed = False, p_input_locked = False, p_phase = [],
      p_cells = [], p_logs = [], p_pending_logs = [], p_last_bytes = 0, p_last_time = 0\<rparr>"

definition is_error :: "cell_status \<Rightarrow> bool" where
  "is_error c \<longleftrightarrow> c = ReadErr \<or> c = WriteErr"

section \<open>The cell map\<close>

text \<open>The loop of \<open>reset\<close> that doubles the cell size until at most 4096 cells are left.\<close>

function shift_loop :: "u64 \<Rightarrow> nat \<Rightarrow> u64 \<times> nat" where
  "shift_loop cells sh =
     (if 4096 < cells \<and> sh < 40 then shift_loop ((cells + 1) div 2) (sh + 1) else (cells, sh))"
  by pat_completeness auto
termination
  by (relation "measure (\<lambda>(_, sh). 40 - sh)") auto

declare shift_loop.simps [simp del]

definition progress_reset :: "rat \<Rightarrow> u64 \<Rightarrow> u64 \<Rightarrow> progress \<Rightarrow> progress" where
  "progress_reset now tot bs0 p =
     (let bs = (if bs0 \<noteq> 0 then bs0 else 4096);
          cells = (if tot \<noteq> 0 then (tot + bs - 1) div bs else 1);
          sh = snd (shift_loop cells 0);
          cs = push_bit sh bs;
          n0 = (if tot \<noteq> 0 then (tot + cs - 1) div cs else 1);
          n = (if n0 = 0 then 1 else n0)
      in p\<lparr>p_bytes_total := tot, p_bytes_done := 0, p_block_size := bs, p_cell_shift := sh,
           p_cell_size := cs, p_cells := replicate (unat n) Pending, p_rate := 0, p_eta := -1,
           p_paused := False, p_finished := False, p_failed := False, p_input_locked := False,
           p_phase := [], p_logs := [], p_pending_logs := [], p_last_bytes := 0,
           p_last_time := now, p_start_time := now\<rparr>)"

text \<open>The new status of one cell: errors always win, and are never cleared by the others.\<close>

definition cell_merge :: "cell_status \<Rightarrow> cell_status \<Rightarrow> cell_status" where
  "cell_merge st cur =
     (if st = ReadErr \<or> st = WriteErr then st
      else if st = CellOk then
        (if cur = Pending \<or> cur = Cached \<or> cur = CellOk then CellOk else cur)
      else if st = Cached then
        (if cur = Pending \<or> cur = Cached then Cached else cur)
      else if cur = Pending then st else cur)"

function mark_loop :: "nat \<Rightarrow> nat \<Rightarrow> cell_status \<Rightarrow> cell_status list \<Rightarrow> cell_status list" where
  "mark_loop i stop st cells =
     (if i \<le> stop \<and> i < length cells
      then mark_loop (i + 1) stop st (cells[i := cell_merge st (cells ! i)]) else cells)"
  by pat_completeness auto
termination
  by (relation "measure (\<lambda>(i, _, _, cells). length cells - i)") auto

declare mark_loop.simps [simp del]

definition mark_cell :: "u64 \<Rightarrow> u64 \<Rightarrow> cell_status \<Rightarrow> progress \<Rightarrow> progress" where
  "mark_cell off len st p =
     (if p_cells p = [] \<or> p_cell_size p = 0 then p
      else
        let start = off div p_cell_size p;
            stop = (off + (if len \<noteq> 0 then len else 1) - 1) div p_cell_size p
        in p\<lparr>p_cells := mark_loop (unat start) (unat stop) st (p_cells p)\<rparr>)"

definition count_cells :: "cell_status \<Rightarrow> progress \<Rightarrow> nat" where
  "count_cells st p = foldl (\<lambda>n c. if c = st then n + 1 else n) 0 (p_cells p)"

definition upgrade_cached_to_ok :: "progress \<Rightarrow> progress" where
  "upgrade_cached_to_ok p =
     p\<lparr>p_cells := map (\<lambda>c. if c = Cached then CellOk else c) (p_cells p)\<rparr>"

section \<open>Counters and rate\<close>

definition recompute_rate :: "rat \<Rightarrow> progress \<Rightarrow> progress" where
  "recompute_rate t p =
     (let dt = t - p_last_time p
      in if 1 / 4 \<le> dt then
           let db = of_nat (unat (p_bytes_done p - p_last_bytes p));
               instant = db / dt;
               rate = (if 0 < p_rate p then p_rate p * (7 / 10) + instant * (3 / 10) else instant)
           in p\<lparr>p_rate := rate, p_last_bytes := p_bytes_done p, p_last_time := t,
                p_eta := (if 1 < rate \<and> p_bytes_done p < p_bytes_total p
                          then of_nat (unat (p_bytes_total p - p_bytes_done p)) / rate
                          else if p_bytes_total p \<le> p_bytes_done p then 0 else -1)\<rparr>
         else p)"

definition add_done :: "rat \<Rightarrow> u64 \<Rightarrow> progress \<Rightarrow> progress" where
  "add_done t n p =
     (let d = p_bytes_done p + n
      in recompute_rate t
           (p\<lparr>p_bytes_done := (if p_bytes_total p < d then p_bytes_total p else d)\<rparr>))"

definition set_done :: "rat \<Rightarrow> u64 \<Rightarrow> progress \<Rightarrow> progress" where
  "set_done t n p = recompute_rate t (p\<lparr>p_bytes_done := min n (p_bytes_total p)\<rparr>)"

definition elapsed_sec :: "rat \<Rightarrow> progress \<Rightarrow> rat" where
  "elapsed_sec now p = (if p_start_time p \<le> 0 then 0 else now - p_start_time p)"

section \<open>Log and flags\<close>

definition log_event :: "int \<Rightarrow> u64 \<Rightarrow> u64 \<Rightarrow> cell_status \<Rightarrow> string \<Rightarrow> progress \<Rightarrow> progress" where
  "log_event now off len st msg p =
     (let e = \<lparr>le_offset = off, le_length = len, le_message = msg, le_status = st,
               le_level = (if st = ReadErr \<or> st = WriteErr then LError else LInfo),
               le_time = now\<rparr>
      in mark_cell off len st
           (p\<lparr>p_logs := p_logs p @ [e], p_pending_logs := p_pending_logs p @ [e]\<rparr>))"

definition log_message :: "int \<Rightarrow> log_level \<Rightarrow> string \<Rightarrow> progress \<Rightarrow> progress" where
  "log_message now level msg p =
     (let e = \<lparr>le_offset = 0, le_length = 0, le_message = msg, le_status = CellOk,
               le_level = level, le_time = now\<rparr>
      in p\<lparr>p_logs := p_logs p @ [e], p_pending_logs := p_pending_logs p @ [e]\<rparr>)"

definition take_logs :: "progress \<Rightarrow> log_entry list \<times> progress" where
  "take_logs p = (p_pending_logs p, p\<lparr>p_pending_logs := []\<rparr>)"

definition all_logs :: "progress \<Rightarrow> log_entry list" where
  "all_logs p = p_logs p"

definition set_phase :: "string \<Rightarrow> progress \<Rightarrow> progress" where
  "set_phase s p = p\<lparr>p_phase := s\<rparr>"

definition set_paused :: "bool \<Rightarrow> progress \<Rightarrow> progress" where
  "set_paused v p = p\<lparr>p_paused := v\<rparr>"

definition note_restart :: "rat \<Rightarrow> progress \<Rightarrow> progress" where
  "note_restart now p =
     p\<lparr>p_finished := False, p_failed := False, p_paused := False, p_input_locked := False,
       p_bytes_done := 0, p_rate := 0, p_eta := -1, p_phase := ''prepare'',
       p_start_time := now, p_last_time := now, p_last_bytes := 0,
       p_cells := map (\<lambda>_. Pending) (p_cells p)\<rparr>"

definition set_finished :: "bool \<Rightarrow> progress \<Rightarrow> progress" where
  "set_finished failed p =
     (let q = p\<lparr>p_finished := True, p_failed := failed, p_input_locked := False\<rparr>
      in if failed then q else q\<lparr>p_bytes_done := p_bytes_total q\<rparr>)"

definition set_input_locked :: "bool \<Rightarrow> progress \<Rightarrow> progress" where
  "set_input_locked v p = p\<lparr>p_input_locked := v\<rparr>"

text \<open>What the user interface copies out in one critical section.\<close>

record progress_snapshot =
  s_bytes_done :: u64
  s_bytes_total :: u64
  s_bytes_per_sec :: rat
  s_eta_seconds :: rat
  s_paused :: bool
  s_finished :: bool
  s_failed :: bool
  s_input_locked :: bool
  s_phase :: string
  s_cells :: "cell_status list"
  s_cell_size :: u64
  s_cell_shift :: nat

definition snapshot :: "progress \<Rightarrow> progress_snapshot" where
  "snapshot p =
     \<lparr>s_bytes_done = p_bytes_done p, s_bytes_total = p_bytes_total p,
      s_bytes_per_sec = p_rate p, s_eta_seconds = p_eta p, s_paused = p_paused p,
      s_finished = p_finished p, s_failed = p_failed p, s_input_locked = p_input_locked p,
      s_phase = p_phase p, s_cells = p_cells p, s_cell_size = p_cell_size p,
      s_cell_shift = p_cell_shift p\<rparr>"

section \<open>Lemmas: the cell map\<close>

text \<open>Rounding a quotient up, and the law that makes halving a rounded-up count harmless.\<close>

definition ceil_div :: "nat \<Rightarrow> nat \<Rightarrow> nat" where
  "ceil_div a b = (a + b - 1) div b"

lemma ceil_div_le_iff: "0 < b \<Longrightarrow> ceil_div a b \<le> n \<longleftrightarrow> a \<le> n * b"
proof -
  assume b: "0 < b"
  have "ceil_div a b \<le> n \<longleftrightarrow> (a + b - 1) div b < Suc n"
    by (simp add: ceil_div_def less_Suc_eq_le)
  also have "\<dots> \<longleftrightarrow> a + b - 1 < Suc n * b"
    using b by (simp add: div_less_iff_less_mult)
  also have "\<dots> \<longleftrightarrow> a \<le> n * b"
    using b by auto
  finally show ?thesis .
qed

lemma ceil_div_ceil_div:
  assumes "0 < b" and "0 < c"
  shows "ceil_div (ceil_div a b) c = ceil_div a (b * c)"
proof -
  have "ceil_div (ceil_div a b) c \<le> n \<longleftrightarrow> ceil_div a (b * c) \<le> n" for n
    using assms by (simp add: ceil_div_le_iff algebra_simps)
  then show ?thesis by (meson order_refl antisym)
qed

lemma ceil_div_1 [simp]: "ceil_div a (Suc 0) = a"
  by (simp add: ceil_div_def)

lemma ceil_div_pos: "0 < a \<Longrightarrow> 0 < b \<Longrightarrow> 0 < ceil_div a b"
  by (metis ceil_div_le_iff gr0I le_0_eq mult_0 not_le)

lemma unat_ceil_div_u64:
  "unat (a :: u64) + unat b \<le> 18446744073709551616 \<Longrightarrow> b \<noteq> 0 \<Longrightarrow>
   unat ((a + b - 1) div b) = ceil_div (unat a) (unat b)"
proof -
  assume le: "unat a + unat b \<le> 18446744073709551616" and b: "b \<noteq> 0"
  then have "0 < unat b" by (simp add: unat_gt_0)
  have "a + b - 1 = u64_of (unat a + unat b - 1)"
    using \<open>0 < unat b\<close> by (simp add: of_nat_diff)
  moreover have "unat a + unat b - 1 < 18446744073709551616"
    using le by simp
  ultimately have "unat (a + b - 1) = unat a + unat b - 1"
    by (metis unat_u64_of)
  then show ?thesis by (simp add: unat_div ceil_div_def)
qed

lemma unat_push_bit_u64:
  "unat (b :: u64) * 2 ^ n < 18446744073709551616 \<Longrightarrow> unat (push_bit n b) = unat b * 2 ^ n"
  by (simp only: unsigned_push_bit_eq) (simp add: take_bit_eq_mod push_bit_eq_mult)

lemma shift_loop_spec:
  assumes "shift_loop c s = (c', s')" and "unat c < 18446744073709551615" and "s \<le> 40"
  shows "s \<le> s' \<and> s' \<le> 40 \<and> unat c' = ceil_div (unat c) (2 ^ (s' - s)) \<and>
    (unat c' \<le> 4096 \<or> s' = 40) \<and> (s < s' \<longrightarrow> 2049 \<le> unat c')"
  using assms
proof (induction c s rule: shift_loop.induct)
  case (1 c s)
  show ?case
  proof (cases "4096 < c \<and> s < 40")
    case True
    let ?d = "(c + 1) div 2"
    have c: "4096 < unat c" using True by (simp add: word_less_unat)
    have "unat (c + 1) = unat c + 1"
      using "1.prems"(2) by (subst unat_add_u64) auto
    then have d: "unat ?d = ceil_div (unat c) 2"
      by (simp add: unat_div ceil_div_def)
    have dge: "2049 \<le> unat ?d" using c d by (simp add: ceil_div_def)
    have dlt: "unat ?d < 18446744073709551615" using d "1.prems"(2) by (simp add: ceil_div_def)
    have rec: "shift_loop ?d (s + 1) = (c', s')"
      using "1.prems"(1) True by (subst (asm) shift_loop.simps) simp
    have IH: "s + 1 \<le> s' \<and> s' \<le> 40 \<and> unat c' = ceil_div (unat ?d) (2 ^ (s' - (s + 1))) \<and>
        (unat c' \<le> 4096 \<or> s' = 40) \<and> (s + 1 < s' \<longrightarrow> 2049 \<le> unat c')"
      by (rule "1.IH" [OF True rec dlt]) (use True in simp)
    then have "s + 1 \<le> s'" by blast
    then have e: "Suc (s' - Suc s) = s' - s" by simp
    have "unat c' = ceil_div (unat c) (2 ^ (s' - s))"
      using IH d by (simp add: ceil_div_ceil_div flip: e)
    moreover have "2049 \<le> unat c'"
    proof (cases "s + 1 < s'")
      case False
      then have "s' = s + 1" using IH by simp
      then show ?thesis using IH dge by simp
    qed (use IH in simp)
    moreover have "s \<le> s'" using \<open>s + 1 \<le> s'\<close> by simp
    ultimately show ?thesis using IH by blast
  next
    case False
    then have "c' = c" "s' = s" using "1.prems"(1) by (subst (asm) shift_loop.simps, simp)+
    moreover have "unat c \<le> 4096 \<or> s = 40"
      using False "1.prems"(3) by (auto simp: word_less_unat not_less)
    ultimately show ?thesis using "1.prems"(3) by simp
  qed
qed

lemma length_mark_loop [simp]: "length (mark_loop i stop st cells) = length cells"
proof (induction i stop st cells rule: mark_loop.induct)
  case (1 i stop st cells)
  then show ?case by (subst mark_loop.simps) simp
qed

lemma nth_mark_loop:
  "j < length cells \<Longrightarrow>
   mark_loop i stop st cells ! j =
     (if i \<le> j \<and> j \<le> stop then cell_merge st (cells ! j) else cells ! j)"
proof (induction i stop st cells rule: mark_loop.induct)
  case (1 i stop st cells)
  show ?case
  proof (cases "i \<le> stop \<and> i < length cells")
    case True
    then have "mark_loop i stop st cells ! j =
        mark_loop (i + 1) stop st (cells[i := cell_merge st (cells ! i)]) ! j"
      by (subst mark_loop.simps) simp
    also have "\<dots> = (if i + 1 \<le> j \<and> j \<le> stop
        then cell_merge st (cells[i := cell_merge st (cells ! i)] ! j)
        else cells[i := cell_merge st (cells ! i)] ! j)"
      using 1 True by simp
    finally show ?thesis using True "1.prems" by (auto simp: nth_list_update)
  next
    case False
    then show ?thesis using "1.prems" by (subst mark_loop.simps) auto
  qed
qed

lemma cell_merge_error: "is_error cur \<Longrightarrow> is_error (cell_merge st cur)"
  by (auto simp: is_error_def cell_merge_def)

lemma cell_merge_new_error: "is_error st \<Longrightarrow> cell_merge st cur = st"
  by (auto simp: is_error_def cell_merge_def)

lemma p_cells_mark_cell:
  "p_cells (mark_cell off len st p) =
     (if p_cells p = [] \<or> p_cell_size p = 0 then p_cells p
      else mark_loop (unat (off div p_cell_size p))
             (unat ((off + (if len \<noteq> 0 then len else 1) - 1) div p_cell_size p)) st (p_cells p))"
  by (simp add: mark_cell_def Let_def)

lemma length_mark_cell [simp]: "length (p_cells (mark_cell off len st p)) = length (p_cells p)"
  by (simp add: p_cells_mark_cell)

lemma mark_cell_frame [simp]:
  "p_bytes_done (mark_cell off len st p) = p_bytes_done p"
  "p_bytes_total (mark_cell off len st p) = p_bytes_total p"
  "p_cell_size (mark_cell off len st p) = p_cell_size p"
  "p_cell_shift (mark_cell off len st p) = p_cell_shift p"
  "p_block_size (mark_cell off len st p) = p_block_size p"
  "p_logs (mark_cell off len st p) = p_logs p"
  "p_pending_logs (mark_cell off len st p) = p_pending_logs p"
  "p_finished (mark_cell off len st p) = p_finished p"
  "p_failed (mark_cell off len st p) = p_failed p"
  "p_phase (mark_cell off len st p) = p_phase p"
  by (simp_all add: mark_cell_def Let_def)

lemma recompute_rate_frame [simp]:
  "p_bytes_done (recompute_rate t p) = p_bytes_done p"
  "p_bytes_total (recompute_rate t p) = p_bytes_total p"
  "p_cell_size (recompute_rate t p) = p_cell_size p"
  "p_cell_shift (recompute_rate t p) = p_cell_shift p"
  "p_block_size (recompute_rate t p) = p_block_size p"
  "p_cells (recompute_rate t p) = p_cells p"
  "p_logs (recompute_rate t p) = p_logs p"
  "p_pending_logs (recompute_rate t p) = p_pending_logs p"
  "p_finished (recompute_rate t p) = p_finished p"
  "p_failed (recompute_rate t p) = p_failed p"
  "p_phase (recompute_rate t p) = p_phase p"
  by (simp_all add: recompute_rate_def Let_def)

lemma mark_cell_nth:
  assumes "p_cell_size p \<noteq> 0" and "i < length (p_cells p)"
    and "unat off + max 1 (unat len) \<le> 18446744073709551616"
  shows "p_cells (mark_cell off len st p) ! i =
    (if unat off div unat (p_cell_size p) \<le> i \<and>
        i \<le> (unat off + max 1 (unat len) - 1) div unat (p_cell_size p)
     then cell_merge st (p_cells p ! i) else p_cells p ! i)"
proof -
  let ?l = "if len \<noteq> 0 then len else 1"
  have l: "unat ?l = max 1 (unat len)"
    by (cases "len = 0") (simp_all add: max_def Suc_le_eq unat_gt_0)
  have "u64_of (unat off + unat ?l - 1) = u64_of (unat off) + u64_of (unat ?l) - 1"
    unfolding l by (subst of_nat_diff) (simp_all add: le_max_iff_disj)
  then have "off + ?l - 1 = u64_of (unat off + unat ?l - 1)"
    by (simp only: of_nat_unat ucast_id)
  moreover have "unat off + unat ?l - 1 < 18446744073709551616"
    using assms(3) l by simp
  ultimately have "unat (off + ?l - 1) = unat off + max 1 (unat len) - 1"
    using l by (metis unat_u64_of)
  then show ?thesis
    using assms(1,2) by (auto simp: p_cells_mark_cell nth_mark_loop unat_div)
qed

text \<open>What the operations of a running worker do to the cells: errors stay, and a new error is
  shown by every cell that overlaps its range.\<close>

definition cells_kept :: "progress \<Rightarrow> progress \<Rightarrow> bool" where
  "cells_kept p p' \<longleftrightarrow> p_cell_size p' = p_cell_size p \<and>
     length (p_cells p') = length (p_cells p) \<and>
     (\<forall>i < length (p_cells p). is_error (p_cells p ! i) \<longrightarrow> is_error (p_cells p' ! i))"

definition error_shown :: "progress \<Rightarrow> u64 \<Rightarrow> u64 \<Rightarrow> bool" where
  "error_shown p off len \<longleftrightarrow>
     (\<forall>i < length (p_cells p). i * unat (p_cell_size p) < unat off + unat len \<longrightarrow>
        unat off < (i + 1) * unat (p_cell_size p) \<longrightarrow> is_error (p_cells p ! i))"

lemma cells_kept_refl [simp]: "cells_kept p p"
  by (simp add: cells_kept_def)

lemma cells_kept_trans: "cells_kept p q \<Longrightarrow> cells_kept q r \<Longrightarrow> cells_kept p r"
  by (simp add: cells_kept_def)

lemma cells_kept_mark: "cells_kept p (mark_cell off len st p)"
  by (auto simp: cells_kept_def p_cells_mark_cell nth_mark_loop cell_merge_error)

lemma cells_kept_same:
  "p_cells q = p_cells p \<Longrightarrow> p_cell_size q = p_cell_size p \<Longrightarrow> cells_kept p q"
  by (simp add: cells_kept_def)

lemma error_shown_kept: "error_shown p off len \<Longrightarrow> cells_kept p q \<Longrightarrow> error_shown q off len"
  by (simp add: error_shown_def cells_kept_def)

lemma error_shown_mark:
  assumes "is_error st" and "len \<noteq> 0" and "unat off + unat len \<le> 18446744073709551616"
  shows "error_shown (mark_cell off len st p) off len"
  unfolding error_shown_def
proof (intro allI impI)
  fix i
  let ?q = "mark_cell off len st p" and ?cs = "unat (p_cell_size p)"
  assume i: "i < length (p_cells ?q)" "i * unat (p_cell_size ?q) < unat off + unat len"
    "unat off < (i + 1) * unat (p_cell_size ?q)"
  then have cs: "0 < ?cs" by (cases "?cs") auto
  have len: "0 < unat len" using assms(2) by (simp add: unat_gt_0)
  then have m: "max 1 (unat len) = unat len" by simp
  have "unat off div ?cs \<le> i"
    using i(3) cs by (simp add: div_less_iff_less_mult less_Suc_eq_le [symmetric])
  moreover have "i \<le> (unat off + unat len - 1) div ?cs"
    using i(2) cs len by (simp add: less_eq_div_iff_mult_less_eq)
  ultimately have "p_cells ?q ! i = cell_merge st (p_cells p ! i)"
    using mark_cell_nth [of p i off len st] i(1) cs assms(3) unfolding m by (auto simp: unat_gt_0)
  then show "is_error (p_cells ?q ! i)"
    using assms(1) by (simp add: cell_merge_new_error)
qed

lemma count_cells_count_list: "count_cells st p = count_list (p_cells p) st"
proof -
  have "foldl (\<lambda>n c. if c = st then n + 1 else n) k cs = k + count_list cs st" for k and cs
    by (induction cs arbitrary: k) auto
  then show ?thesis by (simp add: count_cells_def)
qed


section \<open>Runs of the object\<close>

text \<open>
  Every public mutator as an operation.  The mutex serialises them, so whatever the worker and
  the interface threads do, the object goes through \<open>prog_run\<close> of some list of operations;
  \<open>PTake\<close> is the interface fetching the new log lines, the only operation with an output.
\<close>

datatype prog_op =
    PReset rat u64 u64
  | PPhase string
  | PAdd rat u64
  | PSet rat u64
  | PMark u64 u64 cell_status
  | PLog int u64 u64 cell_status string
  | PMessage int log_level string
  | PPaused bool
  | PFinished bool
  | PLocked bool
  | PRestart rat
  | PUpgrade
  | PTake

fun prog_step :: "prog_op \<Rightarrow> progress \<Rightarrow> progress" where
  "prog_step (PReset now n bs) p = progress_reset now n bs p"
| "prog_step (PPhase s) p = set_phase s p"
| "prog_step (PAdd t n) p = add_done t n p"
| "prog_step (PSet t n) p = set_done t n p"
| "prog_step (PMark off len st) p = mark_cell off len st p"
| "prog_step (PLog now off len st msg) p = log_event now off len st msg p"
| "prog_step (PMessage now lv msg) p = log_message now lv msg p"
| "prog_step (PPaused v) p = set_paused v p"
| "prog_step (PFinished f) p = set_finished f p"
| "prog_step (PLocked v) p = set_input_locked v p"
| "prog_step (PRestart now) p = note_restart now p"
| "prog_step PUpgrade p = upgrade_cached_to_ok p"
| "prog_step PTake p = snd (take_logs p)"

fun prog_out :: "prog_op \<Rightarrow> progress \<Rightarrow> log_entry list" where
  "prog_out PTake p = fst (take_logs p)"
| "prog_out _ p = []"

fun prog_run :: "prog_op list \<Rightarrow> progress \<Rightarrow> log_entry list \<times> progress" where
  "prog_run [] p = ([], p)"
| "prog_run (x # xs) p =
     (let (out, q) = prog_run xs (prog_step x p) in (prog_out x p @ out, q))"

fun is_reset :: "prog_op \<Rightarrow> bool" where
  "is_reset (PReset _ _ _) = True"
| "is_reset _ = False"

fun is_restart :: "prog_op \<Rightarrow> bool" where
  "is_restart (PRestart _) = True"
| "is_restart op = is_reset op"

lemmas prog_defs = progress_reset_def set_phase_def add_done_def set_done_def log_event_def
  log_message_def set_paused_def set_finished_def set_input_locked_def note_restart_def
  upgrade_cached_to_ok_def take_logs_def

definition prog_inv :: "progress \<Rightarrow> bool" where
  "prog_inv p \<longleftrightarrow> p_bytes_done p \<le> p_bytes_total p \<and> suffix (p_pending_logs p) (p_logs p)"

lemma prog_inv_init: "prog_inv progress_init"
  by (simp add: prog_inv_def progress_init_def)

lemma prog_inv_step: "prog_inv p \<Longrightarrow> prog_inv (prog_step x p)"
  by (cases x) (auto simp: prog_inv_def prog_defs Let_def suffix_def)

lemma prog_run_ConsI: "snd (prog_run (x # xs) p) = snd (prog_run xs (prog_step x p))"
  by (simp add: Let_def split_def)

lemma prog_inv_run: "prog_inv p \<Longrightarrow> prog_inv (snd (prog_run xs p))"
  by (induction xs arbitrary: p) (simp_all add: prog_run_ConsI prog_inv_step del: prog_run.simps(2))

lemma prog_step_logs:
  "\<not> is_reset x \<Longrightarrow> \<exists>new. p_logs (prog_step x p) = p_logs p @ new \<and>
     prog_out x p @ p_pending_logs (prog_step x p) = p_pending_logs p @ new"
  by (cases x) (auto simp: prog_defs Let_def)

lemma prog_step_cells:
  "\<not> is_reset x \<Longrightarrow> length (p_cells (prog_step x p)) = length (p_cells p)"
  by (cases x) (auto simp: prog_defs Let_def)

lemma prog_step_error_sticky:
  assumes "\<not> is_restart x" and "i < length (p_cells p)" and "is_error (p_cells p ! i)"
  shows "is_error (p_cells (prog_step x p) ! i)"
proof -
  have mark: "is_error (p_cells (mark_cell off len st q) ! i)" if "p_cells q = p_cells p"
    for off len st q
    using that assms by (auto simp: p_cells_mark_cell nth_mark_loop cell_merge_error)
  show ?thesis
    using assms mark by (cases x) (auto simp: prog_defs Let_def is_error_def)
qed

section \<open>Properties of the progress object\<close>

text \<open>C9: whatever operations the worker and the interface perform on a fresh object, in
  whatever order, the bytes done never exceed the total and the log lines not yet fetched
  are the last ones of the log.\<close>

theorem progress_invariant: "prog_inv (snd (prog_run ops progress_init))"
  by (rule prog_inv_run [OF prog_inv_init])

text \<open>The interface gets every log line exactly once and in order: over a run without
  \<open>reset\<close>, what the fetches returned followed by what is still pending is what was pending
  before followed by exactly the lines logged during the run.\<close>

theorem logs_delivered_once:
  assumes "\<forall>x \<in> set ops. \<not> is_reset x"
  shows "\<exists>new. p_logs (snd (prog_run ops p)) = p_logs p @ new \<and>
    fst (prog_run ops p) @ p_pending_logs (snd (prog_run ops p)) = p_pending_logs p @ new"
  using assms
proof (induction ops arbitrary: p)
  case Nil
  show ?case by simp
next
  case (Cons x xs)
  obtain n1 where n1: "p_logs (prog_step x p) = p_logs p @ n1"
      "prog_out x p @ p_pending_logs (prog_step x p) = p_pending_logs p @ n1"
    using prog_step_logs [of x p] Cons.prems by auto
  obtain out q where q: "prog_run xs (prog_step x p) = (out, q)" by force
  obtain n2 where "p_logs q = p_logs (prog_step x p) @ n2"
      "out @ p_pending_logs q = p_pending_logs (prog_step x p) @ n2"
    using Cons.IH [of "prog_step x p"] Cons.prems q by auto
  moreover from calculation have "(prog_out x p @ out) @ p_pending_logs q = p_pending_logs p @ n1 @ n2"
    using n1(2) by (metis append_assoc)
  ultimately show ?case using n1(1) q by (intro exI [of _ "n1 @ n2"]) simp
qed

lemma logs_delivered_once_witness:
  "fst (prog_run [PMessage 7 LInfo ''a'', PTake, PMessage 8 LWarn ''b''] progress_init) @
   p_pending_logs (snd (prog_run [PMessage 7 LInfo ''a'', PTake, PMessage 8 LWarn ''b'']
     progress_init)) =
   p_logs (snd (prog_run [PMessage 7 LInfo ''a'', PTake, PMessage 8 LWarn ''b''] progress_init))"
  using logs_delivered_once
    [of "[PMessage 7 LInfo ''a'', PTake, PMessage 8 LWarn ''b'']" progress_init]
  by (auto simp: progress_init_def)

text \<open>C10: a cell that has been painted as a read or write error stays an error through any
  operations but a \<open>reset\<close> or a \<open>note_restart\<close>: neither a later success on the same cell nor
  the upgrade after the final flush hides it.\<close>

theorem cell_errors_sticky:
  assumes "\<forall>x \<in> set ops. \<not> is_restart x" and "i < length (p_cells p)"
    and "is_error (p_cells p ! i)"
  shows "i < length (p_cells (snd (prog_run ops p))) \<and> is_error (p_cells (snd (prog_run ops p)) ! i)"
  using assms
proof (induction ops arbitrary: p)
  case (Cons x xs)
  have "\<not> is_reset x" using Cons.prems(1) by (cases x) auto
  then show ?case
    using Cons.IH [of "prog_step x p"] Cons.prems prog_step_error_sticky [of x i p]
      prog_step_cells [of x p]
    by (simp add: prog_run_ConsI del: prog_run.simps(2))
qed simp

lemma cell_errors_sticky_witness:
  "is_error (p_cells (snd (prog_run [PMark 0 4096 CellOk, PUpgrade]
     (progress_init\<lparr>p_cells := [ReadErr, Pending]\<rparr>))) ! 0)"
  using cell_errors_sticky [of "[PMark 0 4096 CellOk, PUpgrade]" 0
    "progress_init\<lparr>p_cells := [ReadErr, Pending]\<rparr>"]
  by (simp add: is_error_def)

text \<open>Marking a byte range touches exactly the cells from the one with the range's first
  byte to the one with its last (an empty range counts as one byte): each of these gets the
  merged status, every other cell keeps its own.\<close>

theorem mark_cell_cells:
  assumes "p_cell_size p \<noteq> 0" and "i < length (p_cells p)"
    and "unat off + max 1 (unat len) \<le> 18446744073709551616"
  shows "p_cells (mark_cell off len st p) ! i =
    (if unat off div unat (p_cell_size p) \<le> i \<and>
        i \<le> (unat off + max 1 (unat len) - 1) div unat (p_cell_size p)
     then cell_merge st (p_cells p ! i) else p_cells p ! i)"
  using assms by (rule mark_cell_nth)

lemma mark_cell_cells_witness:
  "p_cells (mark_cell 4096 8192 ReadErr (progress_init\<lparr>p_cells := replicate 4 Pending\<rparr>)) ! 2 =
   ReadErr"
  using mark_cell_cells [of "progress_init\<lparr>p_cells := replicate 4 Pending\<rparr>" 2 4096 8192 ReadErr]
  by (simp add: progress_init_def cell_merge_def)

text \<open>\<open>reset\<close> builds a cell map that fits the window and the target: between one and
  4096 cells, all pending, of the block size times a power of two, which together cover the
  whole target while one cell less would not; the cells are made larger than a block only as
  far as needed, so that more than 2048 are left.\<close>

theorem reset_cell_map:
  assumes "tot \<noteq> 0" and "bs \<noteq> 0"
    and "unat tot \<le> 2 ^ 63" and "unat bs \<le> 2 ^ 63" and "unat tot \<le> 2 ^ 52 * unat bs"
  shows "let q = progress_reset now tot bs p; n = length (p_cells q); cs = unat (p_cell_size q)
    in p_cells q = replicate n Pending \<and> 0 < n \<and> n \<le> 4096 \<and>
       cs = unat bs * 2 ^ p_cell_shift q \<and>
       unat tot \<le> n * cs \<and> (n - 1) * cs < unat tot \<and>
       (p_cell_shift q = 0 \<or> 2049 \<le> n)"
proof -
  let ?c0 = "(tot + bs - 1) div bs"
  obtain c sh where sl: "shift_loop ?c0 0 = (c, sh)" by force
  have bpos: "0 < unat bs" and tpos: "0 < unat tot" using assms by (simp_all add: unat_gt_0)
  have c0: "unat ?c0 = ceil_div (unat tot) (unat bs)"
    using assms by (intro unat_ceil_div_u64) auto
  have c0_le: "unat ?c0 \<le> 2 ^ 52" using assms bpos by (simp add: c0 ceil_div_le_iff)
  have spec: "sh \<le> 40" "unat c = ceil_div (unat ?c0) (2 ^ sh)" "unat c \<le> 4096 \<or> sh = 40"
      "0 < sh \<longrightarrow> 2049 \<le> unat c"
    using shift_loop_spec [OF sl] c0_le by auto
  have c_le: "unat c \<le> 4096"
  proof (cases "sh = 40")
    case True
    then have "unat c \<le> 4096" using spec(2) c0_le by (simp add: ceil_div_le_iff)
    then show ?thesis .
  qed (use spec in auto)
  have cell: "unat c = ceil_div (unat tot) (unat bs * 2 ^ sh)"
    using spec(2) c0 bpos by (simp add: ceil_div_ceil_div)
  have bound: "unat bs * 2 ^ sh \<le> 2 ^ 63"
  proof (cases "sh = 0")
    case False
    then have "\<not> unat c \<le> 2048" using spec(4) by simp
    then have "2048 * (unat bs * 2 ^ sh) < unat tot"
      using cell bpos by (simp add: ceil_div_le_iff)
    then show ?thesis using assms(3) by simp
  qed (use assms(4) in simp)
  have cs: "unat (push_bit sh bs) = unat bs * 2 ^ sh"
    using bound by (intro unat_push_bit_u64) simp
  have csz: "push_bit sh bs \<noteq> 0" using cs bpos by (metis mult_is_0 power_not_zero less_numeral_extra(3) unat_0 zero_neq_numeral)
  have n: "unat ((tot + push_bit sh bs - 1) div push_bit sh bs) = unat c"
    using bound assms(3) csz by (subst unat_ceil_div_u64) (auto simp: cs cell)
  have cpos: "0 < unat c" using cell bpos tpos by (simp add: ceil_div_pos)
  then have nz: "(tot + push_bit sh bs - 1) div push_bit sh bs \<noteq> 0" using n by (metis unat_0 less_irrefl)
  have upper: "unat tot \<le> unat c * (unat bs * 2 ^ sh)"
    using cell bpos by (metis ceil_div_le_iff order_refl mult_pos_pos zero_less_numeral zero_less_power)
  have lower: "(unat c - 1) * (unat bs * 2 ^ sh) < unat tot"
  proof (rule ccontr)
    assume "\<not> ?thesis"
    then have "ceil_div (unat tot) (unat bs * 2 ^ sh) \<le> unat c - 1"
      using bpos by (simp add: ceil_div_le_iff)
    then show False using cell cpos by simp
  qed
  show ?thesis
    using assms(1,2) nz n cs cpos c_le upper lower spec(4)
    by (auto simp: progress_reset_def Let_def sl)
qed

lemma reset_cell_map_witness:
  "let q = progress_reset 0 8589934592 512 progress_init
   in length (p_cells q) \<le> 4096 \<and> 8589934592 \<le> length (p_cells q) * unat (p_cell_size q)"
  using reset_cell_map [of 8589934592 512 0 progress_init] by (auto simp: Let_def)

end
