(* ===== verification/Machine.thy ===== *)
theory Machine
  imports Progress
begin

text \<open>
  The worker's state: the outside world and the \<open>Progress\<close> object, and the calls the worker
  makes on the object (\<open>src/engine/progress.cpp\<close>), which read a clock first where the member
  function does.
\<close>

record 'w pmach = "'w mach" +
  prog :: progress

definition upd_prog :: "(progress \<Rightarrow> progress) \<Rightarrow> (('w, 'z) pmach_scheme, unit) io" where
  "upd_prog f = ioupd (\<lambda>s. s\<lparr>prog := f (prog s)\<rparr>)"

definition pg_reset :: "'w sys \<Rightarrow> u64 \<Rightarrow> u64 \<Rightarrow> (('w, 'z) pmach_scheme, unit) io" where
  "pg_reset os tot bs =
     iob (sysc (sys_steady os)) (\<lambda>now. upd_prog (progress_reset now tot bs))"

definition pg_add_done :: "'w sys \<Rightarrow> u64 \<Rightarrow> (('w, 'z) pmach_scheme, unit) io" where
  "pg_add_done os n = iob (sysc (sys_steady os)) (\<lambda>t. upd_prog (add_done t n))"

definition pg_mark_cell :: "u64 \<Rightarrow> u64 \<Rightarrow> cell_status \<Rightarrow> (('w, 'z) pmach_scheme, unit) io" where
  "pg_mark_cell off len st = upd_prog (mark_cell off len st)"

definition pg_log ::
  "'w sys \<Rightarrow> u64 \<Rightarrow> u64 \<Rightarrow> cell_status \<Rightarrow> string \<Rightarrow> (('w, 'z) pmach_scheme, unit) io" where
  "pg_log os off len st msg =
     iob (sysc (sys_time os)) (\<lambda>now. upd_prog (log_event now off len st msg))"

definition pg_message :: "'w sys \<Rightarrow> log_level \<Rightarrow> string \<Rightarrow> (('w, 'z) pmach_scheme, unit) io" where
  "pg_message os lv msg = iob (sysc (sys_time os)) (\<lambda>now. upd_prog (log_message now lv msg))"

definition pg_set_phase :: "string \<Rightarrow> (('w, 'z) pmach_scheme, unit) io" where
  "pg_set_phase s = upd_prog (set_phase s)"

definition pg_elapsed_sec :: "'w sys \<Rightarrow> (('w, 'z) pmach_scheme, rat) io" where
  "pg_elapsed_sec os =
     iob (ioget (\<lambda>s. p_start_time (prog s))) (\<lambda>t0.
       if t0 \<le> 0 then ioret 0
       else iob (sysc (sys_steady os)) (\<lambda>now. ioret (now - t0)))"

lemma wpx_upd_prog [simp, wp_rules]:
  "wpx t k (upd_prog f) Q s = Q () (s\<lparr>prog := f (prog s)\<rparr>)"
  by (simp add: upd_prog_def)

lemmas pg_defs = pg_reset_def pg_add_done_def pg_mark_cell_def pg_log_def pg_message_def
  pg_set_phase_def pg_elapsed_sec_def

text \<open>The record update that says "only the world and the progress object changed".\<close>

definition same_frame :: "('w, 'z) pmach_scheme \<Rightarrow> ('w, 'z) pmach_scheme \<Rightarrow> bool" where
  "same_frame s s' \<longleftrightarrow> (\<exists>w p. s' = s\<lparr>world := w, prog := p\<rparr>)"

lemma same_frame_refl [simp]: "same_frame s s"
  unfolding same_frame_def by (rule exI [of _ "world s"], rule exI [of _ "prog s"]) simp

lemma same_frame_trans: "same_frame s t \<Longrightarrow> same_frame t u \<Longrightarrow> same_frame s u"
  by (fastforce simp: same_frame_def)

end
