(* ===== verification/Sha1Pass.thy ===== *)
theory Sha1Pass
  imports Store Machine "HOL-Library.List_Lexorder" "HOL-Library.Char_ord"
begin

text \<open>
  The SHA-1 pass over the mounted files (\<open>src/engine/sha1_pass.cpp\<close>).

  The worker's state is extended by the catalog.  The calls on files and directories are fields of
  \<open>files_sys\<close>, functions of the outside world like those of \<open>sys\<close>; the digest of OpenSSL is one of
  them, a function of all the bytes that it was given.  The pass works on a sorted list of pairs, as
  it does on a \<open>std::map\<close>.  Loops over what the outside world returns are counted by \<open>fuel\<close>.
\<close>

section \<open>State and calls\<close>

record 'w engine = "'w pmach" +
  cat :: store

definition on_store :: "'a db \<Rightarrow> (('w, 'z) engine_scheme, 'a) io" where
  "on_store m = (\<lambda>s. obind (m (cat s)) (\<lambda>(a, st). Ret (a, s\<lparr>cat := st\<rparr>)))"

record 'w files_sys =
  fx_open :: "string \<Rightarrow> 'w \<Rightarrow> (string + fd) \<times> 'w"
  fx_read :: "fd \<Rightarrow> nat \<Rightarrow> 'w \<Rightarrow> (errno + bytes) \<times> 'w"
  fx_close :: "fd \<Rightarrow> 'w \<Rightarrow> unit \<times> 'w"
  fx_digest_init :: "'w \<Rightarrow> bool \<times> 'w"
  fx_digest :: "bytes \<Rightarrow> bytes"
  fx_opendir :: "string \<Rightarrow> 'w \<Rightarrow> fd option \<times> 'w"
  fx_readdir :: "fd \<Rightarrow> 'w \<Rightarrow> string option \<times> 'w"
  fx_closedir :: "fd \<Rightarrow> 'w \<Rightarrow> unit \<times> 'w"
  fx_lstat :: "string \<Rightarrow> 'w \<Rightarrow> file_kind option \<times> 'w"
  fx_stat_size :: "string \<Rightarrow> 'w \<Rightarrow> int option \<times> 'w"

section \<open>Hashing a file\<close>

definition to_lower :: "string \<Rightarrow> string" where
  "to_lower s =
     map (\<lambda>c. if 65 \<le> (of_char c :: nat) \<and> (of_char c :: nat) \<le> 90 then char_of (of_char c + 32 :: nat) else c) s"

definition buf_size :: nat where
  "buf_size = 65536"

text \<open>The loop: the bytes that the digest has got, or an error.\<close>

fun sha1_read :: "nat \<Rightarrow> 'w files_sys \<Rightarrow> fd \<Rightarrow> bytes \<Rightarrow> (('w, 'z) mach_scheme, string + bytes) io" where
  "sha1_read 0 fx f acc = iostuck"
| "sha1_read (Suc n) fx f acc =
     iob (sysc (fx_read fx f buf_size)) (\<lambda>r.
     case r of
       Inl EINTR \<Rightarrow> sha1_read n fx f acc
     | Inl (Errno msg) \<Rightarrow> ioret (Inl msg)
     | Inr bs \<Rightarrow> if bs = [] then ioret (Inr acc) else sha1_read n fx f (acc @ bs))"

definition sha1_file :: "nat \<Rightarrow> 'w files_sys \<Rightarrow> string \<Rightarrow> (('w, 'z) mach_scheme, string + bytes) io" where
  "sha1_file fuel fx path =
     iob (sysc (fx_open fx path)) (\<lambda>r.
     case r of
       Inl msg \<Rightarrow> ioret (Inl msg)
     | Inr f \<Rightarrow>
         iob (sysc (fx_digest_init fx)) (\<lambda>ok.
         if \<not> ok then iob (sysc (fx_close fx f)) (\<lambda>_. ioret (Inl ''EVP_DigestInit_ex failed''))
         else
           iob (sha1_read fuel fx f []) (\<lambda>r.
           iob (sysc (fx_close fx f)) (\<lambda>_.
           ioret (map_sum id (fx_digest fx) r)))))"

section \<open>The files of a mount\<close>

text \<open>A \<open>std::map\<close>: pairs in the order of their keys, one for each key.\<close>

fun map_put :: "string \<Rightarrow> string \<Rightarrow> (string \<times> string) list \<Rightarrow> (string \<times> string) list" where
  "map_put k v [] = [(k, v)]"
| "map_put k v ((k', v') # xs) =
     (if k = k' then (k, v) # xs
      else if k < k' then (k, v) # (k', v') # xs
      else (k', v') # map_put k v xs)"

definition join_path :: "string \<Rightarrow> string \<Rightarrow> string" where
  "join_path rel name = (if rel = [] then name else rel @ ''/'' @ name)"

text \<open>The directory at \<open>rel\<close>; the loop reads it entry by entry and walks the directories it meets.\<close>

fun walk_loop ::
  "(string \<Rightarrow> (string \<times> string) list \<Rightarrow> (('w, 'z) mach_scheme, (string \<times> string) list) io) \<Rightarrow>
   nat \<Rightarrow> 'w files_sys \<Rightarrow> string \<Rightarrow> string \<Rightarrow> fd \<Rightarrow> (string \<times> string) list \<Rightarrow>
   (('w, 'z) mach_scheme, (string \<times> string) list) io" where
  "walk_loop walk 0 fx rt rel d files = iostuck"
| "walk_loop walk (Suc n) fx rt rel d files =
     iob (sysc (fx_readdir fx d)) (\<lambda>ent.
     case ent of
       None \<Rightarrow> ioret files
     | Some name \<Rightarrow>
         if name = ''.'' \<or> name = ''..'' then walk_loop walk n fx rt rel d files
         else
           let child = join_path rel name; full = rt @ ''/'' @ child in
           iob (sysc (fx_lstat fx full)) (\<lambda>st.
           iob (case st of
                  Some KDirectory \<Rightarrow> walk child files
                | Some KRegular \<Rightarrow> ioret (map_put (''/'' @ child) full files)
                | _ \<Rightarrow> ioret files) (\<lambda>files.
           walk_loop walk n fx rt rel d files)))"

fun walk_dir ::
  "nat \<Rightarrow> nat \<Rightarrow> 'w files_sys \<Rightarrow> string \<Rightarrow> string \<Rightarrow> (string \<times> string) list \<Rightarrow>
   (('w, 'z) mach_scheme, (string \<times> string) list) io" where
  "walk_dir fuel 0 fx rt rel files = iostuck"
| "walk_dir fuel (Suc depth) fx rt rel files =
     iob (sysc (fx_opendir fx (if rel = [] then rt else rt @ ''/'' @ rel))) (\<lambda>d.
     case d of
       None \<Rightarrow> ioret files
     | Some d \<Rightarrow>
         iob (walk_loop (\<lambda>child files. walk_dir fuel depth fx rt child files) fuel fx rt rel d files) (\<lambda>files.
         iob (sysc (fx_closedir fx d)) (\<lambda>_.
         ioret files)))"

record mount_record =
  mr_device :: string
  mr_target :: string
  mr_fstype :: string
  mr_options :: string
  mr_loop_from_image :: string
  mr_fuse_mount :: bool

fun walk_mounts ::
  "nat \<Rightarrow> nat \<Rightarrow> 'w files_sys \<Rightarrow> mount_record list \<Rightarrow> (string \<times> string) list \<Rightarrow>
   (('w, 'z) mach_scheme, (string \<times> string) list) io" where
  "walk_mounts fuel depth fx [] files = ioret files"
| "walk_mounts fuel depth fx (m # ms) files =
     iob (walk_dir fuel depth fx (mr_target m) [] files) (\<lambda>files. walk_mounts fuel depth fx ms files)"

section \<open>What is to be hashed\<close>

text \<open>Every file found, and the objects of the catalog that match a file but for the case.\<close>

definition add_object_file ::
  "(string \<times> string) list \<Rightarrow> object_record \<Rightarrow> (string \<times> string) list \<Rightarrow> (string \<times> string) list" where
  "add_object_file files o1 todo =
     (if special_path (or_path o1) \<or> or_path o1 \<in> fst ` set todo then todo
      else
        (case find (\<lambda>(k, v). to_lower k = to_lower (or_path o1)) files of
           None \<Rightarrow> todo
         | Some (k, v) \<Rightarrow> map_put (or_path o1) v todo))"

definition todo_files ::
  "(string \<times> string) list \<Rightarrow> object_record list \<Rightarrow> (string \<times> string) list" where
  "todo_files files objects = fold (add_object_file files) objects files"

section \<open>The pass\<close>

text \<open>One file: it is hashed, and its record verified or brought up to date.\<close>

definition verdict :: "object_record option \<Rightarrow> bytes \<Rightarrow> verify_status" where
  "verdict prev dig =
     (case prev of
        Some o1 \<Rightarrow> if or_has_sha1 o1 \<and> or_sha1 o1 \<noteq> dig then VsFail else VsOk
      | None \<Rightarrow> VsOk)"

definition found :: "'e + 'a option \<Rightarrow> 'a option" where
  "found r = (case r of Inr (Some o1) \<Rightarrow> Some o1 | _ \<Rightarrow> None)"

definition store_hash :: "sql_env \<Rightarrow> bool \<Rightarrow> string \<Rightarrow> int \<Rightarrow> bytes \<Rightarrow> unit db" where
  "store_hash e verify_mode path sz dig =
     iob (get_object e path (object_init [])) (\<lambda>r.
     iob (case found r of
            Some o1 \<Rightarrow> ioret (Some o1)
          | None \<Rightarrow>
              iob (upsert_object e ((object_init path)\<lparr>or_size := sz\<rparr>)) (\<lambda>_.
              iob (get_object e path (object_init [])) (\<lambda>r. ioret (found r)))) (\<lambda>prev.
     if verify_mode then
       iob (bump_verify e path (verdict prev dig) (Some dig)) (\<lambda>_. ioret ())
     else
       iob (set_sha1 e path dig) (\<lambda>_.
       iob (get_object e path (object_init [])) (\<lambda>r.
       case found r of
         None \<Rightarrow> ioret ()
       | Some o1 \<Rightarrow>
           iob (upsert_object e (o1\<lparr>or_size := sz, or_has_sha1 := True, or_sha1 := dig\<rparr>)) (\<lambda>_.
           ioret ())))))"

definition hash_entry ::
  "nat \<Rightarrow> 'w sys \<Rightarrow> 'w files_sys \<Rightarrow> sql_env \<Rightarrow> bool \<Rightarrow> string \<Rightarrow> string \<Rightarrow> (('w, 'z) engine_scheme, unit) io" where
  "hash_entry fuel os fx e verify_mode path full =
     iob (pg_set_phase (''sha1 '' @ path)) (\<lambda>_.
     iob (sha1_file fuel fx full) (\<lambda>r.
     case r of
       Inl msg \<Rightarrow>
         iob (pg_log os 0 0 ReadErr (''sha1 '' @ path @ '': '' @ msg)) (\<lambda>_.
         iob (if verify_mode then on_store (bump_verify e path VsFail None) else ioret None) (\<lambda>_.
         pg_add_done os 1))
     | Inr dig \<Rightarrow>
         iob (sysc (fx_stat_size fx full)) (\<lambda>sz.
         iob (on_store (store_hash e verify_mode path (case sz of None \<Rightarrow> 0 | Some n \<Rightarrow> n) dig)) (\<lambda>_.
         pg_add_done os 1))))"

fun hash_entries ::
  "nat \<Rightarrow> 'w sys \<Rightarrow> 'w files_sys \<Rightarrow> sql_env \<Rightarrow> bool \<Rightarrow> (string \<times> string) list \<Rightarrow> (('w, 'z) engine_scheme, unit) io" where
  "hash_entries fuel os fx e verify_mode [] = ioret ()"
| "hash_entries fuel os fx e verify_mode ((path, full) # rest) =
     iob (hash_entry fuel os fx e verify_mode path full) (\<lambda>_.
     hash_entries fuel os fx e verify_mode rest)"

definition sha1_mounted_files ::
  "nat \<Rightarrow> nat \<Rightarrow> 'w sys \<Rightarrow> 'w files_sys \<Rightarrow> sql_env \<Rightarrow> mount_record list \<Rightarrow> bool \<Rightarrow>
   (('w, 'z) engine_scheme, bool) io" where
  "sha1_mounted_files fuel depth os fx e mounts verify_mode =
     iob (walk_mounts fuel depth fx mounts []) (\<lambda>files.
     iob (on_store (list_objects e)) (\<lambda>(objects, _).
     iob (pg_set_phase ''sha1'') (\<lambda>_.
     iob (hash_entries fuel os fx e verify_mode (todo_files files objects)) (\<lambda>_.
     ioret True))))"

section \<open>Lemmas: reading a file\<close>

text \<open>What reading from a descriptor promises: \<open>rest\<close> are the bytes not read yet, and a read takes
  some from its front, none only at the end.\<close>

definition reads_file :: "'w files_sys \<Rightarrow> fd \<Rightarrow> ('w \<Rightarrow> bytes) \<Rightarrow> bool" where
  "reads_file fx f rest \<longleftrightarrow> (\<forall>n w. 0 < n \<longrightarrow>
     (case fx_read fx f n w of
        (Inl _, w') \<Rightarrow> rest w' = rest w
      | (Inr bs, w') \<Rightarrow> rest w = bs @ rest w' \<and> (bs = [] \<longrightarrow> rest w = [])))"

definition reads_well :: "'w files_sys \<Rightarrow> fd \<Rightarrow> bool" where
  "reads_well fx f \<longleftrightarrow> (\<forall>n w. \<exists>bs w'. fx_read fx f n w = (Inr bs, w'))"

lemma reads_fileD:
  assumes "reads_file fx f rest" and "fx_read fx f buf_size w = (r, w')"
  shows "case r of Inl _ \<Rightarrow> rest w' = rest w | Inr bs \<Rightarrow> rest w = bs @ rest w' \<and> (bs = [] \<longrightarrow> rest w = [])"
  using assms(1) [unfolded reads_file_def, THEN spec, THEN spec, of buf_size w] assms(2)
  by (cases r) (auto simp: buf_size_def)

lemma sha1_read_content:
  assumes "reads_file fx f rest"
  shows "wlp (sha1_read fuel fx f acc) (\<lambda>r _. \<forall>bs. r = Inr bs \<longrightarrow> bs = acc @ rest (world s)) s"
proof (induction fuel arbitrary: acc s)
  case 0
  show ?case by simp
next
  case (Suc fuel)
  obtain r w where step: "fx_read fx f buf_size (world s) = (r, w)" by force
  note c = reads_fileD [OF assms step]
  show ?case
  proof (cases r)
    case (Inl err)
    then show ?thesis using Suc [of acc "s\<lparr>world := w\<rparr>"] step c by (cases err) simp_all
  next
    case (Inr bs)
    then show ?thesis
      using Suc [of "acc @ bs" "s\<lparr>world := w\<rparr>"] step c by (cases "bs = []") auto
  qed
qed

lemma sha1_read_returns:
  assumes "reads_file fx f rest" and "reads_well fx f" and "length (rest (world s)) < fuel"
  shows "\<exists>bs s'. sha1_read fuel fx f acc s = Ret (Inr bs, s')"
  using assms(3)
proof (induction fuel arbitrary: acc s)
  case (Suc fuel)
  obtain bs w where step: "fx_read fx f buf_size (world s) = (Inr bs, w)"
    using assms(2) unfolding reads_well_def by blast
  have c: "rest (world s) = bs @ rest w"
    using reads_fileD [OF assms(1) step] by simp
  show ?case
  proof (cases "bs = []")
    case True
    then show ?thesis using step by (simp add: iob_def sysc_def)
  next
    case False
    then have "length (rest w) < fuel" using Suc.prems c by (cases bs) auto
    then show ?thesis using Suc.IH [of "s\<lparr>world := w\<rparr>" "acc @ bs"] step False by (simp add: iob_def sysc_def)
  qed
qed simp

section \<open>Properties\<close>

text \<open>Whatever the sizes of the reads and however often they are interrupted, the hash of a file
  is the digest of all its bytes, once; a file that can be read is hashed.\<close>

theorem sha1_file_digest:
  assumes "fx_open fx path (world s) = (Inr f, w)" and "reads_file fx f rest"
    and "\<And>v. fst (fx_digest_init fx v) \<and> rest (snd (fx_digest_init fx v)) = rest v"
  shows "wlp (sha1_file fuel fx path) (\<lambda>r _. \<forall>dig. r = Inr dig \<longrightarrow> dig = fx_digest fx (rest w)) s \<and>
    (reads_well fx f \<and> length (rest w) < fuel \<longrightarrow>
      (\<exists>s'. sha1_file fuel fx path s = Ret (Inr (fx_digest fx (rest w)), s')))"
proof (intro conjI impI)
  obtain w2 where ini: "fx_digest_init fx w = (True, w2)" "rest w2 = rest w"
    using assms(3) [of w] by (cases "fx_digest_init fx w") auto
  have content: "wlp (sha1_read fuel fx f []) (\<lambda>r _. \<forall>bs. r = Inr bs \<longrightarrow> bs = rest w) (s\<lparr>world := w2\<rparr>)"
    using sha1_read_content [OF assms(2), of fuel "[]" "s\<lparr>world := w2\<rparr>"] ini by simp
  show part: "wlp (sha1_file fuel fx path) (\<lambda>r _. \<forall>dig. r = Inr dig \<longrightarrow> dig = fx_digest fx (rest w)) s"
    unfolding sha1_file_def using assms(1) ini
    by simp (rule wpx_mono [OF content], auto split: prod.split simp: map_sum_def split: sum.splits)
  assume "reads_well fx f \<and> length (rest w) < fuel"
  then have "reads_well fx f" "length (rest w) < fuel" by simp_all
  then obtain bs s1 where "sha1_read fuel fx f [] (s\<lparr>world := w2\<rparr>) = Ret (Inr bs, s1)"
    using sha1_read_returns [OF assms(2), of "s\<lparr>world := w2\<rparr>" fuel "[]"] ini by auto
  moreover from wlp_Ret [OF content this] have "bs = rest w" by simp
  ultimately show "\<exists>s'. sha1_file fuel fx path s = Ret (Inr (fx_digest fx (rest w)), s')"
    unfolding sha1_file_def using assms(1) ini by (simp add: iob_def sysc_def split: prod.split)
qed

text \<open>A file whose bytes not read yet are the world, for the witness.\<close>

definition mem_files :: "bytes files_sys" where
  "mem_files = \<lparr>fx_open = \<lambda>_ w. (Inr 3, w), fx_read = \<lambda>_ n w. (Inr (take n w), drop n w),
     fx_close = \<lambda>_ w. ((), w), fx_digest_init = \<lambda>w. (True, w), fx_digest = rev,
     fx_opendir = \<lambda>_ w. (None, w), fx_readdir = \<lambda>_ w. (None, w), fx_closedir = \<lambda>_ w. ((), w),
     fx_lstat = \<lambda>_ w. (None, w), fx_stat_size = \<lambda>_ w. (None, w)\<rparr>"

lemma sha1_file_digest_witness:
  "(\<exists>s'. sha1_file 4 mem_files ''x'' \<lparr>world = [1, 2, 3]\<rparr> = Ret (Inr [3, 2, 1], s')) \<and>
   wlp (sha1_file 4 mem_files ''x'') (\<lambda>r _. \<forall>dig. r = Inr dig \<longrightarrow> dig = [3, 2, 1]) \<lparr>world = [1, 2, 3]\<rparr>"
proof -
  have r: "reads_file mem_files 3 id" "reads_well mem_files 3"
    by (simp_all add: reads_file_def reads_well_def mem_files_def)
  have opened: "fx_open mem_files ''x'' (world \<lparr>world = [1, 2, 3]\<rparr>) = (Inr 3, [1, 2, 3])"
    and ini: "\<And>v. fst (fx_digest_init mem_files v) \<and> id (snd (fx_digest_init mem_files v)) = id v"
    and dig: "fx_digest mem_files = rev"
    by (simp_all add: mem_files_def)
  show ?thesis
    using sha1_file_digest [OF opened r(1) ini, of 4] r(2) by (simp add: dig)
qed

section \<open>Lemmas: the record of a hashed file\<close>

definition with_hash :: "bytes \<Rightarrow> row_data \<Rightarrow> row_data" where
  "with_hash dig d = d\<lparr>rw_sha1 := Some dig\<rparr>"

lemma as_record_sha1:
  "or_has_sha1 (as_record p (object_init []) d) = (\<exists>h. rw_sha1 d = Some h \<and> length h = 20)"
  "rw_sha1 d = Some h \<Longrightarrow> length h = 20 \<Longrightarrow> or_sha1 (as_record p (object_init []) d) = h"
  by (auto simp: as_record_def read_row_def read_sha1_def split: option.splits)

lemma stored_hash:
  "stored_row old (row_of (o1\<lparr>or_sha1 := dig, or_has_sha1 := True\<rparr>)) = with_hash dig (row_of o1)"
  by (cases old) (simp_all add: stored_row_def merge_row_def row_of_def with_hash_def)

lemma row_of_as_record:
  "with_hash dig (row_of (as_record p (object_init []) d)) = with_hash dig d"
  by (cases d) (auto simp: with_hash_def row_of_def as_record_def read_row_def read_sha1_def split: option.splits)

lemma set_sha1_does:
  assumes "healthy e" and "ready s vol rt" and "key_ok p" and "lookup s vol rt p = Some d"
  shows "\<exists>s'. set_sha1 e p dig s = Ret (None, s') \<and> ready s' vol rt \<and>
    (\<forall>q. lookup s' vol rt q = (if path_key q = path_key p then Some (with_hash dig d) else lookup s vol rt q))"
proof -
  obtain s' where "set_sha1 e p dig s = Ret (None, s')"
      "stores vol rt s p (row_of ((current s vol rt p)\<lparr>or_sha1 := dig, or_has_sha1 := True\<rparr>)) s'"
    using change_record_does(2) [OF assms(1-3), of "\<lambda>t o1. o1\<lparr>or_sha1 := dig, or_has_sha1 := True\<rparr>"]
    by (auto simp: set_sha1_change)
  then show ?thesis
    by (intro exI [of _ s']) (simp add: stores_def stored_hash current_Some [OF assms(4)] row_of_as_record)
qed

lemma bump_verify_does:
  assumes "healthy e" and "ready s vol rt" and "key_ok p" and "lookup s vol rt p = Some d"
  shows "\<exists>s' t. bump_verify e p vs (Some dig) s = Ret (None, s') \<and> ready s' vol rt \<and>
    (\<forall>q. lookup s' vol rt q = (if path_key q = path_key p
       then Some (with_hash dig d\<lparr>rw_verify_status := int_of_vs vs, rw_verify_count := rw_verify_count d + 1,
              rw_verified_at := t\<rparr>)
       else lookup s vol rt q))"
proof -
  let ?g = "\<lambda>(t :: int) o1. (case Some dig of None \<Rightarrow> o1 | Some b \<Rightarrow> o1\<lparr>or_sha1 := b, or_has_sha1 := True\<rparr>)
       \<lparr>or_verify_status := vs, or_verify_count :=
          or_verify_count (case Some dig of None \<Rightarrow> o1 | Some b \<Rightarrow> o1\<lparr>or_sha1 := b, or_has_sha1 := True\<rparr>) + 1,
        or_verified_at := t\<rparr>"
  obtain s' t where s': "bump_verify e p vs (Some dig) s = Ret (None, s')"
      "stores vol rt s p (row_of (?g t (current s vol rt p))) s'"
    using change_record_does(1) [OF assms(1-3), of ?g] by (auto simp: bump_verify_change)
  have "stored_row (Some d) (row_of (?g t (as_record p (object_init []) d))) =
      with_hash dig d\<lparr>rw_verify_status := int_of_vs vs, rw_verify_count := rw_verify_count d + 1, rw_verified_at := t\<rparr>"
    by (cases d) (auto simp: stored_row_def merge_row_def row_of_def as_record_def read_row_def
        read_sha1_def with_hash_def split: option.splits)
  then show ?thesis
    using s' assms(4) by (intro exI [of _ s'] exI [of _ t]) (simp add: stores_def current_Some [OF assms(4)])
qed

lemma found_simps [simp]: "found (Inr x) = x" "found (Inl msg) = None"
  by (simp_all add: found_def split: option.split)

text \<open>Verifying a file that has a record.\<close>

lemma store_hash_verify:
  assumes "healthy e" and "ready s vol rt" and "key_ok p" and "lookup s vol rt p = Some d"
    and "rw_sha1 d = Some h" and "length h = 20"
  shows "\<exists>s' d'. store_hash e True p sz dig s = Ret ((), s') \<and> ready s' vol rt \<and> lookup s' vol rt p = Some d' \<and>
    rw_sha1 d' = Some dig \<and> rw_verify_status d' = (if h = dig then 1 else 2)"
proof -
  obtain k where get: "get_object e p (object_init []) s =
      Ret (Inr (Some (as_record p (object_init []) d)), s\<lparr>st_ticks := k\<rparr>)"
    using get_object_does [OF assms(1,2), of p "object_init []"] assms(4) by auto
  let ?s = "s\<lparr>st_ticks := k\<rparr>"
  let ?vs = "verdict (Some (as_record p (object_init []) d)) dig"
  have r: "ready ?s vol rt" "lookup ?s vol rt p = Some d" using assms(2,4) by simp_all
  obtain s' t where s': "bump_verify e p ?vs (Some dig) ?s = Ret (None, s')" "ready s' vol rt"
      "lookup s' vol rt p = Some (with_hash dig d\<lparr>rw_verify_status := int_of_vs ?vs,
         rw_verify_count := rw_verify_count d + 1, rw_verified_at := t\<rparr>)"
    using bump_verify_does [OF assms(1) r(1) assms(3) r(2), of ?vs dig] by auto
  have "store_hash e True p sz dig s = Ret ((), s')"
    using get s'(1) by (simp add: store_hash_def iob_def)
  moreover have "int_of_vs ?vs = (if h = dig then 1 else 2)"
    using assms(5,6) as_record_sha1 [where p = p and d = d] by (auto simp: verdict_def)
  ultimately show ?thesis
    using s'(2,3)
    by (intro exI [of _ s'] exI [of _ "with_hash dig d\<lparr>rw_verify_status := int_of_vs ?vs,
         rw_verify_count := rw_verify_count d + 1, rw_verified_at := t\<rparr>"]) (simp add: with_hash_def)
qed

text \<open>Hashing a file that has a record.\<close>

lemma store_hash_known:
  assumes "healthy e" and "ready s vol rt" and "key_ok p" and "\<not> special_path p" and "lookup s vol rt p = Some d"
  shows "\<exists>s'. store_hash e False p sz dig s = Ret ((), s') \<and> ready s' vol rt \<and>
    (\<forall>q. lookup s' vol rt q = (if path_key q = path_key p then Some (with_hash dig d\<lparr>rw_size := sz\<rparr>) else lookup s vol rt q))"
proof -
  let ?as = "as_record p (object_init [])"
  obtain k where get: "get_object e p (object_init []) s = Ret (Inr (Some (?as d)), s\<lparr>st_ticks := k\<rparr>)"
    using get_object_does [OF assms(1,2), of p "object_init []"] assms(5) by auto
  let ?s = "s\<lparr>st_ticks := k\<rparr>"
  have r: "ready ?s vol rt" "lookup ?s vol rt p = Some d" using assms(2,5) by simp_all
  obtain s1 where s1: "set_sha1 e p dig ?s = Ret (None, s1)" "ready s1 vol rt"
      "\<And>q. lookup s1 vol rt q = (if path_key q = path_key p then Some (with_hash dig d) else lookup s vol rt q)"
    using set_sha1_does [OF assms(1) r(1) assms(3) r(2), of dig] by auto
  obtain l where get1: "get_object e p (object_init []) s1 = Ret (Inr (Some (?as (with_hash dig d))), s1\<lparr>st_ticks := l\<rparr>)"
    using get_object_does [OF assms(1) s1(2), of p "object_init []"] s1(3) [of p] by auto
  let ?o = "?as (with_hash dig d)\<lparr>or_size := sz, or_has_sha1 := True, or_sha1 := dig\<rparr>"
  have path: "or_path ?o = p"
    using assms(4) by (simp add: as_record_def read_row_def read_sha1_def object_init_def split: option.split)
  have r1: "ready (s1\<lparr>st_ticks := l\<rparr>) vol rt" using s1(2) by simp
  obtain s2 where s2: "upsert_object e ?o (s1\<lparr>st_ticks := l\<rparr>) = Ret (None, s2)"
      "stores vol rt (s1\<lparr>st_ticks := l\<rparr>) p (row_of ?o) s2"
    using upsert_object_does [OF assms(1) r1, of ?o] path assms(3) by auto
  have "store_hash e False p sz dig s = Ret ((), s2)"
    using get s1(1) get1 s2(1) by (simp add: store_hash_def iob_def)
  moreover have "stored_row (Some (with_hash dig d)) (row_of ?o) = with_hash dig d\<lparr>rw_size := sz\<rparr>"
    by (cases d) (simp add: stored_row_def merge_row_def row_of_def with_hash_def as_record_def read_row_def read_sha1_def)
  ultimately show ?thesis
    using s2(2) s1(3) by (intro exI [of _ s2]) (simp add: stores_def)
qed

lemma store_hash_unknown:
  assumes "healthy e" and "ready s vol rt" and "key_ok p" and "\<not> special_path p" and "lookup s vol rt p = None"
  shows "\<exists>s'. store_hash e False p sz dig s = Ret ((), s') \<and> ready s' vol rt \<and>
    (\<forall>q. lookup s' vol rt q = (if path_key q = path_key p
       then Some (with_hash dig (row_of (object_init p))\<lparr>rw_size := sz\<rparr>) else lookup s vol rt q))"
proof -
  let ?o = "(object_init p)\<lparr>or_size := sz\<rparr>"
  obtain k where get: "get_object e p (object_init []) s = Ret (Inr None, s\<lparr>st_ticks := k\<rparr>)"
    using get_object_does [OF assms(1,2), of p "object_init []"] assms(5) by auto
  let ?s = "s\<lparr>st_ticks := k\<rparr>"
  have r: "ready ?s vol rt" using assms(2) by simp
  have path: "or_path ?o = p" by (simp add: object_init_def)
  obtain s1 where s1: "upsert_object e ?o ?s = Ret (None, s1)" "stores vol rt ?s p (row_of ?o) s1"
    using upsert_object_does [OF assms(1) r, of ?o] path assms(3) by auto
  have r1: "ready s1 vol rt" and l1: "lookup s1 vol rt p = Some (row_of ?o)"
    using s1(2) assms(5) by (simp_all add: stores_def stored_row_def)
  obtain l where get1: "get_object e p (object_init []) s1 =
      Ret (Inr (Some (as_record p (object_init []) (row_of ?o))), s1\<lparr>st_ticks := l\<rparr>)"
    using get_object_does [OF assms(1) r1, of p "object_init []"] l1 by auto
  obtain s2 where s2: "store_hash e False p sz dig s1 = Ret ((), s2)" "ready s2 vol rt"
      "\<And>q. lookup s2 vol rt q = (if path_key q = path_key p then Some (with_hash dig (row_of ?o)\<lparr>rw_size := sz\<rparr>) else lookup s1 vol rt q)"
    using store_hash_known [OF assms(1) r1 assms(3,4) l1, of sz dig] by auto
  have rest: "store_hash e False p sz dig s = store_hash e False p sz dig s1"
    using get s1(1) get1 by (simp add: store_hash_def iob_def)
  moreover have "with_hash dig (row_of ?o)\<lparr>rw_size := sz\<rparr> = with_hash dig (row_of (object_init p))\<lparr>rw_size := sz\<rparr>"
    by (simp add: with_hash_def row_of_def object_init_def)
  ultimately show ?thesis
    using s2 s1(2) by (intro exI [of _ s2]) (simp add: stores_def)
qed

section \<open>Properties of the records\<close>

text \<open>C20: hashing a file of the mount makes its hash and its size those of its record, keeps the counts
  and times that the record has, makes a record if there is none, and changes no other record.\<close>

theorem hash_recorded:
  assumes "healthy e" and "ready s vol rt" and "key_ok p" and "\<not> special_path p"
  shows "\<exists>s'. store_hash e False p sz dig s = Ret ((), s') \<and> ready s' vol rt \<and>
    (\<forall>q. lookup s' vol rt q =
       (if path_key q = path_key p
        then Some ((case lookup s vol rt p of None \<Rightarrow> row_of (object_init p) | Some d \<Rightarrow> d)
                     \<lparr>rw_sha1 := Some dig, rw_size := sz\<rparr>)
        else lookup s vol rt q))"
proof (cases "lookup s vol rt p")
  case None
  show ?thesis
    unfolding None option.case by (rule store_hash_unknown [OF assms None, of sz dig, unfolded with_hash_def])
next
  case (Some d)
  show ?thesis
    unfolding Some option.case by (rule store_hash_known [OF assms Some, of sz dig, unfolded with_hash_def])
qed

lemma hash_recorded_witness:
  "\<exists>s'. store_hash calm_env False ''/x'' 7 (replicate 20 9) usr_store = Ret ((), s') \<and>
     map_option rw_size (lookup s' 1 1 ''/x'') = Some 7"
proof -
  have "\<not> special_path ''/x''" by (simp add: special_path_def)
  from hash_recorded [OF calm_healthy usr_store_ready usr_store_lookup(2) this, of 7 "replicate 20 9"]
  show ?thesis using usr_store_lookup(1) by (auto simp: usr_store_lookup(1))
qed

text \<open>Verifying a file whose content no longer has the recorded hash reports this once: the new hash
  replaces the recorded one, so the same content passes the next verification.\<close>

theorem verify_forgets_mismatch:
  assumes "healthy e" and "ready s vol rt" and "key_ok p" and "lookup s vol rt p = Some d"
    and "rw_sha1 d = Some h" and "length h = 20" and "length dig = 20" and "h \<noteq> dig"
  shows "\<exists>s1 s2 d1 d2. store_hash e True p sz dig s = Ret ((), s1) \<and> lookup s1 vol rt p = Some d1 \<and>
      rw_verify_status d1 = int_of_vs VsFail \<and>
      store_hash e True p sz dig s1 = Ret ((), s2) \<and> lookup s2 vol rt p = Some d2 \<and>
      rw_verify_status d2 = int_of_vs VsOk"
proof -
  obtain s1 d1 where 1: "store_hash e True p sz dig s = Ret ((), s1)" "ready s1 vol rt" "lookup s1 vol rt p = Some d1"
      "rw_sha1 d1 = Some dig" "rw_verify_status d1 = 2"
    using store_hash_verify [OF assms(1-6), of sz dig] assms(8) by auto
  obtain s2 d2 where "store_hash e True p sz dig s1 = Ret ((), s2)" "lookup s2 vol rt p = Some d2"
      "rw_verify_status d2 = 1"
    using store_hash_verify [OF assms(1) 1(2) assms(3) 1(3,4) assms(7), of sz dig] by auto
  then show ?thesis using 1 by auto
qed

definition hashed_store :: store where
  "hashed_store = new_store\<lparr>st_files := [\<lparr>fl_id = 1, fl_folder = 1, fl_name = ''x'',
     fl_data = with_hash (replicate 20 5) (row_of (object_init ''/x''))\<rparr>]\<rparr>"

lemma verify_forgets_mismatch_witness:
  "\<exists>s1 s2 d1 d2. store_hash calm_env True ''/x'' 7 (replicate 20 9) hashed_store = Ret ((), s1) \<and>
      lookup s1 1 1 ''/x'' = Some d1 \<and> rw_verify_status d1 = 2 \<and>
      store_hash calm_env True ''/x'' 7 (replicate 20 9) s1 = Ret ((), s2) \<and>
      lookup s2 1 1 ''/x'' = Some d2 \<and> rw_verify_status d2 = 1"
proof -
  have ready: "ready hashed_store 1 1"
    using new_store_ready
    by (simp add: ready_def hashed_store_def keys_ok_def linked_def find_folder_def new_store_def)
  have look: "lookup hashed_store 1 1 ''/x'' = Some (with_hash (replicate 20 5) (row_of (object_init ''/x'')))"
    by (simp add: lookup_def special_path_def split_file_path_def strip_slashes_def file_rows_def
        hashed_store_def cstr_def)
  have ne: "replicate 20 (5 :: u8) \<noteq> replicate 20 9" by (simp only: replicate_eq_replicate) simp
  show ?thesis
    using verify_forgets_mismatch [OF calm_healthy ready usr_store_lookup(2) look, of "replicate 20 5" "replicate 20 9" 7] ne
    by (simp add: with_hash_def)
qed

end
