(* ===== verification/Device.thy ===== *)
theory Device
  imports Machine
begin

text \<open>
  \<open>Device\<close> (\<open>src/io/device.hpp\<close>, \<open>device.cpp\<close>): the open target, its two descriptors
  (through the page cache and, when the system gives one, with \<open>O_DIRECT\<close>), its size and the
  unit of direct I/O, and the exact-length transfers everything else is built on.  The Linux
  branches of the conditional compilation are modelled.  The last section states the reading
  interface of a device as a locale, \<open>reader\<close>, and gives it its implementation.
\<close>

section \<open>State\<close>

record device =
  d_fd :: fd
  d_fd_direct :: fd
  d_is_block :: bool
  d_is_regular :: bool
  d_size :: u64
  d_sector_size :: u64
  d_direct_align :: u64
  d_path :: string

definition device_init :: device where
  "device_init = \<lparr>d_fd = -1, d_fd_direct = -1, d_is_block = False, d_is_regular = False,
     d_size = 0, d_sector_size = 512, d_direct_align = 4096, d_path = []\<rparr>"

definition has_direct :: "device \<Rightarrow> bool" where
  "has_direct d \<longleftrightarrow> 0 \<le> d_fd_direct d"

section \<open>Opening and closing\<close>

definition dev_close :: "'w sys \<Rightarrow> device \<Rightarrow> (('w, 'z) mach_scheme, device) io" where
  "dev_close os d =
     iob (if 0 \<le> d_fd_direct d \<and> d_fd_direct d \<noteq> d_fd d
          then sysc (sys_close os (d_fd_direct d)) else ioret ()) (\<lambda>_.
     iob (if 0 \<le> d_fd d then sysc (sys_close os (d_fd d)) else ioret ()) (\<lambda>_.
     ioret (d\<lparr>d_fd := (if 0 \<le> d_fd d then -1 else d_fd d), d_fd_direct := -1\<rparr>)))"

text \<open>A failed step closes the device again and reports \<open>False\<close>.\<close>

definition dev_fail :: "'w sys \<Rightarrow> device \<Rightarrow> (('w, 'z) mach_scheme, bool \<times> device) io" where
  "dev_fail os d = iob (dev_close os d) (\<lambda>d. ioret (False, d))"

text \<open>The size and the sector size: two \<open>ioctl\<close>s for a block device; for a regular file the
  end of the file and the \<open>st_blksize\<close> that \<open>fstat\<close> reported.\<close>

definition dev_probe_size ::
  "'w sys \<Rightarrow> stat \<Rightarrow> device \<Rightarrow> (('w, 'z) mach_scheme, device option) io" where
  "dev_probe_size os st d =
     (if d_is_block d then
        iob (sysc (sys_blkssz os (d_fd d))) (\<lambda>ssz.
          let d = (case ssz of Some n \<Rightarrow> if 0 < n then d\<lparr>d_sector_size := ucast n\<rparr> else d
                             | None \<Rightarrow> d) in
          iob (sysc (sys_blksize64 os (d_fd d))) (\<lambda>bytes.
            case bytes of None \<Rightarrow> ioret None | Some n \<Rightarrow> ioret (Some (d\<lparr>d_size := n\<rparr>))))
      else
        iob (sysc (sys_lseek_end os (d_fd d))) (\<lambda>fin.
          if fin < 0 then ioret None
          else
            let d = d\<lparr>d_size := word_of_int fin\<rparr> in
            ioret (Some (if 0 < st_blksize st
                         then d\<lparr>d_sector_size := word_of_int (st_blksize st)\<rparr> else d))))"

definition dev_open ::
  "'w sys \<Rightarrow> string \<Rightarrow> device \<Rightarrow> (('w, 'z) mach_scheme, bool \<times> device) io" where
  "dev_open os path d0 =
     iob (dev_close os d0) (\<lambda>d.
     iob (sysc (sys_open os path ORdwr)) (\<lambda>f.
     let d = d\<lparr>d_path := path, d_fd := f\<rparr> in
     if f < 0 then ioret (False, d)
     else
       iob (sysc (sys_fstat os f)) (\<lambda>st.
       case st of
         None \<Rightarrow> dev_fail os d
       | Some st \<Rightarrow>
           let d = d\<lparr>d_is_block := (st_kind st = KBlock), d_is_regular := (st_kind st = KRegular)\<rparr> in
           if \<not> d_is_block d \<and> \<not> d_is_regular d then dev_fail os d
           else
             let d = d\<lparr>d_sector_size := 512\<rparr> in
             iob (dev_probe_size os st d) (\<lambda>r.
             case r of
               None \<Rightarrow> dev_fail os d
             | Some d \<Rightarrow>
                 iob (sysc (sys_pagesize os)) (\<lambda>pg.
                 let page = word_of_int (if pg < 0 then 4096 else pg) :: u64;
                     d = d\<lparr>d_direct_align :=
                           (if d_sector_size d < page then page else d_sector_size d)\<rparr> in
                 iob (sysc (sys_open os path ORdwrDirect)) (\<lambda>fdd.
                 ioret (True, d\<lparr>d_fd_direct := (if fdd < 0 then -1 else fdd)\<rparr>)))))))"

section \<open>Exact transfers\<close>

text \<open>
  \<open>io_exact\<close> loops until the whole length is transferred.  Each turn makes progress or was
  interrupted; \<open>fuel\<close> counts the interruptions.
\<close>

function io_exact_read ::
  "nat \<Rightarrow> 'w sys \<Rightarrow> fd \<Rightarrow> u64 \<Rightarrow> nat \<Rightarrow> bytes \<Rightarrow> (('w, 'z) mach_scheme, string + bytes) io" where
  "io_exact_read fuel os f off left acc =
     (if left = 0 then ioret (Inr acc)
      else
        iob (sysc (call_pread os f left off)) (\<lambda>r.
        case r of
          Inl e \<Rightarrow>
            (case e of
               EINTR \<Rightarrow>
                 (case fuel of
                    0 \<Rightarrow> iostuck
                  | Suc n \<Rightarrow> io_exact_read n os f off left acc)
             | Errno msg \<Rightarrow> ioret (Inl (strerror e)))
        | Inr bs \<Rightarrow>
            if bs = [] then ioret (Inl ''unexpected EOF'')
            else io_exact_read fuel os f (off + u64_of (length bs)) (left - length bs) (acc @ bs)))"
  by pat_completeness auto
termination
  by (relation "measure (\<lambda>(fuel, _, _, _, left, _). fuel + left)") auto

function io_exact_write ::
  "nat \<Rightarrow> 'w sys \<Rightarrow> fd \<Rightarrow> u64 \<Rightarrow> bytes \<Rightarrow> (('w, 'z) mach_scheme, string option) io" where
  "io_exact_write fuel os f off buf =
     (if buf = [] then ioret None
      else
        iob (sysc (call_pwrite os f buf off)) (\<lambda>r.
        case r of
          Inl e \<Rightarrow>
            (case e of
               EINTR \<Rightarrow>
                 (case fuel of
                    0 \<Rightarrow> iostuck
                  | Suc n \<Rightarrow> io_exact_write n os f off buf)
             | Errno msg \<Rightarrow> ioret (Some (strerror e)))
        | Inr n \<Rightarrow>
            if n = 0 then ioret (Some ''short write'')
            else io_exact_write fuel os f (off + u64_of n) (drop n buf)))"
  by pat_completeness auto
termination
  by (relation "measure (\<lambda>(fuel, _, _, _, buf). fuel + length buf)") auto

declare io_exact_read.simps [simp del] io_exact_write.simps [simp del]

definition pread_all ::
  "'w sys \<Rightarrow> device \<Rightarrow> u64 \<Rightarrow> nat \<Rightarrow> (('w, 'z) mach_scheme, string + bytes) io" where
  "pread_all os d off len =
     (if d_fd d < 0 then ioret (Inl ''bad fd'')
      else io_exact_read (sys_fuel os) os (d_fd d) off len [])"

definition pwrite_all ::
  "'w sys \<Rightarrow> device \<Rightarrow> bytes \<Rightarrow> u64 \<Rightarrow> (('w, 'z) mach_scheme, string option) io" where
  "pwrite_all os d buf off =
     (if d_fd d < 0 then ioret (Some ''bad fd'')
      else io_exact_write (sys_fuel os) os (d_fd d) off buf)"

definition pread_direct ::
  "'w sys \<Rightarrow> device \<Rightarrow> u64 \<Rightarrow> nat \<Rightarrow> (('w, 'z) mach_scheme, string + bytes) io" where
  "pread_direct os d off len =
     (if d_fd_direct d < 0 then ioret (Inl ''O_DIRECT unavailable'')
      else io_exact_read (sys_fuel os) os (d_fd_direct d) off len [])"

definition pwrite_direct ::
  "'w sys \<Rightarrow> device \<Rightarrow> bytes \<Rightarrow> u64 \<Rightarrow> (('w, 'z) mach_scheme, string option) io" where
  "pwrite_direct os d buf off =
     (if d_fd_direct d < 0 then ioret (Some ''O_DIRECT unavailable'')
      else io_exact_write (sys_fuel os) os (d_fd_direct d) off buf)"

definition pwrite_sync ::
  "'w sys \<Rightarrow> device \<Rightarrow> bytes \<Rightarrow> u64 \<Rightarrow> (('w, 'z) mach_scheme, string option) io" where
  "pwrite_sync os d buf off =
     iob (pwrite_all os d buf off) (\<lambda>r.
     case r of
       Some e \<Rightarrow> ioret (Some e)
     | None \<Rightarrow>
         iob (sysc (sys_fdatasync os (d_fd d))) (\<lambda>e.
         ioret (case e of Some e \<Rightarrow> Some (strerror e) | None \<Rightarrow> None)))"

section \<open>Lemmas: exact transfers\<close>

text \<open>On any system: no trap, only the world changes, and a successful read has the length
  that was asked for.\<close>

lemma io_exact_read_length:
  "wp (io_exact_read fuel os f off left acc)
     (\<lambda>r s'. (\<exists>w'. s' = s\<lparr>world := w'\<rparr>) \<and> (\<forall>bs. r = Inr bs \<longrightarrow> length bs = length acc + left)) s"
proof (induction fuel os f off left acc arbitrary: s rule: io_exact_read.induct)
  case (1 fuel os f off left acc)
  show ?case
  proof (cases "left = 0")
    case True
    then show ?thesis by (subst io_exact_read.simps) (auto intro: exI [of _ "world s"])
  next
    case False
    obtain r w where r: "call_pread os f left off (world s) = (r, w)" by force
    show ?thesis
    proof (cases r)
      case (Inl e)
      then show ?thesis
      proof (cases e)
        case EINTR
        then show ?thesis
          using "1.IH"(1) [of e _ "s\<lparr>world := w\<rparr>"] False Inl r
          by (subst io_exact_read.simps)
            (auto elim: wpx_weaken split: nat.splits)
      qed (use False r in \<open>subst io_exact_read.simps, auto\<close>)
    next
      case (Inr bs)
      have "length bs \<le> left" using r Inr by (auto dest: call_pread_length)
      then show ?thesis
        using "1.IH"(2) [of bs "s\<lparr>world := w\<rparr>"] False Inr r
        by (subst io_exact_read.simps) (auto elim!: wpx_weaken)
    qed
  qed
qed

lemma io_exact_read_stored:
  assumes "posix_read os fds content" and "f \<in> fds" and "length (content (world s)) < 2 ^ 63"
  shows "wlp (io_exact_read fuel os f off left acc)
     (\<lambda>r s'. content (world s') = content (world s) \<and>
        (\<forall>bs. r = Inr bs \<longrightarrow>
          (\<exists>bs'. bs = acc @ bs' \<and> stored_at (content (world s)) (unat off) bs'))) s"
  using assms
proof (induction fuel os f off left acc arbitrary: s rule: io_exact_read.induct)
  case (1 fuel os f off left acc)
  show ?case
  proof (cases "left = 0")
    case True
    then show ?thesis by (subst io_exact_read.simps) auto
  next
    case False
    obtain r w where r: "call_pread os f left off (world s) = (r, w)" by force
    have w: "content w = content (world s)"
      using "1.prems"(1) r unfolding posix_read_def by (metis call_pread_world snd_conv)
    show ?thesis
    proof (cases r)
      case (Inl e)
      then show ?thesis
      proof (cases e)
        case EINTR
        then show ?thesis
          using "1.IH"(1) [of e _ "s\<lparr>world := w\<rparr>"] False Inl r w "1.prems"
          by (subst io_exact_read.simps) (auto elim: wpx_weaken split: nat.splits)
      qed (use False r w in \<open>subst io_exact_read.simps, auto\<close>)
    next
      case (Inr bs)
      show ?thesis
      proof (cases "bs = []")
        case True
        then show ?thesis using False Inr r w by (subst io_exact_read.simps) auto
      next
        case nonempty: False
        have st: "stored_at (content (world s)) (unat off) bs"
          using "1.prems" r Inr unfolding posix_read_def by (metis fst_conv)
        then have "unat off + length bs < 2 ^ 63"
          using stored_at_bound [OF st nonempty] "1.prems"(3) by simp
        then have off: "unat (off + u64_of (length bs)) = unat off + length bs"
          by (subst unat_add_u64) auto
        show ?thesis
          using "1.IH"(2) [of bs "s\<lparr>world := w\<rparr>"] False Inr r w "1.prems" nonempty off
          by (subst io_exact_read.simps)
            (auto elim!: wpx_weaken intro: stored_at_append [OF st])
      qed
    qed
  qed
qed

lemma io_exact_write_frame:
  "wp (io_exact_write fuel os f off buf) (\<lambda>_ s'. \<exists>w'. s' = s\<lparr>world := w'\<rparr>) s"
proof (induction fuel os f off buf arbitrary: s rule: io_exact_write.induct)
  case (1 fuel os f off buf)
  obtain r w where r: "call_pwrite os f buf off (world s) = (r, w)" by force
  note IH = "1.IH"(1) [of _ _ "s\<lparr>world := w\<rparr>"] "1.IH"(2) [of _ "s\<lparr>world := w\<rparr>"]
  show ?case
    using IH r
    by (subst io_exact_write.simps)
      (auto elim!: wpx_weaken intro: exI [of _ "world s"]
        split: sum.splits errno.splits nat.splits)
qed

text \<open>Writing back what is stored changes nothing, whether or not the write succeeds.\<close>

lemma io_exact_write_back:
  assumes "posix_write os fds content" and "f \<in> fds"
    and "stored_at (content (world s)) (unat off) buf"
    and "length (content (world s)) < 2 ^ 63"
  shows "wlp (io_exact_write fuel os f off buf)
     (\<lambda>_ s'. content (world s') = content (world s)) s"
  using assms
proof (induction fuel os f off buf arbitrary: s rule: io_exact_write.induct)
  case (1 fuel os f off buf)
  show ?case
  proof (cases "buf = []")
    case True
    then show ?thesis by (subst io_exact_write.simps) auto
  next
    case False
    obtain r w where r: "call_pwrite os f buf off (world s) = (r, w)" by force
    have w: "content w = content (world s)"
      using posix_write_back [OF "1.prems"(1,2,3) False] r by (metis call_pwrite_world snd_conv)
    show ?thesis
    proof (cases r)
      case (Inl e)
      then show ?thesis
      proof (cases e)
        case EINTR
        then show ?thesis
          using "1.IH"(1) [of e _ "s\<lparr>world := w\<rparr>"] False Inl r w "1.prems"
          by (subst io_exact_write.simps) (auto elim: wpx_weaken split: nat.splits)
      qed (use False r w in \<open>subst io_exact_write.simps, auto\<close>)
    next
      case (Inr n)
      have n: "n \<le> length buf" using r Inr by (auto dest: call_pwrite_le)
      have "unat off + n < 2 ^ 63"
        using stored_at_bound [OF "1.prems"(3) False] "1.prems"(4) n by simp
      then have off: "unat (off + u64_of n) = unat off + n"
        by (subst unat_add_u64) auto
      show ?thesis
        using "1.IH"(2) [of n "s\<lparr>world := w\<rparr>"] False Inr r w "1.prems" off
          stored_at_drop [OF "1.prems"(3), of n]
        by (subst io_exact_write.simps) (auto elim!: wpx_weaken)
    qed
  qed
qed

text \<open>A write that reports success has replaced exactly the bytes it was given.\<close>

lemma overwrite_overwrite:
  assumes "n \<le> length bs" and "off + length bs \<le> length c"
  shows "overwrite (off + n) (drop n bs) (overwrite off (take n bs) c) = overwrite off bs c"
proof -
  have l: "length (take n bs) = n" "length (take off c) = off" using assms by auto
  have "take (off + n) (overwrite off (take n bs) c) = take off c @ take n bs"
    using l by (simp add: overwrite_def)
  moreover have "drop (off + n + length (drop n bs)) (overwrite off (take n bs) c) =
      drop (off + length bs) c"
    using assms l by (simp add: overwrite_def add.commute)
  moreover have "take n bs @ drop n bs @ cs = bs @ cs" for cs
    by (metis append_assoc append_take_drop_id)
  ultimately show ?thesis
    by (simp add: overwrite_def [of "off + n"] overwrite_def [of off bs])
qed

lemma io_exact_write_stores:
  assumes "posix_write os fds content" and "f \<in> fds"
    and "unat off + length buf \<le> length (content (world s))"
    and "length (content (world s)) < 2 ^ 63"
  shows "wlp (io_exact_write fuel os f off buf)
     (\<lambda>r s'. r = None \<longrightarrow> content (world s') = overwrite (unat off) buf (content (world s))) s"
  using assms
proof (induction fuel os f off buf arbitrary: s rule: io_exact_write.induct)
  case (1 fuel os f off buf)
  show ?case
  proof (cases "buf = []")
    case True
    then show ?thesis
      by (subst io_exact_write.simps) (auto simp: overwrite_def)
  next
    case False
    obtain r w where r: "call_pwrite os f buf off (world s) = (r, w)" by force
    have step: "case (r, w) of
        (Inr n, w') \<Rightarrow> content w' = overwrite (unat off) (take n buf) (content (world s))
      | (Inl e, w') \<Rightarrow>
          (\<exists>k \<le> (if e = EINTR then 0 else length buf).
             content w' = overwrite (unat off) (take k buf) (content (world s)))"
      using "1.prems"(1) [unfolded posix_write_def, rule_format, OF "1.prems"(2,3)]
      unfolding r .
    show ?thesis
    proof (cases r)
      case (Inl e)
      show ?thesis
      proof (cases e)
        case EINTR
        then have "content w = content (world s)"
          using step Inl by (simp add: overwrite_def)
        then show ?thesis
          using "1.IH"(1) [of e _ "s\<lparr>world := w\<rparr>"] False Inl r EINTR "1.prems"
          by (subst io_exact_write.simps) (auto elim: wpx_weaken split: nat.splits)
      qed (use False Inl r in \<open>subst io_exact_write.simps, auto\<close>)
    next
      case (Inr n)
      have n: "n \<le> length buf" using r Inr by (auto dest: call_pwrite_le)
      have w: "content w = overwrite (unat off) (take n buf) (content (world s))"
        using step Inr by simp
      have off: "unat (off + u64_of n) = unat off + n"
        using "1.prems"(3,4) n by (subst unat_add_u64) auto
      have len: "length (content w) = length (content (world s))"
        unfolding w using "1.prems"(3) n by (subst length_overwrite) auto
      show ?thesis
        using "1.IH"(2) [of n "s\<lparr>world := w\<rparr>"] False Inr r "1.prems" off len n
          overwrite_overwrite [OF n, of "unat off" "content (world s)"]
        by (subst io_exact_write.simps) (auto simp: w elim!: wpx_weaken)
    qed
  qed
qed

text \<open>Transfers come back unless the system keeps interrupting them.\<close>

definition never_interrupts :: "'w sys \<Rightarrow> bool" where
  "never_interrupts os \<longleftrightarrow>
     (\<forall>f n off w. fst (sys_pread os f n off w) \<noteq> Inl EINTR) \<and>
     (\<forall>f bs off w. fst (sys_pwrite os f bs off w) \<noteq> Inl EINTR)"

lemma never_interrupts_call:
  "never_interrupts os \<Longrightarrow> call_pread os f n off w \<noteq> (Inl EINTR, w')"
  "never_interrupts os \<Longrightarrow> call_pwrite os f bs off w \<noteq> (Inl EINTR, w')"
  unfolding never_interrupts_def call_pread_def call_pwrite_def
  by (auto split: prod.splits sum.splits) (metis fst_conv)+

lemma io_exact_read_returns:
  assumes "never_interrupts os"
  shows "twp (io_exact_read fuel os f off left acc) (\<lambda>_ _. True) s"
  using assms
proof (induction fuel os f off left acc arbitrary: s rule: io_exact_read.induct)
  case (1 fuel os f off left acc)
  then show ?case
    using never_interrupts_call(1) [OF "1.prems"]
    by (subst io_exact_read.simps) (fastforce split: prod.splits sum.splits errno.splits)
qed

lemma io_exact_write_returns:
  assumes "never_interrupts os"
  shows "twp (io_exact_write fuel os f off buf) (\<lambda>_ _. True) s"
  using assms
proof (induction fuel os f off buf arbitrary: s rule: io_exact_write.induct)
  case (1 fuel os f off buf)
  then show ?case
    using never_interrupts_call(2) [OF "1.prems"]
    by (subst io_exact_write.simps) (fastforce split: prod.splits sum.splits errno.splits)
qed

section \<open>The reading interface\<close>

text \<open>
  What the scanners of \<open>src/fs\<close> and the partition probe need of a device: an exact read
  either fails with a message or gives as many bytes as asked for, and it never traps.  The
  extension adds a property of the state that reads keep.
\<close>

locale reader =
  fixes rd :: "u64 \<Rightarrow> nat \<Rightarrow> ('s, string + bytes) io"
  assumes rd_exact: "wp (rd off n) (\<lambda>r s'. \<forall>bs. r = Inr bs \<longrightarrow> length bs = n) s"
begin

lemma wp_rd:
  "(\<And>e s'. Q (Inl e) s') \<Longrightarrow> (\<And>bs s'. length bs = n \<Longrightarrow> Q (Inr bs) s') \<Longrightarrow> wp (rd off n) Q s"
  by (rule wpx_weaken [OF rd_exact]) (auto, metis sum.exhaust)

lemma safe_rd: "safe True (rd off n)"
  unfolding stays_def by (auto intro!: wp_rd)

lemma safe_rd_bind:
  "(\<And>e. safe True (f (Inl e))) \<Longrightarrow> (\<And>bs. length bs = n \<Longrightarrow> safe True (f (Inr bs))) \<Longrightarrow>
   safe True (iob (rd off n) f)"
  unfolding stays_def by (auto intro!: wp_rd)

lemma rd_length: "rd off n s = Ret (Inr bs, s') \<Longrightarrow> length bs = n"
  using rd_exact [of off n s] by (simp add: wpx_def)

end

locale frame_reader = reader rd
  for rd :: "u64 \<Rightarrow> nat \<Rightarrow> ('s, string + bytes) io" +
  fixes inv :: "'s \<Rightarrow> bool"
  assumes rd_keeps: "inv s \<Longrightarrow> wlp (rd off n) (\<lambda>_ s'. inv s') s"
begin

lemma wp_rd_inv:
  assumes "inv s"
    and "\<And>e s'. inv s' \<Longrightarrow> Q (Inl e) s'"
    and "\<And>bs s'. inv s' \<Longrightarrow> length bs = n \<Longrightarrow> Q (Inr bs) s'"
  shows "wp (rd off n) Q s"
  using rd_exact [of off n s] rd_keeps [OF assms(1), of off n] assms(2,3)
  by (auto simp: wpx_def split: outcome.splits) (metis sum.exhaust)

end

lemma pread_all_exact:
  "wp (pread_all os d off n)
     (\<lambda>r s'. (\<exists>w'. s' = s\<lparr>world := w'\<rparr>) \<and> (\<forall>bs. r = Inr bs \<longrightarrow> length bs = n)) s"
  using io_exact_read_length [of "sys_fuel os" os "d_fd d" off n "[]" s]
  by (auto simp: pread_all_def intro: exI [of _ "world s"])

lemma pread_direct_exact:
  "wp (pread_direct os d off n)
     (\<lambda>r s'. (\<exists>w'. s' = s\<lparr>world := w'\<rparr>) \<and> (\<forall>bs. r = Inr bs \<longrightarrow> length bs = n)) s"
  using io_exact_read_length [of "sys_fuel os" os "d_fd_direct d" off n "[]" s]
  by (auto simp: pread_direct_def intro: exI [of _ "world s"])

interpretation dev: frame_reader "pread_all os d" "\<lambda>s. \<exists>w. s = s0\<lparr>world := w\<rparr>"
  for os :: "'w sys" and d :: device and s0 :: "('w, 'z) mach_scheme"
proof unfold_locales
  fix off n and s :: "('w, 'z) mach_scheme"
  show "wp (pread_all os d off n) (\<lambda>r s'. \<forall>bs. r = Inr bs \<longrightarrow> length bs = n) s"
    by (rule wpx_weaken [OF pread_all_exact]) auto
next
  fix off n and s :: "('w, 'z) mach_scheme"
  assume "\<exists>w. s = s0\<lparr>world := w\<rparr>"
  then show "wlp (pread_all os d off n) (\<lambda>_ s'. \<exists>w. s' = s0\<lparr>world := w\<rparr>) s"
    by (intro wpx_weaken [OF pread_all_exact]) auto
qed

section \<open>Properties of the device\<close>

lemma pread_all_stored:
  assumes "posix_read os {d_fd d} content" and "length (content (world s)) < 2 ^ 63"
  shows "wlp (pread_all os d off n) (\<lambda>r s'. content (world s') = content (world s) \<and>
      (\<forall>bs. r = Inr bs \<longrightarrow> stored_at (content (world s)) (unat off) bs)) s"
  using io_exact_read_stored [OF assms(1) _ assms(2), of "d_fd d" "sys_fuel os" off n "[]"]
  by (auto simp: pread_all_def elim: wpx_weaken)

lemma pread_direct_stored:
  assumes "posix_read os {d_fd_direct d} content" and "length (content (world s)) < 2 ^ 63"
  shows "wlp (pread_direct os d off n) (\<lambda>r s'. content (world s') = content (world s) \<and>
      (\<forall>bs. r = Inr bs \<longrightarrow> stored_at (content (world s)) (unat off) bs)) s"
  using io_exact_read_stored [OF assms(1) _ assms(2), of "d_fd_direct d" "sys_fuel os" off n "[]"]
  by (auto simp: pread_direct_def elim: wpx_weaken)

lemma pread_all_world:
  "wpx False (\<not> never_interrupts os) (pread_all os d off n)
     (\<lambda>r s'. (\<exists>w. s' = s\<lparr>world := w\<rparr>) \<and> (\<forall>bs. r = Inr bs \<longrightarrow> length bs = n)) s"
proof (cases "never_interrupts os")
  case True
  then have "twp (pread_all os d off n) (\<lambda>_ _. True) s"
    by (simp add: pread_all_def io_exact_read_returns)
  from wpx_total [OF pread_all_exact this] True show ?thesis by simp
qed (simp add: pread_all_exact)

lemma pread_direct_world: "world_only (\<not> never_interrupts os) (pread_direct os d off n)"
proof (cases "never_interrupts os")
  case True
  then have "twp (pread_direct os d off n) (\<lambda>_ _. True) s" for s :: "('a, 'b) mach_scheme"
    by (simp add: pread_direct_def io_exact_read_returns)
  from wpx_total [OF pread_direct_exact this] show ?thesis
    unfolding world_only_def using True by (fastforce elim!: wpx_weaken)
qed (auto simp: world_only_def intro: wpx_weaken [OF pread_direct_exact])

lemma keeps_pread_all:
  fixes f :: "string + bytes \<Rightarrow> (('w, 'z) mach_scheme, 'b) io"
  assumes "posix_read os {d_fd d} content" and "length c < 2 ^ 63"
    and "\<And>e. keeps (\<lambda>s. content (world s)) c (f (Inl e))"
    and "\<And>bs. stored_at c (unat off) bs \<Longrightarrow> keeps (\<lambda>s. content (world s)) c (f (Inr bs))"
  shows "keeps (\<lambda>s. content (world s)) c (iob (pread_all os d off n) f)"
  unfolding stays_def wpx_bind
proof (intro allI impI)
  fix s :: "('w, 'z) mach_scheme" assume s: "content (world s) = c"
  have next_step: "wlp (f r) (\<lambda>_ s'. content (world s') = c) t"
    if "content (world t) = c" "\<forall>bs. r = Inr bs \<longrightarrow> stored_at c (unat off) bs"
    for r and t :: "('w, 'z) mach_scheme"
    using that assms(3,4) by (cases r) (auto simp: stays_def)
  show "wlp (pread_all os d off n) (\<lambda>r. wlp (f r) (\<lambda>_ s'. content (world s') = c)) s"
    by (rule wpx_weaken [OF pread_all_stored [OF assms(1)]]) (use assms(2) s next_step in auto)
qed

lemma keeps_pread_direct:
  "posix_read os {d_fd_direct d} content \<Longrightarrow> length c < 2 ^ 63 \<Longrightarrow>
   keeps (\<lambda>s. content (world s)) c (pread_direct os d off n)"
  unfolding stays_def by (intro allI impI, rule wpx_weaken [OF pread_direct_stored [where content = content]]) auto

section \<open>The writing interface\<close>

text \<open>
  What \<open>rewrite_range\<close> needs of a way to write a block: it does not trap, it returns if \<open>live\<close>,
  and on a \<open>sane\<close> system writing back the bytes that are stored leaves the store as it is,
  whether or not the write succeeds.  The device offers three.
\<close>

locale writer =
  fixes wr :: "bytes \<Rightarrow> u64 \<Rightarrow> (('w, 'z) mach_scheme, string option) io"
    and content :: "'w \<Rightarrow> bytes" and sane :: bool and live :: bool
  assumes wr_world: "world_only (\<not> live) (wr buf off)"
    and wr_back: "sane \<Longrightarrow> length c < 2 ^ 63 \<Longrightarrow> stored_at c (unat off) buf \<Longrightarrow>
      keeps (\<lambda>s. content (world s)) c (wr buf off)"
begin

text \<open>Read a range with a reader that tells the truth, write it back: the store is as before.\<close>

lemma read_write_back:
  assumes "posix_read os {d_fd d} content" and "sane" and "length c < 2 ^ 63"
    and "\<And>e. keeps (\<lambda>s :: ('w, 'z) mach_scheme. content (world s)) c (g e)"
    and "\<And>bs r. keeps (\<lambda>s. content (world s)) c (h bs r)"
  shows "keeps (\<lambda>s. content (world s)) c
    (iob (pread_all os d off n) (\<lambda>r. case r of
       Inl e \<Rightarrow> g e | Inr buf \<Rightarrow> iob (wr buf off) (h buf)))"
  by (rule keeps_pread_all [OF assms(1,3)])
    (auto intro!: stays_bind wr_back assms(2-5))

end

lemma io_exact_write_world:
  "world_only (\<not> never_interrupts os) (io_exact_write fuel os f off buf)"
proof (cases "never_interrupts os")
  case True
  then show ?thesis
    unfolding world_only_def using wpx_total [OF io_exact_write_frame io_exact_write_returns] by auto
qed (simp add: world_only_def io_exact_write_frame)

lemma io_exact_write_keeps:
  "posix_write os {f} content \<Longrightarrow> length c < 2 ^ 63 \<Longrightarrow> stored_at c (unat off) buf \<Longrightarrow>
   keeps (\<lambda>s. content (world s)) c (io_exact_write fuel os f off buf)"
  unfolding stays_def by (intro allI impI, rule wpx_weaken [OF io_exact_write_back [where content = content]]) auto

interpretation cached: writer "pwrite_all os d" content "posix_write os {d_fd d} content"
    "never_interrupts os"
  for os :: "'w sys" and d content
  by unfold_locales
    (auto simp: pwrite_all_def intro: io_exact_write_world world_only_ret io_exact_write_keeps stays_ret)

interpretation direct: writer "pwrite_direct os d" content "posix_write os {d_fd_direct d} content"
    "never_interrupts os"
  for os :: "'w sys" and d content
  by unfold_locales
    (auto simp: pwrite_direct_def intro: io_exact_write_world world_only_ret io_exact_write_keeps stays_ret)

interpretation synced: writer "pwrite_sync os d" content
    "posix_write os {d_fd d} content \<and> posix_quiet os content" "never_interrupts os"
  for os :: "'w sys" and d content
proof unfold_locales
  show "world_only (\<not> never_interrupts os) (pwrite_sync os d buf off)" for buf off
    unfolding pwrite_sync_def
    by (auto intro!: world_only_bind cached.wr_world world_only_ret world_only_sysc split: option.split)
next
  fix c and off :: u64 and buf
  assume a: "posix_write os {d_fd d} content \<and> posix_quiet os content" "length c < 2 ^ 63"
    "stored_at c (unat off) buf"
  then show "keeps (\<lambda>s. content (world s)) c (pwrite_sync os d buf off)"
    unfolding pwrite_sync_def
    by (intro stays_intros cached.wr_back keeps_sysc) (auto simp: posix_quiet_def)
qed

section \<open>Reading and writing correctly\<close>

text \<open>However the system splits, shortens or interrupts the calls, an exact read that
  succeeds has returned precisely the bytes stored in the requested range, and no exact read
  changes the store.\<close>

theorem pread_all_correct:
  assumes "posix_read os {d_fd d} content" and "length (content (world s)) < 2 ^ 63"
    and "pread_all os d off n s = Ret (r, s')"
  shows "content (world s') = content (world s) \<and>
    (\<forall>bs. r = Inr bs \<longrightarrow> length bs = n \<and> bs = take n (drop (unat off) (content (world s))))"
proof -
  have "content (world s') = content (world s) \<and>
      (\<forall>bs. r = Inr bs \<longrightarrow> stored_at (content (world s)) (unat off) bs)"
    by (rule wlp_Ret [OF pread_all_stored [OF assms(1,2)] assms(3)])
  moreover have "\<forall>bs. r = Inr bs \<longrightarrow> length bs = n"
    using dev.rd_length assms(3) by metis
  ultimately show ?thesis by (auto simp: stored_at_def)
qed

lemma ram_read: "posix_read ram_sys fds id"
  using posix_disk_mono [OF ram_sys_disk, of fds] by (simp add: posix_disk_def)

lemma ram_write: "posix_write ram_sys fds id"
  using posix_disk_mono [OF ram_sys_disk, of fds] by (simp add: posix_disk_def)

abbreviation ram_dev :: device where
  "ram_dev \<equiv> device_init\<lparr>d_fd := 3, d_fd_direct := 4\<rparr>"

lemma ram_pread_all:
  "0 < n \<Longrightarrow> unat off + n \<le> length (world s) \<Longrightarrow>
   pread_all ram_sys ram_dev off n s = Ret (Inr (take n (drop (unat off) (world s))), s)"
  by (simp add: pread_all_def device_init_def io_exact_read.simps [of _ _ _ _ n]
      io_exact_read.simps [of _ _ _ _ 0] iob_def sysc_def ram_sys_def call_pread_def)

lemma pread_all_correct_witness:
  "pread_all ram_sys ram_dev 1 2 \<lparr>world = [7, 8, 9]\<rparr> = Ret (Inr [8, 9], \<lparr>world = [7, 8, 9]\<rparr>)"
proof -
  let ?s = "\<lparr>world = [7, 8, 9]\<rparr>"
  obtain bs where bs: "pread_all ram_sys ram_dev 1 2 ?s = Ret (Inr bs, ?s)"
    using ram_pread_all [of 2 1 ?s] by auto
  from pread_all_correct [OF ram_read _ bs] show ?thesis using bs by simp
qed

text \<open>C7: a write that reports success is what a later read of the same range returns: the
  store then differs from the earlier one in this range only, and reading it back gives the
  bytes written.\<close>

theorem pwrite_then_pread:
  assumes "posix_disk os {d_fd d} content" and "length (content (world s)) < 2 ^ 63"
    and "unat off + length buf \<le> length (content (world s))"
    and "pwrite_all os d buf off s = Ret (None, s1)"
    and "pread_all os d off (length buf) s1 = Ret (Inr bs, s2)"
  shows "bs = buf \<and> content (world s1) = overwrite (unat off) buf (content (world s))"
proof -
  have "d_fd d \<ge> 0" using assms(4) by (auto simp: pwrite_all_def split: if_splits)
  then have w: "content (world s1) = overwrite (unat off) buf (content (world s))"
    using wlp_Ret [OF io_exact_write_stores, of os "{d_fd d}" content "d_fd d" off buf s
        "sys_fuel os" None s1] assms
    by (simp add: pwrite_all_def posix_disk_def)
  then have "length (content (world s1)) < 2 ^ 63"
    using assms(2,3) by (simp add: length_overwrite)
  then have "bs = take (length buf) (drop (unat off) (content (world s1)))"
    using pread_all_correct [of os d content s1] assms(1,5) by (simp add: posix_disk_def)
  moreover have "length (take (unat off) (content (world s))) = unat off"
    using assms(3) by simp
  ultimately show ?thesis using w by (simp add: overwrite_def)
qed

lemma pwrite_then_pread_witness:
  "\<exists>s1 bs s2. pwrite_all ram_sys ram_dev [5, 6] 1 \<lparr>world = [7, 8, 9]\<rparr> = Ret (None, s1) \<and>
     pread_all ram_sys ram_dev 1 2 s1 = Ret (Inr bs, s2) \<and> bs = [5, 6]"
proof -
  let ?s = "\<lparr>world = [7, 8, 9]\<rparr>" and ?t = "\<lparr>world = [7, 5, 6]\<rparr>"
  have w: "pwrite_all ram_sys ram_dev [5, 6] 1 ?s = Ret (None, ?t)"
    by (simp add: pwrite_all_def device_init_def io_exact_write.simps [of _ _ _ _ "[5, 6]"]
        io_exact_write.simps [of _ _ _ _ "[]"] iob_def sysc_def ram_sys_def call_pwrite_def
        overwrite_def)
  obtain bs where r: "pread_all ram_sys ram_dev 1 (length [5, 6 :: u8]) ?t = Ret (Inr bs, ?t)"
    using ram_pread_all [of "length [5, 6 :: u8]" 1 ?t] by auto
  have d: "posix_disk ram_sys {d_fd ram_dev} id"
    by (rule posix_disk_mono [OF ram_sys_disk]) simp
  have "bs = [5, 6]"
    using pwrite_then_pread [OF d _ _ w r] by simp
  moreover have "length [5, 6 :: u8] = 2" by simp
  ultimately show ?thesis using w r by metis
qed

text \<open>
  The descriptors a process holds, as an observation of the world: \<open>open\<close> gives one that was
  not in use, \<open>close\<close> releases it, the other calls of \<open>Device::open\<close> leave them alone.
\<close>

definition posix_fds :: "'w sys \<Rightarrow> ('w \<Rightarrow> fd set) \<Rightarrow> bool" where
  "posix_fds os held \<longleftrightarrow>
     (\<forall>p m w f w'. sys_open os p m w = (f, w') \<longrightarrow>
        (if f < 0 then held w' = held w else f \<notin> held w \<and> held w' = insert f (held w))) \<and>
     (\<forall>f w. held (snd (sys_close os f w)) = held w - {f}) \<and>
     (\<forall>f w. held (snd (sys_fstat os f w)) = held w) \<and>
     (\<forall>f w. held (snd (sys_blkssz os f w)) = held w) \<and>
     (\<forall>f w. held (snd (sys_blksize64 os f w)) = held w) \<and>
     (\<forall>f w. held (snd (sys_lseek_end os f w)) = held w) \<and>
     (\<forall>w. held (snd (sys_pagesize os w)) = held w)"

definition dev_fds :: "device \<Rightarrow> fd set" where
  "dev_fds d = (if 0 \<le> d_fd d then {d_fd d} else {}) \<union>
     (if 0 \<le> d_fd_direct d then {d_fd_direct d} else {})"

lemma posix_fds_close:
  "posix_fds os held \<Longrightarrow> sys_close os f w = (u, w') \<Longrightarrow> held w' = held w - {f}"
  unfolding posix_fds_def by (metis snd_conv)

lemma posix_fds_open:
  assumes "posix_fds os held" and "sys_open os p m w = (f, w')"
  shows "if f < 0 then held w' = held w else f \<notin> held w \<and> held w' = insert f (held w)"
  using conjunct1 [OF assms(1) [unfolded posix_fds_def], rule_format, OF assms(2)] .

lemma dev_close_fds:
  assumes "posix_fds os held"
  shows "twp (dev_close os d) (\<lambda>d' s'. held (world s') = held (world s) - dev_fds d \<and>
    d_fd d' < 0 \<and> d_fd_direct d' < 0) s"
proof -
  have c: "held (snd (sys_close os f w)) = held w - {f}" for f w
    using assms by (simp add: posix_fds_def)
  show ?thesis
    by (cases "0 \<le> d_fd_direct d"; cases "0 \<le> d_fd d"; cases "d_fd_direct d = d_fd d")
      (simp_all add: wpx_def iob_def sysc_def ioret_def dev_close_def dev_fds_def split_def c Diff_insert2 [symmetric] insert_commute
        del: Diff_insert)
qed

lemma dev_fail_fds:
  assumes "posix_fds os held" and "held (world s) = h \<union> dev_fds d" and "h \<inter> dev_fds d = {}"
  shows "twp (dev_fail os d) (\<lambda>(ok, d') s'. \<not> ok \<and> held (world s') = h \<and> dev_fds d' = {}) s"
  unfolding dev_fail_def wpx_bind
  by (rule wpx_weaken [OF dev_close_fds [OF assms(1)]])
    (use assms(2,3) in \<open>auto simp: dev_fds_def split: if_splits\<close>)

lemma dev_probe_size_fds:
  assumes "posix_fds os held"
  shows "twp (dev_probe_size os st d) (\<lambda>r s'. held (world s') = held (world s) \<and>
    (case r of None \<Rightarrow> True | Some d' \<Rightarrow> d_fd d' = d_fd d \<and> d_fd_direct d' = d_fd_direct d \<and>
       d_is_block d' = d_is_block d \<and> d_is_regular d' = d_is_regular d)) s"
proof -
  have f: "held (snd (sys_blkssz os f w)) = held w" "held (snd (sys_blksize64 os f w)) = held w"
    "held (snd (sys_lseek_end os f w)) = held w" for f w
    using assms by (simp_all add: posix_fds_def)
  show ?thesis
    by (auto simp: dev_probe_size_def Let_def split_def f split: option.splits)
qed

lemma posix_fds_probe:
  assumes "posix_fds os held"
  shows "held (snd (sys_fstat os f w)) = held w" "held (snd (sys_pagesize os w)) = held w"
  using assms by (simp_all add: posix_fds_def)

lemma dev_open_fds:
  assumes "posix_fds os held"
  shows "twp (dev_open os path d0) (\<lambda>r s'.
      held (world s') = (held (world s) - dev_fds d0) \<union> dev_fds (snd r) \<and>
      (\<not> fst r \<longrightarrow> dev_fds (snd r) = {}) \<and>
      (fst r \<longrightarrow> 0 \<le> d_fd (snd r) \<and> d_is_block (snd r) = (\<not> d_is_regular (snd r)))) s"
  (is "twp _ ?P s")
  unfolding dev_open_def wpx_bind
proof (rule wpx_weaken [OF dev_close_fds [OF assms]], goal_cases)
  case (3 d t)
  let ?h = "held (world s) - dev_fds d0"
  obtain f w1 where o1: "sys_open os path ORdwr (world t) = (f, w1)" by force
  note f = posix_fds_open [OF assms o1]
  note probe = posix_fds_probe [OF assms]
  have fail: "twp (dev_fail os d') ?P t'"
    if "0 \<le> f" "d_fd d' = f" "d_fd_direct d' < 0" "held (world t') = insert f ?h"
    for d' and t' :: "('a, 'b) mach_scheme"
    by (rule wpx_weaken [OF dev_fail_fds [OF assms, of _ ?h]])
      (use that f 3 in \<open>auto simp: dev_fds_def split: if_splits\<close>)
  have tail: "twp (dev_probe_size os st d') Q t'"
    if "0 \<le> f" "d_fd d' = f" "d_fd_direct d' < 0" "d_is_block d' = (\<not> d_is_regular d')"
      "held (world t') = insert f ?h"
      "\<And>t'. held (world t') = insert f ?h \<Longrightarrow> Q None t'"
      "\<And>d' t'. 0 \<le> f \<Longrightarrow> d_fd d' = f \<Longrightarrow> d_fd_direct d' < 0 \<Longrightarrow>
         d_is_block d' = (\<not> d_is_regular d') \<Longrightarrow> held (world t') = insert f ?h \<Longrightarrow> Q (Some d') t'"
    for Q st d' and t' :: "('a, 'b) mach_scheme"
    by (rule wpx_weaken [OF dev_probe_size_fds [OF assms]])
      (use that in \<open>auto split: option.splits\<close>)
  have fin: "held (snd (sys_open os path ORdwrDirect (snd (sys_pagesize os w)))) = ?h \<union> dev_fds d'"
    if "0 \<le> d_fd d'" "held w = insert (d_fd d') ?h"
      "d_fd_direct d' = (if fst (sys_open os path ORdwrDirect (snd (sys_pagesize os w))) < 0 then -1
         else fst (sys_open os path ORdwrDirect (snd (sys_pagesize os w))))" for w d'
    using that posix_fds_open [OF assms surjective_pairing, of path ORdwrDirect "snd (sys_pagesize os w)"]
      probe(2) [of w]
    by (auto simp: dev_fds_def split: if_splits)
  have dt: "d_fd_direct d < 0" "held (world t) = ?h" using 3 by simp_all
  show ?case
  proof (cases "f < 0")
    case True
    then show ?thesis using o1 f dt by (simp add: dev_fds_def)
  next
    case False
    obtain st w2 where st: "sys_fstat os f w1 = (st, w2)" by force
    have w2: "held w2 = insert f ?h"
      using probe(1) [of f w1] st f False dt by simp
    show ?thesis
    proof (cases st)
      case None
      then show ?thesis
        using False o1 st w2 dt by (auto intro!: fail simp: Let_def)
    next
      case (Some st)
      show ?thesis
        using False o1 \<open>sys_fstat os f w1 = _\<close> Some w2 dt
        by (simp add: Let_def split_def, intro conjI impI)
          ((rule fail; simp) | (rule tail; simp add: fin split_def; (rule fail; simp)?))+
    qed
  qed
qed auto

text \<open>C8: \<open>Device::open\<close> keeps account of its descriptors: whatever the calls answer, the
  descriptors held afterwards are those held before without the ones the object had, plus the
  ones it has now; when it reports failure it has none, and when it reports success it has one
  on a block device or on a regular file, never both kinds.\<close>

theorem dev_open_descriptors:
  assumes "posix_fds os held" and "dev_open os path d0 s = Ret ((ok, d), s')"
  shows "held (world s') = (held (world s) - dev_fds d0) \<union> dev_fds d \<and>
    (\<not> ok \<longrightarrow> dev_fds d = {}) \<and>
    (ok \<longrightarrow> 0 \<le> d_fd d \<and> d_is_block d = (\<not> d_is_regular d))"
  using dev_open_fds [OF assms(1), of path d0 s] assms(2) by (simp add: wpx_def)

text \<open>A world that is the set of descriptors in use, for the witness.\<close>

definition fd_sys :: "fd set sys" where
  "fd_sys = null_sys
     \<lparr>sys_open := \<lambda>p m w. if 3 \<notin> w then (3, insert 3 w) else (-1, w),
      sys_close := \<lambda>f w. ((), w - {f}),
      sys_fstat := \<lambda>f w. (Some \<lparr>st_kind = KRegular, st_blksize = 4096\<rparr>, w),
      sys_lseek_end := \<lambda>f w. (8192, w)\<rparr>"

lemma dev_open_descriptors_witness:
  "posix_fds fd_sys id \<and>
   (\<exists>d s'. dev_open fd_sys [] device_init \<lparr>world = {}\<rparr> = Ret ((True, d), s') \<and>
      world s' = {} \<union> dev_fds d)"
proof -
  have fds: "posix_fds fd_sys id"
    by (auto simp: posix_fds_def fd_sys_def null_sys_def split: if_splits)
  have run: "\<exists>d s'. dev_open fd_sys [] device_init \<lparr>world = {}\<rparr> = Ret ((True, d), s')"
    by (simp add: dev_open_def dev_close_def dev_probe_size_def device_init_def fd_sys_def
        null_sys_def sysc_def iob_def Let_def)
  show ?thesis
    using run dev_open_descriptors [OF fds] fds by (fastforce simp: dev_fds_def device_init_def)
qed

text \<open>
  A system on which a read inside the store always gets somewhere, though perhaps not all the
  way: no error, no interruption, at least one byte.
\<close>

definition reads_progress :: "'w sys \<Rightarrow> fd \<Rightarrow> ('w \<Rightarrow> bytes) \<Rightarrow> bool" where
  "reads_progress os f content \<longleftrightarrow>
     (\<forall>off n w. 0 < n \<longrightarrow> unat off + n \<le> length (content w) \<longrightarrow>
        (\<exists>b bs. fst (call_pread os f n off w) = Inr (b # bs)))"

lemma io_exact_read_complete:
  assumes "posix_read os {f} content" and "reads_progress os f content"
    and "unat off + left \<le> length (content (world s))" and "length (content (world s)) < 2 ^ 63"
  shows "twp (io_exact_read fuel os f off left acc) (\<lambda>r s'. \<exists>bs. r = Inr bs) s"
  using assms
proof (induction fuel os f off left acc arbitrary: s rule: io_exact_read.induct)
  case (1 fuel os f off left acc)
  show ?case
  proof (cases "left = 0")
    case True
    then show ?thesis by (subst io_exact_read.simps) simp
  next
    case False
    then obtain b bs w where r: "call_pread os f left off (world s) = (Inr (b # bs), w)"
      using "1.prems"(2,3) unfolding reads_progress_def by (metis neq0_conv prod.collapse)
    have w: "content w = content (world s)"
      using "1.prems"(1) r unfolding posix_read_def by (metis call_pread_world snd_conv)
    have n: "length (b # bs) \<le> left" using call_pread_length [OF r] .
    define m where "m = length (b # bs)"
    have "unat off + m < 2 ^ 63" using "1.prems"(3,4) n unfolding m_def by linarith
    then have off: "unat (off + u64_of (length (b # bs))) = unat off + length (b # bs)"
      unfolding m_def [symmetric] by (subst unat_add_u64) auto
    have "twp (io_exact_read fuel os f (off + u64_of (length (b # bs)))
        (left - length (b # bs)) (acc @ b # bs)) (\<lambda>r s'. \<exists>bs. r = Inr bs) (s\<lparr>world := w\<rparr>)"
      by (rule "1.IH"(2) [OF False]) (use "1.prems" off w n in auto)
    then show ?thesis using r False by (subst io_exact_read.simps) simp
  qed
qed

text \<open>An exact read inside the device comes back with all of it, however short the single
  transfers are, on a system whose reads make progress.\<close>

theorem pread_all_complete:
  assumes "posix_read os {d_fd d} content" and "reads_progress os (d_fd d) content"
    and "unat off + n \<le> length (content (world s))" and "length (content (world s)) < 2 ^ 63"
    and "0 \<le> d_fd d"
  shows "\<exists>s'. pread_all os d off n s =
    Ret (Inr (take n (drop (unat off) (content (world s)))), s')"
proof -
  have "twp (pread_all os d off n) (\<lambda>r s'. \<exists>bs. r = Inr bs) s"
    using io_exact_read_complete [OF assms(1-4), of "sys_fuel os" "[]"] assms(5)
    by (simp add: pread_all_def)
  then obtain bs s' where r: "pread_all os d off n s = Ret (Inr bs, s')"
    by (auto dest: twp_returns)
  have "stored_at (content (world s)) (unat off) bs"
    using wlp_Ret [OF pread_all_stored [OF assms(1,4)] r] by simp
  then show ?thesis using r dev.rd_length [OF r] by (auto simp: stored_at_def)
qed

text \<open>One byte per call is progress enough.\<close>

definition slow_sys :: "bytes sys" where
  "slow_sys = ram_sys\<lparr>sys_pread := \<lambda>f n off w. (Inr (take (min n 1) (drop (unat off) w)), w)\<rparr>"

lemma pread_all_complete_witness:
  "\<exists>s'. pread_all slow_sys ram_dev 1 2 \<lparr>world = [7, 8, 9]\<rparr> = Ret (Inr [8, 9], s')"
proof -
  have st: "stored_at w k (take n (drop k w))" for w :: bytes and k n
    by (simp add: stored_at_def min_def)
  have r: "posix_read slow_sys {d_fd ram_dev} id"
    by (auto simp: posix_read_def slow_sys_def ram_sys_def call_pread_def min_def intro: st)
  have p: "reads_progress slow_sys (d_fd ram_dev) id"
    by (auto simp: reads_progress_def slow_sys_def call_pread_def neq_Nil_conv [symmetric] min_def)
  show ?thesis
    using pread_all_complete [OF r p, of 1 2 "\<lparr>world = [7, 8, 9]\<rparr>"] by (simp add: device_init_def)
qed

end
