(* ===== verification/Extents.thy ===== *)
theory Extents
  imports Device
begin

text \<open>
  What the file system scanners share: little-endian numbers in a buffer, the extents, objects
  and results of a scan (\<open>src/fs/detect.hpp\<close>), and the merging of adjacent extents that every
  scanner does in the same words.

  A read outside a buffer is \<open>Trap\<close>.  Where the code has tested the bound just before, the total
  readers \<open>v16\<close>, \<open>v32\<close> and \<open>v64\<close> are used instead; inside the buffer they agree.
\<close>

section \<open>Numbers in a buffer\<close>

definition get8 :: "bytes \<Rightarrow> nat \<Rightarrow> u8 outcome" where
  "get8 bs i = (if i < length bs then Ret (bs ! i) else Trap)"

definition le16 :: "u8 \<Rightarrow> u8 \<Rightarrow> u16" where
  "le16 a b = ucast a OR push_bit 8 (ucast b)"

definition le32 :: "u16 \<Rightarrow> u16 \<Rightarrow> u32" where
  "le32 a b = ucast a OR push_bit 16 (ucast b)"

definition le64 :: "u32 \<Rightarrow> u32 \<Rightarrow> u64" where
  "le64 a b = ucast a OR push_bit 32 (ucast b)"

definition r16 :: "bytes \<Rightarrow> nat \<Rightarrow> u16 outcome" where
  "r16 bs i = obind (get8 bs i) (\<lambda>a. obind (get8 bs (i + 1)) (\<lambda>b. Ret (le16 a b)))"

definition r32 :: "bytes \<Rightarrow> nat \<Rightarrow> u32 outcome" where
  "r32 bs i = obind (r16 bs i) (\<lambda>a. obind (r16 bs (i + 2)) (\<lambda>b. Ret (le32 a b)))"

definition r64 :: "bytes \<Rightarrow> nat \<Rightarrow> u64 outcome" where
  "r64 bs i = obind (r32 bs i) (\<lambda>a. obind (r32 bs (i + 4)) (\<lambda>b. Ret (le64 a b)))"

definition v16 :: "bytes \<Rightarrow> nat \<Rightarrow> u16" where
  "v16 bs i = le16 (bs ! i) (bs ! (i + 1))"

definition v32 :: "bytes \<Rightarrow> nat \<Rightarrow> u32" where
  "v32 bs i = le32 (v16 bs i) (v16 bs (i + 2))"

definition v64 :: "bytes \<Rightarrow> nat \<Rightarrow> u64" where
  "v64 bs i = le64 (v32 bs i) (v32 bs (i + 4))"

lemma get8_in [simp]: "i < length bs \<Longrightarrow> get8 bs i = Ret (bs ! i)"
  by (simp add: get8_def)

lemma r16_in [simp]: "i + 1 < length bs \<Longrightarrow> r16 bs i = Ret (v16 bs i)"
  by (simp add: r16_def v16_def)

lemma r32_in [simp]: "i + 3 < length bs \<Longrightarrow> r32 bs i = Ret (v32 bs i)"
  by (simp add: r32_def v32_def)

lemma r64_in [simp]: "i + 7 < length bs \<Longrightarrow> r64 bs i = Ret (v64 bs i)"
  by (simp add: r64_def v64_def)

lemma get8_out: "length bs \<le> i \<Longrightarrow> get8 bs i = Trap"
  by (simp add: get8_def)

lemma r32_out: "length bs \<le> i \<Longrightarrow> r32 bs i = Trap"
  by (simp add: r32_def r16_def get8_out)

lemma reads_not_Stuck [simp]: "get8 bs i \<noteq> Stuck" "r16 bs i \<noteq> Stuck" "r32 bs i \<noteq> Stuck" "r64 bs i \<noteq> Stuck"
  by (simp_all add: get8_def r16_def r32_def r64_def obind_eq_Stuck)

text \<open>The numbers are what they should be: little-endian, least significant byte first.\<close>

lemma unat_le16: "unat (le16 a b) = unat a + 256 * unat b"
proof -
  have "(ucast a :: u16) OR push_bit 8 (ucast b) = ucast a + push_bit 8 (ucast b)"
    by (rule disjunctive_add [symmetric]) (auto simp: bit_simps dest!: bit_imp_le_length)
  moreover have "push_bit 8 (ucast b :: u16) = 256 * ucast b"
    by (simp add: push_bit_eq_mult)
  moreover have "unat (256 * ucast b :: u16) = 256 * unat b"
    using unat_lt_u8 [of b] by (simp add: unat_word_ariths)
  moreover have "unat a + 256 * unat b < 65536"
    using unat_lt_u8 [of a] unat_lt_u8 [of b] by linarith
  ultimately show ?thesis by (simp add: le16_def unat_word_ariths)
qed

lemma unat_le32: "unat (le32 a b) = unat a + 65536 * unat b"
proof -
  have "(ucast a :: u32) OR push_bit 16 (ucast b) = ucast a + push_bit 16 (ucast b)"
    by (rule disjunctive_add [symmetric]) (auto simp: bit_simps dest!: bit_imp_le_length)
  moreover have "push_bit 16 (ucast b :: u32) = 65536 * ucast b"
    by (simp add: push_bit_eq_mult)
  moreover have "unat (65536 * ucast b :: u32) = 65536 * unat b"
    using unat_lt_u16 [of b] by (simp add: unat_word_ariths)
  moreover have "unat a + 65536 * unat b < 4294967296"
    using unat_lt_u16 [of a] unat_lt_u16 [of b] by linarith
  ultimately show ?thesis by (simp add: le32_def unat_word_ariths)
qed

lemma unat_le64: "unat (le64 a b) = unat a + 4294967296 * unat b"
proof -
  have "(ucast a :: u64) OR push_bit 32 (ucast b) = ucast a + push_bit 32 (ucast b)"
    by (rule disjunctive_add [symmetric]) (auto simp: bit_simps dest!: bit_imp_le_length)
  moreover have "push_bit 32 (ucast b :: u64) = 4294967296 * ucast b"
    by (simp add: push_bit_eq_mult)
  moreover have "unat (4294967296 * ucast b :: u64) = 4294967296 * unat b"
    using unat_lt_u32 [of b] by (simp add: unat_word_ariths)
  moreover have "unat a + 4294967296 * unat b < 18446744073709551616"
    using unat_lt_u32 [of a] unat_lt_u32 [of b] by linarith
  ultimately show ?thesis by (simp add: le64_def unat_word_ariths)
qed

section \<open>Scan results\<close>

datatype fs_type = FsUnknown | Fat12 | Fat16 | Fat32 | ExFat | Ntfs | Ext2 | Ext3 | Ext4

record fs_extent =
  fe_offset :: u64
  fe_length :: u64

record fs_object =
  fo_path :: string
  fo_size :: u64
  fo_extents :: "fs_extent list"

record fs_scan =
  fs_type_of :: fs_type
  fs_label :: string
  fs_objects :: "fs_object list"
  fs_error :: string

definition scan_init :: "fs_type \<Rightarrow> fs_scan" where
  "scan_init ty = \<lparr>fs_type_of = ty, fs_label = [], fs_objects = [], fs_error = []\<rparr>"

definition add_object :: "fs_object \<Rightarrow> fs_scan \<Rightarrow> fs_scan" where
  "add_object ob out = out\<lparr>fs_objects := fs_objects out @ [ob]\<rparr>"

definition mk_extent :: "u64 \<Rightarrow> u64 \<Rightarrow> fs_extent" where
  "mk_extent off len = \<lparr>fe_offset = off, fe_length = len\<rparr>"

definition mk_object :: "string \<Rightarrow> u64 \<Rightarrow> fs_extent list \<Rightarrow> fs_object" where
  "mk_object p sz es = \<lparr>fo_path = p, fo_size = sz, fo_extents = es\<rparr>"

section \<open>Merging adjacent extents\<close>

definition push_extent :: "fs_extent list \<Rightarrow> fs_extent \<Rightarrow> fs_extent list" where
  "push_extent es e =
     (if es \<noteq> [] \<and> fe_offset (last es) + fe_length (last es) = fe_offset e
      then butlast es @ [(last es)\<lparr>fe_length := fe_length (last es) + fe_length e\<rparr>]
      else es @ [e])"

text \<open>The byte addresses that extents denote, in order, and the sum of their lengths.\<close>

definition ext_addrs :: "fs_extent list \<Rightarrow> nat list" where
  "ext_addrs es = concat (map (\<lambda>e. [unat (fe_offset e) ..< unat (fe_offset e) + unat (fe_length e)]) es)"

definition ext_len :: "fs_extent list \<Rightarrow> nat" where
  "ext_len es = (\<Sum>e\<leftarrow>es. unat (fe_length e))"

definition ext_ok :: "nat \<Rightarrow> fs_extent list \<Rightarrow> bool" where
  "ext_ok hi es \<longleftrightarrow> (\<forall>e \<in> set es. unat (fe_offset e) + unat (fe_length e) \<le> hi)"

lemma ext_addrs_simps [simp]:
  "ext_addrs [] = []"
  "ext_addrs (e # es) =
     [unat (fe_offset e) ..< unat (fe_offset e) + unat (fe_length e)] @ ext_addrs es"
  "ext_addrs (es @ es') = ext_addrs es @ ext_addrs es'"
  by (simp_all add: ext_addrs_def)

lemma length_ext_addrs: "length (ext_addrs es) = ext_len es"
  by (induction es) (simp_all add: ext_len_def)

lemma ext_ok_simps [simp]:
  "ext_ok hi []"
  "ext_ok hi (e # es) \<longleftrightarrow> unat (fe_offset e) + unat (fe_length e) \<le> hi \<and> ext_ok hi es"
  "ext_ok hi (es @ es') \<longleftrightarrow> ext_ok hi es \<and> ext_ok hi es'"
  by (auto simp: ext_ok_def)

text \<open>Merging loses no address, adds none and keeps their order.\<close>

lemma push_extent_addrs:
  assumes "ext_ok hi es" and "unat (fe_offset e) + unat (fe_length e) \<le> hi"
    and "hi < 18446744073709551616"
  shows "ext_addrs (push_extent es e) = ext_addrs es @ ext_addrs [e] \<and> ext_ok hi (push_extent es e)"
proof (cases "es \<noteq> [] \<and> fe_offset (last es) + fe_length (last es) = fe_offset e")
  case True
  then obtain ls l where es: "es = ls @ [l]" by (metis rev_exhaust)
  have l: "unat (fe_offset l) + unat (fe_length l) \<le> hi" using assms(1) by (simp add: es)
  have o1: "unat (fe_offset l + fe_length l) = unat (fe_offset l) + unat (fe_length l)"
    using l assms(3) by (intro unat_add_u64) linarith
  then have o: "unat (fe_offset e) = unat (fe_offset l) + unat (fe_length l)"
    using True by (simp add: es)
  have len: "unat (fe_length l + fe_length e) = unat (fe_length l) + unat (fe_length e)"
    using o assms(2,3) by (intro unat_add_u64) linarith
  have "[unat (fe_offset l) ..< unat (fe_offset l) + (unat (fe_length l) + unat (fe_length e))] =
      [unat (fe_offset l) ..< unat (fe_offset e)] @ [unat (fe_offset e) ..< unat (fe_offset e) + unat (fe_length e)]"
    unfolding o by (metis add.assoc le_add1 upt_add_eq_append)
  then show ?thesis
    using True assms o by (simp add: push_extent_def es len)
next
  case False
  then have "push_extent es e = es @ [e]" by (auto simp: push_extent_def)
  then show ?thesis using assms by simp
qed

lemma foldl_push_extent_addrs:
  assumes "hi < 18446744073709551616"
  shows "ext_ok hi acc \<Longrightarrow> ext_ok hi es \<Longrightarrow>
    ext_addrs (foldl push_extent acc es) = ext_addrs acc @ ext_addrs es \<and>
    ext_ok hi (foldl push_extent acc es)"
proof (induction es arbitrary: acc)
  case (Cons e es)
  then show ?case
    using push_extent_addrs [OF Cons.prems(1) _ assms, of e] by simp
qed simp

lemma push_extent_ne [simp]: "push_extent es e \<noteq> []"
  by (simp add: push_extent_def)

end
