(* ===== verification/Chains.thy ===== *)
theory Chains
  imports Extents
begin

text \<open>
  Following a chain of clusters through an allocation table.  FAT and exFAT do it with the same
  loop: from cluster to cluster until the chain ends, leaves the volume or comes back to a cluster
  seen before, collecting the extents.  The locale \<open>cluster_chain\<close> is the equation that both loops
  satisfy; what is proved here once, that the extents are exactly the clusters of the chain, holds
  for both (the interpretations are in the theories \<open>Fat\<close> and \<open>Exfat\<close>).
\<close>

text \<open>A list of clusters that follows the table from \<open>c\<close> on.\<close>

fun chain_from :: "(u32 \<Rightarrow> bool) \<Rightarrow> (u32 \<Rightarrow> u32 outcome) \<Rightarrow> (u32 \<Rightarrow> bool) \<Rightarrow> u32 \<Rightarrow> u32 list \<Rightarrow> bool" where
  "chain_from valid nxt fin c [] \<longleftrightarrow> True"
| "chain_from valid nxt fin c (d # cs) \<longleftrightarrow> d = c \<and> valid c \<and>
     (case nxt c of
        Ret n \<Rightarrow> cs = [] \<or> \<not> fin n \<and> chain_from valid nxt fin n cs
      | _ \<Rightarrow> False)"

text \<open>Where such a list may stop: at an end mark, at a number that is no cluster, at a loop.\<close>

definition chain_stops ::
  "(u32 \<Rightarrow> bool) \<Rightarrow> (u32 \<Rightarrow> u32 outcome) \<Rightarrow> (u32 \<Rightarrow> bool) \<Rightarrow> u32 \<Rightarrow> u32 set \<Rightarrow> u32 list \<Rightarrow> bool" where
  "chain_stops valid nxt fin c seen cs \<longleftrightarrow>
     (if cs = [] then \<not> valid c \<or> c \<in> seen
      else (\<exists>n. nxt (last cs) = Ret n \<and> (fin n \<or> \<not> valid n \<or> n \<in> seen \<union> set cs)))"

definition cluster_addrs :: "(u32 \<Rightarrow> u64) \<Rightarrow> u64 \<Rightarrow> u32 \<Rightarrow> nat list" where
  "cluster_addrs addr cb c = [unat (addr c) ..< unat (addr c) + unat cb]"

definition unseen :: "u32 set \<Rightarrow> nat" where
  "unseen seen = card (- seen)"

lemma unseen_insert: "c \<notin> seen \<Longrightarrow> unseen (insert c seen) < unseen seen"
  unfolding unseen_def by (rule psubset_card_mono) auto

lemma chain_from_valid: "chain_from valid nxt fin c cs \<Longrightarrow> d \<in> set cs \<Longrightarrow> valid d"
  by (induction cs arbitrary: c) (auto split: outcome.splits)

locale cluster_chain =
  fixes loop :: "bool \<Rightarrow> u32 \<Rightarrow> u64 \<Rightarrow> u32 set \<Rightarrow> fs_extent list \<Rightarrow> fs_extent list outcome"
    and valid :: "u32 \<Rightarrow> bool" and addr :: "u32 \<Rightarrow> u64" and cb :: u64
    and nxt :: "u32 \<Rightarrow> u32 outcome" and fin :: "u32 \<Rightarrow> bool"
  assumes loop_eq: "loop whole c left seen exts =
    (if valid c \<and> 0 < left \<and> c \<notin> seen then
       let exts' = push_extent exts (mk_extent (addr c) (if whole then cb else min left cb)) in
       obind (nxt c) (\<lambda>n.
         if fin n then Ret exts'
         else loop whole n (if whole then left else left - min left cb) (insert c seen) exts')
     else Ret exts)"
begin

text \<open>The loop comes back, and traps only where reading the table does.\<close>

lemma loop_returns:
  assumes "\<And>c. valid c \<Longrightarrow> \<exists>n. nxt c = Ret n"
  shows "\<exists>out. loop whole c left seen exts = Ret out"
proof (induction "unseen seen" arbitrary: c left seen exts rule: less_induct)
  case less
  show ?case
  proof (cases "valid c \<and> 0 < left \<and> c \<notin> seen")
    case True
    obtain n where "nxt c = Ret n" using assms True by blast
    then show ?thesis
      using less [OF unseen_insert, of c] True by (subst loop_eq) (auto simp: Let_def)
  next
    case False
    then show ?thesis by (subst loop_eq) auto
  qed
qed

lemma loop_not_Stuck:
  assumes "\<And>c. nxt c \<noteq> Stuck"
  shows "loop whole c left seen exts \<noteq> Stuck"
proof (induction "unseen seen" arbitrary: c left seen exts rule: less_induct)
  case less
  then show ?case
    using unseen_insert [of c seen] assms [of c]
    by (subst loop_eq) (auto simp: Let_def obind_eq_Stuck)
qed

text \<open>The extents denote the bytes of the clusters of the chain in chain order, cut at \<open>left\<close>
  bytes unless the whole chain is wanted; no cluster is visited twice, and the chain is followed
  to its end unless \<open>left\<close> bytes came first.\<close>

lemma loop_chain:
  assumes "\<And>c. valid c \<Longrightarrow> unat (addr c) + unat cb \<le> hi" and "hi < 18446744073709551616"
  shows "loop whole c left seen exts = Ret out \<Longrightarrow> ext_ok hi exts \<Longrightarrow> 0 < left \<Longrightarrow>
    \<exists>cs. chain_from valid nxt fin c cs \<and> distinct cs \<and> set cs \<inter> seen = {} \<and> ext_ok hi out \<and>
      ext_addrs out = ext_addrs exts @
        (if whole then id else take (unat left)) (concat (map (cluster_addrs addr cb) cs)) \<and>
      (whole \<or> length cs * unat cb < unat left \<longrightarrow> chain_stops valid nxt fin c seen cs)"
proof (induction "unseen seen" arbitrary: c left seen exts rule: less_induct)
  case less
  show ?case
  proof (cases "valid c \<and> c \<notin> seen")
    case False
    then have "out = exts" using less.prems by (subst (asm) loop_eq) auto
    then show ?thesis
      using False less.prems by (intro exI [of _ "[]"]) (auto simp: chain_stops_def)
  next
    case True
    define t where "t = (if whole then cb else min left cb)"
    let ?exts = "push_extent exts (mk_extent (addr c) t)"
    have t: "unat t \<le> unat cb" by (auto simp: t_def min_def word_le_unat)
    have push: "ext_addrs ?exts = ext_addrs exts @ [unat (addr c) ..< unat (addr c) + unat t] \<and> ext_ok hi ?exts"
      using push_extent_addrs [OF less.prems(2), of "mk_extent (addr c) t"] assms(1) [of c] True t assms(2)
      by (simp add: mk_extent_def)
    obtain n where n: "nxt c = Ret n"
      and rest: "if fin n then out = ?exts
        else loop whole n (if whole then left else left - t) (insert c seen) ?exts = Ret out"
      using less.prems(1,3) True by (subst (asm) loop_eq) (auto simp: Let_def t_def split: if_splits)
    have cut: "[unat (addr c) ..< unat (addr c) + unat t] =
        (if whole then id else take (unat left)) (cluster_addrs addr cb c)"
      by (auto simp: t_def cluster_addrs_def min_def word_le_unat take_upt)
    consider (fin) "fin n" | (cut) "\<not> fin n" "\<not> whole" "left = t" | (go) "\<not> fin n" "whole \<or> left \<noteq> t"
      by blast
    then show ?thesis
    proof cases
      case fin
      then show ?thesis
        using True rest n push cut by (intro exI [of _ "[c]"]) (auto simp: chain_stops_def)
    next
      case cut': cut
      then have "loop whole n 0 (insert c seen) ?exts = Ret ?exts" by (subst loop_eq) simp
      then have "out = ?exts" using rest cut' by simp
      moreover have "unat left \<le> unat cb" using t cut'(3) by simp
      ultimately show ?thesis
        using True n push cut cut'(1,2) by (intro exI [of _ "[c]"]) auto
    next
      case go
      let ?left = "if whole then left else left - t"
      have "0 < ?left" using go less.prems(3) by (auto simp: word_gt_0)
      then obtain cs where cs: "chain_from valid nxt fin n cs" "distinct cs" "set cs \<inter> insert c seen = {}"
        "ext_ok hi out"
        "ext_addrs out = ext_addrs ?exts @ (if whole then id else take (unat ?left))
          (concat (map (cluster_addrs addr cb) cs))"
        "whole \<or> length cs * unat cb < unat ?left \<longrightarrow> chain_stops valid nxt fin n (insert c seen) cs"
        using less.hyps [OF unseen_insert, of c n ?left ?exts] True rest go push by auto
      have t_cb: "t = cb" if "\<not> whole"
        using go(2) that by (auto simp: t_def min_def split: if_splits)
      have left: "unat (left - t) = unat left - unat cb" "unat cb \<le> unat left" if "\<not> whole"
        using that t_cb [OF that] by (auto simp: t_def min_def word_le_unat unat_sub_u64 split: if_splits)
      have "ext_addrs out = ext_addrs exts @
          (if whole then id else take (unat left)) (concat (map (cluster_addrs addr cb) (c # cs)))"
        using cs(5) push cut left by (auto simp: cluster_addrs_def)
      moreover have "chain_stops valid nxt fin c seen (c # cs)"
        if "whole \<or> length (c # cs) * unat cb < unat left"
      proof -
        have "whole \<or> length cs * unat cb < unat ?left" using that left by auto
        then have "chain_stops valid nxt fin n (insert c seen) cs" using cs(6) by blast
        then show ?thesis using n by (auto simp: chain_stops_def split: if_splits)
      qed
      ultimately show ?thesis
        using True n go cs by (intro exI [of _ "c # cs"]) auto
    qed
  qed
qed

text \<open>The number of bytes collected: all that was asked for, or the whole chain.\<close>

lemma length_clusters: "length (concat (map (cluster_addrs addr cb) cs)) = length cs * unat cb"
  by (induction cs) (simp_all add: cluster_addrs_def)

end

end
