(* ===== verification/Fat.thy ===== *)
theory Fat
  imports Chains
begin

text \<open>
  The FAT scanner (\<open>src/fs/fat.cpp\<close>): the geometry from the boot sector, the allocation table of
  the three widths, the walk over the directories and the objects it lists.  It reads the device
  through the interface \<open>reader\<close>.

  The recursion over directories is not bounded by the program: \<open>fuel\<close> counts its depth, and a
  directory that contains itself uses up any amount of it.
\<close>

section \<open>Geometry\<close>

record fat_geom =
  fg_type :: fs_type
  fg_bps :: u16
  fg_spc :: u8
  fg_reserved :: u16
  fg_fats :: u8
  fg_fatsz :: u32
  fg_root_ents :: u32
  fg_root_clus :: u32
  fg_totsec :: u32
  fg_data_start :: u32
  fg_fat_start :: u32
  fg_root_secs :: u32
  fg_clusters :: u32
  fg_base :: u64

section \<open>The allocation table\<close>

definition fat_get :: "bytes \<Rightarrow> fs_type \<Rightarrow> u32 \<Rightarrow> u32 outcome" where
  "fat_get fat ty cluster =
     (if ty = Fat32 then
        let off = cluster * 4 in
        if length fat < unat (off + 4) then Ret 0x0FFFFFFF
        else obind (r32 fat (unat off)) (\<lambda>v. Ret (v AND 0x0FFFFFFF))
      else if ty = Fat16 then
        let off = cluster * 2 in
        if length fat < unat (off + 2) then Ret 0xFFFF
        else obind (r16 fat (unat off)) (\<lambda>v. Ret (ucast v))
      else
        let off = cluster + cluster div 2 in
        if length fat \<le> unat (off + 1) then Ret 0xFFF
        else
          obind (r16 fat (unat off)) (\<lambda>v.
          if cluster AND 1 \<noteq> 0 then Ret (ucast (drop_bit 4 v)) else Ret (ucast (v AND 0x0FFF))))"

definition is_eoc :: "fs_type \<Rightarrow> u32 \<Rightarrow> bool" where
  "is_eoc ty v =
     (if ty = Fat32 then 0x0FFFFFF8 \<le> v
      else if ty = Fat16 then 0xFFF8 \<le> v
      else 0xFF8 \<le> v)"

definition cluster_offset :: "fat_geom \<Rightarrow> u32 \<Rightarrow> u64" where
  "cluster_offset g cluster =
     fg_base g + (ucast (fg_data_start g) + ucast (cluster - 2) * ucast (fg_spc g)) * ucast (fg_bps g)"

definition fat_cluster_bytes :: "fat_geom \<Rightarrow> u64" where
  "fat_cluster_bytes g = ucast (fg_spc g) * ucast (fg_bps g)"

function fat_chain_loop ::
  "fat_geom \<Rightarrow> bytes \<Rightarrow> bool \<Rightarrow> u32 \<Rightarrow> u64 \<Rightarrow> u32 set \<Rightarrow> fs_extent list \<Rightarrow> fs_extent list outcome" where
  "fat_chain_loop g fat whole c left seen exts =
     (if 2 \<le> c \<and> c < fg_clusters g + 2 \<and> \<not> is_eoc (fg_type g) c \<and> 0 < left then
        (if c \<in> seen then Ret exts
         else
           let take = min left (fat_cluster_bytes g);
               take = (if whole then fat_cluster_bytes g else take);
               exts = push_extent exts (mk_extent (cluster_offset g c) take);
               left = (if whole then left else left - take) in
           obind (fat_get fat (fg_type g) c) (\<lambda>next.
           if is_eoc (fg_type g) next then Ret exts
           else fat_chain_loop g fat whole next left (insert c seen) exts))
      else Ret exts)"
  by pat_completeness auto
termination
  by (relation "measure (\<lambda>(g, fat, whole, c, left, seen, exts). unseen seen)") (auto simp: unseen_insert)

declare fat_chain_loop.simps [simp del]

definition chain_extents ::
  "fat_geom \<Rightarrow> bytes \<Rightarrow> u32 \<Rightarrow> u64 \<Rightarrow> bool \<Rightarrow> fs_extent list outcome" where
  "chain_extents g fat start file_size whole_chain =
     fat_chain_loop g fat whole_chain start
       (if whole_chain \<or> file_size = 0 then - 1 else file_size) {} []"

section \<open>Directory entries\<close>

definition to_char :: "u8 \<Rightarrow> char" where
  "to_char b = char_of (unat b)"

text \<open>A name field: trailing spaces are cut, and a C string ends at the first zero byte.\<close>

definition name_field :: "bytes \<Rightarrow> string" where
  "name_field bs = map to_char (takeWhile (\<lambda>b. b \<noteq> 0) (rev (dropWhile (\<lambda>b. b = 32) (rev bs))))"

definition short_name :: "bytes \<Rightarrow> string" where
  "short_name dir =
     (let name = name_field (take 8 dir); ext = name_field (take 3 (drop 8 dir)) in
      if ext = [] then name else name @ ''.'' @ ext)"

text \<open>The characters of a long-name entry, as the three loops visit them.\<close>

definition lfn_offsets :: "nat list" where
  "lfn_offsets = [1, 3, 5, 7, 9] @ [14, 16, 18, 20, 22, 24] @ [28]"

definition lfn_part :: "bytes \<Rightarrow> string" where
  "lfn_part e =
     take 13 (map (\<lambda>ch. char_of (unat ch))
       (filter (\<lambda>ch. ch \<noteq> 0 \<and> ch < 0x80) (map (v16 e) lfn_offsets)))"

type_synonym walk_result = "bool \<times> fs_scan"

definition scan_fail :: "string \<Rightarrow> fs_scan \<Rightarrow> ('s, walk_result) io" where
  "scan_fail e out = ioret (False, out\<lparr>fs_error := e\<rparr>)"

text \<open>The loop over the entries of a directory, from byte \<open>i\<close> of its contents on; \<open>rec\<close> walks a
  subdirectory.\<close>

function fat_entries ::
  "(u32 \<Rightarrow> string \<Rightarrow> fs_scan \<Rightarrow> ('s, walk_result) io) \<Rightarrow> fat_geom \<Rightarrow> bytes \<Rightarrow> string \<Rightarrow> bytes
    \<Rightarrow> nat \<Rightarrow> string \<Rightarrow> fs_scan \<Rightarrow> ('s, walk_result) io" where
  "fat_entries rec g fat pfx dirbuf i lfn out =
     (if length dirbuf < i + 32 then ioret (True, out)
      else
        let e = take 32 (drop i dirbuf) in
        if e ! 0 = 0 then ioret (True, out)
        else if e ! 0 = 0xE5 then fat_entries rec g fat pfx dirbuf (i + 32) lfn out
        else if e ! 11 = 0x0F then fat_entries rec g fat pfx dirbuf (i + 32) (lfn_part e @ lfn) out
        else if e ! 11 AND 0x08 \<noteq> 0 then fat_entries rec g fat pfx dirbuf (i + 32) [] out
        else
          let name = (if lfn = [] then short_name e else lfn) in
          if name = ''.'' \<or> name = ''..'' then fat_entries rec g fat pfx dirbuf (i + 32) [] out
          else
            let path = pfx @ ''/'' @ name;
                clus = ucast (v16 e 26) OR
                  (if fg_type g = Fat32 then push_bit 16 (ucast (v16 e 20)) else 0);
                fsize = v32 e 28;
                is_dir = (e ! 11 AND 0x10 \<noteq> 0) in
            iob (if 2 \<le> clus
                 then iolift (chain_extents g fat clus (if is_dir then 0 else ucast fsize) is_dir)
                 else ioret []) (\<lambda>exts.
            let out = add_object (mk_object path (if is_dir then 0 else ucast fsize) exts) out in
            if is_dir \<and> 2 \<le> clus then
              iob (rec clus path out) (\<lambda>(ok, out).
              if ok then fat_entries rec g fat pfx dirbuf (i + 32) [] out
              else ioret (False, out))
            else fat_entries rec g fat pfx dirbuf (i + 32) [] out))"
  by pat_completeness auto
termination
  by (relation "measure (\<lambda>(rec, g, fat, pfx, dirbuf, i, lfn, out). length dirbuf - i)") auto

declare fat_entries.simps [simp del]

text \<open>Reads a list of extents one after the other into one buffer.\<close>

fun read_extents ::
  "(u64 \<Rightarrow> nat \<Rightarrow> ('s, string + bytes) io) \<Rightarrow> fs_extent list \<Rightarrow> bytes \<Rightarrow> ('s, string + bytes) io" where
  "read_extents rd [] buf = ioret (Inr buf)"
| "read_extents rd (e # es) buf =
     iob (rd (fe_offset e) (unat (fe_length e))) (\<lambda>r.
     case r of
       Inl err \<Rightarrow> ioret (Inl err)
     | Inr chunk \<Rightarrow> read_extents rd es (buf @ chunk))"

text \<open>The start of the fixed root directory; the sum of sectors is computed in 32 bits.\<close>

definition fat_root_off :: "fat_geom \<Rightarrow> u64" where
  "fat_root_off g =
     fg_base g + ucast (ucast (fg_reserved g) + ucast (fg_fats g) * fg_fatsz g :: u32) * ucast (fg_bps g)"

fun fat_walk_dir ::
  "nat \<Rightarrow> (u64 \<Rightarrow> nat \<Rightarrow> ('s, string + bytes) io) \<Rightarrow> fat_geom \<Rightarrow> bytes \<Rightarrow> u32 \<Rightarrow> bool \<Rightarrow> string
    \<Rightarrow> fs_scan \<Rightarrow> ('s, walk_result) io" where
  "fat_walk_dir 0 rd g fat start_clus is_root_fat16 pfx out = iostuck"
| "fat_walk_dir (Suc fuel) rd g fat start_clus is_root_fat16 pfx out =
     iob (if is_root_fat16 \<and> (fg_type g = Fat12 \<or> fg_type g = Fat16)
          then rd (fat_root_off g) (unat (ucast (fg_root_secs g) * ucast (fg_bps g) :: u64))
          else
            iob (iolift (chain_extents g fat start_clus 0 True)) (\<lambda>exts. read_extents rd exts []))
       (\<lambda>r.
     case r of
       Inl err \<Rightarrow> scan_fail err out
     | Inr dirbuf \<Rightarrow>
         fat_entries (\<lambda>clus path out. fat_walk_dir fuel rd g fat clus False path out)
           g fat pfx dirbuf 0 [] out)"

section \<open>The scan\<close>

text \<open>A product of two \<open>int\<close>s, which is undefined when it does not fit.\<close>

definition int_mult :: "nat \<Rightarrow> nat \<Rightarrow> nat outcome" where
  "int_mult a b = (if a * b < 2 ^ 31 then Ret (a * b) else Trap)"

definition udiv :: "'a::len word \<Rightarrow> 'a word \<Rightarrow> 'a word outcome" where
  "udiv a b = (if b = 0 then Trap else Ret (a div b))"

definition fat_geometry :: "fs_type \<Rightarrow> u64 \<Rightarrow> bytes \<Rightarrow> fat_geom outcome" where
  "fat_geometry ty base bpb =
     (let bps = v16 bpb 11;
          spc = bpb ! 13;
          reserved = v16 bpb 14;
          fats = bpb ! 16;
          root_ents = (ucast (v16 bpb 17) :: u32);
          tot16 = v16 bpb 19;
          fatsz16 = v16 bpb 22;
          tot32 = v32 bpb 32;
          fatsz32 = v32 bpb 36;
          fatsz = (if fatsz16 \<noteq> 0 then ucast fatsz16 else fatsz32);
          totsec = (if tot16 \<noteq> 0 then ucast tot16 else tot32) in
      obind (udiv (root_ents * 32 + (ucast bps - 1)) (ucast bps)) (\<lambda>root_secs.
      let data_start = ucast reserved + ucast fats * fatsz + (if ty = Fat32 then 0 else root_secs);
          data_secs = (if data_start < totsec then totsec - data_start else 0) in
      Ret \<lparr>fg_type = ty, fg_bps = bps, fg_spc = spc, fg_reserved = reserved, fg_fats = fats,
           fg_fatsz = fatsz, fg_root_ents = root_ents,
           fg_root_clus = (if ty = Fat32 then v32 bpb 44 else 0), fg_totsec = totsec,
           fg_data_start = data_start, fg_fat_start = ucast reserved, fg_root_secs = root_secs,
           fg_clusters = (if spc \<noteq> 0 then data_secs div ucast spc else 0), fg_base = base\<rparr>))"

text \<open>The scan once the geometry is known.\<close>

definition scan_fat_volume ::
  "nat \<Rightarrow> (u64 \<Rightarrow> nat \<Rightarrow> ('s, string + bytes) io) \<Rightarrow> u64 \<Rightarrow> fs_type \<Rightarrow> fat_geom \<Rightarrow> fs_scan
    \<Rightarrow> ('s, walk_result) io" where
  "scan_fat_volume fuel rd base ty g out =
     (if fg_bps g = 0 \<or> fg_spc g = 0 \<or> fg_fats g = 0 \<or> fg_fatsz g = 0
      then scan_fail ''invalid FAT BPB'' out
      else
        iob (iolift (int_mult (unat (fg_reserved g)) (unat (fg_bps g)))) (\<lambda>boot_size.
        let fat_size = ucast (fg_fats g) * ucast (fg_fatsz g) * ucast (fg_bps g);
            fat_off = base + ucast (fg_fat_start g) * ucast (fg_bps g);
            out = add_object (mk_object ''::boot'' (u64_of boot_size)
                    [mk_extent base (u64_of boot_size)]) out;
            out = add_object (mk_object ''::fat'' fat_size [mk_extent fat_off fat_size]) out in
        iob (rd fat_off (unat (ucast (fg_fatsz g) * ucast (fg_bps g) :: u64))) (\<lambda>r.
        case r of
          Inl err \<Rightarrow> scan_fail err out
        | Inr fat \<Rightarrow>
            if ty = Fat32 then fat_walk_dir fuel rd g fat (fg_root_clus g) False [] out
            else fat_walk_dir fuel rd g fat 0 True [] out)))"

definition scan_fat ::
  "nat \<Rightarrow> (u64 \<Rightarrow> nat \<Rightarrow> ('s, string + bytes) io) \<Rightarrow> u64 \<Rightarrow> fs_type \<Rightarrow> fs_scan \<Rightarrow> ('s, walk_result) io" where
  "scan_fat fuel rd base ty out =
     iob (rd base 512) (\<lambda>r.
     case r of
       Inl err \<Rightarrow> scan_fail err out
     | Inr bpb \<Rightarrow>
         iob (iolift (fat_geometry ty base bpb)) (\<lambda>g. scan_fat_volume fuel rd base ty g out))"

section \<open>Lemmas: the allocation table\<close>

definition fat_valid :: "fat_geom \<Rightarrow> u32 \<Rightarrow> bool" where
  "fat_valid g c \<longleftrightarrow> 2 \<le> c \<and> c < fg_clusters g + 2 \<and> \<not> is_eoc (fg_type g) c"

lemma fat_get_not_Stuck: "fat_get fat ty c \<noteq> Stuck"
  by (auto simp: fat_get_def Let_def obind_eq_Stuck)

text \<open>A number below the end marks is looked up without leaving the table: the 32-bit products
  do not wrap there.\<close>

lemma fat_get_total:
  assumes "\<not> is_eoc ty c"
  shows "\<exists>n. fat_get fat ty c = Ret n"
proof -
  consider (32) "ty = Fat32" "unat c < 0x0FFFFFF8" | (16) "ty = Fat16" "unat c < 0xFFF8"
    | (12) "ty \<noteq> Fat32" "ty \<noteq> Fat16" "unat c < 0xFF8"
    using assms by (auto simp: is_eoc_def word_le_unat not_le split: if_splits)
  then show ?thesis
  proof cases
    case 32
    then have "unat (c * 4) = unat c * 4" "unat (c * 4 + 4) = unat c * 4 + 4"
      by (simp_all add: unat_word_ariths)
    then show ?thesis using 32 by (auto simp: fat_get_def Let_def)
  next
    case 16
    then have "unat (c * 2) = unat c * 2" "unat (c * 2 + 2) = unat c * 2 + 2"
      by (simp_all add: unat_word_ariths)
    then show ?thesis using 16 by (auto simp: fat_get_def Let_def)
  next
    case 12
    then have "unat (c + c div 2) = unat c + unat c div 2"
      "unat (c + c div 2 + 1) = unat c + unat c div 2 + 1"
      by (simp_all add: unat_word_ariths unat_div)
    then show ?thesis using 12 by (auto simp: fat_get_def Let_def)
  qed
qed

interpretation fat: cluster_chain "fat_chain_loop g fat" "fat_valid g" "cluster_offset g"
    "fat_cluster_bytes g" "fat_get fat (fg_type g)" "is_eoc (fg_type g)"
  for g :: fat_geom and fat :: bytes
proof unfold_locales
  fix whole c left seen exts
  show "fat_chain_loop g fat whole c left seen exts =
    (if fat_valid g c \<and> 0 < left \<and> c \<notin> seen then
       let exts' = push_extent exts (mk_extent (cluster_offset g c)
             (if whole then fat_cluster_bytes g else min left (fat_cluster_bytes g))) in
       obind (fat_get fat (fg_type g) c) (\<lambda>n.
         if is_eoc (fg_type g) n then Ret exts'
         else fat_chain_loop g fat whole n (if whole then left else left - min left (fat_cluster_bytes g))
                (insert c seen) exts')
     else Ret exts)"
    by (subst fat_chain_loop.simps) (auto simp: fat_valid_def Let_def)
qed

lemma chain_extents_returns: "\<exists>exts. chain_extents g fat c sz whole = Ret exts"
  unfolding chain_extents_def by (rule fat.loop_returns) (simp add: fat_valid_def fat_get_total)

text \<open>After the boot sector has been read, only two of its fields can make the scan trap: a sector
  size of zero, by which the code divides before it tests it, and a product of \<open>int\<close>s that overflows.\<close>

lemma fat_geometry_returns:
  assumes "v16 bpb 11 \<noteq> 0"
  shows "\<exists>g. fat_geometry ty base bpb = Ret g \<and> fg_bps g = v16 bpb 11 \<and>
     fg_reserved g = v16 bpb 14 \<and> fg_type g = ty \<and> fg_base g = base"
proof -
  have "(ucast (v16 bpb 11) :: u32) \<noteq> 0" using assms by (simp add: word_unat_eq_iff)
  then show ?thesis by (simp add: fat_geometry_def udiv_def Let_def)
qed

lemma fat_geometry_traps: "v16 bpb 11 = 0 \<Longrightarrow> fat_geometry ty base bpb = Trap"
  by (simp add: fat_geometry_def udiv_def Let_def)

section \<open>Lemmas: the walk\<close>

context reader
begin

lemma safe_read_extents: "safe True (read_extents rd es buf)"
  by (induction es arbitrary: buf) (auto intro!: stays_intros safe_rd)

lemma safe_fat_entries:
  assumes "\<And>clus path out. safe True (rec clus path out)"
  shows "safe True (fat_entries rec g fat pfx dirbuf i lfn out)"
proof (induction "length dirbuf - i" arbitrary: i lfn out rule: less_induct)
  case less
  show ?case
  proof (cases "length dirbuf < i + 32")
    case True
    then show ?thesis by (subst fat_entries.simps) (simp add: stays_ret)
  next
    case False
    then have IH: "safe True (fat_entries rec g fat pfx dirbuf (i + 32) lfn' out')" for lfn' out'
      by (intro less) simp
    show ?thesis
      by (subst fat_entries.simps)
        (intro stays_intros IH assms safe_lift_Ret chain_extents_returns)
  qed
qed

lemma safe_fat_walk_dir: "safe True (fat_walk_dir fuel rd g fat c top_dir pfx out)"
proof (induction fuel arbitrary: c top_dir pfx out)
  case (Suc fuel)
  show ?case
    unfolding fat_walk_dir.simps scan_fail_def
    by (intro stays_intros safe_rd safe_read_extents safe_fat_entries Suc safe_lift_Ret
        chain_extents_returns)
qed (simp add: stays_stuck)

lemma safe_scan_fat_volume:
  assumes "unat (fg_reserved g) * unat (fg_bps g) < 2 ^ 31"
  shows "safe True (scan_fat_volume fuel rd base ty g out)"
  unfolding scan_fat_volume_def scan_fail_def using assms
  by (intro stays_intros safe_rd safe_fat_walk_dir safe_lift_Ret) (simp_all add: int_mult_def)

end

section \<open>Properties of the FAT scanner\<close>



text \<open>A boot sector whose sector size is zero kills the program with a division by zero, although
  the code means to report \<open>invalid FAT BPB\<close>: the test comes after the division.\<close>

theorem scan_fat_zero_sector_size:
  assumes "pread_all os d base 512 s = Ret (Inr bpb, s1)" and "v16 bpb 11 = 0"
  shows "scan_fat fuel (pread_all os d) base ty out s = Trap"
  using assms fat_geometry_traps [OF assms(2)] by (simp add: scan_fat_def iob_def)

lemma scan_fat_zero_sector_size_witness:
  "scan_fat 1 (pread_all ram_sys ram_dev) 0 Fat16 (scan_init Fat16) \<lparr>world = replicate 1024 0\<rparr> = Trap"
  by (rule scan_fat_zero_sector_size [OF ram_pread_all]) (simp_all add: v16_def word_unat_eq_iff unat_le16)

text \<open>C11: the extents of a file are its bytes.  Following a chain always comes to an end; it
  visits clusters of the volume, each at most once, as the allocation table links them from the
  first one on; and the extents denote, in order and without gaps or repetitions, the first \<open>sz\<close>
  bytes of these clusters.  If the chain has fewer bytes than the file claims, it was followed to
  an end mark, to a number that is no cluster of the volume, or back to a cluster already
  visited.\<close>

theorem fat_file_extents:
  assumes "sz \<noteq> 0"
    and "\<And>c. fat_valid g c \<Longrightarrow> unat (cluster_offset g c) + unat (fat_cluster_bytes g) < 2 ^ 64"
  shows "\<exists>exts cs. chain_extents g fat start sz False = Ret exts \<and>
    chain_from (fat_valid g) (fat_get fat (fg_type g)) (is_eoc (fg_type g)) start cs \<and> distinct cs \<and>
    ext_addrs exts =
      take (unat sz) (concat (map (cluster_addrs (cluster_offset g) (fat_cluster_bytes g)) cs)) \<and>
    (length cs * unat (fat_cluster_bytes g) < unat sz \<longrightarrow>
       chain_stops (fat_valid g) (fat_get fat (fg_type g)) (is_eoc (fg_type g)) start {} cs)"
proof -
  obtain exts where e: "chain_extents g fat start sz False = Ret exts"
    using chain_extents_returns by blast
  have "fat_chain_loop g fat False start sz {} [] = Ret exts"
    using e assms(1) by (simp add: chain_extents_def)
  from fat.loop_chain [of g 18446744073709551615, OF _ _ this] assms show ?thesis
    unfolding e by (fastforce simp: word_gt_0 less_Suc_eq_le)
qed

text \<open>A volume of four clusters, for the witnesses.\<close>

definition tiny_fat :: fat_geom where
  "tiny_fat = \<lparr>fg_type = Fat16, fg_bps = 512, fg_spc = 1, fg_reserved = 1, fg_fats = 1, fg_fatsz = 1,
     fg_root_ents = 16, fg_root_clus = 0, fg_totsec = 7, fg_data_start = 3, fg_fat_start = 1,
     fg_root_secs = 1, fg_clusters = 4, fg_base = 0\<rparr>"

lemma tiny_fat_valid: "fat_valid tiny_fat c \<Longrightarrow> c \<in> {2, 3, 4, 5}"
proof -
  assume "fat_valid tiny_fat c"
  then have "2 \<le> unat c" "unat c < 6"
    by (simp_all add: fat_valid_def tiny_fat_def word_le_unat word_less_unat)
  then have "unat c = 2 \<or> unat c = 3 \<or> unat c = 4 \<or> unat c = 5" by arith
  then show ?thesis by (auto simp: word_unat_eq_iff)
qed

lemma tiny_fat_offset:
  "fat_valid tiny_fat c \<Longrightarrow> unat (cluster_offset tiny_fat c) + unat (fat_cluster_bytes tiny_fat) < 18446744073709551616"
  using tiny_fat_valid [of c]
  by (auto simp: cluster_offset_def fat_cluster_bytes_def tiny_fat_def)

lemma fat_file_extents_witness:
  "\<exists>exts cs. chain_extents tiny_fat [0, 0, 0, 0, 5, 0, 0, 0, 0, 0, 0xFF, 0xFF] 2 700 False = Ret exts \<and>
     distinct cs \<and> ext_addrs exts =
       take 700 (concat (map (cluster_addrs (cluster_offset tiny_fat) (fat_cluster_bytes tiny_fat)) cs))"
proof -
  let ?fat = "[0, 0, 0, 0, 5, 0, 0, 0, 0, 0, 0xFF, 0xFF]"
  have ok: "fat_valid tiny_fat c \<Longrightarrow>
      unat (cluster_offset tiny_fat c) + unat (fat_cluster_bytes tiny_fat) < 2 ^ 64" for c
    using tiny_fat_offset [of c] by simp
  have "(700 :: u64) \<noteq> 0" and n: "unat (700 :: u64) = 700" by simp_all
  from fat_file_extents [of 700 tiny_fat ?fat 2, OF this(1) ok] show ?thesis
    unfolding n by blast
qed

text \<open>A directory that contains itself is walked for ever: if the entries of a directory
  begin with a subdirectory whose first cluster is that of the directory itself, no depth of
  recursion is enough.\<close>

theorem fat_self_loop_never_returns:
  assumes "chain_extents g fat c 0 True = Ret exts"
    and "read_extents rd exts [] s = Ret (Inr dirbuf, s)"
    and "32 \<le> length dirbuf" and "dirbuf ! 0 \<notin> {0, 0xE5}"
    and "dirbuf ! 11 = 0x10" and "short_name (take 32 dirbuf) \<notin> {''.'', ''..''}"
    and "fg_type g \<noteq> Fat32" and "ucast (v16 (take 32 dirbuf) 26) = c" and "2 \<le> c"
  shows "fat_walk_dir fuel rd g fat c False pfx out s = Stuck"
proof (induction fuel arbitrary: pfx out)
  case 0
  show ?case by (simp add: iostuck_apply)
next
  case (Suc fuel)
  let ?rec = "\<lambda>clus path out. fat_walk_dir fuel rd g fat clus False path out"
  have ex: "chain_extents g fat (ucast (v16 (take 32 dirbuf) 26) OR 0) 0 True = Ret exts"
    using assms(1,8) by simp
  have "fat_entries ?rec g fat pfx dirbuf 0 [] out s = Stuck"
    using assms Suc by (subst fat_entries.simps) (simp add: Let_def iob_def)
  then show ?case using assms(1,2) by (simp add: iob_def)
qed

definition loop_entry :: bytes where
  "loop_entry = [65, 32, 32, 32, 32, 32, 32, 32, 32, 32, 32, 0x10, 0, 0, 0, 0,
     0, 0, 0, 0, 0, 0, 0, 0, 0, 0, 2, 0, 0, 0, 0, 0]"

lemma fat_self_loop_never_returns_witness:
  "fat_walk_dir 1000 (\<lambda>off n s. Ret (Inr (loop_entry @ replicate 480 0), s)) tiny_fat
     [0, 0, 0, 0, 0xFF, 0xFF] 2 False [] (scan_init Fat16) () = Stuck"
proof (rule fat_self_loop_never_returns)
  show "chain_extents tiny_fat [0, 0, 0, 0, 0xFF, 0xFF] 2 0 True = Ret [mk_extent 1536 512]"
    by (simp add: chain_extents_def fat_chain_loop.simps [of _ _ _ 2] tiny_fat_def is_eoc_def
        fat_get_def v16_def le16_def push_extent_def cluster_offset_def fat_cluster_bytes_def Let_def word_gt_0)
  show "read_extents (\<lambda>off n s. Ret (Inr (loop_entry @ replicate 480 0), s)) [mk_extent 1536 512] [] () =
      Ret (Inr (loop_entry @ replicate 480 0), ())"
    by (simp add: iob_def)
  show "short_name (take 32 (loop_entry @ replicate 480 0)) \<notin> {''.'', ''..''}"
    by (simp add: loop_entry_def short_name_def name_field_def to_char_def char_of_def)
qed (simp_all add: loop_entry_def tiny_fat_def v16_def le16_def nth_append)

text \<open>Long names lose characters: an entry holds thirteen, but the last one, at bytes 30 and
  31, is never looked at, so at most twelve are taken, and names that differ only there are the
  same to the scanner.\<close>

theorem lfn_last_char_ignored:
  "length (lfn_part e) \<le> 12 \<and> lfn_part (e[30 := a, 31 := b]) = lfn_part e"
proof
  have "length (filter P (map (v16 e) lfn_offsets)) \<le> 12" for P
    using length_filter_le [of P "map (v16 e) lfn_offsets"] by (simp add: lfn_offsets_def)
  then show "length (lfn_part e) \<le> 12" by (simp add: lfn_part_def min.coboundedI1)
  have "map (v16 (e[30 := a, 31 := b])) lfn_offsets = map (v16 e) lfn_offsets"
    by (simp add: lfn_offsets_def v16_def)
  then show "lfn_part (e[30 := a, 31 := b]) = lfn_part e" by (simp only: lfn_part_def)
qed

end
