(* ===== verification/Partition.thy ===== *)
theory Partition
  imports Extents
begin

text \<open>
  The partition probe (\<open>src/io/partition.hpp\<close>, \<open>partition.cpp\<close>): reads the first sector and the
  GPT header, and lists the partitions of a GPT or MBR table.  It reads the device through the
  interface \<open>reader\<close>.  Its logical sector is what \<open>Device\<close> calls the sector size, and its
  arithmetic is that of the program: \<open>part_count * part_size\<close> and \<open>i * part_size\<close> are computed in
  32 bits, everything on addresses in 64.
\<close>

section \<open>Data\<close>

record partition =
  pt_index :: int
  pt_start_lba :: u64
  pt_length_lba :: u64
  pt_start_bytes :: u64
  pt_length_bytes :: u64
  pt_name :: string

datatype table_kind = TableNone | TableMbr | TableGpt

record partition_map =
  pm_kind :: table_kind
  pm_sector_size :: u64
  pm_table_bytes :: u64
  pm_parts :: "partition list"

definition part_of :: "u64 \<Rightarrow> int \<Rightarrow> u64 \<Rightarrow> u64 \<Rightarrow> partition" where
  "part_of ss idx start len =
     \<lparr>pt_index = idx, pt_start_lba = start, pt_length_lba = len,
      pt_start_bytes = start * ss, pt_length_bytes = len * ss,
      pt_name = ''::part-'' @ show_int idx\<rparr>"

section \<open>The tables\<close>

text \<open>The loop over the entries of a GPT: \<open>left\<close> entries from number \<open>i\<close> on.\<close>

fun gpt_entries ::
  "bytes \<Rightarrow> u64 \<Rightarrow> u32 \<Rightarrow> nat \<Rightarrow> u32 \<Rightarrow> int \<Rightarrow> partition list \<Rightarrow> partition list outcome" where
  "gpt_entries ents ss part_size 0 i idx parts = Ret parts"
| "gpt_entries ents ss part_size (Suc left) i idx parts =
     (let e = unat (i * part_size) in
      if length ents < e + 16 then Trap
      else if \<forall>b \<in> set (take 16 (drop e ents)). b = 0
      then gpt_entries ents ss part_size left (i + 1) idx parts
      else
        obind (r64 ents (e + 32)) (\<lambda>start.
        obind (r64 ents (e + 40)) (\<lambda>end_lba.
        let len = (if start \<le> end_lba then end_lba - start + 1 else 0) in
        gpt_entries ents ss part_size left (i + 1) (idx + 1) (parts @ [part_of ss idx start len]))))"

fun mbr_entries ::
  "bytes \<Rightarrow> u64 \<Rightarrow> nat \<Rightarrow> nat \<Rightarrow> int \<Rightarrow> partition list \<Rightarrow> partition list outcome" where
  "mbr_entries sector ss 0 i idx parts = Ret parts"
| "mbr_entries sector ss (Suc left) i idx parts =
     (let e = 446 + i * 16 in
      obind (get8 sector (e + 4)) (\<lambda>ty.
      if ty = 0 then mbr_entries sector ss left (i + 1) idx parts
      else
        obind (r32 sector (e + 8)) (\<lambda>start.
        obind (r32 sector (e + 12)) (\<lambda>len.
        mbr_entries sector ss left (i + 1) (idx + 1)
          (parts @ [part_of ss idx (ucast start) (ucast len)])))))"

definition ascii :: "string \<Rightarrow> bytes" where
  "ascii s = map of_char s"

definition has_prefix_at :: "bytes \<Rightarrow> nat \<Rightarrow> string \<Rightarrow> bool" where
  "has_prefix_at bs i s \<longleftrightarrow> take (length s) (drop i bs) = ascii s"

definition probe_gpt ::
  "(u64 \<Rightarrow> nat \<Rightarrow> ('s, string + bytes) io) \<Rightarrow> u64 \<Rightarrow> bytes \<Rightarrow> ('s, string + partition_map) io" where
  "probe_gpt rd ss hdr =
     iob (iolift (r64 hdr 72)) (\<lambda>part_lba.
     iob (iolift (r32 hdr 80)) (\<lambda>part_count.
     iob (iolift (r32 hdr 84)) (\<lambda>part_size.
     let part_size = (if part_size < 128 then 128 else part_size);
         table_end = (part_lba + ((ucast (part_count * part_size) + ss - 1) div ss)) * ss in
     iob (rd (part_lba * ss) (unat part_count * unat part_size)) (\<lambda>r.
     case r of
       Inl e \<Rightarrow> ioret (Inl e)
     | Inr ents \<Rightarrow>
         iob (iolift (gpt_entries ents ss part_size (unat part_count) 0 1 [])) (\<lambda>parts.
         ioret (Inr \<lparr>pm_kind = TableGpt, pm_sector_size = ss, pm_table_bytes = table_end,
                    pm_parts = parts\<rparr>))))))"

definition boot_signature :: "bytes \<Rightarrow> bool outcome" where
  "boot_signature sector =
     obind (get8 sector 510) (\<lambda>a.
     if a = 0x55 then obind (get8 sector 511) (\<lambda>b. Ret (b = 0xAA)) else Ret False)"

definition probe_mbr :: "u64 \<Rightarrow> bytes \<Rightarrow> bool \<Rightarrow> ('s, string + partition_map) io" where
  "probe_mbr ss sector sg =
     (if sg then
        iob (iolift (mbr_entries sector ss 4 0 1 [])) (\<lambda>parts.
        ioret (Inr \<lparr>pm_kind = TableMbr, pm_sector_size = ss, pm_table_bytes = ss, pm_parts = parts\<rparr>))
      else ioret (Inr \<lparr>pm_kind = TableNone, pm_sector_size = ss, pm_table_bytes = 0, pm_parts = []\<rparr>))"

definition probe_partitions ::
  "(u64 \<Rightarrow> nat \<Rightarrow> ('s, string + bytes) io) \<Rightarrow> u64 \<Rightarrow> ('s, string + partition_map) io" where
  "probe_partitions rd sector_size =
     (let ss = (if sector_size \<noteq> 0 then sector_size else 512) in
      iob (rd 0 (unat ss)) (\<lambda>r.
      case r of
        Inl e \<Rightarrow> ioret (Inl e)
      | Inr sector \<Rightarrow>
          iob (iolift (boot_signature sector)) (\<lambda>sg.
          iob (rd ss (unat ss)) (\<lambda>r.
          case r of
            Inl _ \<Rightarrow> probe_mbr ss sector sg
          | Inr hdr \<Rightarrow>
              if has_prefix_at hdr 0 ''EFI PART'' then probe_gpt rd ss hdr
              else probe_mbr ss sector sg))))"

section \<open>The list of partitions\<close>

text \<open>What the rest of the program relies on: the partitions are numbered from 1 in the order of
  the table, each is named after its number, and its place in bytes is its place in blocks times
  the block size (modulo the width).\<close>

definition parts_ok :: "u64 \<Rightarrow> partition list \<Rightarrow> bool" where
  "parts_ok ss parts \<longleftrightarrow>
     (\<forall>k < length parts. \<exists>start len. parts ! k = part_of ss (int k + 1) start len)"

lemma parts_ok_snoc:
  "parts_ok ss parts \<Longrightarrow> idx = int (length parts) + 1 \<Longrightarrow> parts_ok ss (parts @ [part_of ss idx a b])"
  by (auto simp: parts_ok_def nth_append less_Suc_eq)

lemma gpt_entries_ok:
  "gpt_entries ents ss psz left i idx parts = Ret ps \<Longrightarrow> parts_ok ss parts \<Longrightarrow>
   idx = int (length parts) + 1 \<Longrightarrow>
   parts_ok ss ps \<and> length ps \<le> length parts + left \<and> (\<exists>more. ps = parts @ more)"
proof (induction left arbitrary: i idx parts)
  case (Suc left)
  consider (skip) "gpt_entries ents ss psz left (i + 1) idx parts = Ret ps"
    | (add) start len where
        "gpt_entries ents ss psz left (i + 1) (idx + 1) (parts @ [part_of ss idx start len]) = Ret ps"
    using Suc.prems(1) by (auto simp: Let_def simp del: r64_in split: if_split_asm)
  then show ?case
  proof cases
    case skip
    then show ?thesis using Suc.IH [OF skip Suc.prems(2,3)] by auto
  next
    case add
    then show ?thesis
      using Suc.IH [OF add parts_ok_snoc [OF Suc.prems(2,3)]] Suc.prems(3) by auto
  qed
qed auto

lemma mbr_entries_ok:
  "mbr_entries sector ss left i idx parts = Ret ps \<Longrightarrow> parts_ok ss parts \<Longrightarrow>
   idx = int (length parts) + 1 \<Longrightarrow>
   parts_ok ss ps \<and> length ps \<le> length parts + left \<and> (\<exists>more. ps = parts @ more)"
proof (induction left arbitrary: i idx parts)
  case (Suc left)
  consider (skip) "mbr_entries sector ss left (i + 1) idx parts = Ret ps"
    | (add) start len where
        "mbr_entries sector ss left (i + 1) (idx + 1) (parts @ [part_of ss idx start len]) = Ret ps"
    using Suc.prems(1) by (auto simp: Let_def simp del: r32_in split: if_split_asm)
  then show ?case
  proof cases
    case skip
    then show ?thesis using Suc.IH [OF skip Suc.prems(2,3)] by auto
  next
    case add
    then show ?thesis
      using Suc.IH [OF add parts_ok_snoc [OF Suc.prems(2,3)]] Suc.prems(3) by auto
  qed
qed auto

text \<open>No read leaves its buffer: the entries of a GPT lie in the table that was read although the
  products that locate them may wrap, and the entries of an MBR lie in the sector.\<close>

lemma gpt_entries_total:
  fixes cnt :: u32
  shows "128 \<le> unat psz \<Longrightarrow> length ents = unat cnt * unat psz \<Longrightarrow> unat i + left = unat cnt \<Longrightarrow>
   \<exists>ps. gpt_entries ents ss psz left i idx parts = Ret ps"
proof (induction left arbitrary: i idx parts)
  case (Suc left)
  have "unat (i * psz) \<le> unat i * unat psz"
    by (simp add: unat_word_ariths)
  moreover have "(unat i + 1) * unat psz \<le> unat cnt * unat psz"
    using Suc.prems(3) by (intro mult_le_mono1) simp
  ultimately have e: "unat (i * psz) + 128 \<le> length ents"
    using Suc.prems(1,2) by simp
  have "unat i + 1 < 4294967296" using Suc.prems(3) unat_lt_u32 [of cnt] by linarith
  then have "unat (i + 1) + left = unat cnt"
    using Suc.prems(3) by (simp add: unat_word_ariths)
  note IH = Suc.IH [OF Suc.prems(1,2) this]
  show ?case using e IH by (auto simp: Let_def)
qed auto

lemma mbr_entries_total:
  "446 + (i + left) * 16 \<le> length sector \<Longrightarrow> \<exists>ps. mbr_entries sector ss left i idx parts = Ret ps"
  by (induction left arbitrary: i idx parts) (auto simp: Let_def)

text \<open>The result of a probe.\<close>

definition map_ok :: "u64 \<Rightarrow> partition_map \<Rightarrow> bool" where
  "map_ok ss m \<longleftrightarrow> pm_sector_size m = ss \<and> parts_ok ss (pm_parts m) \<and>
     (pm_kind m = TableNone \<longrightarrow> pm_parts m = [] \<and> pm_table_bytes m = 0) \<and>
     (pm_kind m = TableMbr \<longrightarrow> length (pm_parts m) \<le> 4 \<and> pm_table_bytes m = ss)"

lemma probe_mbr_ok:
  assumes "512 \<le> length sector"
  shows "wp (probe_mbr ss sector sg) (\<lambda>r s'. \<forall>m. r = Inr m \<longrightarrow> map_ok ss m) s"
proof -
  obtain ps where ps: "mbr_entries sector ss 4 0 1 [] = Ret ps"
    using mbr_entries_total [of 0 4 sector ss 1 "[]"] assms by auto
  then show ?thesis
    using mbr_entries_ok [OF ps] by (auto simp: probe_mbr_def map_ok_def parts_ok_def)
qed

lemma boot_signature_total: "512 \<le> length sector \<Longrightarrow> \<exists>b. boot_signature sector = Ret b"
  by (auto simp: boot_signature_def)

context reader
begin

lemma wp_probe_gpt:
  assumes "512 \<le> length hdr"
  shows "wp (probe_gpt rd ss hdr) (\<lambda>r s'. \<forall>m. r = Inr m \<longrightarrow> map_ok ss m) s"
proof -
  have ents: "wp (iolift (gpt_entries ents ss z (unat n) 0 1 [])) (\<lambda>parts s'. parts_ok ss parts) s"
    if z: "128 \<le> unat z" and l: "length ents = unat n * unat z" for ents s z and n :: u32
  proof -
    obtain ps where ps: "gpt_entries ents ss z (unat n) 0 1 [] = Ret ps"
      using gpt_entries_total [OF z l, of 0 "unat n" ss 1 "[]"] by auto
    show ?thesis
      unfolding ps using gpt_entries_ok [OF ps] by (simp add: parts_ok_def)
  qed
  show ?thesis
    using assms
    by (simp add: probe_gpt_def Let_def del: wpx_lift)
      (intro conjI impI; rule wp_rd;
       auto simp: map_ok_def not_less word_le_unat simp del: wpx_lift intro!: wpx_weaken [OF ents])
qed

lemma wp_probe:
  assumes "ss = (if sector_size \<noteq> 0 then sector_size else 512)" and "512 \<le> unat ss"
  shows "wp (probe_partitions rd sector_size) (\<lambda>r s'. \<forall>m. r = Inr m \<longrightarrow> map_ok ss m) s"
  unfolding probe_partitions_def Let_def assms(1) [symmetric] wpx_bind
proof (rule wp_rd; simp)
  fix sector :: bytes and s' assume l: "length sector = unat ss"
  then obtain b where b: "boot_signature sector = Ret b"
    using boot_signature_total assms(2) by metis
  show "case boot_signature sector of
      Ret a \<Rightarrow> wp (rd ss (unat ss)) (\<lambda>a'. wp (case a' of Inl x \<Rightarrow> probe_mbr ss sector a
          | Inr hdr \<Rightarrow> if has_prefix_at hdr 0 ''EFI PART'' then probe_gpt rd ss hdr
              else probe_mbr ss sector a) (\<lambda>r s'. \<forall>m. r = Inr m \<longrightarrow> map_ok ss m)) s'
    | Trap \<Rightarrow> False | Stuck \<Rightarrow> True"
    using assms(2) l unfolding b outcome.case
    by (auto intro!: wp_rd wp_probe_gpt probe_mbr_ok)
qed

end

section \<open>Properties of the probe\<close>

text \<open>C13: the probe is safe on any content: it reads inside its buffers whatever the tables say, and
  what it returns is a list of partitions numbered from 1 in table order, named after their numbers,
  with no entry when no table was recognised and at most four for an MBR.\<close>

theorem probe_partitions_safe:
  assumes "512 \<le> unat (if sector_size \<noteq> 0 then sector_size else 512)"
  shows "probe_partitions (pread_all os d) sector_size s \<noteq> Trap \<and>
    (\<forall>m s'. probe_partitions (pread_all os d) sector_size s = Ret (Inr m, s') \<longrightarrow>
       map_ok (if sector_size \<noteq> 0 then sector_size else 512) m)"
  using dev.wp_probe [OF refl assms, of os d s] wp_not_Trap by (fastforce simp: wpx_def)

lemma probe_partitions_safe_witness:
  "probe_partitions (pread_all ram_sys ram_dev) 4096 \<lparr>world = replicate 100000 0\<rparr> \<noteq> Trap"
  by (rule conjunct1 [OF probe_partitions_safe]) simp

text \<open>A GPT entry, whether it is in use, and what it stands for.\<close>

definition gpt_slot :: "u32 \<Rightarrow> bytes \<Rightarrow> nat \<Rightarrow> bytes" where
  "gpt_slot psz ents j = take (unat psz) (drop (j * unat psz) ents)"

definition gpt_used :: "bytes \<Rightarrow> bool" where
  "gpt_used e \<longleftrightarrow> (\<exists>b \<in> set (take 16 e). b \<noteq> 0)"

definition gpt_part :: "u64 \<Rightarrow> nat \<Rightarrow> bytes \<Rightarrow> partition" where
  "gpt_part ss k e = part_of ss (int k + 1) (v64 e 32)
     (if v64 e 32 \<le> v64 e 40 then v64 e 40 - v64 e 32 + 1 else 0)"

lemma v64_slot: "k + 8 \<le> n \<Longrightarrow> off + n \<le> length bs \<Longrightarrow> v64 (take n (drop off bs)) k = v64 bs (off + k)"
  by (simp add: v64_def v32_def v16_def ac_simps)

lemma gpt_entries_reference:
  fixes cnt :: u32
  assumes "128 \<le> unat psz" and "length ents = unat cnt * unat psz"
    and "unat cnt * unat psz < 4294967296"
  shows "unat i + left = unat cnt \<Longrightarrow> idx = int (length parts) + 1 \<Longrightarrow>
   gpt_entries ents ss psz left i idx parts = Ret (parts @ map (\<lambda>(k, e). gpt_part ss k e)
     (enumerate (length parts) (filter gpt_used (map (gpt_slot psz ents) [unat i ..< unat cnt]))))"
proof (induction left arbitrary: i idx parts)
  case (Suc left)
  have lt: "unat i < unat cnt" using Suc.prems(1) by simp
  have le: "(unat i + 1) * unat psz \<le> unat cnt * unat psz"
    using lt by (intro mult_le_mono1) simp
  then have in_ents: "unat i * unat psz + unat psz \<le> length ents"
    using assms(2) by (simp add: algebra_simps)
  have "unat i * unat psz < 4294967296" using le assms(3) by simp
  then have e: "unat (i * psz) = unat i * unat psz"
    by (simp add: unat_word_ariths)
  have "unat i + 1 < 4294967296" using lt unat_lt_u32 [of cnt] by linarith
  then have i: "unat (i + 1) = unat i + 1" by (simp add: unat_word_ariths)
  have left: "unat (i + 1) + left = unat cnt" using Suc.prems(1) i by simp
  let ?e = "gpt_slot psz ents (unat i)"
  have read: "v64 ?e 32 = v64 ents (unat i * unat psz + 32)" "v64 ?e 40 = v64 ents (unat i * unat psz + 40)"
    using in_ents assms(1) by (simp_all add: gpt_slot_def v64_slot)
  have used: "gpt_used ?e \<longleftrightarrow> \<not> (\<forall>b \<in> set (take 16 (drop (unat i * unat psz) ents)). b = 0)"
    using assms(1) by (simp add: gpt_used_def gpt_slot_def min_absorb1)
  have slots: "[unat i ..< unat cnt] = unat i # [unat (i + 1) ..< unat cnt]"
    using lt i by (simp add: upt_conv_Cons)
  show ?case
  proof (cases "gpt_used ?e")
    case True
    have "gpt_entries ents ss psz (Suc left) i idx parts =
        gpt_entries ents ss psz left (i + 1) (idx + 1) (parts @ [gpt_part ss (length parts) ?e])"
    proof -
      have "(\<forall>b \<in> set (take 16 (drop (unat i * unat psz) ents)). b = 0) = False"
        using True used by simp
      then show ?thesis
        using in_ents assms(1) Suc.prems(2) by (simp only: gpt_entries.simps Let_def e) (simp add: gpt_part_def read)
    qed
    then show ?thesis
      using Suc.IH [OF left, of "idx + 1" "parts @ [gpt_part ss (length parts) ?e]"] True Suc.prems(2)
      by (simp add: slots)
  next
    case False
    have "gpt_entries ents ss psz (Suc left) i idx parts = gpt_entries ents ss psz left (i + 1) idx parts"
      using False used in_ents assms(1) by (simp add: Let_def e)
    then show ?thesis
      using Suc.IH [OF left Suc.prems(2)] False by (simp add: slots)
  qed
qed simp

text \<open>The partitions of a GPT are those of the entries in use, in order: entry by entry, an
  entry whose type is all zero is passed over, any other gives the partition with its first and last
  block, and the numbers are consecutive.  (The table must be smaller than 4 GiB, or the 32-bit
  product that locates an entry wraps.)\<close>

theorem gpt_entries_correct:
  assumes "128 \<le> unat psz" and "length ents = unat cnt * unat psz"
    and "unat (cnt :: u32) * unat psz < 2 ^ 32"
  shows "gpt_entries ents ss psz (unat cnt) 0 1 [] = Ret (map (\<lambda>(k, e). gpt_part ss k e)
    (enumerate 0 (filter gpt_used (map (gpt_slot psz ents) [0 ..< unat cnt]))))"
  using gpt_entries_reference [OF assms(1,2), of 0 "unat cnt" 1 "[]"] assms(3) by simp

lemma gpt_entries_correct_witness:
  "gpt_entries (replicate 128 0 @ replicate 128 1) 512 128 2 0 1 [] =
   Ret [gpt_part 512 0 (replicate 128 1)]"
proof -
  have slots: "map (gpt_slot 128 (replicate 128 0 @ replicate 128 1)) [0 ..< 2] =
      [replicate 128 0, replicate 128 1]"
    by (simp add: gpt_slot_def upt_rec)
  show ?thesis
    using gpt_entries_correct [of 128 "replicate 128 0 @ replicate 128 1" 2 512]
    by (simp add: slots gpt_used_def)
qed

end
