(* ===== verification/Exfat.thy ===== *)
theory Exfat
  imports Fat Partition
begin

text \<open>
  The exFAT scanner (\<open>src/fs/exfat.cpp\<close>).  Files are either chains in the allocation table, with
  the loop shared with FAT (\<open>cluster_chain\<close>), or runs of consecutive clusters, for which the table
  is not consulted.  Shifts by the width or more and reads outside a buffer are \<open>Trap\<close>; \<open>fuel\<close>
  bounds the depth of the directories, which the program does not.
\<close>

section \<open>Geometry\<close>

record ex_geom =
  xg_base :: u64
  xg_bps :: u16
  xg_spc_shift :: u8
  xg_fat_offset :: u32
  xg_fat_length :: u32
  xg_cluster_heap :: u32
  xg_cluster_count :: u32
  xg_root_cluster :: u32

definition ex_cluster_bytes :: "ex_geom \<Rightarrow> u64" where
  "ex_cluster_bytes g = push_bit (unat (xg_spc_shift g)) (ucast (xg_bps g))"

definition ex_cluster_off :: "ex_geom \<Rightarrow> u32 \<Rightarrow> u64" where
  "ex_cluster_off g c =
     xg_base g + ucast (xg_cluster_heap g) * ucast (xg_bps g) + ucast (c - 2) * ex_cluster_bytes g"

definition ex_fat_entry :: "bytes \<Rightarrow> u32 \<Rightarrow> u32 outcome" where
  "ex_fat_entry fat c =
     (let off = c * 4 in
      if length fat < unat (off + 4) then Ret 0xFFFFFFFF else r32 fat (unat off))"

section \<open>The extents of a file\<close>

text \<open>A file without a chain: consecutive clusters from \<open>c\<close> on.\<close>

function ex_run_loop ::
  "ex_geom \<Rightarrow> bool \<Rightarrow> u64 \<Rightarrow> u32 \<Rightarrow> u64 \<Rightarrow> fs_extent list \<Rightarrow> fs_extent list" where
  "ex_run_loop g whole fsize c left exts =
     (if 0 < left \<and> 2 \<le> c \<and> c < xg_cluster_count g + 2 then
        let cb = ex_cluster_bytes g;
            take = (if whole then cb else min left cb);
            exts = push_extent exts (mk_extent (ex_cluster_off g c) take);
            left = (if whole then left else left - take) in
        if whole \<and> 100000 < length exts then exts
        else if whole \<and> fsize \<noteq> 0 \<and> fsize + cb \<le> u64_of (length exts) * cb then exts
        else ex_run_loop g whole fsize (c + 1) left exts
      else exts)"
  by pat_completeness auto
termination
proof (relation "measure (\<lambda>(g, whole, fsize, c, left, exts). unat (xg_cluster_count g + 2) - unat c)")
  fix g :: ex_geom and c :: u32 and whole fsize left exts x xa xb xc
  assume "0 < left \<and> 2 \<le> c \<and> c < xg_cluster_count g + 2"
  moreover from this have "unat c < unat (xg_cluster_count g + 2)" by (simp add: word_less_unat)
  moreover from this have "unat (c + 1) = unat c + 1"
    using unat_lt_u32 [of "xg_cluster_count g + 2"] by (simp add: unat_word_ariths)
  ultimately show "((g, whole, fsize, c + 1, xc, xb), g, whole, fsize, c, left, exts) \<in>
      measure (\<lambda>(g, whole, fsize, c, left, exts). unat (xg_cluster_count g + 2) - unat c)"
    by auto
qed auto

declare ex_run_loop.simps [simp del]

function ex_chain_loop ::
  "ex_geom \<Rightarrow> bytes \<Rightarrow> bool \<Rightarrow> u32 \<Rightarrow> u64 \<Rightarrow> u32 set \<Rightarrow> fs_extent list \<Rightarrow> fs_extent list outcome" where
  "ex_chain_loop g fat whole c left seen exts =
     (if 2 \<le> c \<and> c < 0xFFFFFFF8 \<and> 0 < left then
        (if c \<in> seen then Ret exts
         else
           let cb = ex_cluster_bytes g;
               take = (if whole then cb else min left cb);
               exts = push_extent exts (mk_extent (ex_cluster_off g c) take);
               left = (if whole then left else left - take) in
           obind (ex_fat_entry fat c) (\<lambda>next.
           if 0xFFFFFFF8 \<le> next then Ret exts
           else ex_chain_loop g fat whole next left (insert c seen) exts))
      else Ret exts)"
  by pat_completeness auto
termination
  by (relation "measure (\<lambda>(g, fat, whole, c, left, seen, exts). unseen seen)") (auto simp: unseen_insert)

declare ex_chain_loop.simps [simp del]

definition ex_chain ::
  "ex_geom \<Rightarrow> bytes \<Rightarrow> u32 \<Rightarrow> u64 \<Rightarrow> bool \<Rightarrow> bool \<Rightarrow> fs_extent list outcome" where
  "ex_chain g fat start fsize no_fat_chain whole_chain =
     (if 64 \<le> xg_spc_shift g then Trap
      else if no_fat_chain then
        let left = (if whole_chain then (- 1) div 2 else fsize);
            left = (if \<not> whole_chain \<and> left = 0 then ex_cluster_bytes g else left) in
        Ret (ex_run_loop g whole_chain fsize start left [])
      else
        ex_chain_loop g fat whole_chain start (if whole_chain \<or> fsize = 0 then - 1 else fsize) {} [])"

section \<open>Directories\<close>

text \<open>The UTF-8 form of one UTF-16 unit.\<close>

definition utf8_unit :: "u16 \<Rightarrow> u8 list" where
  "utf8_unit ch =
     (if ch < 0x80 then [ucast ch]
      else if ch < 0x800 then [ucast (0xC0 OR drop_bit 6 ch), ucast (0x80 OR (ch AND 0x3F))]
      else [ucast (0xE0 OR drop_bit 12 ch), ucast (0x80 OR (drop_bit 6 ch AND 0x3F)),
            ucast (0x80 OR (ch AND 0x3F))])"

definition ex_name_part :: "bytes \<Rightarrow> nat \<Rightarrow> string" where
  "ex_name_part dir i =
     concat (map (map to_char \<circ> utf8_unit)
       (takeWhile (\<lambda>ch. ch \<noteq> 0) (map (\<lambda>k. v16 dir (i + 2 * k)) [1 ..< 16])))"

text \<open>The loop over the secondary entries: \<open>n\<close> of them are left.  It returns where it stopped and
  the name.\<close>

fun ex_name_loop :: "bytes \<Rightarrow> nat \<Rightarrow> nat \<Rightarrow> string \<Rightarrow> nat \<times> string" where
  "ex_name_loop dir 0 i name = (i, name)"
| "ex_name_loop dir (Suc n) i name =
     (if length dir < i + 32 then (i, name)
      else if dir ! i AND 0x7F \<noteq> 0x41 then ex_name_loop dir n (i + 32) name
      else ex_name_loop dir n (i + 32) (name @ ex_name_part dir i))"

lemma ex_name_loop_mono: "i \<le> fst (ex_name_loop dir n i name)"
proof (induction n arbitrary: i name)
  case (Suc n)
  have "i \<le> fst (ex_name_loop dir n (i + 32) name')" for name'
    using Suc [of "i + 32" name'] by simp
  then show ?case by simp
qed simp

lemma ex_name_loop_less:
  "\<not> len < i + 64 \<Longrightarrow> len - fst (ex_name_loop dir n (i + 64) name) < len - i"
  using ex_name_loop_mono [of "i + 64" dir n name] by linarith

function ex_entries ::
  "(u32 \<Rightarrow> string \<Rightarrow> fs_scan \<Rightarrow> ('s, walk_result) io) \<Rightarrow> ex_geom \<Rightarrow> bytes \<Rightarrow> string \<Rightarrow> bytes
    \<Rightarrow> nat \<Rightarrow> fs_scan \<Rightarrow> ('s, walk_result) io" where
  "ex_entries rec g fat pfx dir i out =
     (if length dir < i + 32 then ioret (True, out)
      else if dir ! i = 0 then ioret (True, out)
      else if dir ! i = 0x85 then
        let secondary = dir ! (i + 1);
            is_dir = (dir ! (i + 4) AND 0x10 \<noteq> 0);
            st = i + 32 in
        if length dir < st + 32 \<or> dir ! st \<noteq> 0xC0 then ex_entries rec g fat pfx dir st out
        else
          let no_fat = (dir ! (st + 1) AND 0x02 \<noteq> 0);
              valid_size = v64 dir (st + 8);
              first = v32 dir (st + 20);
              r = ex_name_loop dir (unat secondary - 1) (st + 32) [];
              path = pfx @ ''/'' @ (if snd r = [] then ''unnamed'' else snd r) in
          iob (if 2 \<le> first
               then iolift (ex_chain g fat first (if is_dir then 0 else valid_size) no_fat is_dir)
               else ioret []) (\<lambda>exts.
          let out = add_object (mk_object path (if is_dir then 0 else valid_size) exts) out in
          if is_dir \<and> 2 \<le> first then
            iob (rec first path out) (\<lambda>(ok, out).
            if ok then ex_entries rec g fat pfx dir (fst r) out else ioret (False, out))
          else ex_entries rec g fat pfx dir (fst r) out)
      else ex_entries rec g fat pfx dir (i + 32) out)"
  by pat_completeness auto
termination
  by (relation "measure (\<lambda>(rec, g, fat, pfx, dir, i, out). length dir - i)")
    (simp_all add: add.assoc ex_name_loop_less)

declare ex_entries.simps [simp del]

text \<open>Reads a directory cluster by cluster through the table.\<close>

function ex_read_dir ::
  "(u64 \<Rightarrow> nat \<Rightarrow> ('s, string + bytes) io) \<Rightarrow> ex_geom \<Rightarrow> bytes \<Rightarrow> u32 \<Rightarrow> u32 set \<Rightarrow> bytes
    \<Rightarrow> ('s, string + bytes) io" where
  "ex_read_dir rd g fat c seen dir =
     (if 2 \<le> c \<and> c < 0xFFFFFFF8 \<and> c \<notin> seen then
        iob (rd (ex_cluster_off g c) (unat (ex_cluster_bytes g))) (\<lambda>r.
        case r of
          Inl err \<Rightarrow> ioret (Inl err)
        | Inr chunk \<Rightarrow>
            iob (iolift (ex_fat_entry fat c)) (\<lambda>next.
            if 0xFFFFFFF8 \<le> next then ioret (Inr (dir @ chunk))
            else ex_read_dir rd g fat next (insert c seen) (dir @ chunk)))
      else ioret (Inr dir))"
  by pat_completeness auto
termination
  by (relation "measure (\<lambda>(rd, g, fat, c, seen, dir). unseen seen)") (auto simp: unseen_insert)

declare ex_read_dir.simps [simp del]

text \<open>The first call of \<open>chain\<close> has no use for its result.\<close>

fun ex_walk ::
  "nat \<Rightarrow> (u64 \<Rightarrow> nat \<Rightarrow> ('s, string + bytes) io) \<Rightarrow> ex_geom \<Rightarrow> bytes \<Rightarrow> u32 \<Rightarrow> string \<Rightarrow> fs_scan
    \<Rightarrow> ('s, walk_result) io" where
  "ex_walk 0 rd g fat dir_clus pfx out = iostuck"
| "ex_walk (Suc fuel) rd g fat dir_clus pfx out =
     iob (iolift (ex_chain g fat dir_clus 0 False True)) (\<lambda>dir_exts.
     iob (ex_read_dir rd g fat dir_clus {} []) (\<lambda>r.
     case r of
       Inl err \<Rightarrow> scan_fail err out
     | Inr dir \<Rightarrow>
         ex_entries (\<lambda>clus path out. ex_walk fuel rd g fat clus path out) g fat pfx dir 0 out))"

section \<open>The scan\<close>

definition ex_geometry :: "u64 \<Rightarrow> bytes \<Rightarrow> ex_geom outcome" where
  "ex_geometry base boot =
     (if 32 \<le> boot ! 108 then Trap
      else Ret \<lparr>xg_base = base, xg_bps = ucast (push_bit (unat (boot ! 108)) (1 :: u32)),
             xg_spc_shift = boot ! 109, xg_fat_offset = v32 boot 80, xg_fat_length = v32 boot 84,
             xg_cluster_heap = v32 boot 88, xg_cluster_count = v32 boot 92,
             xg_root_cluster = v32 boot 96\<rparr>)"

definition scan_exfat ::
  "nat \<Rightarrow> (u64 \<Rightarrow> nat \<Rightarrow> ('s, string + bytes) io) \<Rightarrow> u64 \<Rightarrow> fs_scan \<Rightarrow> ('s, walk_result) io" where
  "scan_exfat fuel rd base out =
     iob (rd base 512) (\<lambda>r.
     case r of
       Inl err \<Rightarrow> scan_fail err out
     | Inr boot \<Rightarrow>
         if \<not> has_prefix_at boot 3 ''EXFAT   '' then scan_fail ''not exFAT'' out
         else
           iob (iolift (ex_geometry base boot)) (\<lambda>g.
           let boot_size = 24 * ucast (xg_bps g);
               fat_off = base + ucast (xg_fat_offset g) * ucast (xg_bps g);
               fat_size = ucast (xg_fat_length g) * ucast (xg_bps g);
               out = add_object (mk_object ''::boot'' boot_size [mk_extent base boot_size]) out in
           iob (rd fat_off (unat fat_size)) (\<lambda>r.
           case r of
             Inl err \<Rightarrow> scan_fail err out
           | Inr fat \<Rightarrow>
               let out = add_object (mk_object ''::fat'' fat_size [mk_extent fat_off fat_size]) out in
               ex_walk fuel rd g fat (xg_root_cluster g) [] out)))"

section \<open>Lemmas\<close>

definition ex_valid :: "u32 \<Rightarrow> bool" where
  "ex_valid c \<longleftrightarrow> 2 \<le> c \<and> c < 0xFFFFFFF8"

interpretation exfat: cluster_chain "ex_chain_loop g fat" ex_valid "ex_cluster_off g"
    "ex_cluster_bytes g" "ex_fat_entry fat" "\<lambda>n. 0xFFFFFFF8 \<le> n"
  for g :: ex_geom and fat :: bytes
proof unfold_locales
  fix whole c left seen exts
  show "ex_chain_loop g fat whole c left seen exts =
    (if ex_valid c \<and> 0 < left \<and> c \<notin> seen then
       let exts' = push_extent exts (mk_extent (ex_cluster_off g c)
             (if whole then ex_cluster_bytes g else min left (ex_cluster_bytes g))) in
       obind (ex_fat_entry fat c) (\<lambda>n.
         if 0xFFFFFFF8 \<le> n then Ret exts'
         else ex_chain_loop g fat whole n (if whole then left else left - min left (ex_cluster_bytes g))
                (insert c seen) exts')
     else Ret exts)"
    by (subst ex_chain_loop.simps) (auto simp: ex_valid_def Let_def)
qed

lemma ex_fat_entry_total:
  assumes "unat c mod 2 ^ 30 \<noteq> 2 ^ 30 - 1"
  shows "\<exists>n. ex_fat_entry fat c = Ret n"
proof -
  have c4: "unat (c * 4) = unat c * 4 mod 2 ^ 32" by (simp add: unat_word_ariths)
  also have "\<dots> = 4 * (unat c mod 2 ^ 30)" by (simp add: mod_mult_mult1 [of 4, symmetric] mult.commute)
  finally have c4: "unat (c * 4) = 4 * (unat c mod 2 ^ 30)" .
  have "unat c mod 2 ^ 30 < 2 ^ 30" by simp
  then have "unat (c * 4) + 4 < 2 ^ 32" using assms unfolding c4 by simp
  then have "unat (c * 4 + 4) = unat (c * 4) + 4" by (simp add: unat_word_ariths)
  then show ?thesis by (auto simp: ex_fat_entry_def Let_def)
qed

lemma ex_fat_entry_traps:
  assumes "length fat \<le> 0xFFFFFFFC"
  shows "ex_fat_entry fat 0x3FFFFFFF = Trap"
  using assms by (simp add: ex_fat_entry_def r32_out)

text \<open>Consecutive clusters are adjacent on the device, so a run is a single extent.\<close>

lemma ex_cluster_off_Suc:
  assumes "2 \<le> c" and "unat c + 1 < 2 ^ 32"
  shows "ex_cluster_off g (c + 1) = ex_cluster_off g c + ex_cluster_bytes g"
proof -
  have "unat (c - 2) = unat c - 2" "unat (c + 1 - 2) = unat c - 1"
    using assms by (simp_all add: unat_sub word_le_unat unat_word_ariths)
  then have "(ucast (c + 1 - 2) :: u64) = ucast (c - 2) + 1"
    using assms by (simp add: word_unat_eq_iff word_le_unat unat_word_ariths)
  then show ?thesis by (simp add: ex_cluster_off_def algebra_simps)
qed

lemma push_extent_adjacent:
  "a + n = b \<Longrightarrow> push_extent [mk_extent a n] (mk_extent b k) = [mk_extent a (n + k)]"
  by (simp add: push_extent_def mk_extent_def)

lemma push_extent_Nil [simp]: "push_extent [] e = [e]"
  by (simp add: push_extent_def)

lemma u32_less_Suc:
  assumes "(c :: u32) < m"
  shows "unat c + 1 < 2 ^ 32"
proof -
  have "unat c < unat m" using assms by (simp add: word_less_unat)
  moreover have "unat m < 2 ^ 32" by simp
  ultimately show ?thesis by linarith
qed

lemma ex_run_whole:
  assumes "0 < left" and "2 \<le> c" and "c \<le> xg_cluster_count g + 2"
    and "a + n = ex_cluster_off g c"
  shows "ex_run_loop g True 0 c left [mk_extent a n] =
    [mk_extent a (n + ucast (xg_cluster_count g + 2 - c) * ex_cluster_bytes g)]"
  using assms
proof (induction "unat (xg_cluster_count g + 2 - c)" arbitrary: c n)
  case 0
  then have "xg_cluster_count g + 2 = c" by (simp add: unat_eq_0)
  then show ?case by (subst ex_run_loop.simps) simp
next
  case (Suc k)
  let ?m = "xg_cluster_count g + 2" and ?cb = "ex_cluster_bytes g"
  have ne: "c \<noteq> ?m" using Suc.hyps(2) by auto
  then have less: "c < ?m" using Suc.prems(3) by simp
  then have lt: "unat c + 1 < 2 ^ 32" by (rule u32_less_Suc)
  have c1: "unat (c + 1) = unat c + 1" using lt by (simp add: unat_word_ariths)
  have le: "c + 1 \<le> ?m" using less c1 by (simp add: word_less_unat word_le_unat)
  have k: "k = unat (?m - (c + 1))"
    using Suc.hyps(2) unat_sub [OF le] unat_sub [OF Suc.prems(3)] c1 by simp
  have ge: "2 \<le> c + 1" using Suc.prems(2) c1 by (simp add: word_le_unat)
  have "unat (?m - c) = unat (?m - (c + 1)) + 1" using Suc.hyps(2) k by simp
  then have m: "(ucast (?m - c) :: u64) = ucast (?m - (c + 1)) + 1"
    using unat_lt_u32 [of "?m - (c + 1)"] by (simp add: word_unat_eq_iff unat_word_ariths)
  have step: "ex_run_loop g True 0 c left [mk_extent a n] =
      ex_run_loop g True 0 (c + 1) left [mk_extent a (n + ?cb)]"
    using Suc.prems less by (subst ex_run_loop.simps) (simp add: Let_def push_extent_adjacent)
  have "a + (n + ?cb) = ex_cluster_off g (c + 1)"
    using Suc.prems(2,4) lt by (simp add: ex_cluster_off_Suc add.assoc [symmetric])
  then show ?case
    using Suc.hyps(1) [OF k Suc.prems(1) ge le] unfolding step m by (simp add: algebra_simps)
qed

lemma ex_run_file:
  assumes "0 < left" and "2 \<le> c" and "0 < ex_cluster_bytes g"
    and "unat left \<le> (unat (xg_cluster_count g + 2) - unat c) * unat (ex_cluster_bytes g)"
    and "exts = [] \<and> a = ex_cluster_off g c \<and> n = 0 \<or> exts = [mk_extent a n] \<and> a + n = ex_cluster_off g c"
  shows "ex_run_loop g False fsize c left exts = [mk_extent a (n + left)]"
  using assms
proof (induction "unat (xg_cluster_count g + 2) - unat c" arbitrary: c left exts n)
  case 0
  then show ?case by (simp add: word_gt_0 unat_eq_0)
next
  case (Suc k)
  let ?m = "xg_cluster_count g + 2" and ?cb = "ex_cluster_bytes g"
  have less: "c < ?m" using Suc.hyps(2) by (simp add: word_less_unat)
  then have lt: "unat c + 1 < 2 ^ 32" by (rule u32_less_Suc)
  have c1: "unat (c + 1) = unat c + 1" using lt by (simp add: unat_word_ariths)
  have push: "push_extent exts (mk_extent (ex_cluster_off g c) t) = [mk_extent a (n + t)]" for t
    using Suc.prems(5) push_extent_adjacent by auto
  have step: "ex_run_loop g False fsize c left exts =
      ex_run_loop g False fsize (c + 1) (left - min left ?cb) [mk_extent a (n + min left ?cb)]"
    using Suc.prems(1,2) less by (subst ex_run_loop.simps) (simp add: Let_def push)
  show ?case
  proof (cases "left \<le> ?cb")
    case True
    then show ?thesis unfolding step by (subst ex_run_loop.simps) (simp add: min_def)
  next
    case False
    then have min: "min left ?cb = ?cb" by simp
    have le: "?cb \<le> left" using False by simp
    have sub: "unat (left - ?cb) = unat left - unat ?cb" using le by (rule unat_sub_u64)
    have m: "unat ?m - unat c = Suc (unat ?m - unat (c + 1))" using Suc.hyps(2) c1 less by (simp add: word_less_unat)
    have "a + n = ex_cluster_off g c" using Suc.prems(5) by auto
    then have off: "a + (n + ?cb) = ex_cluster_off g (c + 1)"
      using Suc.prems(2) lt by (simp add: ex_cluster_off_Suc add.assoc [symmetric])
    have "0 < left - ?cb" using False by (simp add: word_gt_0)
    moreover have "2 \<le> c + 1" using Suc.prems(2) c1 by (simp add: word_le_unat)
    moreover have "unat (left - ?cb) \<le> (unat ?m - unat (c + 1)) * unat ?cb"
      using Suc.prems(4) unfolding sub m by simp
    moreover have "k = unat ?m - unat (c + 1)" using Suc.hyps(2) m by simp
    ultimately show ?thesis
      unfolding step min using Suc.hyps(1) [of "c + 1" "left - ?cb" "[mk_extent a (n + ?cb)]" "n + ?cb"]
        Suc.prems(3) off by simp
  qed
qed

section \<open>Properties of the exFAT scanner\<close>

text \<open>A file without a chain is one extent: its first cluster's address and exactly its size,
  whatever the table says, provided that it fits into the cluster heap.\<close>

theorem exfat_contiguous_file:
  assumes "xg_spc_shift g < 64" and "0 < ex_cluster_bytes g" and "sz \<noteq> 0" and "2 \<le> start"
    and "unat sz \<le> (unat (xg_cluster_count g + 2) - unat start) * unat (ex_cluster_bytes g)"
  shows "ex_chain g fat start sz True False = Ret [mk_extent (ex_cluster_off g start) sz]"
  using ex_run_file [of sz start g "[]" "ex_cluster_off g start" 0] assms
  by (simp add: ex_chain_def word_gt_0 not_le [symmetric])

definition tiny_exfat :: ex_geom where
  "tiny_exfat = \<lparr>xg_base = 0, xg_bps = 512, xg_spc_shift = 0, xg_fat_offset = 24, xg_fat_length = 1,
     xg_cluster_heap = 32, xg_cluster_count = 10, xg_root_cluster = 2\<rparr>"

lemma exfat_contiguous_file_witness:
  "ex_chain tiny_exfat [] 5 1000 True False = Ret [mk_extent 17920 1000]"
  using exfat_contiguous_file [of tiny_exfat 1000 5 "[]"]
  by (simp add: tiny_exfat_def ex_cluster_bytes_def ex_cluster_off_def)

text \<open>A directory without a chain is listed with an extent that runs from its first cluster to
  the end of the cluster heap, whatever its size: its size is not passed on, so nothing stops the
  loop before.  Massaging the directory massages every cluster behind it.\<close>

theorem exfat_contiguous_directory:
  assumes "xg_spc_shift g < 64" and "2 \<le> start" and "start < xg_cluster_count g + 2"
  shows "ex_chain g fat start 0 True True = Ret [mk_extent (ex_cluster_off g start)
     (ucast (xg_cluster_count g + 2 - start) * ex_cluster_bytes g)]"
proof -
  let ?m = "xg_cluster_count g + 2"
  have lt: "unat start + 1 < 2 ^ 32" using assms(3) by (rule u32_less_Suc)
  have s1: "unat (start + 1) = unat start + 1" using lt by (simp add: unat_word_ariths)
  have le: "start + 1 \<le> ?m" "start \<le> ?m" using assms(3) s1 by (simp_all add: word_less_unat word_le_unat)
  have "unat (?m - start) = unat (?m - (start + 1)) + 1"
    using unat_sub [OF le(1)] unat_sub [OF le(2)] assms(3) s1 by (simp add: word_less_unat)
  then have m: "(ucast (?m - start) :: u64) = 1 + ucast (?m - (start + 1))"
    using unat_lt_u32 [of "?m - (start + 1)"] by (simp add: word_unat_eq_iff unat_word_ariths)
  have ge: "2 \<le> start + 1" using assms(2) s1 by (simp add: word_le_unat)
  have "ex_run_loop g True 0 start ((- 1) div 2) [] =
      ex_run_loop g True 0 (start + 1) ((- 1) div 2) [mk_extent (ex_cluster_off g start) (ex_cluster_bytes g)]"
    using assms(2,3) by (subst ex_run_loop.simps) simp
  also have "\<dots> = [mk_extent (ex_cluster_off g start)
      (ex_cluster_bytes g + ucast (?m - (start + 1)) * ex_cluster_bytes g)]"
    by (rule ex_run_whole [OF _ ge le(1)]) (use assms(2) lt in \<open>simp_all add: ex_cluster_off_Suc\<close>)
  finally show ?thesis
    using assms(1) unfolding m by (simp add: ex_chain_def not_le [symmetric] algebra_simps)
qed

lemma exfat_contiguous_directory_witness:
  "ex_chain tiny_exfat [] 5 0 True True = Ret [mk_extent 17920 3584]"
  using exfat_contiguous_directory [of tiny_exfat 5 "[]"]
  by (simp add: tiny_exfat_def ex_cluster_bytes_def ex_cluster_off_def)

text \<open>Cluster number 0x3FFFFFFF makes the scanner read outside its copy of the table: its byte
  offset is the last word below 4 GiB, and the test of the offset wraps around to zero.  A volume
  with that root directory kills the program.\<close>

theorem exfat_entry_wraps:
  assumes "length fat \<le> 0xFFFFFFFC" and "xg_spc_shift g < 64"
  shows "ex_walk (Suc fuel) rd g fat 0x3FFFFFFF pfx out s = Trap"
proof -
  have "ex_chain g fat 0x3FFFFFFF 0 False True = Trap"
    using assms unfolding ex_chain_def
    by (subst ex_chain_loop.simps) (simp add: not_le [symmetric] ex_fat_entry_traps Let_def word_gt_0)
  then show ?thesis by (simp add: iob_def)
qed

lemma exfat_entry_wraps_witness:
  "ex_walk 1 (\<lambda>off n s. Ret (Inr [], s)) tiny_exfat [] 0x3FFFFFFF [] (scan_init ExFat) () = Trap"
  using exfat_entry_wraps [of "[]" tiny_exfat 0 "\<lambda>off n s. Ret (Inr [], s)" "[]" "scan_init ExFat" "()"]
  by (simp add: tiny_exfat_def)

text \<open>A file with a chain: if the scan of the chain returns, which it does unless the chain
  meets one of the numbers whose table offset wraps, the extents denote the first \<open>sz\<close> bytes of
  the clusters of the chain, each cluster once, and a chain shorter than the file ended at an end
  mark, at a number that is no cluster or at a cluster already visited.\<close>

theorem exfat_file_extents:
  assumes "xg_spc_shift g < 64" and "sz \<noteq> 0"
    and "unat (xg_base g) + unat (xg_cluster_heap g) * unat (xg_bps g) +
      2 ^ 32 * unat (ex_cluster_bytes g) < 2 ^ 64"
    and "ex_chain g fat start sz False False = Ret exts"
  shows "\<exists>cs. chain_from ex_valid (ex_fat_entry fat) (\<lambda>n. 0xFFFFFFF8 \<le> n) start cs \<and> distinct cs \<and>
    ext_addrs exts =
      take (unat sz) (concat (map (cluster_addrs (ex_cluster_off g) (ex_cluster_bytes g)) cs)) \<and>
    (length cs * unat (ex_cluster_bytes g) < unat sz \<longrightarrow>
       chain_stops ex_valid (ex_fat_entry fat) (\<lambda>n. 0xFFFFFFF8 \<le> n) start {} cs)"
proof -
  have off: "unat (ex_cluster_off g c) + unat (ex_cluster_bytes g) \<le> 18446744073709551615"
    if "ex_valid c" for c
  proof -
    define P where "P = (unat c - 2) * unat (ex_cluster_bytes g)"
    have "unat c < 2 ^ 32" by simp
    then have "unat c - 2 + 1 \<le> 2 ^ 32" by linarith
    then have P: "P + unat (ex_cluster_bytes g) \<le> 2 ^ 32 * unat (ex_cluster_bytes g)"
      unfolding P_def by (metis add_mult_distrib mult_1 mult_le_mono1)
    then have lt: "P < 18446744073709551616" using assms(3) by simp
    have c2: "unat (c - 2) = unat c - 2"
      using that by (simp add: ex_valid_def unat_sub)
    have m: "unat (ucast (c - 2) * ex_cluster_bytes g) = P"
      using lt c2 by (subst unat_mult_u64) (simp_all add: P_def)
    have h: "unat (ucast (xg_cluster_heap g) * ucast (xg_bps g) :: u64) =
        unat (xg_cluster_heap g) * unat (xg_bps g)"
      using assms(3) by (subst unat_mult_u64) simp_all
    show ?thesis
      using P assms(3) unfolding ex_cluster_off_def
      by (simp add: unat_add_u64 m h)
  qed
  have "ex_chain_loop g fat False start sz {} [] = Ret exts"
    using assms(1,2,4) by (simp add: ex_chain_def not_le [symmetric])
  from exfat.loop_chain [OF off _ this] assms(2) show ?thesis by (auto simp: word_gt_0)
qed

lemma exfat_file_extents_witness:
  "\<exists>cs. distinct cs \<and> ext_addrs [mk_extent 17408 512, mk_extent 18432 188] =
      take 700 (concat (map (cluster_addrs (ex_cluster_off tiny_exfat) 512) cs))"
proof -
  let ?fat = "replicate 16 0 @ [6, 0, 0, 0] @ replicate 4 0 @ [0xFF, 0xFF, 0xFF, 0xFF]"
  have "ex_chain tiny_exfat ?fat 4 700 False False = Ret [mk_extent 17408 512, mk_extent 18432 188]"
    by (simp add: ex_chain_def tiny_exfat_def ex_chain_loop.simps [of _ _ _ 4]
        ex_chain_loop.simps [of _ _ _ 6] ex_fat_entry_def ex_cluster_bytes_def ex_cluster_off_def
        v32_def v16_def le16_def le32_def nth_append push_extent_def mk_extent_def Let_def)
  then show ?thesis
    using exfat_file_extents [of tiny_exfat 700 ?fat 4]
    by (fastforce simp: tiny_exfat_def ex_cluster_bytes_def)
qed

end
