(* ===== verification/Ntfs.thy ===== *)
theory Ntfs
  imports Fat Partition
begin

text \<open>
  The NTFS scanner (\<open>src/fs/ntfs.cpp\<close>): the records of the master file table, their repair with the
  update sequence, and the run lists of their non-resident attributes.

  Pointers into a record are positions; a read behind the record, a shift by 64 or more and an
  overflow of the signed cluster number are \<open>Trap\<close>.  The loop over the attributes of a record need
  not end, because its 16-bit position can wrap: \<open>fuel\<close> bounds it.
\<close>

section \<open>Run lists\<close>

text \<open>The bytes from \<open>p + i\<close> on, \<open>left\<close> of them, joined into \<open>v\<close>.\<close>

fun le_join :: "bytes \<Rightarrow> nat \<Rightarrow> nat \<Rightarrow> nat \<Rightarrow> u64 \<Rightarrow> u64 outcome" where
  "le_join bs p 0 i v = Ret v"
| "le_join bs p (Suc left) i v =
     obind (get8 bs (p + i)) (\<lambda>b.
     if 8 \<le> i then Trap else le_join bs p left (i + 1) (v OR push_bit (8 * i) (ucast b)))"

fun sign_fill :: "nat \<Rightarrow> nat \<Rightarrow> u64 \<Rightarrow> u64" where
  "sign_fill 0 i v = v"
| "sign_fill (Suc left) i v = sign_fill left (i + 1) (v OR push_bit (8 * i) 0xFF)"

definition read_signed :: "bytes \<Rightarrow> nat \<Rightarrow> nat \<Rightarrow> int outcome" where
  "read_signed bs p n =
     obind (le_join bs p n 0 0) (\<lambda>v.
     if n = 0 then Ret 0
     else
       obind (get8 bs (p + (n - 1))) (\<lambda>b.
       Ret (sint (if b AND 0x80 \<noteq> 0 then sign_fill (8 - n) n v else v))))"

definition int64_add :: "int \<Rightarrow> int \<Rightarrow> int outcome" where
  "int64_add a b = (if - (2 ^ 63) \<le> a + b \<and> a + b < 2 ^ 63 then Ret (a + b) else Trap)"

function decode_runs ::
  "bytes \<Rightarrow> u64 \<Rightarrow> u64 \<Rightarrow> nat \<Rightarrow> int \<Rightarrow> fs_extent list \<Rightarrow> fs_extent list outcome" where
  "decode_runs bs base cb p lcn exts =
     (if length bs \<le> p then Trap
      else if bs ! p = 0 then Ret exts
      else
        let header = bs ! p;
            len_len = unat (header AND 0x0F);
            off_len = unat (drop_bit 4 header AND 0x0F) in
        if len_len = 0 then Ret exts
        else
          obind (le_join bs (p + 1) len_len 0 0) (\<lambda>run_len.
          if off_len = 0 then decode_runs bs base cb (p + 1 + len_len) lcn exts
          else
            obind (read_signed bs (p + 1 + len_len) off_len) (\<lambda>off.
            obind (int64_add lcn off) (\<lambda>lcn.
            decode_runs bs base cb (p + 1 + len_len + off_len) lcn
              (push_extent exts (mk_extent (base + word_of_int lcn * cb) (run_len * cb)))))))"
  by pat_completeness auto
termination
  by (relation "measure (\<lambda>(bs, base, cb, p, lcn, exts). length bs - p)") auto

declare decode_runs.simps [simp del]

definition decode_runs_allocated ::
  "bytes \<Rightarrow> nat \<Rightarrow> u64 \<Rightarrow> u32 \<Rightarrow> u32 \<Rightarrow> fs_extent list outcome" where
  "decode_runs_allocated bs run base bps spc = decode_runs bs base (ucast bps * ucast spc) run 0 []"

section \<open>Records\<close>

text \<open>The update sequence: the last two bytes of each sector of the record are put back.  \<open>None\<close>
  where the code returns false.\<close>

fun fixup_loop :: "nat \<Rightarrow> u16 \<Rightarrow> nat \<Rightarrow> nat \<Rightarrow> bytes \<Rightarrow> bytes option outcome" where
  "fixup_loop usa_off sector_size 0 i rec = Ret (Some rec)"
| "fixup_loop usa_off sector_size (Suc left) i rec =
     (let pos = u64_of i * ucast sector_size - 2 in
      if length rec < unat (pos + 2) then Ret None
      else if length rec \<le> unat pos then Trap
      else
        obind (get8 rec (usa_off + i * 2)) (\<lambda>a.
        let rec = rec[unat pos := a] in
        obind (get8 rec (usa_off + i * 2 + 1)) (\<lambda>b.
        if length rec \<le> unat (pos + 1) then Trap
        else fixup_loop usa_off sector_size left (i + 1) (rec[unat (pos + 1) := b]))))"

definition fixup_record :: "bytes \<Rightarrow> u16 \<Rightarrow> bytes option outcome" where
  "fixup_record rec sector_size =
     (if length rec < 8 \<or> \<not> has_prefix_at rec 0 ''FILE'' then Ret None
      else
        let usa_off = v16 rec 4; usa_count = v16 rec 6 in
        if usa_off = 0 \<or> usa_count < 2 then Ret (Some rec)
        else if length rec < unat usa_off + unat usa_count * 2 then Ret None
        else fixup_loop (unat usa_off) sector_size (unat usa_count - 1) 1 rec)"

text \<open>The name of a record: \<open>n\<close> characters from position \<open>p\<close> on.\<close>

fun ntfs_name :: "bytes \<Rightarrow> nat \<Rightarrow> nat \<Rightarrow> string outcome" where
  "ntfs_name rec p 0 = Ret []"
| "ntfs_name rec p (Suc n) =
     obind (r16 rec p) (\<lambda>ch.
     obind (ntfs_name rec (p + 2) n) (\<lambda>cs.
     Ret ((if ch < 0x80 then char_of (unat ch) else CHR ''?'') # cs)))"

text \<open>What an attribute of type 0x30 at \<open>a\<close> makes of the name so far.\<close>

definition attr_name :: "bytes \<Rightarrow> nat \<Rightarrow> string \<Rightarrow> string outcome" where
  "attr_name rec a name =
     obind (r16 rec (a + 20)) (\<lambda>content_off.
     let c = a + unat content_off in
     if c + 66 < length rec then
       let nlen = rec ! (c + 64); nspace = rec ! (c + 65) in
       if nspace \<le> 3 \<and> 0 < nlen then ntfs_name rec (c + 66) (unat nlen) else Ret name
     else Ret name)"

record attrs =
  at_exts :: "fs_extent list"
  at_size :: u64
  at_name :: string

fun push_extents :: "fs_extent list \<Rightarrow> fs_extent list \<Rightarrow> fs_extent list" where
  "push_extents exts [] = exts"
| "push_extents exts (e # es) = push_extents (push_extent exts e) es"

text \<open>The runs and the size that the attribute at \<open>a\<close> contributes.\<close>

definition attr_runs ::
  "bytes \<Rightarrow> u64 \<Rightarrow> u16 \<Rightarrow> u8 \<Rightarrow> nat \<Rightarrow> u32 \<Rightarrow> u32 \<Rightarrow> attrs \<Rightarrow> attrs outcome" where
  "attr_runs rec base bps spc a atype alen st =
     (if rec ! (a + 8) \<noteq> 0 \<and> 64 \<le> alen then
        obind (r16 rec (a + 32)) (\<lambda>run_off.
        obind (if 0 < run_off \<and> unat run_off < unat alen
               then obind (decode_runs_allocated rec (a + unat run_off) base (ucast bps) (ucast spc))
                      (\<lambda>part. Ret (st\<lparr>at_exts := push_extents (at_exts st) part\<rparr>))
               else Ret st) (\<lambda>st.
        if atype = 0x80 then obind (r64 rec (a + 48)) (\<lambda>n. Ret (st\<lparr>at_size := n\<rparr>)) else Ret st))
      else if atype = 0x80 \<and> rec ! (a + 8) = 0
      then obind (r32 rec (a + 16)) (\<lambda>n. Ret (st\<lparr>at_size := ucast n\<rparr>))
      else Ret st)"

fun collect_attrs ::
  "nat \<Rightarrow> bytes \<Rightarrow> u64 \<Rightarrow> u16 \<Rightarrow> u8 \<Rightarrow> bool \<Rightarrow> u16 \<Rightarrow> attrs \<Rightarrow> attrs outcome" where
  "collect_attrs 0 rec base bps spc named aoff st = Stuck"
| "collect_attrs (Suc fuel) rec base bps spc named aoff st =
     (let a = unat aoff in
      if length rec \<le> a + 8 then Ret st
      else
        let atype = v32 rec a; alen = v32 rec (a + 4) in
        if atype = 0xFFFFFFFF \<or> alen < 8 then Ret st
        else
          obind (if atype = 0x30 \<and> rec ! (a + 8) = 0 \<and> named
                 then obind (attr_name rec a (at_name st)) (\<lambda>n. Ret (st\<lparr>at_name := n\<rparr>))
                 else Ret st) (\<lambda>st.
          obind (attr_runs rec base bps spc a atype alen st) (\<lambda>st.
          collect_attrs fuel rec base bps spc named (ucast (ucast aoff + alen)) st)))"

definition collect_nonresident_attrs ::
  "nat \<Rightarrow> bytes \<Rightarrow> u64 \<Rightarrow> u16 \<Rightarrow> u8 \<Rightarrow> string option \<Rightarrow> attrs outcome" where
  "collect_nonresident_attrs fuel rec base bps spc name =
     obind (r16 rec 20) (\<lambda>aoff.
     collect_attrs fuel rec base bps spc (name \<noteq> None) aoff
       \<lparr>at_exts = [], at_size = 0, at_name = (case name of None \<Rightarrow> [] | Some n \<Rightarrow> n)\<rparr>)"

section \<open>The scan\<close>

text \<open>The record at offset \<open>off\<close> of the table: the object it gives, if any.\<close>

definition mft_object ::
  "nat \<Rightarrow> u64 \<Rightarrow> u16 \<Rightarrow> u8 \<Rightarrow> nat \<Rightarrow> nat \<Rightarrow> bytes \<Rightarrow> fs_object option outcome" where
  "mft_object fuel base bps spc rsize off rec =
     obind (fixup_record rec bps) (\<lambda>r.
     case r of
       None \<Rightarrow> Ret None
     | Some rec \<Rightarrow>
         if \<not> has_prefix_at rec 0 ''FILE'' then Ret None
         else
           obind (r16 rec 22) (\<lambda>flags.
           if flags AND 0x01 = 0 then Ret None
           else
             obind (collect_nonresident_attrs fuel rec base bps spc
                      (Some (''file-'' @ dec_digits (off div rsize)))) (\<lambda>st.
             if at_exts st = [] \<and> at_size st = 0 then Ret None
             else if off = 0 then Ret None
             else Ret (Some (mk_object (''/'' @ at_name st) (at_size st) (at_exts st))))))"

function mft_loop ::
  "nat \<Rightarrow> u64 \<Rightarrow> u16 \<Rightarrow> u8 \<Rightarrow> nat \<Rightarrow> bytes \<Rightarrow> nat \<Rightarrow> fs_scan \<Rightarrow> fs_scan outcome" where
  "mft_loop fuel base bps spc rsize mft off out =
     (if length mft < off + rsize \<or> rsize = 0 then Ret out
      else
        obind (mft_object fuel base bps spc rsize off (take rsize (drop off mft))) (\<lambda>ob.
        mft_loop fuel base bps spc rsize mft (off + rsize)
          (case ob of None \<Rightarrow> out | Some ob \<Rightarrow> add_object ob out)))"
  by pat_completeness auto
termination
  by (relation "measure (\<lambda>(fuel, base, bps, spc, rsize, mft, off, out). length mft - off)") auto

declare mft_loop.simps [simp del]

definition mft_record_size :: "u8 \<Rightarrow> u16 \<Rightarrow> u8 \<Rightarrow> u32 outcome" where
  "mft_record_size b bps spc =
     (let clusters = sint (scast b :: 32 word) in
      if 0 < clusters then Ret (scast b * ucast bps * ucast spc)
      else if 32 \<le> - clusters then Trap
      else Ret (push_bit (nat (- clusters)) 1))"

text \<open>The scan behind the boot sector.\<close>

definition scan_ntfs_volume ::
  "nat \<Rightarrow> (u64 \<Rightarrow> nat \<Rightarrow> ('s, string + bytes) io) \<Rightarrow> u64 \<Rightarrow> bytes \<Rightarrow> u32 \<Rightarrow> fs_scan
    \<Rightarrow> ('s, walk_result) io" where
  "scan_ntfs_volume fuel rd base boot rsize out =
     (let bps = v16 boot 11; spc = boot ! 13; mft_lcn = v64 boot 48 in
      if bps = 0 \<or> spc = 0 \<or> rsize < 1024 then scan_fail ''invalid NTFS boot'' out
      else
        let out = add_object (mk_object ''::boot'' (ucast bps) [mk_extent base (ucast bps)]) out;
            mft_off = base + mft_lcn * (ucast bps * ucast spc) in
        iob (rd mft_off (unat rsize)) (\<lambda>r.
        case r of
          Inl err \<Rightarrow> scan_fail err out
        | Inr mft0 \<Rightarrow>
            iob (iolift (fixup_record mft0 bps)) (\<lambda>r.
            case r of
              None \<Rightarrow> scan_fail ''bad $MFT record'' out
            | Some mft0 \<Rightarrow>
                iob (iolift (collect_nonresident_attrs fuel mft0 base bps spc None)) (\<lambda>st.
                let exts = at_exts st in
                if exts = []
                then ioret (True, add_object (mk_object ''::$MFT'' (ucast rsize)
                       [mk_extent mft_off (ucast rsize)]) out)
                else
                  let out = add_object (mk_object ''::$MFT'' (sum_list (map fe_length exts)) exts) out in
                  iob (read_extents rd exts []) (\<lambda>r.
                  case r of
                    Inl err \<Rightarrow> scan_fail err out
                  | Inr mft \<Rightarrow>
                      iob (iolift (mft_loop fuel base bps spc (unat rsize) mft 0 out)) (\<lambda>out.
                      ioret (True, out)))))))"

definition scan_ntfs ::
  "nat \<Rightarrow> (u64 \<Rightarrow> nat \<Rightarrow> ('s, string + bytes) io) \<Rightarrow> u64 \<Rightarrow> fs_scan \<Rightarrow> ('s, walk_result) io" where
  "scan_ntfs fuel rd base out =
     iob (rd base 512) (\<lambda>r.
     case r of
       Inl err \<Rightarrow> scan_fail err out
     | Inr boot \<Rightarrow>
         if \<not> has_prefix_at boot 3 ''NTFS    '' then scan_fail ''not NTFS'' out
         else
           iob (iolift (mft_record_size (boot ! 64) (v16 boot 11) (boot ! 13))) (\<lambda>rsize.
           scan_ntfs_volume fuel rd base boot rsize out))"

section \<open>Lemmas: run lists\<close>

text \<open>How a run list is written: the length of each run in \<open>n\<close> bytes and, unless it is a hole, the
  distance from the last run in \<open>m\<close> bytes.\<close>

definition le_enc :: "nat \<Rightarrow> u64 \<Rightarrow> bytes" where
  "le_enc n v = map (\<lambda>i. ucast (drop_bit (8 * i) v)) [0 ..< n]"

type_synonym run = "nat \<times> u64 \<times> (nat \<times> int) option"

fun run_ok :: "run \<Rightarrow> bool" where
  "run_ok (n, len, off) \<longleftrightarrow> 1 \<le> n \<and> n \<le> 8 \<and> take_bit (8 * n) len = len \<and>
     (case off of None \<Rightarrow> True
      | Some (m, d) \<Rightarrow> 1 \<le> m \<and> m \<le> 8 \<and> signed_take_bit (8 * m - 1) d = d)"

fun encode_run :: "run \<Rightarrow> bytes" where
  "encode_run (n, len, None) = of_nat n # le_enc n len"
| "encode_run (n, len, Some (m, d)) = of_nat (16 * m + n) # le_enc n len @ le_enc m (word_of_int d)"

text \<open>What it stands for.\<close>

fun runs_in_range :: "int \<Rightarrow> run list \<Rightarrow> bool" where
  "runs_in_range lcn [] \<longleftrightarrow> True"
| "runs_in_range lcn ((n, len, None) # rs) \<longleftrightarrow> runs_in_range lcn rs"
| "runs_in_range lcn ((n, len, Some (m, d)) # rs) \<longleftrightarrow>
     - (2 ^ 63) \<le> lcn + d \<and> lcn + d < 2 ^ 63 \<and> runs_in_range (lcn + d) rs"

fun run_extents :: "u64 \<Rightarrow> u64 \<Rightarrow> int \<Rightarrow> run list \<Rightarrow> fs_extent list" where
  "run_extents base cb lcn [] = []"
| "run_extents base cb lcn ((n, len, None) # rs) = run_extents base cb lcn rs"
| "run_extents base cb lcn ((n, len, Some (m, d)) # rs) =
     mk_extent (base + word_of_int (lcn + d) * cb) (len * cb) # run_extents base cb (lcn + d) rs"

lemma length_le_enc [simp]: "length (le_enc n v) = n"
  by (simp add: le_enc_def)

lemma nth_le_enc: "i < n \<Longrightarrow> le_enc n v ! i = ucast (drop_bit (8 * i) v)"
  by (simp add: le_enc_def)

lemma take_bit_step:
  "take_bit (8 * i) (v :: u64) OR push_bit (8 * i) (ucast (ucast (drop_bit (8 * i) v) :: u8)) =
   take_bit (8 * (i + 1)) v"
  by (rule bit_word_eqI) (auto simp: bit_simps)

lemma le_join_bytes:
  assumes "\<And>j. j < i + left \<Longrightarrow> p + j < length bs \<and> bs ! (p + j) = ucast (drop_bit (8 * j) v)"
    and "i + left \<le> 8"
  shows "le_join bs p left i (take_bit (8 * i) v) = Ret (take_bit (8 * (i + left)) v)"
  using assms
proof (induction left arbitrary: i)
  case (Suc left)
  have "get8 bs (p + i) = Ret (ucast (drop_bit (8 * i) v))"
    using Suc.prems(1) [of i] by simp
  then show ?case
    using Suc.IH [of "i + 1"] Suc.prems take_bit_step [of i v] by simp
qed simp

lemma le_join_enc:
  assumes "n \<le> 8" and "take_bit (8 * n) v = v"
  shows "le_join (xs @ le_enc n v @ ys) (length xs) n 0 0 = Ret v"
proof -
  have "le_join (xs @ le_enc n v @ ys) (length xs) n 0 (take_bit (8 * 0) v) = Ret (take_bit (8 * (0 + n)) v)"
    using assms(1) by (intro le_join_bytes) (simp_all add: nth_append nth_le_enc)
  then show ?thesis using assms(2) by simp
qed

lemma bit_sign_fill: "bit (sign_fill left i v) k \<longleftrightarrow>
    bit v k \<or> k < 64 \<and> 8 * i \<le> k \<and> k < 8 * (i + left)"
proof (induction left arbitrary: i v)
  case (Suc left)
  have "(0xFF :: int) = mask 8" by (simp add: mask_eq_exp_minus_1)
  then have ff: "bit (0xFF :: int) j \<longleftrightarrow> j < 8" for j
    by (simp only: bit_mask_iff) simp
  show ?case
    unfolding sign_fill.simps Suc by (auto simp: bit_simps ff)
qed auto

text \<open>A number in \<open>m\<close> bytes of two's complement is read back.\<close>

lemma signed_low_bits:
  assumes "signed_take_bit n d = d" and "n \<le> k"
  shows "bit (d :: int) k \<longleftrightarrow> bit d n"
  using assms bit_signed_take_bit_iff [of n d k] by (auto simp: min_def split: if_splits)

lemma read_signed_enc:
  assumes m: "1 \<le> m" "m \<le> 8" and d: "signed_take_bit (8 * m - 1) d = d"
  shows "read_signed (xs @ le_enc m (word_of_int d) @ ys) (length xs) m = Ret d"
proof -
  let ?v = "word_of_int d :: u64" and ?bs = "xs @ le_enc m (word_of_int d) @ ys"
  have "le_join ?bs (length xs) m 0 (take_bit (8 * 0) ?v) = Ret (take_bit (8 * (0 + m)) ?v)"
    using m(2) by (intro le_join_bytes) (simp_all add: nth_append nth_le_enc)
  then have join: "le_join ?bs (length xs) m 0 0 = Ret (take_bit (8 * m) ?v)" by simp
  let ?b = "ucast (drop_bit (8 * (m - 1)) ?v) :: u8"
  have b: "get8 ?bs (length xs + (m - 1)) = Ret ?b"
    using m(1) by (cases m) (simp_all add: nth_append nth_le_enc)
  have "8 * (m - 1) + 7 = 8 * m - 1" using m by simp
  then have sgn: "bit ?b 7 \<longleftrightarrow> bit d (8 * m - 1)"
    using m by (cases m) (auto simp: bit_simps add.commute)
  have "(?b AND 0x80 \<noteq> 0) \<longleftrightarrow> bit ?b 7"
    using and_exp_eq_0_iff_not_bit [of ?b 7] by simp
  moreover have "(if bit d (8 * m - 1) then sign_fill (8 - m) m (take_bit (8 * m) ?v)
      else take_bit (8 * m) ?v) = ?v"
  proof (rule bit_word_eqI)
    fix k assume k: "k < LENGTH(64)"
    have hi: "bit d k \<longleftrightarrow> bit d (8 * m - 1)" if "8 * m \<le> k"
      using signed_low_bits [OF d, of k] that by simp
    show "bit (if bit d (8 * m - 1) then sign_fill (8 - m) m (take_bit (8 * m) ?v)
        else take_bit (8 * m) ?v) k = bit ?v k"
      using k hi m by (cases "8 * m \<le> k") (auto simp: bit_simps bit_sign_fill)
  qed
  moreover have "sint ?v = d"
  proof -
    have "min 63 (8 * m - 1) = 8 * m - 1" using m by linarith
    then have "signed_take_bit 63 d = d"
      by (metis d signed_take_bit_signed_take_bit)
    then show ?thesis by (simp add: signed_of_int)
  qed
  ultimately show ?thesis
    using m sgn unfolding read_signed_def join b by (simp cong: if_cong)
qed

lemma read_signed_code:
  assumes "1 \<le> m" "m \<le> 8" "signed_take_bit (8 * m - 1) d = d" and "length xs = p"
  shows "read_signed (xs @ le_enc m (word_of_int d) @ ys) p m = Ret d"
  using read_signed_enc [OF assms(1-3)] assms(4) by blast

lemma header_fields:
  assumes "n \<le> 8" and "m \<le> 8"
  shows "unat ((of_nat (16 * m + n) :: u8) AND 0x0F) = n"
    and "unat (drop_bit 4 (of_nat (16 * m + n) :: u8) AND 0x0F) = m"
proof -
  have u: "unat (of_nat (16 * m + n) :: u8) = 16 * m + n"
    using assms by (simp add: unat_of_nat take_bit_eq_mod del: of_nat_add of_nat_mult)
  have x: "(0x0F :: u8) = mask 4" by (simp add: mask_eq_exp_minus_1)
  show "unat ((of_nat (16 * m + n) :: u8) AND 0x0F) = n"
    using assms unfolding x by (simp add: take_bit_eq_mask [symmetric] unat_take_bit u del: of_nat_add of_nat_mult)
  show "unat (drop_bit 4 (of_nat (16 * m + n) :: u8) AND 0x0F) = m"
    using assms unfolding x
    by (simp add: take_bit_eq_mask [symmetric] unat_take_bit unsigned_drop_bit_eq u unat_div drop_bit_eq_div
        del: of_nat_add of_nat_mult)
qed

lemma decode_runs_encoded:
  "list_all run_ok rs \<Longrightarrow> runs_in_range lcn rs \<Longrightarrow>
   decode_runs (xs @ concat (map encode_run rs) @ 0 # ys) base cb (length xs) lcn exts =
   Ret (foldl push_extent exts (run_extents base cb lcn rs))"
proof (induction rs arbitrary: xs lcn exts)
  case Nil
  then show ?case by (subst decode_runs.simps) simp
next
  case (Cons r rs)
  obtain n len off where r: "r = (n, len, off)" by (cases r)
  have n: "1 \<le> n" "n \<le> 8" "take_bit (8 * n) len = len" using Cons.prems by (auto simp: r)
  let ?tl = "concat (map encode_run rs) @ 0 # ys"
  show ?case
  proof (cases off)
    case None
    let ?bs = "xs @ of_nat n # le_enc n len @ ?tl"
    have h: "of_nat n \<noteq> (0 :: u8)" "unat ((of_nat n :: u8) AND 0x0F) = n"
      "unat (drop_bit 4 (of_nat n :: u8) AND 0x0F) = 0"
      using header_fields [of n 0] n by auto
    have join: "le_join ?bs (Suc (length xs)) n 0 0 = Ret len"
      using le_join_enc [OF n(2,3), of "xs @ [of_nat n]" ?tl] by simp
    have "decode_runs ?bs base cb (length xs) lcn exts =
        decode_runs ?bs base cb (length (xs @ of_nat n # le_enc n len)) lcn exts"
      using n h by (subst decode_runs.simps) (simp add: join Let_def nth_append)
    then show ?thesis
      using Cons.IH [of lcn "xs @ of_nat n # le_enc n len" exts] Cons.prems by (simp add: r None)
  next
    case (Some md)
    then obtain m d where md: "off = Some (m, d)" by (cases md) auto
    have m: "1 \<le> m" "m \<le> 8" "signed_take_bit (8 * m - 1) d = d" using Cons.prems by (auto simp: r md)
    have add: "int64_add lcn d = Ret (lcn + d)" using Cons.prems by (auto simp: r md int64_add_def)
    let ?h = "of_nat (16 * m + n) :: u8"
    let ?bs = "xs @ ?h # le_enc n len @ le_enc m (word_of_int d) @ ?tl"
    have h: "unat (?h AND 0x0F) = n" "unat (drop_bit 4 ?h AND 0x0F) = m"
      using header_fields [of n m] n m by auto
    then have h0: "?h \<noteq> 0" using n by (metis unsigned_0 and_zero_eq and.left_commute and.commute not_one_le_zero)
    have join: "le_join ?bs (Suc (length xs)) n 0 0 = Ret len"
      using le_join_enc [OF n(2,3), of "xs @ [?h]" "le_enc m (word_of_int d) @ ?tl"] by simp
    have sgn: "read_signed ?bs (Suc (length xs + n)) m = Ret d"
      using read_signed_code [OF m, of "xs @ ?h # le_enc n len" "Suc (length xs + n)" ?tl] by simp
    let ?e = "mk_extent (base + word_of_int (lcn + d) * cb) (len * cb)"
    have "decode_runs ?bs base cb (length xs) lcn exts = decode_runs ?bs base cb
        (length (xs @ ?h # le_enc n len @ le_enc m (word_of_int d))) (lcn + d) (push_extent exts ?e)"
      using n m h h0
      by (subst decode_runs.simps) (simp add: join sgn add Let_def nth_append add.assoc del: of_nat_add of_nat_mult)
    then show ?thesis
      using Cons.IH [of "lcn + d" "xs @ ?h # le_enc n len @ le_enc m (word_of_int d)" "push_extent exts ?e"]
        Cons.prems by (simp add: r md del: of_nat_add of_nat_mult)
  qed
qed

section \<open>Lemmas: the update sequence\<close>

text \<open>Byte \<open>j\<close> of the repaired record: the ends of the sectors numbered from \<open>a\<close> to \<open>b\<close> come from
  the update sequence array at \<open>usa\<close>, everything else is as it was.\<close>

definition fixed_byte :: "nat \<Rightarrow> nat \<Rightarrow> nat \<Rightarrow> nat \<Rightarrow> bytes \<Rightarrow> nat \<Rightarrow> u8" where
  "fixed_byte usa ss a b rec j =
     (let i = j div ss + 1 in
      if a \<le> i \<and> i < b \<and> ss - 2 \<le> j mod ss then rec ! (usa + 2 * i + (j mod ss - (ss - 2)))
      else rec ! j)"

lemma sector_ends:
  assumes "2 \<le> (ss :: nat)" and "1 \<le> i"
  shows "(i * ss - 2) div ss + 1 = i" "(i * ss - 2) mod ss = ss - 2"
    "(i * ss - 1) div ss + 1 = i" "(i * ss - 1) mod ss = ss - 1"
proof -
  have e: "i * ss - 2 = (i - 1) * ss + (ss - 2)" "i * ss - 1 = (i - 1) * ss + (ss - 1)"
    using assms by (auto simp: diff_mult_distrib)
  show "(i * ss - 2) div ss + 1 = i" "(i * ss - 2) mod ss = ss - 2"
    "(i * ss - 1) div ss + 1 = i" "(i * ss - 1) mod ss = ss - 1"
    unfolding e using assms by (simp_all only: div_mult_self3 mod_mult_self3) simp_all
qed

lemma sector_end_iff:
  assumes "2 \<le> (ss :: nat)" and "1 \<le> i"
  shows "j div ss + 1 = i \<and> ss - 2 \<le> j mod ss \<longleftrightarrow> j = i * ss - 2 \<or> j = i * ss - 1"
proof
  assume l: "j div ss + 1 = i \<and> ss - 2 \<le> j mod ss"
  have "j mod ss < ss" using assms by simp
  then have "j mod ss = ss - 2 \<or> j mod ss = ss - 1" using l by linarith
  moreover have "j = (i - 1) * ss + j mod ss" using l div_mult_mod_eq [of j ss] by (metis add_diff_cancel_right')
  ultimately show "j = i * ss - 2 \<or> j = i * ss - 1" using assms by (auto simp: diff_mult_distrib)
qed (use sector_ends [OF assms] in auto)

lemma fixup_loop_spec:
  assumes "2 \<le> unat ss" and "1 \<le> i" and "(i + left - 1) * unat ss \<le> length rec"
    and "length rec < 2 ^ 63" and "usa + 2 * (i + left) \<le> unat ss - 2"
  shows "\<exists>rec'. fixup_loop usa ss left i rec = Ret (Some rec') \<and> length rec' = length rec \<and>
    (\<forall>j < length rec. rec' ! j = fixed_byte usa (unat ss) i (i + left) rec j)"
  using assms
proof (induction left arbitrary: i rec)
  case 0
  then show ?case by (auto simp: fixed_byte_def Let_def)
next
  case (Suc left)
  let ?ss = "unat ss"
  let ?p = "i * ?ss - 2"
  have i: "i * ?ss \<le> (i + Suc left - 1) * ?ss" by (rule mult_le_mono1) simp
  then have iss: "i * ?ss \<le> length rec" "2 \<le> i * ?ss"
    using le_trans [OF i Suc.prems(3)] Suc.prems(1,2) mult_le_mono [of 1 i 2 ?ss] by simp_all
  have i1: "i \<le> i * ?ss" using Suc.prems(1) by simp
  have lt: "i * ?ss < 18446744073709551616" "i < 18446744073709551616"
    using le_less_trans [OF iss(1) Suc.prems(4)] le_less_trans [OF le_trans [OF i1 iss(1)] Suc.prems(4)]
    by simp_all
  have m: "unat (u64_of i * ucast ss) = i * ?ss" using lt by (simp add: unat_mult_u64)
  then have pos: "unat (u64_of i * ucast ss - 2) = ?p"
    using iss by (subst unat_sub_u64) (simp_all add: word_le_unat)
  have pos1: "unat (u64_of i * ucast ss - 2 + 1) = i * ?ss - 1"
    using pos iss lt by (subst unat_add_u64) simp_all
  have pos2: "unat (u64_of i * ucast ss - 2 + 2) = i * ?ss" using m by simp
  have ss_p: "?ss - 2 \<le> ?p"
    using mult_le_mono1 [OF Suc.prems(2), of ?ss] by (intro diff_le_mono) simp
  have usa: "usa + i * 2 + 1 < ?p" and usa_all: "\<And>k. k < i + Suc left \<Longrightarrow> usa + 2 * k + 1 < ?ss - 2"
  proof -
    have "?ss - 2 \<le> ?p" by (rule ss_p)
    moreover have "usa + i * 2 + 1 < ?ss - 2" using Suc.prems(5) by simp
    ultimately show "usa + i * 2 + 1 < ?p" by linarith
  qed (use Suc.prems(5) in simp)
  have in_rec: "\<not> length rec \<le> ?p" "\<not> length rec \<le> i * ?ss - 1" using iss by linarith+
  let ?rec = "rec[?p := rec ! (usa + i * 2), i * ?ss - 1 := rec ! (usa + i * 2 + 1)]"
  have step: "fixup_loop usa ss (Suc left) i rec = fixup_loop usa ss left (i + 1) ?rec"
    unfolding fixup_loop.simps Let_def pos pos1 pos2 using usa iss in_rec by simp
  have "\<exists>rec'. fixup_loop usa ss left (i + 1) ?rec = Ret (Some rec') \<and> length rec' = length ?rec \<and>
      (\<forall>j < length ?rec. rec' ! j = fixed_byte usa ?ss (i + 1) (i + 1 + left) ?rec j)"
    using Suc.prems by (intro Suc.IH) simp_all
  then obtain rec' where r: "fixup_loop usa ss left (i + 1) ?rec = Ret (Some rec')"
      "length rec' = length rec"
      "\<And>j. j < length rec \<Longrightarrow> rec' ! j = fixed_byte usa ?ss (i + 1) (i + 1 + left) ?rec j"
    by auto
  have keep: "?rec ! k = rec ! k" if "k < ?p" for k using that by simp
  have "rec' ! j = fixed_byte usa ?ss i (i + Suc left) rec j" if j: "j < length rec" for j
  proof (cases "j = ?p \<or> j = i * ?ss - 1")
    case True
    then have "j div ?ss + 1 = i" "?ss - 2 \<le> j mod ?ss"
      using sector_end_iff [OF Suc.prems(1,2)] by blast+
    moreover have "?rec ! j = rec ! (usa + 2 * i + (j mod ?ss - (?ss - 2)))"
    proof -
      have "?p \<noteq> i * ?ss - 1" "?p < length rec" "i * ?ss - 1 < length rec" using iss by linarith+
      then have "?rec ! ?p = rec ! (usa + 2 * i)" "?rec ! (i * ?ss - 1) = rec ! (usa + 2 * i + 1)"
        by (simp_all add: mult.commute)
      moreover have "?ss - 1 - (?ss - 2) = 1" using Suc.prems(1) by linarith
      ultimately show ?thesis
        using True sector_ends(2,4) [OF Suc.prems(1,2)] by (metis add.right_neutral diff_self_eq_0)
    qed
    ultimately show ?thesis using r(3) [OF j] by (simp add: fixed_byte_def)
  next
    case False
    let ?i = "j div ?ss + 1"
    have ne: "?rec ! j = rec ! j" using False by simp
    have "\<not> (?i = i \<and> ?ss - 2 \<le> j mod ?ss)"
      using False sector_end_iff [OF Suc.prems(1,2)] by blast
    then have c: "i + 1 \<le> ?i \<and> ?i < i + 1 + left \<and> ?ss - 2 \<le> j mod ?ss \<longleftrightarrow>
        i \<le> ?i \<and> ?i < i + Suc left \<and> ?ss - 2 \<le> j mod ?ss" by auto
    have "?rec ! (usa + 2 * ?i + (j mod ?ss - (?ss - 2))) = rec ! (usa + 2 * ?i + (j mod ?ss - (?ss - 2)))"
      if "?i < i + Suc left"
    proof (rule keep)
      have "j mod ?ss < ?ss" using Suc.prems(1) by simp
      then have "j mod ?ss - (?ss - 2) \<le> 1" by linarith
      moreover have "?ss - 2 \<le> ?p" by (rule ss_p)
      ultimately show "usa + 2 * ?i + (j mod ?ss - (?ss - 2)) < ?p"
        using usa_all [OF that] by linarith
    qed
    then show ?thesis
      using r(3) [OF j] ne c unfolding fixed_byte_def Let_def by (auto split: if_split)
  qed
  then show ?case using r step by auto
qed

section \<open>Properties of the NTFS scanner\<close>

text \<open>C14: run lists are decoded as they are written: for every list of runs and holes, whatever
  field widths the writer chose and wherever the list stands in its record, the decoder returns
  the extents of the runs, holes left out; and when these lie in the address space, merging
  adjacent ones neither loses nor adds nor reorders a byte.\<close>

theorem decode_runs_roundtrip:
  assumes "list_all run_ok rs" and "runs_in_range 0 rs"
  shows "\<exists>exts. decode_runs_allocated (xs @ concat (map encode_run rs) @ 0 # ys) (length xs) base bps spc =
      Ret exts \<and>
    (\<forall>hi < 2 ^ 64. ext_ok hi (run_extents base (ucast bps * ucast spc) 0 rs) \<longrightarrow>
       ext_addrs exts = ext_addrs (run_extents base (ucast bps * ucast spc) 0 rs))"
  using decode_runs_encoded [OF assms, of xs ys base "ucast bps * ucast spc" "[]"]
    foldl_push_extent_addrs [of _ "[]" "run_extents base (ucast bps * ucast spc) 0 rs"]
  by (simp add: decode_runs_allocated_def)

lemma decode_runs_roundtrip_witness:
  "\<exists>exts. decode_runs_allocated [0, 0x21, 4, 0x10, 0x01, 0x01, 2, 0x11, 1, 0xFE, 0, 7] 1 0 512 1 = Ret exts"
proof -
  let ?rs = "[(1, 4, Some (2, 272)), (1, 2, None), (1, 1, Some (1, - 2))] :: run list"
  have "list_all run_ok ?rs"
    by (simp add: take_bit_eq_mod word_unat_eq_iff unat_take_bit signed_take_bit_int_eq_self_iff)
  moreover have "[0] @ concat (map encode_run ?rs) @ 0 # [7] = [0, 0x21, 4, 0x10, 0x01, 0x01, 2, 0x11, 1, 0xFE, 0, 7]"
    by (simp add: le_enc_def upt_rec)
  moreover have "runs_in_range 0 ?rs" by simp
  ultimately show ?thesis
    using decode_runs_roundtrip [of ?rs "[0]" "[7]" 0 512 1] by (metis One_nat_def length_Cons list.size(3))
qed

text \<open>The update sequence is applied exactly: the repaired record has its length, each sector's
  last two bytes come from the array, and no other byte changes; provided that the array ends
  before the first sector does.\<close>

theorem fixup_record_correct:
  assumes "has_prefix_at rec 0 ''FILE''" and "8 \<le> length rec" and "length rec < 2 ^ 63" and "2 \<le> unat ss"
    and "v16 rec 4 \<noteq> 0" and "2 \<le> v16 rec 6"
    and "unat (v16 rec 4) + 2 * unat (v16 rec 6) \<le> unat ss - 2"
    and "(unat (v16 rec 6) - 1) * unat ss \<le> length rec"
  shows "\<exists>rec'. fixup_record rec ss = Ret (Some rec') \<and> length rec' = length rec \<and>
    (\<forall>j < length rec. rec' ! j =
       fixed_byte (unat (v16 rec 4)) (unat ss) 1 (unat (v16 rec 6)) rec j)"
proof -
  let ?n = "unat (v16 rec 6)"
  have n: "2 \<le> ?n" using assms(6) by (simp add: word_le_unat)
  then have "1 * unat ss \<le> (?n - 1) * unat ss" by (intro mult_le_mono1) simp
  then have ss: "unat ss \<le> length rec" using le_trans [OF _ assms(8)] by simp
  have len: "8 \<le> length rec" "unat (v16 rec 4) + ?n * 2 \<le> length rec"
    using ss assms(2,7) n by (auto simp: unat_gt_0 [symmetric])
  have eq: "fixup_record rec ss = fixup_loop (unat (v16 rec 4)) ss (?n - 1) 1 rec"
    using assms len n by (simp add: fixup_record_def Let_def not_less not_le word_less_unat)
  have "1 + (?n - 1) = ?n" using n by simp
  then show ?thesis
    using fixup_loop_spec [OF assms(4), of 1 "?n - 1" rec "unat (v16 rec 4)"] assms(3,7,8)
    unfolding eq by simp
qed

definition sample_record :: bytes where
  "sample_record = [70, 73, 76, 69, 8, 0, 2, 0, 1, 2, 3, 4, 9, 9, 9, 9]"

lemma sample_record_fields:
  "has_prefix_at sample_record 0 ''FILE''" "length sample_record = 16"
  "v16 sample_record 4 = 8" "v16 sample_record 6 = 2" "sample_record ! 10 = 3"
  by (simp_all add: sample_record_def has_prefix_at_def ascii_def v16_def le16_def)

lemma fixup_record_correct_witness:
  "\<exists>rec'. fixup_record sample_record 16 = Ret (Some rec') \<and> rec' ! 14 = 3"
  using fixup_record_correct [of sample_record 16]
  by (auto simp: sample_record_fields fixed_byte_def)

text \<open>A sector size of one byte, which the boot sector test lets through, makes the repair write
  before its record: the position of the end of the first sector wraps, and so does the test.\<close>

theorem fixup_tiny_sector_traps:
  assumes "has_prefix_at rec 0 ''FILE''" and "8 \<le> length rec" and "length rec < 2 ^ 63"
    and "v16 rec 4 \<noteq> 0" and "2 \<le> v16 rec 6"
    and "unat (v16 rec 4) + 2 * unat (v16 rec 6) \<le> length rec"
  shows "fixup_record rec 1 = Trap"
proof -
  obtain k where k: "unat (v16 rec 6) - 1 = Suc k"
    using assms(5) by (cases "unat (v16 rec 6) - 1") (auto simp: word_le_unat)
  have "unat (- 1 :: u64) = 18446744073709551615"
    by (simp add: unsigned_minus_1_eq_mask mask_eq_exp_minus_1)
  then have "fixup_loop (unat (v16 rec 4)) 1 (Suc k) 1 rec = Trap"
    using assms(2,3) by (auto simp: Let_def)
  then show ?thesis
    using assms k by (simp add: fixup_record_def Let_def not_less mult.commute)
qed

lemma fixup_tiny_sector_traps_witness: "fixup_record sample_record 1 = Trap"
  by (rule fixup_tiny_sector_traps) (simp_all add: sample_record_fields)

text \<open>A record can keep the scanner busy for ever: an attribute whose length is a multiple of
  64 KiB leaves the 16-bit position where it is, and the loop over the attributes never ends.\<close>

theorem ntfs_attr_loop_never_returns:
  assumes "unat aoff + 8 < length rec" and "v32 rec (unat aoff + 4) = 0x10000"
    and "rec ! (unat aoff + 8) = 0" and "v32 rec (unat aoff) \<notin> {0x30, 0x80, 0xFFFFFFFF}"
  shows "collect_attrs fuel rec base bps spc named aoff st = Stuck"
proof (induction fuel arbitrary: st)
  case (Suc fuel)
  have "(ucast (ucast aoff + 0x10000 :: u32) :: u16) = aoff"
    by (simp add: word_unat_eq_iff unsigned_ucast_eq take_bit_eq_mod unat_word_ariths mod_mod_cancel)
  then show ?case using assms Suc by (simp add: attr_runs_def Let_def)
qed simp

lemma ntfs_attr_loop_never_returns_witness:
  "collect_attrs 1000 [0x10, 0, 0, 0, 0, 0, 1, 0, 0, 0] 0 512 1 False 0 \<lparr>at_exts = [], at_size = 0, at_name = []\<rparr> = Stuck"
  by (rule ntfs_attr_loop_never_returns) (simp_all add: v32_def v16_def le16_def le32_def)

end
