(* ===== verification/Ext.thy ===== *)
theory Ext
  imports Fat Partition
begin

text \<open>
  The ext2/3/4 scanner (\<open>src/fs/ext.cpp\<close>): superblock and group descriptors, inodes, their blocks
  (direct and indirect, or extent trees) and the walk over the directories.

  Reads outside a buffer, divisions by zero and shifts by the width are \<open>Trap\<close>.  Two recursions are
  not bounded by the program: that over extent trees, which \<open>depth\<close> counts, and that over
  directories, which \<open>fuel\<close> counts.  The set of inodes seen is part of the state of the walk.
\<close>

section \<open>Geometry\<close>

record ext_geom =
  eg_base :: u64
  eg_block_size :: u32
  eg_inodes_per_group :: u32
  eg_blocks_per_group :: u32
  eg_inode_size :: u32
  eg_first_data_block :: u32
  eg_groups :: u32
  eg_inodes_count :: u32
  eg_extents :: bool
  eg_gd :: bytes
  eg_gd_entry_size :: u32

definition blk_off :: "ext_geom \<Rightarrow> u64 \<Rightarrow> u64" where
  "blk_off g block = eg_base g + block * ucast (eg_block_size g)"

type_synonym 's rd_fun = "u64 \<Rightarrow> nat \<Rightarrow> ('s, string + bytes) io"

definition read_block :: "'s rd_fun \<Rightarrow> ext_geom \<Rightarrow> u64 \<Rightarrow> ('s, string + bytes) io" where
  "read_block rd g block = rd (blk_off g block) (unat (eg_block_size g))"

definition inode_block_group :: "ext_geom \<Rightarrow> u32 \<Rightarrow> u32 outcome" where
  "inode_block_group g ino = udiv (ino - 1) (eg_inodes_per_group g)"

text \<open>Both branches of the code read the same field.\<close>

definition bg_inode_table :: "ext_geom \<Rightarrow> u32 \<Rightarrow> u32 outcome" where
  "bg_inode_table g grp = r32 (eg_gd g) (unat (grp * eg_gd_entry_size g) + 8)"

definition read_inode :: "'s rd_fun \<Rightarrow> ext_geom \<Rightarrow> u32 \<Rightarrow> ('s, string + bytes) io" where
  "read_inode rd g ino =
     (if ino = 0 \<or> eg_inodes_count g < ino then ioret (Inl [])
      else
        iob (iolift (inode_block_group g ino)) (\<lambda>grp.
        let index = (ino - 1) mod eg_inodes_per_group g in
        iob (iolift (bg_inode_table g grp)) (\<lambda>table.
        rd (blk_off g (ucast table) + ucast index * ucast (eg_inode_size g))
           (unat (eg_inode_size g)))))"

definition append_block_extents ::
  "fs_extent list \<Rightarrow> ext_geom \<Rightarrow> u64 \<Rightarrow> u64 \<Rightarrow> fs_extent list" where
  "append_block_extents exts g block nbytes =
     (if block = 0 \<or> nbytes = 0 then exts else push_extent exts (mk_extent (blk_off g block) nbytes))"

section \<open>Extent trees\<close>

text \<open>The blocks of one leaf entry: \<open>n\<close> of them from \<open>block\<close> on.\<close>

fun leaf_blocks ::
  "ext_geom \<Rightarrow> nat \<Rightarrow> u64 \<Rightarrow> u64 \<Rightarrow> fs_extent list \<Rightarrow> u64 \<times> fs_extent list" where
  "leaf_blocks g 0 block left exts = (left, exts)"
| "leaf_blocks g (Suc n) block left exts =
     (if left = 0 then (left, exts)
      else
        let take = min left (ucast (eg_block_size g)) in
        leaf_blocks g n (block + 1) (left - take) (append_block_extents exts g block take))"

text \<open>The entries of a leaf node, at \<open>p\<close>.\<close>

fun leaf_entries ::
  "ext_geom \<Rightarrow> bytes \<Rightarrow> nat \<Rightarrow> nat \<Rightarrow> u64 \<Rightarrow> fs_extent list \<Rightarrow> fs_extent list outcome" where
  "leaf_entries g buf 0 p left exts = Ret exts"
| "leaf_entries g buf (Suc n) p left exts =
     (if left = 0 then Ret exts
      else
        obind (r16 buf (p + 4)) (\<lambda>len.
        let uninit = (len AND 0x8000 \<noteq> 0); len = len AND 0x7FFF in
        obind (r32 buf (p + 8)) (\<lambda>lo.
        obind (r16 buf (p + 6)) (\<lambda>hi.
        let start = (ucast lo :: u64) OR push_bit 32 (ucast hi) in
        if uninit then
          let skip = ucast len * ucast (eg_block_size g);
              skip = (if left < skip then left else skip) in
          leaf_entries g buf n (p + 12) (left - skip) exts
        else
          let r = leaf_blocks g (unat len) start left exts in
          leaf_entries g buf n (p + 12) (fst r) (snd r)))))"

definition extents_used :: "fs_extent list \<Rightarrow> u64" where
  "extents_used exts = sum_list (map fe_length exts)"

text \<open>The entries of an index node; \<open>rec\<close> reads the tree below a block.\<close>

fun index_entries ::
  "(bytes \<Rightarrow> u64 \<Rightarrow> ('s, string + fs_extent list) io) \<Rightarrow> 's rd_fun \<Rightarrow> ext_geom \<Rightarrow> bytes \<Rightarrow> u64
    \<Rightarrow> nat \<Rightarrow> nat \<Rightarrow> u64 \<Rightarrow> fs_extent list \<Rightarrow> ('s, string + fs_extent list) io" where
  "index_entries rec rd g buf fsize 0 p left exts = ioret (Inr exts)"
| "index_entries rec rd g buf fsize (Suc n) p left exts =
     (if left = 0 then ioret (Inr exts)
      else
        iob (iolift (r32 buf (p + 4))) (\<lambda>lo.
        iob (iolift (r16 buf (p + 8))) (\<lambda>hi.
        iob (read_block rd g ((ucast lo :: u64) OR push_bit 32 (ucast hi))) (\<lambda>r.
        case r of
          Inl err \<Rightarrow> ioret (Inl err)
        | Inr blk \<Rightarrow>
            iob (rec blk (fsize - extents_used exts)) (\<lambda>r.
            case r of
              Inl err \<Rightarrow> ioret (Inl err)
            | Inr part \<Rightarrow>
                let exts = foldl push_extent exts part;
                    used = extents_used exts in
                index_entries rec rd g buf fsize n (p + 12)
                  (if used < fsize then fsize - used else 0) exts)))))"

text \<open>The node at \<open>eh\<close> of a buffer.  \<open>Inl []\<close> is failure without a message.\<close>

fun parse_extents_full ::
  "nat \<Rightarrow> 's rd_fun \<Rightarrow> ext_geom \<Rightarrow> bytes \<Rightarrow> nat \<Rightarrow> u64 \<Rightarrow> ('s, string + fs_extent list) io" where
  "parse_extents_full 0 rd g buf eh fsize = iostuck"
| "parse_extents_full (Suc depth) rd g buf eh fsize =
     iob (iolift (r16 buf eh)) (\<lambda>magic.
     if magic \<noteq> 0xF30A then ioret (Inl [])
     else
       iob (iolift (r16 buf (eh + 2))) (\<lambda>entries.
       iob (iolift (r16 buf (eh + 6))) (\<lambda>tree_depth.
       if tree_depth = 0 then
         iob (iolift (leaf_entries g buf (unat entries) (eh + 12) fsize [])) (\<lambda>exts.
         ioret (Inr exts))
       else
         index_entries (\<lambda>blk sz. parse_extents_full depth rd g blk 0 sz) rd g buf fsize
           (unat entries) (eh + 12) fsize [])))"

section \<open>Direct and indirect blocks\<close>

type_synonym blocks_state = "u64 \<times> fs_extent list"

fun indirect_entries ::
  "(u32 \<Rightarrow> blocks_state \<Rightarrow> ('s, string + blocks_state) io) \<Rightarrow> bytes \<Rightarrow> nat \<Rightarrow> nat \<Rightarrow> blocks_state
    \<Rightarrow> ('s, string + blocks_state) io" where
  "indirect_entries rec buf 0 p st = ioret (Inr st)"
| "indirect_entries rec buf (Suc n) p st =
     (if fst st = 0 then ioret (Inr st)
      else
        iob (iolift (r32 buf p)) (\<lambda>b.
        iob (rec b st) (\<lambda>r.
        case r of
          Inl err \<Rightarrow> ioret (Inl err)
        | Inr st \<Rightarrow> indirect_entries rec buf n (p + 4) st)))"

fun collect_indirect ::
  "nat \<Rightarrow> 's rd_fun \<Rightarrow> ext_geom \<Rightarrow> u32 \<Rightarrow> blocks_state \<Rightarrow> ('s, string + blocks_state) io" where
  "collect_indirect 0 rd g block (left, exts) =
     (if block = 0 \<or> left = 0 then ioret (Inr (left, exts))
      else
        let take = min left (ucast (eg_block_size g)) in
        ioret (Inr (left - take, append_block_extents exts g (ucast block) take)))"
| "collect_indirect (Suc level) rd g block (left, exts) =
     (if block = 0 \<or> left = 0 then ioret (Inr (left, exts))
      else
        iob (read_block rd g (ucast block)) (\<lambda>r.
        case r of
          Inl err \<Rightarrow> ioret (Inl err)
        | Inr blk \<Rightarrow>
            indirect_entries (\<lambda>b st. collect_indirect level rd g b st) blk
              (unat (eg_block_size g) div 4) 0
              (left, append_block_extents exts g (ucast block) (ucast (eg_block_size g)))))"

text \<open>The three trees behind the direct blocks, each looked at while bytes are missing.\<close>

fun indirect_trees ::
  "'s rd_fun \<Rightarrow> ext_geom \<Rightarrow> bytes \<Rightarrow> (nat \<times> nat) list \<Rightarrow> blocks_state
    \<Rightarrow> ('s, string + blocks_state) io" where
  "indirect_trees rd g inode [] st = ioret (Inr st)"
| "indirect_trees rd g inode ((slot, level) # ts) st =
     (if fst st = 0 then ioret (Inr st)
      else
        iob (iolift (r32 inode (40 + slot * 4))) (\<lambda>b.
        iob (collect_indirect level rd g b st) (\<lambda>r.
        case r of
          Inl err \<Rightarrow> ioret (Inl err)
        | Inr st \<Rightarrow> indirect_trees rd g inode ts st)))"

section \<open>Inodes\<close>

definition inode_mode :: "bytes \<Rightarrow> u16 outcome" where
  "inode_mode inode = r16 inode 0"

definition inode_fsize :: "ext_geom \<Rightarrow> bytes \<Rightarrow> u64 outcome" where
  "inode_fsize g inode =
     obind (r32 inode 4) (\<lambda>lo.
     if 128 + 4 \<le> eg_inode_size g
     then obind (r32 inode 108) (\<lambda>hi. Ret (ucast lo OR push_bit 32 (ucast hi)))
     else Ret (ucast lo))"

definition inode_data_extents ::
  "nat \<Rightarrow> 's rd_fun \<Rightarrow> ext_geom \<Rightarrow> bytes \<Rightarrow> ('s, string + fs_extent list) io" where
  "inode_data_extents depth rd g inode =
     iob (iolift (inode_mode inode)) (\<lambda>mode.
     iob (iolift (inode_fsize g inode)) (\<lambda>fsize.
     iob (iolift (r32 inode 32)) (\<lambda>flags.
     if flags AND 0x80000 \<noteq> 0 \<or> eg_extents g then parse_extents_full depth rd g inode 40 fsize
     else
       let left = (if mode AND 0xF000 = 0x4000 \<and> fsize = 0
                   then ucast (eg_block_size g) * 12 else fsize) in
       iob (indirect_entries (\<lambda>b st. collect_indirect 0 rd g b st) inode 12 40 (left, [])) (\<lambda>r.
       case r of
         Inl err \<Rightarrow> ioret (Inl err)
       | Inr st \<Rightarrow>
           iob (indirect_trees rd g inode [(12, 1), (13, 2), (14, 3)] st) (\<lambda>r.
           case r of
             Inl err \<Rightarrow> ioret (Inl err)
           | Inr st \<Rightarrow> ioret (Inr (snd st)))))))"

section \<open>The walk\<close>

type_synonym ext_walk_result = "bool \<times> fs_scan \<times> u32 set"

text \<open>The entries of a directory, from byte \<open>pos\<close> on.\<close>

function ext_entries ::
  "(u32 \<Rightarrow> string \<Rightarrow> fs_scan \<Rightarrow> u32 set \<Rightarrow> ('s, ext_walk_result) io) \<Rightarrow> string \<Rightarrow> bytes \<Rightarrow> nat
    \<Rightarrow> fs_scan \<Rightarrow> u32 set \<Rightarrow> ('s, ext_walk_result) io" where
  "ext_entries rec pfx buf pos out seen =
     (if length buf < pos + 8 then ioret (True, out, seen)
      else
        let child = v32 buf pos;
            rec_len = unat (v16 buf (pos + 4));
            name_len = unat (buf ! (pos + 6)) in
        if rec_len < 8 \<or> length buf < pos + rec_len then ioret (True, out, seen)
        else if child \<noteq> 0 \<and> 0 < name_len then
          if length buf < pos + 8 + name_len then iotrap
          else
            let name = map to_char (take name_len (drop (pos + 8) buf)) in
            if name \<noteq> ''.'' \<and> name \<noteq> ''..'' then
              iob (rec child (pfx @ ''/'' @ name) out seen) (\<lambda>(ok, out, seen).
              if ok then ext_entries rec pfx buf (pos + rec_len) out seen
              else ioret (False, out, seen))
            else ext_entries rec pfx buf (pos + rec_len) out seen
        else ext_entries rec pfx buf (pos + rec_len) out seen)"
  by pat_completeness auto
termination
  by (relation "measure (\<lambda>(rec, pfx, buf, pos, out, seen). length buf - pos)") auto

declare ext_entries.simps [simp del]

definition ext_fail :: "string \<Rightarrow> fs_scan \<Rightarrow> u32 set \<Rightarrow> ('s, ext_walk_result) io" where
  "ext_fail e out seen = ioret (False, out\<lparr>fs_error := e\<rparr>, seen)"

fun ext_walk_dir ::
  "nat \<Rightarrow> nat \<Rightarrow> 's rd_fun \<Rightarrow> ext_geom \<Rightarrow> u32 \<Rightarrow> string \<Rightarrow> fs_scan \<Rightarrow> u32 set
    \<Rightarrow> ('s, ext_walk_result) io" where
  "ext_walk_dir 0 depth rd g ino pfx out seen = iostuck"
| "ext_walk_dir (Suc fuel) depth rd g ino pfx out seen =
     (if ino \<in> seen then ioret (True, out, seen)
      else
        let seen = insert ino seen in
        iob (read_inode rd g ino) (\<lambda>r.
        case r of
          Inl err \<Rightarrow> ext_fail err out seen
        | Inr inode \<Rightarrow>
            iob (iolift (inode_mode inode)) (\<lambda>mode.
            iob (iolift (inode_fsize g inode)) (\<lambda>fsize.
            iob (inode_data_extents depth rd g inode) (\<lambda>r.
            case r of
              Inl err \<Rightarrow> ext_fail (if err = [] then ''inode extents failed'' else err) out seen
            | Inr exts \<Rightarrow>
                if mode AND 0xF000 = 0x8000
                then ioret (True, add_object (mk_object pfx fsize exts) out, seen)
                else if mode AND 0xF000 \<noteq> 0x4000 then ioret (True, out, seen)
                else
                  let out = add_object (mk_object (if pfx = [] then ''/'' else pfx) fsize exts) out in
                  iob (read_extents rd exts []) (\<lambda>r.
                  case r of
                    Inl err \<Rightarrow> ext_fail err out seen
                  | Inr buf \<Rightarrow>
                      ext_entries (\<lambda>child path out seen. ext_walk_dir fuel depth rd g child path out seen)
                        pfx buf 0 out seen))))))"

section \<open>The scan\<close>

text \<open>The geometry, without the group descriptors.\<close>

definition ext_geometry :: "u64 \<Rightarrow> bytes \<Rightarrow> ext_geom outcome" where
  "ext_geometry base sb =
     (let log_bs = v32 sb 24;
          inode_size = (ucast (v16 sb 88) :: u32);
          feat_incompat = v32 sb 96;
          entry_size = (if feat_incompat AND 0x80 \<noteq> 0 then ucast (v16 sb 254) else 32) in
      if 32 \<le> log_bs then Trap
      else
        obind (udiv (v32 sb 4 - v32 sb 20 + v32 sb 32 - 1) (v32 sb 32)) (\<lambda>groups.
        Ret \<lparr>eg_base = base, eg_block_size = push_bit (unat log_bs) 1024,
             eg_inodes_per_group = v32 sb 40, eg_blocks_per_group = v32 sb 32,
             eg_inode_size = (if inode_size < 128 then 128 else inode_size),
             eg_first_data_block = v32 sb 20, eg_groups = groups, eg_inodes_count = v32 sb 0,
             eg_extents = (feat_incompat AND 0x40 \<noteq> 0), eg_gd = [],
             eg_gd_entry_size = (if entry_size < 32 then 32 else entry_size)\<rparr>))"

text \<open>One object per inode table, from group \<open>grp\<close> on.\<close>

fun inode_tables :: "ext_geom \<Rightarrow> nat \<Rightarrow> nat \<Rightarrow> fs_scan \<Rightarrow> fs_scan outcome" where
  "inode_tables g 0 grp out = Ret out"
| "inode_tables g (Suc n) grp out =
     obind (bg_inode_table g (of_nat grp)) (\<lambda>table.
     let sz = ucast (eg_inodes_per_group g) * ucast (eg_inode_size g) in
     inode_tables g n (grp + 1)
       (add_object (mk_object (''::inode_table-'' @ dec_digits grp) sz
          [mk_extent (blk_off g (ucast table)) sz]) out))"

definition scan_ext ::
  "nat \<Rightarrow> nat \<Rightarrow> 's rd_fun \<Rightarrow> u64 \<Rightarrow> fs_scan \<Rightarrow> ('s, walk_result) io" where
  "scan_ext fuel depth rd base out =
     iob (rd (base + 1024) 1024) (\<lambda>r.
     case r of
       Inl err \<Rightarrow> scan_fail err out
     | Inr sb \<Rightarrow>
         if v16 sb 56 \<noteq> 0xEF53 then scan_fail ''bad ext magic'' out
         else
           iob (iolift (ext_geometry base sb)) (\<lambda>g.
           let gd_block = ucast (eg_first_data_block g + 1);
               gd_bytes = ucast (eg_groups g) * ucast (eg_gd_entry_size g) in
           iob (rd (blk_off g gd_block) (unat gd_bytes)) (\<lambda>r.
           case r of
             Inl err \<Rightarrow> scan_fail err out
           | Inr gd \<Rightarrow>
               let g = g\<lparr>eg_gd := gd\<rparr>;
                   out = add_object (mk_object ''::superblock'' 1024 [mk_extent (base + 1024) 1024]) out;
                   out = add_object (mk_object ''::group_descriptors'' gd_bytes
                           [mk_extent (blk_off g gd_block) gd_bytes]) out in
               iob (iolift (inode_tables g (unat (eg_groups g)) 0 out)) (\<lambda>out.
               iob (ext_walk_dir fuel depth rd g 2 [] out {}) (\<lambda>(ok, out, seen).
               ioret (ok, out))))))"

section \<open>Lemmas: the blocks of a leaf\<close>

definition block_fits :: "ext_geom \<Rightarrow> u64 \<Rightarrow> nat \<Rightarrow> bool" where
  "block_fits g block n \<longleftrightarrow> block \<noteq> 0 \<and>
     unat (eg_base g) + (unat block + n) * unat (eg_block_size g) < 2 ^ 64"

lemma block_fits_off:
  assumes "block_fits g block (Suc n)"
  shows "unat (blk_off g block) = unat (eg_base g) + unat block * unat (eg_block_size g)"
    and "unat (blk_off g block) + unat (eg_block_size g) \<le> 18446744073709551615"
proof -
  have "unat (eg_base g) + (unat block * unat (eg_block_size g) + unat (eg_block_size g)) +
      n * unat (eg_block_size g) < 2 ^ 64"
    using assms by (simp add: block_fits_def algebra_simps)
  then have lt: "unat (eg_base g) + unat block * unat (eg_block_size g) + unat (eg_block_size g) < 2 ^ 64"
    by linarith
  then show "unat (blk_off g block) = unat (eg_base g) + unat block * unat (eg_block_size g)"
    by (simp add: blk_off_def unat_mult_u64 unat_add_u64)
  with lt show "unat (blk_off g block) + unat (eg_block_size g) \<le> 18446744073709551615" by simp
qed

lemma block_fits_Suc:
  assumes "block_fits g block (Suc n)" and "0 < eg_block_size g"
  shows "unat (block + 1) = unat block + 1" and "block_fits g (block + 1) n"
proof -
  have bs: "1 \<le> unat (eg_block_size g)" using assms(2) by (simp add: word_less_unat)
  have "(unat block + Suc n) * 1 \<le> (unat block + Suc n) * unat (eg_block_size g)"
    using bs by (rule mult_le_mono2)
  then have "unat block + 1 < 2 ^ 64" using assms(1) by (simp add: block_fits_def)
  then show b: "unat (block + 1) = unat block + 1" by (simp add: unat_word_ariths)
  then have "block + 1 \<noteq> 0" by (metis Suc_eq_plus1 nat.distinct(1) unsigned_0)
  then show "block_fits g (block + 1) n" using assms(1) b by (simp add: block_fits_def)
qed

lemma leaf_blocks_addrs:
  assumes "0 < eg_block_size g"
  shows "block_fits g block n \<Longrightarrow> ext_ok 18446744073709551615 exts \<Longrightarrow>
    leaf_blocks g n block left exts = (left', exts') \<Longrightarrow>
    ext_ok 18446744073709551615 exts' \<and>
    unat left' = unat left - n * unat (eg_block_size g) \<and>
    ext_addrs exts' = ext_addrs exts @ take (unat left)
      [unat (blk_off g block) ..< unat (blk_off g block) + n * unat (eg_block_size g)]"
proof (induction n arbitrary: block left exts)
  case (Suc n)
  let ?bs = "unat (eg_block_size g)"
  show ?case
  proof (cases "left = 0")
    case False
    define tk where "tk = min left (ucast (eg_block_size g))"
    have tk: "unat tk = min (unat left) ?bs" by (auto simp: tk_def min_def word_le_unat)
    have tk0: "tk \<noteq> 0" using False assms by (auto simp: tk_def min_def word_unat_eq_iff word_less_unat)
    have sub: "unat (left - tk) = unat left - ?bs"
      using tk by (subst unat_sub_u64) (auto simp: word_le_unat)
    note fits = block_fits_off [OF Suc.prems(1)] block_fits_Suc [OF Suc.prems(1) assms]
    have off1: "unat (blk_off g (block + 1)) = unat (blk_off g block) + ?bs" if nz: "n \<noteq> 0"
    proof -
      obtain k where "n = Suc k" using nz by (cases n) auto
      then show ?thesis using fits(1,3) block_fits_off(1) [of g "block + 1" k] fits(4) by simp
    qed
    have blk: "block \<noteq> 0" using Suc.prems(1) by (simp add: block_fits_def)
    let ?exts = "push_extent exts (mk_extent (blk_off g block) tk)"
    have push: "ext_addrs ?exts = ext_addrs exts @ take (unat left) [unat (blk_off g block) ..< unat (blk_off g block) + ?bs]"
      "ext_ok 18446744073709551615 ?exts"
      using push_extent_addrs [OF Suc.prems(2), of "mk_extent (blk_off g block) tk"] fits(2) tk
      by (auto simp: mk_extent_def take_upt min_def)
    have "leaf_blocks g n (block + 1) (left - tk) ?exts = (left', exts')"
      using Suc.prems(3) False tk0 blk by (simp add: Let_def append_block_extents_def tk_def)
    note IH = Suc.IH [OF fits(4) push(2) this]
    have cat: "[unat (blk_off g block) ..< unat (blk_off g block) + (?bs + n * ?bs)] =
        [unat (blk_off g block) ..< unat (blk_off g block) + ?bs] @
        [unat (blk_off g block) + ?bs ..< unat (blk_off g block) + ?bs + n * ?bs]"
      by (metis add.assoc le_add1 upt_add_eq_append)
    show ?thesis
    proof (intro conjI)
      show "ext_ok 18446744073709551615 exts'" using IH by blast
      show "unat left' = unat left - Suc n * ?bs" using IH sub by simp
      show "ext_addrs exts' = ext_addrs exts @ take (unat left)
          [unat (blk_off g block) ..< unat (blk_off g block) + Suc n * ?bs]"
        using IH push(1) off1 sub by (cases "n = 0") (simp_all add: cat)
    qed
  qed (use Suc.prems in auto)
qed auto

text \<open>A leaf entry as the code reads it, and the addresses a list of them denotes in a file with
  \<open>left\<close> bytes to go: entries that are not initialised use up bytes and denote none.\<close>

definition leaf_entry :: "bytes \<Rightarrow> nat \<Rightarrow> bool \<times> nat \<times> u64" where
  "leaf_entry buf p =
     (v16 buf (p + 4) AND 0x8000 \<noteq> 0, unat (v16 buf (p + 4) AND 0x7FFF),
      ucast (v32 buf (p + 8)) OR push_bit 32 (ucast (v16 buf (p + 6))))"

fun leaf_addrs :: "ext_geom \<Rightarrow> nat \<Rightarrow> (bool \<times> nat \<times> u64) list \<Rightarrow> nat list" where
  "leaf_addrs g left [] = []"
| "leaf_addrs g left ((uninit, len, start) # es) =
     (if uninit then []
      else take left [unat (blk_off g start) ..< unat (blk_off g start) + len * unat (eg_block_size g)]) @
     leaf_addrs g (left - len * unat (eg_block_size g)) es"

lemma leaf_addrs_0 [simp]: "leaf_addrs g 0 es = []"
  by (induction es) (auto split: prod.splits)

lemma leaf_entries_addrs:
  assumes "0 < eg_block_size g"
  shows "p + 12 * n \<le> length buf \<Longrightarrow>
    (\<forall>k < n. case leaf_entry buf (p + 12 * k) of (u, len, start) \<Rightarrow> u \<or> block_fits g start len) \<Longrightarrow>
    ext_ok 18446744073709551615 exts \<Longrightarrow>
    \<exists>exts'. leaf_entries g buf n p left exts = Ret exts' \<and> ext_ok 18446744073709551615 exts' \<and>
      ext_addrs exts' = ext_addrs exts @
        leaf_addrs g (unat left) (map (\<lambda>k. leaf_entry buf (p + 12 * k)) [0 ..< n])"
proof (induction n arbitrary: p left exts)
  case (Suc n)
  let ?bs = "unat (eg_block_size g)"
  have entries: "map (\<lambda>k. leaf_entry buf (p + 12 * k)) [0 ..< Suc n] =
      leaf_entry buf p # map (\<lambda>k. leaf_entry buf (p + 12 + 12 * k)) [0 ..< n]"
    by (simp add: upt_conv_Cons map_Suc_upt [symmetric] add.assoc del: upt_Suc)
  have fit: "case leaf_entry buf p of (u, len, start) \<Rightarrow> u \<or> block_fits g start len"
    using Suc.prems(2) [rule_format, of 0] by simp
  have rest: "\<forall>k < n. case leaf_entry buf (p + 12 + 12 * k) of (u, len, start) \<Rightarrow> u \<or> block_fits g start len"
  proof (intro allI impI)
    fix k assume "k < n"
    then show "case leaf_entry buf (p + 12 + 12 * k) of (u, len, start) \<Rightarrow> u \<or> block_fits g start len"
      using Suc.prems(2) [rule_format, of "Suc k"] by (simp add: add.assoc)
  qed
  have len: "p + 12 + 12 * n \<le> length buf" using Suc.prems(1) by simp
  note IH = Suc.IH [OF len rest]
  obtain u l st where e: "leaf_entry buf p = (u, l, st)" by (metis prod_cases3)
  have l: "unat (v16 buf (p + 4) AND 0x7FFF) = l" and u: "(v16 buf (p + 4) AND 0x8000 \<noteq> 0) = u"
    and st: "ucast (v32 buf (p + 8)) OR push_bit 32 (ucast (v16 buf (p + 6))) = st"
    using e by (simp_all add: leaf_entry_def)
  have reads: "r16 buf (p + 4) = Ret (v16 buf (p + 4))" "r16 buf (p + 6) = Ret (v16 buf (p + 6))"
    "r32 buf (p + 8) = Ret (v32 buf (p + 8))" using len by simp_all
  show ?case
  proof (cases "left = 0")
    case True
    then show ?thesis using Suc.prems(3) by simp
  next
    case left: False
    show ?thesis
    proof (cases u)
      case True
      let ?skip = "ucast (v16 buf (p + 4) AND 0x7FFF) * ucast (eg_block_size g) :: u64"
      let ?s = "if left < ?skip then left else ?skip"
      have "l * ?bs < 65536 * 4294967296"
        using l by (intro mult_strict_mono') (auto simp del: unat_and_not_mask)
      then have s0: "unat ?skip = l * ?bs" using l by (simp add: unat_mult_u64)
      have "unat (left - ?s) = unat left - l * ?bs"
      proof (cases "left < ?skip")
        case True
        then have "unat left < l * ?bs" by (simp only: word_less_unat s0)
        then show ?thesis using True by simp
      next
        case False
        then have "?skip \<le> left" by simp
        then show ?thesis unfolding if_not_P [OF False] by (simp only: unat_sub_u64 s0)
      qed
      then show ?thesis
        using IH [OF Suc.prems(3), of "left - ?s"] left u True
        unfolding entries e by (simp add: reads Let_def del: upt_Suc)
    next
      case False
      obtain l' exts' where r: "leaf_blocks g l st left exts = (l', exts')" by fastforce
      note lb = leaf_blocks_addrs [OF assms _ Suc.prems(3) r]
      have "block_fits g st l" using fit e False by simp
      note lb = lb [OF this]
      show ?thesis
        using IH [of exts' l'] lb left u False r
        unfolding entries e by (auto simp: reads Let_def l st simp del: upt_Suc)
    qed
  qed
qed auto

section \<open>Lemmas: the walk comes back\<close>

lemma iolift_total: "r \<noteq> Stuck \<Longrightarrow> wpx True False (iolift r) (\<lambda>_ s'. s' = s) s"
  by (cases r) auto

lemma outcomes_not_Stuck [simp]:
  "udiv a b \<noteq> Stuck" "inode_block_group g ino \<noteq> Stuck" "bg_inode_table g grp \<noteq> Stuck"
  "inode_mode inode \<noteq> Stuck" "inode_fsize g inode \<noteq> Stuck"
  by (simp_all add: udiv_def inode_block_group_def bg_inode_table_def inode_mode_def inode_fsize_def
      obind_eq_Stuck)

text \<open>\<open>returns m\<close>: the routine traps or returns, from every state.\<close>

definition returns :: "('s, 'a) io \<Rightarrow> bool" where
  "returns m \<longleftrightarrow> (\<forall>s. m s \<noteq> Stuck)"

named_theorems returns_intros "rules that take a routine apart, for the absence of divergence"

lemma returns_wpx: "returns m \<longleftrightarrow> (\<forall>s. wpx True False m (\<lambda>_ _. True) s)"
  by (auto simp: returns_def wpx_def split: outcome.splits)

lemma returns_basic [returns_intros]: "returns (ioret a)" "returns (ioget f)" "returns (ioupd f)" "returns iotrap"
  by (simp_all add: returns_wpx)

lemma returns_lift [returns_intros]: "r \<noteq> Stuck \<Longrightarrow> returns (iolift r)"
  by (cases r) (auto simp: returns_wpx)

lemma returns_bind [returns_intros]: "returns m \<Longrightarrow> (\<And>a. returns (f a)) \<Longrightarrow> returns (iob m f)"
  unfolding returns_wpx wpx_bind by (blast intro: wpx_weaken)

lemma returns_if [returns_intros]: "(b \<Longrightarrow> returns m) \<Longrightarrow> (\<not> b \<Longrightarrow> returns m') \<Longrightarrow> returns (if b then m else m')"
  by simp

lemma returns_let [returns_intros]: "(\<And>x. x = a \<Longrightarrow> returns (f x)) \<Longrightarrow> returns (let x = a in f x)"
  by simp

lemma returns_sum [returns_intros]:
  "(\<And>e. x = Inl e \<Longrightarrow> returns (m e)) \<Longrightarrow> (\<And>a. x = Inr a \<Longrightarrow> returns (f a)) \<Longrightarrow>
   returns (case x of Inl e \<Rightarrow> m e | Inr a \<Rightarrow> f a)"
  by (cases x) auto

lemma returns_read_extents: "(\<And>off n. returns (rd off n)) \<Longrightarrow> returns (read_extents rd es buf)"
  by (induction es arbitrary: buf) (auto intro!: returns_intros)

lemma returns_read_inode: "(\<And>off n. returns (rd off n)) \<Longrightarrow> returns (read_inode rd g ino)"
  unfolding read_inode_def by (intro returns_intros) auto

text \<open>The walk returns and has only added to the set of inodes seen.\<close>

definition grows :: "('s, ext_walk_result) io \<Rightarrow> u32 set \<Rightarrow> bool" where
  "grows m seen \<longleftrightarrow> (\<forall>s. wpx True False m (\<lambda>(ok, out, seen') _. seen \<subseteq> seen') s)"

lemma grows_ret: "seen \<subseteq> seen' \<Longrightarrow> grows (ioret (ok, out, seen')) seen"
  and grows_fail: "seen \<subseteq> seen' \<Longrightarrow> grows (ext_fail e out seen') seen"
  and grows_trap: "grows iotrap seen"
  by (simp_all add: grows_def ext_fail_def)

lemma grows_bind: "returns m \<Longrightarrow> (\<And>a. grows (f a) seen) \<Longrightarrow> grows (iob m f) seen"
  unfolding returns_wpx grows_def wpx_bind by (blast intro: wpx_weaken)

lemma grows_if: "(b \<Longrightarrow> grows m seen) \<Longrightarrow> (\<not> b \<Longrightarrow> grows m' seen) \<Longrightarrow> grows (if b then m else m') seen"
  by simp

lemma grows_let: "(\<And>x. x = a \<Longrightarrow> grows (f x) seen) \<Longrightarrow> grows (let x = a in f x) seen"
  by simp

lemma grows_sum:
  "(\<And>e. x = Inl e \<Longrightarrow> grows (m e) seen) \<Longrightarrow> (\<And>a. x = Inr a \<Longrightarrow> grows (f a) seen) \<Longrightarrow>
   grows (case x of Inl e \<Rightarrow> m e | Inr a \<Rightarrow> f a) seen"
  by (cases x) auto

lemma grows_mono: "grows m seen' \<Longrightarrow> seen \<subseteq> seen' \<Longrightarrow> grows m seen"
  unfolding grows_def by (fastforce intro: wpx_weaken)

lemma grows_then:
  assumes "grows m seen" and "\<And>out sn. seen \<subseteq> sn \<Longrightarrow> grows (f out sn) sn"
  shows "grows (iob m (\<lambda>(ok, out, sn). if ok then f out sn else ioret (False, out, sn))) seen"
  unfolding grows_def wpx_bind
proof
  fix s
  have "wpx True False m (\<lambda>(ok, out, sn) _. seen \<subseteq> sn) s" using assms(1) by (simp add: grows_def)
  then show "wpx True False m (\<lambda>a. wpx True False
      (case a of (ok, out, sn) \<Rightarrow> if ok then f out sn else ioret (False, out, sn))
      (\<lambda>(ok, out, seen') _. seen \<subseteq> seen')) s"
  proof (rule wpx_weaken, goal_cases)
    case (3 r s')
    obtain ok out sn where r: "r = (ok, out, sn)" by (cases r)
    have "grows (f out sn) seen" using assms(2) 3 r by (auto intro: grows_mono)
    then show ?case using 3 r by (cases ok) (auto simp: grows_def)
  qed auto
qed

lemma grows_entries:
  assumes "\<And>ino path out seen'. seen \<subseteq> seen' \<Longrightarrow> grows (rec ino path out seen') seen'"
  shows "seen \<subseteq> seen' \<Longrightarrow> grows (ext_entries rec pfx buf pos out seen') seen'"
proof (induction "length buf - pos" arbitrary: pos out seen' rule: less_induct)
  case less
  show ?case
  proof (cases "length buf < pos + 8 \<or> unat (v16 buf (pos + 4)) < 8")
    case True
    then show ?thesis by (subst ext_entries.simps) (auto simp: Let_def grows_ret)
  next
    case False
    have dec: "length buf - (pos + unat (v16 buf (pos + 4))) < length buf - pos"
      using False by (intro diff_less_mono2) auto
    have IH: "grows (ext_entries rec pfx buf (pos + unat (v16 buf (pos + 4))) out sn) sn"
      if "seen' \<subseteq> sn" for out sn
      using less.hyps [OF dec] less.prems that by blast
    show ?thesis
      by (subst ext_entries.simps, unfold Let_def)
        (intro grows_if grows_ret grows_trap grows_then IH assms less.prems subset_refl)
  qed
qed

lemma grows_walk:
  assumes rd: "\<And>off n. returns (rd off n)"
    and exts: "\<And>inode. returns (inode_data_extents depth rd g inode)"
  shows "unseen seen < fuel \<Longrightarrow> grows (ext_walk_dir fuel depth rd g ino pfx out seen) seen"
proof (induction fuel arbitrary: ino pfx out seen)
  case (Suc fuel)
  show ?case
  proof (cases "ino \<in> seen")
    case False
    let ?seen = "insert ino seen"
    have less: "unseen ?seen < fuel" using unseen_insert [OF False] Suc.prems by simp
    have rec: "grows (ext_walk_dir fuel depth rd g child path out seen') seen'"
      if "?seen \<subseteq> seen'" for child path out seen'
    proof -
      have "unseen seen' \<le> unseen ?seen"
        unfolding unseen_def using that by (intro card_mono) auto
      then show ?thesis using Suc.IH less by simp
    qed
    have ent: "grows (ext_entries (\<lambda>child path out seen. ext_walk_dir fuel depth rd g child path out seen)
        pfx buf 0 out ?seen) seen" for buf out
      by (rule grows_mono [OF grows_entries [where seen = ?seen, OF rec subset_refl]]) auto
    have sub: "seen \<subseteq> ?seen" by blast
    show ?thesis
      unfolding ext_walk_dir.simps if_not_P [OF False]
      by (intro grows_let grows_bind grows_sum grows_if grows_ret grows_fail returns_read_inode returns_lift
          returns_read_extents rd exts) (auto simp: sub ent)
  qed (simp add: grows_def wpx_def)
qed simp

section \<open>Properties of the ext scanner\<close>


definition tiny_ext :: ext_geom where
  "tiny_ext = \<lparr>eg_base = 0, eg_block_size = 1024, eg_inodes_per_group = 16, eg_blocks_per_group = 64,
     eg_inode_size = 128, eg_first_data_block = 1, eg_groups = 1, eg_inodes_count = 16,
     eg_extents = True, eg_gd = replicate 32 0, eg_gd_entry_size = 32\<rparr>"

definition tiny_leaf :: bytes where
  "tiny_leaf = [0x0A, 0xF3, 1, 0, 4, 0, 0, 0, 0, 0, 0, 0,  0, 0, 0, 0, 2, 0, 0, 0, 9, 0, 0, 0]"


text \<open>Directory loops cannot hang the ext scanner: an inode is walked at most once, so a walk
  with more than \<open>2 ^ 32\<close> units of fuel never runs out of it, whatever the directories contain, as
  long as reads come back and no extent tree is deeper than \<open>depth\<close>.\<close>

theorem ext_walk_returns:
  assumes "\<And>off n s. rd off n s \<noteq> Stuck"
    and "\<And>inode s. inode_data_extents depth rd g inode s \<noteq> Stuck" and "2 ^ 32 < fuel"
  shows "ext_walk_dir fuel depth rd g ino pfx out {} s \<noteq> Stuck"
proof -
  have "unseen {} < fuel" using assms(3) by (simp add: unseen_def card_word)
  then have "grows (ext_walk_dir fuel depth rd g ino pfx out {}) {}"
    by (intro grows_walk) (simp_all add: returns_def assms)
  then show ?thesis by (auto simp: grows_def wpx_def split: outcome.splits)
qed

lemma leaf_entries_not_Stuck: "leaf_entries g buf n p left exts \<noteq> Stuck"
  by (induction n arbitrary: p left exts) (auto simp: obind_eq_Stuck Let_def)

lemma ext_walk_returns_witness:
  "ext_walk_dir 5000000000 1 (\<lambda>off n s. Ret (Inl ''io'', s)) tiny_ext 2 [] (scan_init Ext4) {} () \<noteq> Stuck"
proof (rule ext_walk_returns)
  fix inode :: bytes and s :: unit
  let ?rd = "\<lambda>off n (s :: unit). Ret (Inl ''io'', s)"
  have index: "returns (index_entries rec ?rd tiny_ext buf fsize n p left exts)"
    for rec :: "bytes \<Rightarrow> u64 \<Rightarrow> (unit, string + fs_extent list) io" and buf fsize n p left exts
    by (cases n) (auto simp: returns_def iob_def read_block_def iolift_def obind_eq_Stuck)
  have "returns (inode_data_extents 1 ?rd tiny_ext inode)"
    unfolding inode_data_extents_def One_nat_def parse_extents_full.simps
    by (intro returns_intros index) (simp_all add: leaf_entries_not_Stuck tiny_ext_def)
  then show "inode_data_extents 1 ?rd tiny_ext inode s \<noteq> Stuck"
    by (simp add: returns_def)
qed simp_all

text \<open>On a file system with extents, an inode whose data do not start with an extent header
  stops the scan with an error.  Every symbolic link that is stored in its inode is one, and so are
  devices and sockets: the data of an inode are decoded before its kind is looked at, and as an
  extent tree whether the inode says that it has one or not.\<close>

theorem ext_symlink_aborts:
  assumes "read_inode rd g ino s = Ret (Inr inode, s')" and "ino \<notin> seen" and "eg_extents g"
    and "128 \<le> length inode" and "v16 inode 40 \<noteq> 0xF30A"
  shows "ext_walk_dir (Suc fuel) (Suc depth) rd g ino pfx out seen s =
    Ret ((False, out\<lparr>fs_error := ''inode extents failed''\<rparr>, insert ino seen), s')"
proof -
  have "\<exists>fsize. inode_fsize g inode = Ret fsize"
    using assms(4) by (cases "128 + 4 \<le> eg_inode_size g") (simp_all add: inode_fsize_def)
  then obtain fsize where sz: "inode_fsize g inode = Ret fsize" by blast
  have "inode_data_extents (Suc depth) rd g inode s' = Ret (Inl [], s')"
    using assms sz by (simp add: inode_data_extents_def inode_mode_def iob_def)
  then show ?thesis
    using assms sz by (simp add: inode_mode_def iob_def Let_def ext_fail_def)
qed

lemma ext_symlink_aborts_witness:
  "ext_walk_dir 1 1 (\<lambda>off n s. Ret (Inr (0xFF # 0xA1 # replicate 126 65), s)) tiny_ext 12 ''/link'' (scan_init Ext4) {2} () =
   Ret ((False, (scan_init Ext4)\<lparr>fs_error := ''inode extents failed''\<rparr>, {12, 2}), ())"
  using ext_symlink_aborts [of "\<lambda>off n s. Ret (Inr (0xFF # 0xA1 # replicate 126 65), s)" tiny_ext 12 "()"
      "0xFF # 0xA1 # replicate 126 65" "()" "{2}" 0 0]
  by (simp add: read_inode_def tiny_ext_def inode_block_group_def udiv_def bg_inode_table_def iob_def
      v16_def le16_def v32_def)

end
