(* ===== verification/Detect.thy ===== *)
theory Detect
  imports Exfat Ntfs Ext
begin

text \<open>
  Detection and dispatch (\<open>src/fs/detect.cpp\<close>): which file system a region holds, by its first 4096
  bytes, and the scanner that is called for it.
\<close>

section \<open>Definitions\<close>

fun fs_type_name :: "fs_type \<Rightarrow> string" where
  "fs_type_name Fat12 = ''fat12''"
| "fs_type_name Fat16 = ''fat16''"
| "fs_type_name Fat32 = ''fat32''"
| "fs_type_name ExFat = ''exfat''"
| "fs_type_name Ntfs = ''ntfs''"
| "fs_type_name Ext2 = ''ext2''"
| "fs_type_name Ext3 = ''ext3''"
| "fs_type_name Ext4 = ''ext4''"
| "fs_type_name FsUnknown = ''unknown''"

text \<open>The kind of an ext file system, from the feature words of its superblock at \<open>sb\<close>.\<close>

definition detect_ext :: "bytes \<Rightarrow> nat \<Rightarrow> fs_type" where
  "detect_ext buf sb =
     (if v32 buf (sb + 96) AND 0x0040 \<noteq> 0 then Ext4
      else if v32 buf (sb + 92) AND 0x0004 \<noteq> 0 then Ext3
      else Ext2)"

text \<open>The kind of a FAT file system by its number of clusters, for a boot sector that does not name
  it; \<open>None\<close> where the code goes on.\<close>

definition detect_fat_clusters :: "bytes \<Rightarrow> fs_type option" where
  "detect_fat_clusters buf =
     (let bps = v16 buf 11; spc = buf ! 13; reserved = v16 buf 14; fats = buf ! 16;
          root_ents = v16 buf 17; tot16 = v16 buf 19; fatsz16 = v16 buf 22;
          tot32 = v32 buf 32; fatsz32 = v32 buf 36;
          totsec = (if tot16 \<noteq> 0 then ucast tot16 else tot32);
          fatsz = (if fatsz16 \<noteq> 0 then ucast fatsz16 else fatsz32) in
      if bps \<noteq> 0 \<and> spc \<noteq> 0 \<and> fats \<noteq> 0 then
        let root_secs = (of_nat ((unat root_ents * 32 + (unat bps - 1)) div unat bps) :: u32);
            data_secs = totsec - (ucast reserved + ucast fats * fatsz + root_secs);
            clusters = data_secs div ucast spc in
        Some (if clusters < 4085 then Fat12 else if clusters < 65525 then Fat16 else Fat32)
      else None)"

definition detect_buffer :: "u64 \<Rightarrow> bytes \<Rightarrow> fs_type option" where
  "detect_buffer base buf =
     (if base + 1024 + 2 \<le> base + 4096 \<and> v16 buf (1024 + 56) = 0xEF53
      then Some (detect_ext buf 1024)
      else if has_prefix_at buf 3 ''NTFS    '' then Some Ntfs
      else if has_prefix_at buf 3 ''EXFAT   '' then Some ExFat
      else if buf ! 510 = 0x55 \<and> buf ! 511 = 0xAA then
        if has_prefix_at buf 82 ''FAT32   '' then Some Fat32
        else if has_prefix_at buf 54 ''FAT16   '' then Some Fat16
        else if has_prefix_at buf 54 ''FAT12   '' then Some Fat12
        else detect_fat_clusters buf
      else None)"

text \<open>The result and the message for an unknown one.\<close>

definition detect_fs :: "'s rd_fun \<Rightarrow> u64 \<Rightarrow> ('s, fs_type \<times> string) io" where
  "detect_fs rd base =
     iob (rd base 4096) (\<lambda>r.
     case r of
       Inl err \<Rightarrow> ioret (FsUnknown, err)
     | Inr buf \<Rightarrow>
         ioret (case detect_buffer base buf of
                  None \<Rightarrow> (FsUnknown, ''unrecognized filesystem'')
                | Some ty \<Rightarrow> (ty, [])))"

fun scan_filesystem ::
  "nat \<Rightarrow> nat \<Rightarrow> 's rd_fun \<Rightarrow> u64 \<Rightarrow> fs_type \<Rightarrow> ('s, walk_result) io" where
  "scan_filesystem fuel depth rd base Fat12 = scan_fat fuel rd base Fat12 (scan_init Fat12)"
| "scan_filesystem fuel depth rd base Fat16 = scan_fat fuel rd base Fat16 (scan_init Fat16)"
| "scan_filesystem fuel depth rd base Fat32 = scan_fat fuel rd base Fat32 (scan_init Fat32)"
| "scan_filesystem fuel depth rd base ExFat = scan_exfat fuel rd base (scan_init ExFat)"
| "scan_filesystem fuel depth rd base Ntfs = scan_ntfs fuel rd base (scan_init Ntfs)"
| "scan_filesystem fuel depth rd base Ext2 = scan_ext fuel depth rd base (scan_init Ext2)"
| "scan_filesystem fuel depth rd base Ext3 = scan_ext fuel depth rd base (scan_init Ext3)"
| "scan_filesystem fuel depth rd base Ext4 = scan_ext fuel depth rd base (scan_init Ext4)"
| "scan_filesystem fuel depth rd base FsUnknown = scan_fail ''unsupported filesystem'' (scan_init FsUnknown)"

section \<open>Detection and scan fit together\<close>

lemma has_prefix_at_take:
  "has_prefix_at (take n bs) i s \<longleftrightarrow> has_prefix_at bs i s" if "i + length s \<le> n"
  using that by (simp add: has_prefix_at_def take_drop min_absorb1 ac_simps)

lemma v16_drop_take: "i + 1 < n \<Longrightarrow> m + n \<le> length bs \<Longrightarrow> v16 (take n (drop m bs)) i = v16 bs (m + i)"
  by (simp add: v16_def)

definition fat_types :: "fs_type set" where
  "fat_types = {Fat12, Fat16, Fat32}"

definition ext_types :: "fs_type set" where
  "ext_types = {Ext2, Ext3, Ext4}"

lemma detect_buffer_cases:
  assumes "detect_buffer base buf = Some ty"
  shows "ty \<in> ext_types \<and> v16 buf (1024 + 56) = 0xEF53 \<or>
    ty = Ntfs \<and> has_prefix_at buf 3 ''NTFS    '' \<or>
    ty = ExFat \<and> has_prefix_at buf 3 ''EXFAT   '' \<or>
    ty \<in> fat_types \<and> buf ! 510 = 0x55 \<and> buf ! 511 = 0xAA"
proof -
  have fat: "detect_fat_clusters buf = Some ty \<Longrightarrow> ty \<in> fat_types" for ty
    by (auto simp: detect_fat_clusters_def Let_def fat_types_def split: if_splits)
  have ext: "detect_ext buf 1024 \<in> ext_types"
    by (simp add: detect_ext_def ext_types_def)
  have named: "Fat32 \<in> fat_types" "Fat16 \<in> fat_types" "Fat12 \<in> fat_types"
    by (simp_all add: fat_types_def)
  show ?thesis
    using assms ext named unfolding detect_buffer_def
    by (simp only: split: if_split_asm) (use fat in blast)+
qed

text \<open>Detection and scan agree on any content that can be read: a file system is found exactly
  when a type other than unknown is returned, unknown content comes with a message, and the scanner
  that the dispatch then calls does not reject the content by its signature: the superblock magic,
  or the name at byte 3, is the one that the scanner looks for.\<close>

theorem detect_matches_scan:
  assumes "rd base 4096 s = Ret (Inr buf, s')" and "length buf = 4096"
  shows "\<exists>ty msg. detect_fs rd base s = Ret ((ty, msg), s') \<and>
    (ty = FsUnknown \<longleftrightarrow> detect_buffer base buf = None) \<and> (ty = FsUnknown \<longrightarrow> msg = ''unrecognized filesystem'') \<and>
    (ty \<in> ext_types \<longrightarrow> v16 (take 1024 (drop 1024 buf)) 56 = 0xEF53) \<and>
    (ty = Ntfs \<longrightarrow> has_prefix_at (take 512 buf) 3 ''NTFS    '') \<and>
    (ty = ExFat \<longrightarrow> has_prefix_at (take 512 buf) 3 ''EXFAT   '') \<and>
    (ty \<in> fat_types \<longrightarrow> v16 (take 512 buf) 510 = 0xAA55)"
proof -
  have sg: "v16 (take 512 buf) 510 = 0xAA55" if "buf ! 510 = 0x55" "buf ! 511 = 0xAA"
    using that by (simp add: v16_def le16_def)
  have mg: "v16 (take 1024 (drop 1024 buf)) 56 = v16 buf (1024 + 56)"
    using assms(2) by (simp add: v16_drop_take)
  have px: "has_prefix_at (take 512 buf) 3 ''NTFS    '' = has_prefix_at buf 3 ''NTFS    ''"
    "has_prefix_at (take 512 buf) 3 ''EXFAT   '' = has_prefix_at buf 3 ''EXFAT   ''"
    by (rule has_prefix_at_take; simp)+
  show ?thesis
  proof (cases "detect_buffer base buf")
    case None
    then show ?thesis using assms(1) by (simp add: detect_fs_def iob_def ext_types_def fat_types_def)
  next
    case (Some ty)
    have disj: "ty \<noteq> FsUnknown"
      "ty \<in> ext_types \<Longrightarrow> ty \<noteq> Ntfs \<and> ty \<noteq> ExFat \<and> ty \<notin> fat_types"
      "ty \<in> fat_types \<Longrightarrow> ty \<noteq> Ntfs \<and> ty \<noteq> ExFat \<and> ty \<notin> ext_types"
      "Ntfs \<notin> fat_types \<union> ext_types" "ExFat \<notin> fat_types \<union> ext_types"
      using detect_buffer_cases [OF Some] by (auto simp: ext_types_def fat_types_def)
    have "detect_fs rd base s = Ret ((ty, []), s')"
      using assms(1) Some by (simp add: detect_fs_def iob_def)
    then show ?thesis
      using disj detect_buffer_cases [OF Some] Some sg unfolding mg px by auto
  qed
qed

lemma detect_matches_scan_witness:
  "\<exists>msg. detect_fs (\<lambda>off n s. Ret (Inr (replicate n 0), s)) 0 () = Ret ((FsUnknown, msg), ())"
proof -
  have "detect_buffer 0 (replicate 4096 0) = None"
    by (simp add: detect_buffer_def has_prefix_at_def ascii_def v16_def le16_def)
  then show ?thesis
    using detect_matches_scan [of "\<lambda>off n s. Ret (Inr (replicate n 0), s)" 0 "()" "replicate 4096 0" "()"]
    by simp
qed

end
