(* ===== verification/Automount.thy ===== *)
theory Automount
  imports Host Sha1Pass Detect
begin

text \<open>
  Mounting and unmounting the target (\<open>src/mount/automount.cpp\<close>).

  Where the code takes a pointer for an error text, the routine takes the text behind it and returns
  the text after; a null pointer is a text that is dropped.  \<open>std::sort\<close> with the comparison by the
  length of the mount point is \<open>sort_key\<close>: mounts with mount points of one length keep their order,
  as they do in the library's insertion sort for up to 16 mounts.
\<close>

section \<open>Which mounts are of a device\<close>

definition same_device_file :: "'w host \<Rightarrow> string \<Rightarrow> string \<Rightarrow> ('w, 'z, bool) host_io" where
  "same_device_file hs a b =
     iob (sysc (hs_stat hs a)) (\<lambda>sa.
     case sa of
       None \<Rightarrow> ioret False
     | Some sa \<Rightarrow>
         iob (sysc (hs_stat hs b)) (\<lambda>sb.
         ioret (case sb of None \<Rightarrow> False | Some sb \<Rightarrow> nd_rdev sa = nd_rdev sb \<and> nd_rdev sa \<noteq> 0)))"

text \<open>A partition is taken to be named after its disk: the name goes on with a digit or a \<open>p\<close>.\<close>

definition names_part :: "string \<Rightarrow> string \<Rightarrow> bool" where
  "names_part w m \<longleftrightarrow> length w < length m \<and> starts_with w m \<and>
     (m ! length w = CHR ''p'' \<or> is_digit (m ! length w))"

definition is_related_device :: "'w host \<Rightarrow> string \<Rightarrow> string \<Rightarrow> ('w, 'z, bool) host_io" where
  "is_related_device hs wanted mounted_dev =
     iob (real_or_self hs wanted) (\<lambda>w.
     iob (real_or_self hs mounted_dev) (\<lambda>m.
     if w = m then ioret True
     else
       iob (same_device_file hs w m) (\<lambda>same.
       ioret (same \<or> names_part w m))))"

text \<open>The loop devices in the output of \<open>losetup -j\<close>.\<close>

definition loop_of_line :: "string \<Rightarrow> string list" where
  "loop_of_line l =
     (if CHR '':'' \<in> set l \<and> starts_with ''/dev/'' l then [takeWhile (\<lambda>c. c \<noteq> CHR '':'') l] else [])"

definition loops_of :: "string \<Rightarrow> string list" where
  "loops_of text = concat (map loop_of_line (getlines CHR 0x0A text))"

definition mount_of_line :: "string \<Rightarrow> mount_record option" where
  "mount_of_line l =
     (case tokens l of
        dev # mnt # ty # opts # _ \<Rightarrow> Some \<lparr>mr_device = dev, mr_target = mnt, mr_fstype = ty, mr_options = opts,
          mr_loop_from_image = [], mr_fuse_mount = False\<rparr>
      | _ \<Rightarrow> None)"

fun find_loop :: "'w host \<Rightarrow> string \<Rightarrow> string list \<Rightarrow> ('w, 'z, bool) host_io" where
  "find_loop hs dev [] = ioret False"
| "find_loop hs dev (lp # lps) =
     (if dev = lp then ioret True
      else iob (is_related_device hs lp dev) (\<lambda>r. if r then ioret True else find_loop hs dev lps))"

fun match_mounts ::
  "'w host \<Rightarrow> string \<Rightarrow> string \<Rightarrow> string list \<Rightarrow> mount_record list \<Rightarrow> ('w, 'z, mount_record list) host_io" where
  "match_mounts hs path want also [] = ioret []"
| "match_mounts hs path want also (r # rs) =
     iob (is_related_device hs path (mr_device r)) (\<lambda>rel.
     iob (if rel \<or> mr_device r = want then ioret [r]
          else iob (find_loop hs (mr_device r) also) (\<lambda>lp.
            ioret (if lp then [r\<lparr>mr_loop_from_image := want\<rparr>] else []))) (\<lambda>hit.
     iob (match_mounts hs path want also rs) (\<lambda>rest. ioret (hit @ rest))))"

definition losetup_of :: "'w host \<Rightarrow> string \<Rightarrow> ('w, 'z, string list) host_io" where
  "losetup_of hs want =
     iob (run_capture hs (''losetup -j '' @ shell_quote want @ '' 2>/dev/null'')) (\<lambda>text. ioret (loops_of text))"

definition find_mounts_for_device :: "'w host \<Rightarrow> string \<Rightarrow> ('w, 'z, mount_record list) host_io" where
  "find_mounts_for_device hs path =
     iob (real_or_self hs path) (\<lambda>want.
     iob (path_is_regular_file hs path) (\<lambda>reg.
     iob (if reg then losetup_of hs want else ioret []) (\<lambda>also.
     iob (sysc (hs_proc_mounts hs)) (\<lambda>text.
     match_mounts hs path want also (List.map_filter mount_of_line (getlines CHR 0x0A text))))))"

definition path_is_mounted :: "'w host \<Rightarrow> string \<Rightarrow> ('w, 'z, bool) host_io" where
  "path_is_mounted hs path = iob (find_mounts_for_device hs path) (\<lambda>ms. ioret (ms \<noteq> []))"

section \<open>Unmounting\<close>

text \<open>The first of some attempts that succeeds.\<close>

fun first_ok :: "('w, 'z, bool) host_io list \<Rightarrow> ('w, 'z, bool) host_io" where
  "first_ok [] = ioret False"
| "first_ok (m # ms) = iob m (\<lambda>ok. if ok then ioret True else first_ok ms)"

definition shell_ok :: "'w host \<Rightarrow> string \<Rightarrow> ('w, 'z, bool) host_io" where
  "shell_ok hs cmd = iob (run_shell hs cmd) (\<lambda>rc. ioret (rc = 0))"

definition sudo_ok :: "'w host \<Rightarrow> string \<Rightarrow> ('w, 'z, bool) host_io" where
  "sudo_ok hs cmd =
     iob (sysc (hs_gui hs)) (\<lambda>gui. if gui then ioret False else shell_ok hs (''sudo '' @ cmd))"

definition umount_cmd :: "string \<Rightarrow> string" where
  "umount_cmd target = ''umount '' @ shell_quote target"

definition try_privileged_umount :: "'w host \<Rightarrow> string \<Rightarrow> string \<Rightarrow> ('w, 'z, bool \<times> string) host_io" where
  "try_privileged_umount hs target err =
     (let cmd = umount_cmd target in
      iob (first_ok [sysc (hs_umount hs target False), sysc (hs_umount hs target True),
             shell_ok hs cmd, shell_ok hs (''pkexec '' @ cmd), sudo_ok hs cmd]) (\<lambda>ok.
      ioret (if ok then (True, err) else (False, ''umount failed: '' @ target))))"

definition udisks_cmd :: "string \<Rightarrow> string \<Rightarrow> string" where
  "udisks_cmd verb dev =
     ''udisksctl '' @ verb @ '' -b '' @ shell_quote dev @ '' --no-user-interaction >/dev/null 2>&1''"

definition umount_quietly :: "'w host \<Rightarrow> string \<Rightarrow> ('w, 'z, bool) host_io" where
  "umount_quietly hs target =
     first_ok [shell_ok hs (''fusermount -u '' @ shell_quote target @ '' 2>/dev/null''),
       shell_ok hs (''fusermount3 -u '' @ shell_quote target @ '' 2>/dev/null''),
       sysc (hs_umount hs target False), sysc (hs_umount hs target True),
       shell_ok hs (''umount '' @ shell_quote target @ '' 2>/dev/null'')]"

text \<open>A mount that is not to ask for a password is unmounted without privileges or not at all.\<close>

definition unmount_one :: "'w host \<Rightarrow> mount_record \<Rightarrow> string \<Rightarrow> ('w, 'z, bool \<times> string) host_io" where
  "unmount_one hs m err =
     iob (if mr_fuse_mount m then ioret True
          else iob (no_auth_target hs (mr_device m)) (\<lambda>q.
            if q then ioret True
            else if mr_loop_from_image m \<noteq> [] then no_auth_target hs (mr_loop_from_image m)
            else ioret False)) (\<lambda>quiet.
     if quiet then
       iob (umount_quietly hs (mr_target m)) (\<lambda>ok.
       ioret (if ok then (True, err) else (False, ''umount failed without privileges: '' @ mr_target m)))
     else
       iob (if mr_loop_from_image m \<noteq> [] then which_ok hs ''udisksctl'' else ioret False) (\<lambda>lp.
       if lp then
         iob (run_shell hs (udisks_cmd ''unmount'' (mr_device m))) (\<lambda>_.
         iob (run_shell hs (udisks_cmd ''loop-delete'' (mr_device m))) (\<lambda>_.
         ioret (True, err)))
       else
         iob (which_ok hs ''udisksctl'') (\<lambda>have.
         iob (if have then path_is_block hs (mr_device m) else ioret False) (\<lambda>blk.
         iob (if blk then shell_ok hs (udisks_cmd ''unmount'' (mr_device m)) else ioret False) (\<lambda>ok.
         if ok then ioret (True, err) else try_privileged_umount hs (mr_target m) err)))))"

fun unmount_all :: "'w host \<Rightarrow> mount_record list \<Rightarrow> string \<Rightarrow> ('w, 'z, bool \<times> string) host_io" where
  "unmount_all hs [] err = ioret (True, err)"
| "unmount_all hs (m # ms) err =
     iob (unmount_one hs m err) (\<lambda>(ok, err). if \<not> ok then ioret (False, err) else unmount_all hs ms err)"

definition deepest_first :: "mount_record list \<Rightarrow> mount_record list" where
  "deepest_first ms = sort_key (\<lambda>m. - int (length (mr_target m))) ms"

definition unmount_device :: "'w host \<Rightarrow> string \<Rightarrow> string \<Rightarrow> ('w, 'z, bool \<times> string) host_io" where
  "unmount_device hs path err =
     iob (find_mounts_for_device hs path) (\<lambda>ms. unmount_all hs (deepest_first ms) err)"

text \<open>The mounts that were there come first in the result.\<close>

definition ensure_unmounted ::
  "'w host \<Rightarrow> string \<Rightarrow> string \<Rightarrow> ('w, 'z, bool \<times> mount_record list \<times> string) host_io" where
  "ensure_unmounted hs path err =
     iob (find_mounts_for_device hs path) (\<lambda>ms.
     if ms = [] then ioret (True, ms, err)
     else iob (unmount_device hs path err) (\<lambda>(ok, err). ioret (ok, ms, err)))"

section \<open>Mounting\<close>

definition record_of_mount :: "string \<Rightarrow> string \<Rightarrow> string \<Rightarrow> string \<Rightarrow> bool \<Rightarrow> mount_record" where
  "record_of_mount dev target ty opts fuse =
     \<lparr>mr_device = dev, mr_target = target, mr_fstype = ty, mr_options = opts, mr_loop_from_image = [],
      mr_fuse_mount = fuse\<rparr>"

definition or_ro :: "string \<Rightarrow> string" where
  "or_ro opts = (if opts = [] then ''ro'' else opts)"

text \<open>\<open>Mounted /dev/... at /run/media/...\<close>\<close>

definition parse_mount_point :: "string \<Rightarrow> string" where
  "parse_mount_point text =
     (case after_sub '' at '' text of
        None \<Rightarrow> []
      | Some rest \<Rightarrow> takeWhile (\<lambda>c. c \<noteq> CHR 0x0A \<and> c \<noteq> CHR ''.'' \<and> c \<noteq> CHR '' '') rest)"

definition try_udisks_mount_block ::
  "'w host \<Rightarrow> string \<Rightarrow> string \<Rightarrow> string \<Rightarrow> ('w, 'z, mount_record option \<times> string) host_io" where
  "try_udisks_mount_block hs block opts err =
     iob (which_ok hs ''udisksctl'') (\<lambda>have.
     if \<not> have then ioret (None, err)
     else
       iob (run_capture hs (''udisksctl mount -b '' @ shell_quote block @ '' -o '' @ shell_quote (or_ro opts) @
         '' --no-user-interaction 2>&1'')) (\<lambda>text.
       if parse_mount_point text = [] then
         iob (find_mounts_for_device hs block) (\<lambda>ms.
         case ms of
           m # _ \<Rightarrow> ioret (Some m, err)
         | [] \<Rightarrow> ioret (None, ''udisksctl mount failed: '' @ text))
       else ioret (Some (record_of_mount block (parse_mount_point text) ''auto'' (or_ro opts) False), err)))"

section \<open>Mounting with a FUSE helper\<close>

definition fuse_candidates :: "(string \<times> string) list" where
  "fuse_candidates =
     [(''fuse2fs'', ''ext''), (''fuse2fs'', ''auto''), (''ntfs-3g'', ''ntfs''), (''ntfs-3g'', ''auto''),
      (''fuse.exfat'', ''exfat''), (''fuse.exfat'', ''auto''), (''exfat-fuse'', ''exfat''), (''exfat-fuse'', ''auto''),
      (''fusefat'', ''vfat''), (''fusefat'', ''fat''), (''fusefat'', ''auto'')]"

definition fuse_options :: "string \<Rightarrow> string \<Rightarrow> u64 \<Rightarrow> string" where
  "fuse_options opts ty off =
     (let opt = or_ro opts;
          opt = (if 0 < off then opt @ '',offset='' @ show_u64 off else opt) in
      if \<not> contains ''fakeroot'' opt \<and> (contains ''ext'' ty \<or> ty = ''auto'') then opt @ '',fakeroot'' else opt)"

text \<open>\<open>fuse2fs\<close> can exit with 0 although nothing was mounted: the table of mounts decides.\<close>

definition mounted_here :: "'w host \<Rightarrow> string \<Rightarrow> ('w, 'z, bool) host_io" where
  "mounted_here hs target =
     iob (real_or_self hs target) (\<lambda>want.
     iob (sysc (hs_proc_mounts hs)) (\<lambda>text.
     if \<exists>l \<in> set (getlines CHR 0x0A text).
          (case tokens l of dev # mnt # _ \<Rightarrow> mnt = target \<or> mnt = want | _ \<Rightarrow> False)
     then ioret True
     else shell_ok hs (''mountpoint -q '' @ shell_quote target @ '' 2>/dev/null'')))"

definition one_line :: "string \<Rightarrow> string" where
  "one_line diag =
     map (\<lambda>c. if c = CHR 0x0A then CHR '' '' else c)
       (rev (dropWhile (\<lambda>c. c = CHR 0x0A \<or> c = CHR 0x0D) (rev diag)))"

definition helper_cmd :: "string \<Rightarrow> string \<Rightarrow> string \<Rightarrow> string \<Rightarrow> string" where
  "helper_cmd bin opt img target =
     bin @ '' -o '' @ shell_quote opt @ '' '' @ shell_quote img @ '' '' @ shell_quote target"

text \<open>The candidates in turn, with the first error and the helpers tried so far.\<close>

fun try_cands ::
  "'w host \<Rightarrow> string \<Rightarrow> string \<Rightarrow> string \<Rightarrow> string \<Rightarrow> (string \<times> string) list \<Rightarrow> string \<Rightarrow> string \<Rightarrow>
   ('w, 'z, mount_record option \<times> string) host_io" where
  "try_cands hs img target ty opt [] last_err tried =
     ioret (None,
       if last_err = [] then ''no FUSE helper could mount '' @ img
       else if ty = ''auto'' \<and> CHR '','' \<in> set tried then last_err @ '' (tried '' @ tried @ '')''
       else last_err)"
| "try_cands hs img target ty opt ((bin, match) # cs) last_err tried =
     (if match \<noteq> [] \<and> ty \<noteq> ''auto'' \<and> \<not> contains match ty
      then try_cands hs img target ty opt cs last_err tried
      else
        iob (which_ok hs bin) (\<lambda>have.
        if \<not> have then try_cands hs img target ty opt cs last_err tried
        else
          iob (run_capture hs (helper_cmd bin opt img target @ '' 2>&1'')) (\<lambda>diag.
          iob (mounted_here hs target) (\<lambda>here.
          if here
          then ioret (Some (record_of_mount img target (if ty = [] then ''fuse'' else ty) opt True), [])
          else
            try_cands hs img target ty opt cs
              (if last_err \<noteq> [] then last_err
               else bin @ '' did not mount '' @ img @ (if one_line diag = [] then [] else '': '' @ one_line diag))
              ((if tried = [] then bin else tried @ '', '' @ bin))))))"

definition looks_perm :: "string \<Rightarrow> bool" where
  "looks_perm e \<longleftrightarrow> contains ''Operation not permitted'' e \<or> contains ''EPERM'' e \<or> contains ''Permission denied'' e"

definition try_fuse_mount_file ::
  "'w host \<Rightarrow> string \<Rightarrow> string \<Rightarrow> string \<Rightarrow> string \<Rightarrow> u64 \<Rightarrow> string \<Rightarrow>
   ('w, 'z, mount_record option \<times> string) host_io" where
  "try_fuse_mount_file hs img target ty opts off err =
     iob (sysc (hs_mkdir hs target)) (\<lambda>_.
     let opt = fuse_options opts ty off in
     iob (try_cands hs img target ty opt fuse_candidates [] []) (\<lambda>(r, first_err).
     case r of
       Some m \<Rightarrow> ioret (Some m, err)
     | None \<Rightarrow>
         iob (sysc (hs_in_ns hs)) (\<lambda>inside.
         if \<not> inside \<and> looks_perm first_err then
           iob (ensure_user_mount_ns hs []) (\<lambda>(ok, ns_err).
           if ok then
             iob (try_cands hs img target ty opt fuse_candidates [] []) (\<lambda>(r, second_err).
             case r of
               Some m \<Rightarrow> ioret (Some m, err)
             | None \<Rightarrow>
                 ioret (None, if second_err = [] then first_err
                              else second_err @ '' [after user mount namespace]''))
           else ioret (None, first_err @ ''; userns retry failed: '' @ ns_err))
         else ioret (None, first_err))))"

section \<open>Mounting with privileges\<close>

definition mount_cmd :: "string \<Rightarrow> string \<Rightarrow> string \<Rightarrow> string \<Rightarrow> string" where
  "mount_cmd device target ty opts =
     ''mount -t '' @ shell_quote ty @ '' -o '' @ shell_quote (if opts = [] then ''defaults'' else opts) @
     '' '' @ shell_quote device @ '' '' @ shell_quote target"

definition try_privileged_mount ::
  "'w host \<Rightarrow> string \<Rightarrow> string \<Rightarrow> string \<Rightarrow> string \<Rightarrow> string \<Rightarrow> ('w, 'z, bool \<times> string) host_io" where
  "try_privileged_mount hs device target ty opts err =
     iob (sysc (hs_mkdir hs target)) (\<lambda>_.
     let cmd = mount_cmd device target ty opts in
     iob (first_ok [shell_ok hs cmd, shell_ok hs (''pkexec '' @ cmd), sudo_ok hs cmd]) (\<lambda>ok.
     if ok then ioret (True, err)
     else
       iob (sysc (hs_gui hs)) (\<lambda>gui.
       ioret (False, ''mount failed for '' @ device @ '' -> '' @ target @
         (if gui then '' (tried mount/pkexec)'' else '' (tried mount/pkexec/sudo)'')))))"

definition mount_device ::
  "'w host \<Rightarrow> string \<Rightarrow> string \<Rightarrow> string \<Rightarrow> string \<Rightarrow> string \<Rightarrow> ('w, 'z, bool \<times> string) host_io" where
  "mount_device hs device target ty opts err =
     iob (no_auth_target hs device) (\<lambda>q.
     if q then
       iob (try_fuse_mount_file hs device target (if ty = [] then ''auto'' else ty) (or_ro opts) 0 []) (\<lambda>(r, e).
       ioret (case r of
           Some _ \<Rightarrow> (True, err)
         | None \<Rightarrow> (False, if e = [] then ''FUSE mount failed for '' @ device else e)))
     else
       iob (path_is_block hs device) (\<lambda>blk.
       iob (if blk then which_ok hs ''udisksctl'' else ioret False) (\<lambda>have.
       iob (if have then try_udisks_mount_block hs device (or_ro opts) err else ioret (None, err)) (\<lambda>(r, err).
       if r \<noteq> None then ioret (True, err)
       else
         iob (sysc (hs_mount hs device target ty (options_has_ro opts))) (\<lambda>ok.
         if ok then ioret (True, err) else try_privileged_mount hs device target ty opts err)))))"

definition read_only :: "mount_record \<Rightarrow> bool" where
  "read_only m = options_has_ro (mr_options m)"

definition ro_or_rw :: "mount_record \<Rightarrow> string" where
  "ro_or_rw m = (if read_only m then ''ro'' else ''rw'')"

text \<open>The records in turn; the caller passes them last first.\<close>

fun remount_loop :: "'w host \<Rightarrow> mount_record list \<Rightarrow> string \<Rightarrow> ('w, 'z, bool \<times> string) host_io" where
  "remount_loop hs [] err = ioret (True, err)"
| "remount_loop hs (m # ms) err =
     iob (sysc (hs_mount hs (mr_device m) (mr_target m) (mr_fstype m) (read_only m))) (\<lambda>ok.
     iob (if ok then ioret (True, err)
          else
            iob (no_auth_target hs (mr_device m)) (\<lambda>q.
            if q then
              iob (try_fuse_mount_file hs (mr_device m) (mr_target m) (mr_fstype m) (ro_or_rw m) 0 err) (\<lambda>(r, err).
              ioret (r \<noteq> None, err))
            else try_privileged_mount hs (mr_device m) (mr_target m) (mr_fstype m) (ro_or_rw m) err)) (\<lambda>(ok, err).
     if \<not> ok then ioret (False, err) else remount_loop hs ms err))"

definition remount_records :: "'w host \<Rightarrow> mount_record list \<Rightarrow> string \<Rightarrow> ('w, 'z, bool \<times> string) host_io" where
  "remount_records hs recs err = remount_loop hs (rev recs) err"

section \<open>Mounting to read\<close>

fun fs_fuse_hint :: "fs_type \<Rightarrow> string" where
  "fs_fuse_hint Ext2 = ''ext''"
| "fs_fuse_hint Ext3 = ''ext''"
| "fs_fuse_hint Ext4 = ''ext''"
| "fs_fuse_hint Fat12 = ''vfat''"
| "fs_fuse_hint Fat16 = ''vfat''"
| "fs_fuse_hint Fat32 = ''vfat''"
| "fs_fuse_hint ExFat = ''exfat''"
| "fs_fuse_hint Ntfs = ''ntfs''"
| "fs_fuse_hint FsUnknown = ''auto''"

text \<open>The active mounts, whether they are temporary, and the error text.\<close>

type_synonym browse_result = "bool \<times> mount_record list \<times> bool \<times> string"

record browse_cand =
  bc_offset :: u64
  bc_hint :: string
  bc_part :: string

definition mnt_template :: string where
  "mnt_template = ''/tmp/reflash-mnt-XXXXXX''"

text \<open>A partition of a whole disk gets the node named after it.\<close>

definition part_node :: "bool \<Rightarrow> string \<Rightarrow> int \<Rightarrow> string" where
  "part_node blk path idx =
     (if blk \<and> starts_with ''/dev/'' path \<and> \<not> (\<exists>c \<in> set (drop 5 path). is_digit c)
      then path @ show_int idx else [])"

fun part_cands ::
  "'w sys \<Rightarrow> 'w host \<Rightarrow> device \<Rightarrow> string \<Rightarrow> partition list \<Rightarrow> ('w, 'z, browse_cand list) host_io" where
  "part_cands os hs d path [] = ioret []"
| "part_cands os hs d path (p # ps) =
     iob (detect_fs (pread_all os d) (pt_start_bytes p)) (\<lambda>(ft, _).
     iob (path_is_block hs path) (\<lambda>blk.
     iob (part_cands os hs d path ps) (\<lambda>rest.
     ioret (\<lparr>bc_offset = pt_start_bytes p, bc_hint = fs_fuse_hint ft,
              bc_part = part_node blk path (pt_index p)\<rparr> # rest))))"

definition browse_cands :: "'w sys \<Rightarrow> 'w host \<Rightarrow> device \<Rightarrow> string \<Rightarrow> ('w, 'z, browse_cand list) host_io" where
  "browse_cands os hs d path =
     iob (detect_fs (pread_all os d) 0) (\<lambda>(ft, _).
     iob (probe_partitions (pread_all os d) (d_sector_size d)) (\<lambda>r.
     iob (part_cands os hs d path (case r of Inl _ \<Rightarrow> [] | Inr pm \<Rightarrow> pm_parts pm)) (\<lambda>parts.
     let whole = (if ft \<noteq> FsUnknown then [\<lparr>bc_offset = 0, bc_hint = fs_fuse_hint ft, bc_part = []\<rparr>] else []);
         cands = whole @ parts in
     ioret (if cands = [] then [\<lparr>bc_offset = 0, bc_hint = ''auto'', bc_part = []\<rparr>] else cands))))"

text \<open>A node is mounted by udisks, when the condition holds and it is there.\<close>

definition browse_udisks ::
  "'w host \<Rightarrow> ('w, 'z, bool) host_io \<Rightarrow> string \<Rightarrow> string \<Rightarrow> ('w, 'z, mount_record option \<times> string) host_io" where
  "browse_udisks hs cond node last_err =
     iob cond (\<lambda>ok.
     iob (if ok then which_ok hs ''udisksctl'' else ioret False) (\<lambda>have.
     if \<not> have then ioret (None, last_err) else try_udisks_mount_block hs node ''ro'' []))"

definition whole_disk :: "'w host \<Rightarrow> string \<Rightarrow> browse_cand \<Rightarrow> ('w, 'z, bool) host_io" where
  "whole_disk hs path c =
     iob (path_is_block hs path) (\<lambda>blk.
     if blk \<and> bc_offset c = 0 then iob (no_auth_target hs path) (\<lambda>q. ioret (\<not> q)) else ioret False)"

fun browse_loop :: "'w host \<Rightarrow> string \<Rightarrow> browse_cand list \<Rightarrow> string \<Rightarrow> string \<Rightarrow> ('w, 'z, browse_result) host_io" where
  "browse_loop hs path [] last_err err =
     ioret (False, [], False, if last_err = [] then ''could not mount '' @ path @ '' for browsing'' else last_err)"
| "browse_loop hs path (c # cs) last_err err =
     iob (browse_udisks hs (if bc_part c \<noteq> [] then path_is_block hs (bc_part c) else ioret False) (bc_part c) last_err)
       (\<lambda>(r, last_err).
     case r of
       Some m \<Rightarrow> ioret (True, [m], True, err)
     | None \<Rightarrow>
         iob (browse_udisks hs (whole_disk hs path c) path last_err) (\<lambda>(r, last_err).
         case r of
           Some m \<Rightarrow> ioret (True, [m], True, err)
         | None \<Rightarrow>
             iob (no_auth_target hs path) (\<lambda>q.
             iob (if q then ioret True else path_is_block hs path) (\<lambda>fuse.
             if \<not> fuse then browse_loop hs path cs last_err err
             else
               iob (sysc (hs_mkdtemp hs mnt_template)) (\<lambda>t.
               case t of
                 None \<Rightarrow> ioret (False, [], False, ''mkdtemp failed'')
               | Some target \<Rightarrow>
                   iob (try_fuse_mount_file hs path target (bc_hint c) ''ro'' (bc_offset c) []) (\<lambda>(r, e).
                   case r of
                     Some m \<Rightarrow> ioret (True, [m], True, err)
                   | None \<Rightarrow>
                       iob (sysc (hs_rmdir hs target)) (\<lambda>_.
                       browse_loop hs path cs e err)))))))"

definition mount_for_browse :: "'w sys \<Rightarrow> 'w host \<Rightarrow> string \<Rightarrow> string \<Rightarrow> ('w, 'z, browse_result) host_io" where
  "mount_for_browse os hs path err =
     (if path = [] then ioret (False, [], False, ''no drive selected'')
      else
        iob (path_is_directory hs path) (\<lambda>dir.
        if dir then ioret (True, [record_of_mount path path ''dir'' ''bind'' False], False, err)
        else
          iob (find_mounts_for_device hs path) (\<lambda>cur.
          if cur \<noteq> [] then ioret (True, cur, False, err)
          else
            iob (dev_open os path device_init) (\<lambda>(ok, d).
            if \<not> ok then ioret (False, [], False, ''cannot open '' @ path)
            else
              iob (browse_cands os hs d path) (\<lambda>cands.
              iob (dev_close os d) (\<lambda>_.
              browse_loop hs path cands [] err))))))"

definition add_ro :: "mount_record \<Rightarrow> mount_record" where
  "add_ro m =
     (if options_has_ro (mr_options m) then m
      else if mr_options m = [] \<or> mr_options m = ''rw'' then m\<lparr>mr_options := ''ro''\<rparr>
      else m\<lparr>mr_options := ''ro,'' @ mr_options m\<rparr>)"

fun try_types :: "'w host \<Rightarrow> string \<Rightarrow> string \<Rightarrow> string list \<Rightarrow> ('w, 'z, bool) host_io" where
  "try_types hs path target [] = ioret False"
| "try_types hs path target (ty # tys) =
     iob (mount_device hs path target ty ''ro'' []) (\<lambda>(ok, _).
     if ok then ioret True else try_types hs path target tys)"

text \<open>A temporary directory for a disk: udisks, or one file system type after the other.  The last
  branch of the routine, for records of mounts, comes after the return for such records and is not
  reached.\<close>

definition mount_temporarily :: "'w host \<Rightarrow> string \<Rightarrow> string \<Rightarrow> ('w, 'z, browse_result) host_io" where
  "mount_temporarily hs path err =
     iob (sysc (hs_mkdtemp hs mnt_template)) (\<lambda>t.
     case t of
       None \<Rightarrow> ioret (False, [], False, ''mkdtemp failed'')
     | Some target \<Rightarrow>
         iob (path_is_block hs path) (\<lambda>blk.
         iob (if blk then iob (no_auth_target hs path) (\<lambda>q. ioret (\<not> q)) else ioret False) (\<lambda>disk.
         iob (if disk then try_udisks_mount_block hs path ''ro'' err else ioret (None, err)) (\<lambda>(r, err).
         case r of
           Some m \<Rightarrow> iob (sysc (hs_rmdir hs target)) (\<lambda>_. ioret (True, [m], True, err))
         | None \<Rightarrow>
             iob (try_types hs path target
               [''auto'', ''vfat'', ''exfat'', ''ntfs3'', ''ntfs'', ''ext4'', ''ext3'', ''ext2'']) (\<lambda>ok.
             if \<not> ok then
               iob (sysc (hs_rmdir hs target)) (\<lambda>_.
               ioret (False, [], False, ''could not mount '' @ path @ '' read-only''))
             else
               iob (find_mounts_for_device hs path) (\<lambda>ms.
               ioret (True, if ms \<noteq> [] then ms else [record_of_mount path target ''auto'' ''ro'' False], True, err)))))))"

definition prepare_sha1_mounts ::
  "'w sys \<Rightarrow> 'w host \<Rightarrow> string \<Rightarrow> mount_record list \<Rightarrow> string \<Rightarrow> ('w, 'z, browse_result) host_io" where
  "prepare_sha1_mounts os hs path original err =
     iob (find_mounts_for_device hs path) (\<lambda>cur.
     if cur \<noteq> [] then ioret (True, cur, False, err)
     else if original \<noteq> [] then
       iob (remount_records hs (map add_ro original) err) (\<lambda>(ok, err).
       if \<not> ok then ioret (False, [], False, err)
       else iob (find_mounts_for_device hs path) (\<lambda>ms. ioret (ms \<noteq> [], ms, False, err)))
     else
       iob (no_auth_target hs path) (\<lambda>q.
       if q then mount_for_browse os hs path err else mount_temporarily hs path err))"

fun unmount_each :: "'w host \<Rightarrow> bool \<Rightarrow> mount_record list \<Rightarrow> ('w, 'z, unit) host_io" where
  "unmount_each hs temp [] = ioret ()"
| "unmount_each hs temp (m # ms) =
     iob (unmount_one hs m []) (\<lambda>_.
     iob (if temp \<and> starts_with ''/tmp/reflash-mnt-'' (mr_target m) then sysc (hs_rmdir hs (mr_target m)) else ioret ())
       (\<lambda>_. unmount_each hs temp ms))"

definition restore_mount_state ::
  "'w host \<Rightarrow> string \<Rightarrow> mount_record list \<Rightarrow> mount_record list \<Rightarrow> bool \<Rightarrow> string \<Rightarrow> ('w, 'z, bool \<times> string) host_io" where
  "restore_mount_state hs path original active temp err =
     iob (if active = [] then find_mounts_for_device hs path else ioret active) (\<lambda>cur.
     iob (unmount_each hs temp (deepest_first cur)) (\<lambda>_.
     if original = [] then ioret (True, err) else remount_records hs original err))"

section \<open>The database on the medium\<close>

definition manifest_at :: "'w host \<Rightarrow> string \<Rightarrow> ('w, 'z, string) host_io" where
  "manifest_at hs rt =
     (if rt = [] then ioret []
      else
        let p = (if last rt = CHR ''/'' then butlast rt else rt) @ ''/manifest.db'' in
        iob (sysc (hs_readable hs p)) (\<lambda>ok. ioret (if ok then p else [])))"

fun first_manifest :: "'w host \<Rightarrow> mount_record list \<Rightarrow> ('w, 'z, string) host_io" where
  "first_manifest hs [] = ioret []"
| "first_manifest hs (m # ms) =
     iob (manifest_at hs (mr_target m)) (\<lambda>hit. if hit \<noteq> [] then ioret hit else first_manifest hs ms)"

definition find_builtin_manifest_db :: "'w host \<Rightarrow> string \<Rightarrow> ('w, 'z, string) host_io" where
  "find_builtin_manifest_db hs path =
     iob (path_is_directory hs path) (\<lambda>dir.
     iob (if dir then manifest_at hs path else ioret []) (\<lambda>hit.
     if hit \<noteq> [] then ioret hit
     else iob (find_mounts_for_device hs path) (\<lambda>ms. first_manifest hs ms)))"

section \<open>Ejecting\<close>

fun detach_loops :: "'w host \<Rightarrow> string list \<Rightarrow> ('w, 'z, unit) host_io" where
  "detach_loops hs [] = ioret ()"
| "detach_loops hs (lp # lps) =
     iob (run_shell hs (''losetup -d '' @ shell_quote lp @ '' 2>/dev/null'')) (\<lambda>_.
     iob (which_ok hs ''udisksctl'') (\<lambda>have.
     iob (if have then run_shell hs (udisks_cmd ''loop-delete'' lp) else ioret 0) (\<lambda>_.
     detach_loops hs lps)))"

text \<open>The disk that a partition is of.\<close>

definition udisks_drive_node :: "'w host \<Rightarrow> string \<Rightarrow> ('w, 'z, string) host_io" where
  "udisks_drive_node hs path =
     iob (path_is_block hs path) (\<lambda>blk.
     if \<not> blk then ioret []
     else
       iob (real_or_self hs path) (\<lambda>p.
       iob (run_capture hs (''lsblk -no PKNAME '' @ shell_quote p @ '' 2>/dev/null'')) (\<lambda>out.
       ioret (if trim_ws out \<noteq> [] then ''/dev/'' @ trim_ws out else p))))"

definition eject_device :: "'w host \<Rightarrow> string \<Rightarrow> string \<Rightarrow> ('w, 'z, bool \<times> string) host_io" where
  "eject_device hs path err =
     (if path = [] then ioret (False, ''no device'')
      else
        iob (path_is_directory hs path) (\<lambda>dir.
        if dir then ioret (True, err)
        else
          iob (unmount_device hs path err) (\<lambda>(ok, err).
          if \<not> ok then ioret (False, err)
          else
            iob (path_is_regular_file hs path) (\<lambda>reg.
            if reg then
              iob (real_or_self hs path) (\<lambda>want.
              iob (losetup_of hs want) (\<lambda>lps.
              iob (detach_loops hs lps) (\<lambda>_. ioret (True, err))))
            else
              iob (path_is_block hs path) (\<lambda>blk.
              if \<not> blk then ioret (True, err)
              else
                iob (udisks_drive_node hs path) (\<lambda>_.
                iob (run_capture hs (''lsblk -no TYPE '' @ shell_quote path @ '' 2>/dev/null'')) (\<lambda>out.
                let ty = trim_ws out in
                if ty = ''rom'' \<or> ty = ''cd/dvd'' then
                  iob (which_ok hs ''eject'') (\<lambda>have.
                  if have then
                    iob (run_shell hs (''eject '' @ shell_quote path @ '' 2>/dev/null'')) (\<lambda>_. ioret (True, err))
                  else
                    iob (which_ok hs ''udisksctl'') (\<lambda>have.
                    iob (if have then run_shell hs (udisks_cmd ''unmount'' path) else ioret 0) (\<lambda>_.
                    ioret (True, err))))
                else ioret (True, err))))))))"

definition safely_remove_device :: "'w host \<Rightarrow> string \<Rightarrow> string \<Rightarrow> ('w, 'z, bool \<times> string) host_io" where
  "safely_remove_device hs path err =
     (if path = [] then ioret (False, ''no device'')
      else
        iob (path_is_directory hs path) (\<lambda>dir.
        if dir then ioret (True, err)
        else
          iob (eject_device hs path err) (\<lambda>(ok, err).
          if \<not> ok then ioret (False, err)
          else
            iob (path_is_block hs path) (\<lambda>blk.
            if \<not> blk then ioret (True, err)
            else
              iob (run_shell hs ''sync'') (\<lambda>_.
              iob (udisks_drive_node hs path) (\<lambda>drive.
              iob (if drive = [] then real_or_self hs path else ioret drive) (\<lambda>drive.
              iob (which_ok hs ''udisksctl'') (\<lambda>have.
              if \<not> have then ioret (True, err)
              else
                iob (run_capture hs (''udisksctl power-off -b '' @ shell_quote drive @ '' --no-user-interaction 2>&1'')) (\<lambda>out.
                if contains ''Error'' out \<or> contains ''error'' out then
                  iob (path_is_mounted hs path) (\<lambda>still.
                  ioret (if still then (False, if out = [] then ''power-off failed: '' @ drive else trim_ws out)
                         else (True, err)))
                else ioret (True, err))))))))))"

end
