(* ===== verification/PageCache.thy ===== *)
theory PageCache
  imports Device
begin

text \<open>
  \<open>src/io/page_cache.hpp\<close> and \<open>page_cache.cpp\<close>: has a written range reached the media?  The
  two probes (\<open>cachestat\<close> and \<open>mmap\<close> with \<open>mincore\<close>), the choice between them, and the calls
  that start and await the writeback.  The branches compiled on Linux are modelled.  The section
  on properties shows that \<open>Clean\<close> means what it says: no page that overlaps the range is
  dirty, or resident.
\<close>

section \<open>Probes\<close>

datatype flush_state = FlushDirty | FlushClean | FlushUnknown

datatype flush_probe = ProbeCachestat | ProbeMincore

definition query_flush_cachestat ::
  "'w sys \<Rightarrow> fd \<Rightarrow> u64 \<Rightarrow> u64 \<Rightarrow> (('w, 'z) mach_scheme, flush_state) io" where
  "query_flush_cachestat os f off len =
     (if f < 0 \<or> len = 0 then ioret FlushUnknown
      else
        iob (sysc (sys_cachestat os f off len)) (\<lambda>cs. ioret
          (case cs of
             None \<Rightarrow> FlushUnknown
           | Some (nr_dirty, nr_writeback) \<Rightarrow>
               if 0 < nr_dirty \<or> 0 < nr_writeback then FlushDirty else FlushClean)))"

definition page_size :: "int \<Rightarrow> u64" where
  "page_size p = word_of_int (if 0 < p then p else 4096)"

text \<open>The scan of the residency vector, from page \<open>i\<close> to page \<open>lst\<close>.\<close>

function resident_scan :: "bytes \<Rightarrow> nat \<Rightarrow> nat \<Rightarrow> flush_state" where
  "resident_scan vec i lst =
     (if i \<le> lst \<and> i < length vec then
        if vec ! i AND 1 \<noteq> 0 then FlushDirty else resident_scan vec (i + 1) lst
      else FlushClean)"
  by pat_completeness auto
termination by (relation "measure (\<lambda>(vec, i, lst). length vec - i)") auto

declare resident_scan.simps [simp del]

text \<open>The kernel fills the vector of \<open>npages\<close> bytes it is given.\<close>

definition fill_vec :: "nat \<Rightarrow> bytes \<Rightarrow> bytes" where
  "fill_vec n bs = take n (bs @ replicate n 0)"

definition query_flush_mincore ::
  "'w sys \<Rightarrow> fd \<Rightarrow> u64 \<Rightarrow> u64 \<Rightarrow> (('w, 'z) mach_scheme, flush_state) io" where
  "query_flush_mincore os f off len =
     (if f < 0 \<or> len = 0 then ioret FlushUnknown
      else
        iob (sysc (sys_pagesize os)) (\<lambda>p.
        let page = page_size p;
            map_off = off AND NOT (page - 1);
            map_end = (off + len + page - 1) AND NOT (page - 1) in
        if map_end \<le> map_off then ioret FlushUnknown
        else
          let map_len = map_end - map_off in
          iob (sysc (sys_mmap os f map_off map_len)) (\<lambda>mapped.
          if \<not> mapped then ioret FlushUnknown
          else
            let npages = map_len div page in
            iob (sysc (sys_mincore os f map_off map_len)) (\<lambda>vec.
            case vec of
              None \<Rightarrow> ioret FlushUnknown
            | Some vec \<Rightarrow>
                let fst_page = (off - map_off) div page;
                    lst_page = (off + len - 1 - map_off) div page in
                ioret (resident_scan (fill_vec (unat npages) vec) (unat fst_page) (unat lst_page))))))"

definition query_flush_state ::
  "'w sys \<Rightarrow> fd \<Rightarrow> u64 \<Rightarrow> u64 \<Rightarrow> flush_probe \<Rightarrow> (('w, 'z) mach_scheme, flush_state) io" where
  "query_flush_state os f off len probe =
     (if probe = ProbeMincore then query_flush_mincore os f off len
      else query_flush_cachestat os f off len)"

section \<open>Writeback\<close>

definition kick_writeback ::
  "'w sys \<Rightarrow> fd \<Rightarrow> u64 \<Rightarrow> u64 \<Rightarrow> (('w, 'z) mach_scheme, string option) io" where
  "kick_writeback os f off len =
     (if f < 0 \<or> len = 0 then ioret None
      else iob (sysc (sys_sync_range os f off len False)) (\<lambda>e.
        ioret (case e of None \<Rightarrow> None | Some e \<Rightarrow> Some (strerror e))))"

definition wait_flushed ::
  "'w sys \<Rightarrow> fd \<Rightarrow> u64 \<Rightarrow> u64 \<Rightarrow> (('w, 'z) mach_scheme, string option) io" where
  "wait_flushed os f off len =
     (if f < 0 \<or> len = 0 then ioret None
      else
        iob (sysc (sys_sync_range os f off len True)) (\<lambda>e.
        case e of
          None \<Rightarrow> ioret None
        | Some _ \<Rightarrow>
            iob (sysc (sys_fdatasync os f)) (\<lambda>e.
            ioret (case e of None \<Rightarrow> None | Some e \<Rightarrow> Some (strerror e)))))"

lemmas flush_defs = query_flush_state_def query_flush_cachestat_def query_flush_mincore_def
  kick_writeback_def wait_flushed_def

section \<open>Lemmas\<close>

text \<open>No probe traps or fails to return, and none touches more than the world.\<close>

lemma flush_frame:
  "twp (query_flush_state os f off len probe) (\<lambda>_ s'. \<exists>w. s' = s\<lparr>world := w\<rparr>) s"
  "twp (wait_flushed os f off len) (\<lambda>_ s'. \<exists>w. s' = s\<lparr>world := w\<rparr>) s"
  "twp (kick_writeback os f off len) (\<lambda>_ s'. \<exists>w. s' = s\<lparr>world := w\<rparr>) s"
  by (auto simp: flush_defs Let_def intro: exI [of _ "world s"]
      split: prod.splits option.splits)

lemma flush_content:
  assumes "posix_quiet os content"
  shows "twp (query_flush_state os f off len probe) (\<lambda>_ s'. content (world s') = content (world s)) s"
    and "twp (wait_flushed os f off len) (\<lambda>_ s'. content (world s') = content (world s)) s"
  using assms
  by (auto simp: flush_defs posix_quiet_def split_def Let_def split: option.splits)

lemma resident_scan_clean:
  "resident_scan vec i lst = FlushClean \<longleftrightarrow>
   (\<forall>j. i \<le> j \<longrightarrow> j \<le> lst \<longrightarrow> j < length vec \<longrightarrow> vec ! j AND 1 = 0)"
proof (induction vec i lst rule: resident_scan.induct)
  case (1 vec i lst)
  show ?case
  proof (cases "i \<le> lst \<and> i < length vec \<and> vec ! i AND 1 = 0")
    case True
    then show ?thesis
      using 1 by (subst resident_scan.simps) (auto, metis le_antisym not_less_eq_eq)
  next
    case False
    then show ?thesis
      by (subst resident_scan.simps) (auto intro: exI [of _ i])
  qed
qed

lemma resident_scan_known: "resident_scan vec i lst \<noteq> FlushUnknown"
  by (induction vec i lst rule: resident_scan.induct) (subst resident_scan.simps, auto)

section \<open>What a clean answer says\<close>

lemma mincore_pages:
  fixes off len :: u64
  assumes "unat off + unat len + 2 ^ k \<le> 2 ^ 64" and "0 < len" and "k < 64"
  defines "a \<equiv> off AND NOT (2 ^ k - 1)" and "b \<equiv> (off + len + 2 ^ k - 1) AND NOT (2 ^ k - 1)"
  shows "a < b"
    and "unat ((off - a) div 2 ^ k) = 0"
    and "unat ((off + len - 1 - a) div 2 ^ k) =
      (unat off + unat len - 1) div 2 ^ k - unat off div 2 ^ k"
    and "unat ((b - a) div 2 ^ k) = (unat off + unat len - 1) div 2 ^ k - unat off div 2 ^ k + 1"
proof -
  define P where "P = (2 ^ k :: nat)"
  have P: "unat (2 ^ k :: u64) = P" "0 < P"
    using \<open>k < 64\<close> by (simp_all add: P_def unat_pow2_u64)
  define o' l where "o' = unat off" and "l = unat len"
  have len: "0 < l" using \<open>0 < len\<close> by (simp add: word_less_unat l_def)
  have bound: "o' + l + P \<le> 18446744073709551616"
    using assms(1) by (simp add: P_def o'_def l_def)
  have e1: "unat (off + len - 1) = o' + l - 1"
  proof -
    have "unat (off + len) = o' + l"
      using bound P(2) by (subst unat_add_u64) (auto simp: o'_def l_def)
    then show ?thesis
      using len by (subst unat_sub_u64) (auto simp: word_le_unat)
  qed
  have e2: "unat (off + len + 2 ^ k - 1) = o' + l - 1 + P"
  proof -
    have "off + len + 2 ^ k - 1 = (off + len - 1) + 2 ^ k" by simp
    then show ?thesis
      using bound len by (simp only:, subst unat_add_u64) (simp_all add: e1 P)
  qed
  have a: "unat a = P * (o' div P)"
    unfolding a_def by (simp add: unat_and_not_mask P_def o'_def)
  have b: "unat b = P * ((o' + l - 1) div P) + P"
    unfolding b_def unat_and_not_mask e2 P_def [symmetric] using P(2) by simp
  have ao: "unat a \<le> o'" unfolding a by simp
  have mono: "o' div P \<le> (o' + l - 1) div P" using len by (intro div_le_mono) simp
  have "unat a < unat b" unfolding a b using mono P(2)
    by (metis add_le_less_mono add.right_neutral mult_le_mono2)
  then show "a < b" by (simp add: word_less_unat)
  have sub: "unat (off - a) = o' - unat a"
    using ao by (subst unat_sub_u64) (auto simp: word_le_unat o'_def)
  show "unat ((off - a) div 2 ^ k) = 0"
    unfolding unat_div P(1) sub a by (simp add: minus_mult_div_eq_mod P(2))
  have sub2: "unat (off + len - 1 - a) = o' + l - 1 - unat a"
    using ao len by (subst unat_sub_u64) (auto simp: word_le_unat e1)
  show "unat ((off + len - 1 - a) div 2 ^ k) =
      (unat off + unat len - 1) div 2 ^ k - unat off div 2 ^ k"
    unfolding unat_div P(1) sub2 o'_def [symmetric] l_def [symmetric] P_def [symmetric] a
    using ao [unfolded a] len P(2) by (intro div_minus_mult) linarith+
  have sub3: "unat (b - a) = unat b - unat a"
    using \<open>a < b\<close> by (intro unat_sub_u64) simp
  have "(unat b - unat a) div P = unat b div P - o' div P"
    using \<open>unat a < unat b\<close> P(2) unfolding a by (intro div_minus_mult) auto
  also have "unat b div P = (o' + l - 1) div P + 1"
    unfolding b using P(2) by simp
  finally show "unat ((b - a) div 2 ^ k) =
      (unat off + unat len - 1) div 2 ^ k - unat off div 2 ^ k + 1"
    unfolding unat_div P(1) sub3 o'_def [symmetric] l_def [symmetric] P_def [symmetric]
    using mono by simp
qed

text \<open>The residency probe answers Clean exactly when no page that holds a byte of the range
  is resident: its rounding to pages neither misses a page at either end nor runs past the
  vector the kernel fills.\<close>

theorem mincore_clean:
  assumes "sys_pagesize os (world s) = (2 ^ k, w1)" and "k < 64"
    and "sys_mmap os f (off AND NOT (2 ^ k - 1))
           (((off + len + 2 ^ k - 1) AND NOT (2 ^ k - 1)) - (off AND NOT (2 ^ k - 1))) w1 = (True, w2)"
    and "sys_mincore os f (off AND NOT (2 ^ k - 1))
           (((off + len + 2 ^ k - 1) AND NOT (2 ^ k - 1)) - (off AND NOT (2 ^ k - 1))) w2 = (Some vec, w3)"
    and "0 \<le> f" and "0 < len" and "unat off + unat len + 2 ^ k \<le> 2 ^ 64"
    and "query_flush_mincore os f off len s = Ret (r, s')"
    and "length vec = (unat off + unat len - 1) div 2 ^ k - unat off div 2 ^ k + 1"
  shows "r = FlushClean \<longleftrightarrow>
    (\<forall>b. unat off \<le> b \<longrightarrow> b < unat off + unat len \<longrightarrow>
       vec ! (b div 2 ^ k - unat off div 2 ^ k) AND 1 = 0)"
proof -
  note pages = mincore_pages [OF assms(7,6,2)]
  have page: "page_size (2 ^ k) = 2 ^ k" by (simp add: page_size_def)
  let ?l = "(unat off + unat len - 1) div 2 ^ k - unat off div 2 ^ k"
  have "r = resident_scan (fill_vec (length vec) vec) 0 ?l"
  proof -
    have guards: "\<not> f < 0" "len \<noteq> 0"
      "\<not> (off + len + 2 ^ k - 1) AND NOT (2 ^ k - 1) \<le> off AND NOT (2 ^ k - 1)"
      using assms(5,6) pages(1) by auto
    have "query_flush_mincore os f off len s =
        Ret (resident_scan (fill_vec (length vec) vec) 0 ?l, s\<lparr>world := w3\<rparr>)"
      using guards assms(1,3,4) pages
      by (simp add: query_flush_mincore_def assms(9) Let_def iob_def sysc_def page)
    then show ?thesis using assms(8) by simp
  qed
  then have "r = FlushClean \<longleftrightarrow> (\<forall>j \<le> ?l. vec ! j AND 1 = 0)"
    using assms(9) by (auto simp: resident_scan_clean fill_vec_def)
  also have "\<dots> \<longleftrightarrow> (\<forall>b. unat off \<le> b \<longrightarrow> b < unat off + unat len \<longrightarrow>
       vec ! (b div 2 ^ k - unat off div 2 ^ k) AND 1 = 0)" (is "?A \<longleftrightarrow> ?B")
  proof
    assume ?A
    moreover have "b div 2 ^ k - unat off div 2 ^ k \<le> ?l" if "b < unat off + unat len" for b
      using that by (intro diff_le_mono div_le_mono) linarith
    ultimately show ?B by blast
  next
    assume B: ?B
    show ?A
    proof (intro allI impI)
      fix j assume j: "j \<le> ?l"
      let ?b = "max (unat off) ((j + unat off div 2 ^ k) * 2 ^ k)"
      have len: "0 < unat len" using assms(6) by (simp add: word_less_unat)
      have "j + unat off div 2 ^ k \<le> unat off div 2 ^ k"
        if "(j + unat off div 2 ^ k) * 2 ^ k < unat off"
        using div_le_mono [OF less_imp_le [OF that], of "2 ^ k"] by simp
      then have "?b div 2 ^ k = max (unat off div 2 ^ k) (j + unat off div 2 ^ k)"
        by (auto simp: max_def not_le)
      then have "?b div 2 ^ k = j + unat off div 2 ^ k" by simp
      moreover have "(j + unat off div 2 ^ k) * 2 ^ k \<le> (unat off + unat len - 1) div 2 ^ k * 2 ^ k"
        using j len by (intro mult_le_mono1) (auto simp: le_diff_conv2 div_le_mono)
      then have "?b < unat off + unat len"
        using len div_times_less_eq_dividend [of "unat off + unat len - 1" "2 ^ k"]
        unfolding max_less_iff_conj by linarith
      ultimately show "vec ! j AND 1 = 0" using B by (metis max.cobounded1 diff_add_inverse2)
    qed
  qed
  finally show ?thesis .
qed

lemma mincore_clean_witness:
  "query_flush_mincore (null_sys\<lparr>sys_pagesize := \<lambda>w. (2 ^ 12, w), sys_mmap := \<lambda>f a b w. (True, w),
       sys_mincore := \<lambda>f a b w. (Some [0, 2], w)\<rparr>) 3 4000 200 \<lparr>world = ()\<rparr> =
     Ret (FlushClean, \<lparr>world = ()\<rparr>)"
proof -
  let ?os = "null_sys\<lparr>sys_pagesize := \<lambda>w. (2 ^ 12, w), sys_mmap := \<lambda>f a b w. (True, w),
       sys_mincore := \<lambda>f a b w. (Some [0, 2], w)\<rparr>"
  have "\<exists>r. query_flush_mincore ?os 3 4000 200 \<lparr>world = ()\<rparr> = Ret (r, \<lparr>world = ()\<rparr>)"
    by (auto simp: query_flush_mincore_def Let_def iob_def sysc_def)
  then obtain r where r: "query_flush_mincore ?os 3 4000 200 \<lparr>world = ()\<rparr> = Ret (r, \<lparr>world = ()\<rparr>)" ..
  have nth: "[0, 2 :: u8] ! (b div 4096) AND 1 = 0" if "b < 4200" for b :: nat
    using that by (cases "b < 4096") (auto simp: div_nat_eqI [of 1])
  have "r = FlushClean"
    by (subst mincore_clean [OF _ _ _ _ _ _ _ r, of 12 "()" "()" "[0, 2]" "()"])
      (auto intro: nth)
  with r show ?thesis by simp
qed

end
