(* ===== verification/BlockIo.thy ===== *)
theory BlockIo
  imports PageCache
begin

text \<open>
  \<open>src/io/block_io.hpp\<close> and \<open>block_io.cpp\<close>: \<open>rewrite_range\<close>, the program's reason to exist.
  It reads a range of the target block by block and writes every block back where it was read,
  through or behind the page cache, verifies on request, and reports each block to \<open>Progress\<close>.

  The locale \<open>writer\<close> is the contract of the three ways a block can be written; what is proved
  of one turn of the loop rests on it, and its interpretations provide the three ways.
\<close>

section \<open>Data\<close>

datatype extent_status = ExtOk | ExtReadErr | ExtWriteErr

record rewrite_extent =
  re_offset :: u64
  re_length :: u64
  re_status :: extent_status

datatype write_cache_mode = WriteThrough | CacheCachestat | CacheMincore

record rewrite_flags =
  rf_verify_only :: bool
  rf_write_cache :: write_cache_mode
  rf_verify_writes :: bool
  rf_flush_poll_ms :: int

record block_io_result =
  io_ok :: bool
  io_errors :: "rewrite_extent list"

text \<open>The variables of the loop beside the position: the result so far, the range of cached
  blocks not yet promoted, and the time of the last poll.\<close>

record rw_vars =
  rw_result :: block_io_result
  rw_cached_from :: u64
  rw_cached_to :: u64
  rw_have_cached :: bool
  rw_last_poll :: rat

section \<open>Verification against the media and promotion of cached blocks\<close>

text \<open>\<open>scratch\<close> is the size of the scratch buffer, \<open>None\<close> when it could not be allocated.\<close>

definition verify_against_media ::
  "'w sys \<Rightarrow> device \<Rightarrow> bytes \<Rightarrow> u64 \<Rightarrow> u64 option \<Rightarrow> (('w, 'z) mach_scheme, string option) io" where
  "verify_against_media os d expect off scratch =
     (if \<not> has_direct d then ioret (Some ''O_DIRECT unavailable; cannot verify without page cache'')
      else if (case scratch of None \<Rightarrow> True | Some n \<Rightarrow> unat n < length expect)
      then ioret (Some ''verify buffer too small'')
      else
        iob (pread_direct os d off (length expect)) (\<lambda>r. ioret
          (case r of
             Inl e \<Rightarrow> Some e
           | Inr bs \<Rightarrow> if bs \<noteq> expect then Some ''verify mismatch (media != written)'' else None)))"

definition maybe_promote ::
  "'w sys \<Rightarrow> device \<Rightarrow> flush_probe \<Rightarrow> u64 \<Rightarrow> u64 \<Rightarrow> rat \<Rightarrow> rat \<Rightarrow> bool
    \<Rightarrow> (('w, 'z) pmach_scheme, bool \<times> rat) io" where
  "maybe_promote os d probe from to last_poll poll_sec force =
     (if to \<le> from then ioret (False, last_poll)
      else
        iob (sysc (sys_steady os)) (\<lambda>now.
        if \<not> force \<and> now - last_poll < poll_sec then ioret (False, last_poll)
        else
          iob (query_flush_state os (d_fd d) from (to - from) probe) (\<lambda>st.
          if st = FlushClean
          then iob (pg_mark_cell from (to - from) CellOk) (\<lambda>_. ioret (True, now))
          else ioret (False, now))))"

section \<open>One block\<close>

definition add_error :: "u64 \<Rightarrow> u64 \<Rightarrow> extent_status \<Rightarrow> rw_vars \<Rightarrow> rw_vars" where
  "add_error pos chunk st v = v\<lparr>rw_result :=
     \<lparr>io_ok = False,
      io_errors = io_errors (rw_result v) @ [\<lparr>re_offset = pos, re_length = chunk, re_status = st\<rparr>]\<rparr>\<rparr>"

definition err_text :: "string \<Rightarrow> string \<Rightarrow> u64 \<Rightarrow> u64 \<Rightarrow> string \<Rightarrow> string" where
  "err_text path what pos chunk e =
     path @ '': '' @ what @ '' at '' @ show_u64 pos @ '' +'' @ show_u64 chunk @ '': '' @ e"

text \<open>An error is recorded, logged (which paints the cells), and counted as done.\<close>

definition rw_fail ::
  "'w sys \<Rightarrow> string \<Rightarrow> string \<Rightarrow> extent_status \<Rightarrow> cell_status \<Rightarrow> u64 \<Rightarrow> u64 \<Rightarrow> string \<Rightarrow> rw_vars
    \<Rightarrow> (('w, 'z) pmach_scheme, rw_vars) io" where
  "rw_fail os path what st cell pos chunk e v =
     iob (pg_log os pos chunk cell (err_text path what pos chunk e)) (\<lambda>_.
     iob (pg_add_done os chunk) (\<lambda>_.
     ioret (add_error pos chunk st v)))"

definition rw_write ::
  "'w sys \<Rightarrow> device \<Rightarrow> bool \<Rightarrow> u64 \<Rightarrow> bytes \<Rightarrow> u64 \<Rightarrow> u64 \<Rightarrow> (('w, 'z) mach_scheme, string option) io" where
  "rw_write os d write_through align buf pos chunk =
     (if write_through then
        (if has_direct d \<and> pos mod align = 0 \<and> chunk mod align = 0
         then pwrite_direct os d buf pos
         else pwrite_sync os d buf pos)
      else pwrite_all os d buf pos)"

text \<open>The verification after a write: \<open>None\<close> when it passes.\<close>

definition rw_verify ::
  "'w sys \<Rightarrow> device \<Rightarrow> bool \<Rightarrow> u64 \<Rightarrow> u64 option \<Rightarrow> bytes \<Rightarrow> u64 \<Rightarrow> u64
    \<Rightarrow> (('w, 'z) mach_scheme, string option) io" where
  "rw_verify os d write_through align scratch buf pos chunk =
     iob (if \<not> write_through then wait_flushed os (d_fd d) pos chunk else ioret None) (\<lambda>_.
     if pos mod align \<noteq> 0 \<or> chunk mod align \<noteq> 0 then ioret (Some ''unaligned for O_DIRECT verify'')
     else verify_against_media os d buf pos scratch)"

text \<open>What is noted after a block went back into the page cache.\<close>

definition rw_cached ::
  "'w sys \<Rightarrow> device \<Rightarrow> flush_probe \<Rightarrow> rat \<Rightarrow> u64 \<Rightarrow> u64 \<Rightarrow> rw_vars \<Rightarrow> (('w, 'z) pmach_scheme, rw_vars) io" where
  "rw_cached os d probe poll_sec pos chunk v =
     iob (pg_mark_cell pos chunk Cached) (\<lambda>_.
     let from = (if \<not> rw_have_cached v then pos
                 else if pos < rw_cached_from v then pos else rw_cached_from v);
         to = (if \<not> rw_have_cached v then pos + chunk
               else if rw_cached_to v < pos + chunk then pos + chunk else rw_cached_to v) in
     iob (maybe_promote os d probe from to (rw_last_poll v) poll_sec False) (\<lambda>(done, poll).
     ioret (v\<lparr>rw_cached_from := from, rw_cached_to := to, rw_have_cached := \<not> done,
              rw_last_poll := poll\<rparr>)))"

text \<open>The parameters of a run that the loop does not change.\<close>

record rw_params =
  rp_align :: u64
  rp_block_size :: u64
  rp_write_through :: bool
  rp_need_direct :: bool
  rp_probe :: flush_probe
  rp_poll_sec :: rat
  rp_scratch :: "u64 option"
  rp_verify_only :: bool
  rp_verify_writes :: bool
  rp_path :: string

definition rw_block ::
  "'w sys \<Rightarrow> device \<Rightarrow> rw_params \<Rightarrow> u64 \<Rightarrow> u64 \<Rightarrow> rw_vars \<Rightarrow> (('w, 'z) pmach_scheme, rw_vars) io" where
  "rw_block os d q pos chunk v =
     iob (pread_all os d pos (unat chunk)) (\<lambda>r.
     case r of
       Inl e \<Rightarrow> rw_fail os (rp_path q) ''read error'' ExtReadErr ReadErr pos chunk e v
     | Inr buf \<Rightarrow>
         if rp_verify_only q then
           iob (pg_mark_cell pos chunk CellOk) (\<lambda>_.
           iob (pg_add_done os chunk) (\<lambda>_. ioret v))
         else
           iob (rw_write os d (rp_write_through q) (rp_align q) buf pos chunk) (\<lambda>werr.
           case werr of
             Some e \<Rightarrow> rw_fail os (rp_path q) ''write error'' ExtWriteErr WriteErr pos chunk e v
           | None \<Rightarrow>
               iob (if rp_verify_writes q
                    then rw_verify os d (rp_write_through q) (rp_align q) (rp_scratch q) buf pos chunk
                    else ioret None) (\<lambda>verr.
               case verr of
                 Some e \<Rightarrow> rw_fail os (rp_path q) ''verify failed'' ExtWriteErr WriteErr pos chunk e v
               | None \<Rightarrow>
                   iob (if rp_write_through q \<or> rp_verify_writes q
                        then iob (pg_mark_cell pos chunk CellOk) (\<lambda>_. ioret v)
                        else rw_cached os d (rp_probe q) (rp_poll_sec q) pos chunk v) (\<lambda>v.
                   iob (pg_add_done os chunk) (\<lambda>_. ioret v)))))"

section \<open>The loop\<close>

definition rw_chunk :: "rw_params \<Rightarrow> u64 \<Rightarrow> u64 \<Rightarrow> u64" where
  "rw_chunk q pos fin =
     (let chunk = min (rp_block_size q) (fin - pos) in
      if rp_need_direct q \<and> chunk mod rp_align q \<noteq> 0 \<and> pos + chunk < fin
      then chunk - chunk mod rp_align q else chunk)"

text \<open>The flag says that the run was stopped at a block boundary.\<close>

function rw_loop ::
  "'w sys \<Rightarrow> device \<Rightarrow> rw_params \<Rightarrow> u64 \<Rightarrow> u64 \<Rightarrow> rw_vars \<Rightarrow> (('w, 'z) pmach_scheme, rw_vars \<times> bool) io" where
  "rw_loop os d q fin pos v =
     (if pos < fin then
        iob (wait_if_paused os) (\<lambda>go.
        if \<not> go then ioret (v\<lparr>rw_result := (rw_result v)\<lparr>io_ok := False\<rparr>\<rparr>, True)
        else if rw_chunk q pos fin = 0 then ioret (v, False)
        else
          iob (rw_block os d q pos (rw_chunk q pos fin) v) (\<lambda>v.
          rw_loop os d q fin (pos + rw_chunk q pos fin) v))
      else ioret (v, False))"
  by pat_completeness auto

lemma rw_chunk_le:
  assumes "pos < fin"
  shows "unat (rw_chunk q pos fin) \<le> unat fin - unat pos"
proof -
  have le: "min (rp_block_size q) (fin - pos) \<le> fin - pos" by simp
  have "unat (x - x mod y) \<le> unat x" for x y :: u64
    by (subst unat_sub) (simp_all add: word_le_unat unat_mod)
  then have "unat (rw_chunk q pos fin) \<le> unat (min (rp_block_size q) (fin - pos))"
    by (simp add: rw_chunk_def Let_def)
  also have "\<dots> \<le> unat (fin - pos)" using le by (simp add: word_le_unat)
  finally show ?thesis using assms by (simp add: unat_sub_u64)
qed

lemma rw_chunk_advance:
  assumes "pos < fin"
  shows "unat (pos + rw_chunk q pos fin) = unat pos + unat (rw_chunk q pos fin)"
    and "pos + rw_chunk q pos fin \<le> fin"
proof -
  have "unat pos + unat (rw_chunk q pos fin) \<le> unat fin"
    using rw_chunk_le [OF assms, of q] assms by (simp add: word_less_unat)
  moreover from this show "unat (pos + rw_chunk q pos fin) = unat pos + unat (rw_chunk q pos fin)"
    using unat_lt_u64 [of fin] by (intro unat_add_u64) linarith
  ultimately show "pos + rw_chunk q pos fin \<le> fin" by (simp add: word_le_unat)
qed

termination rw_loop
proof (relation "measure (\<lambda>(os, d, q, fin, pos, v). unat fin - unat pos)", goal_cases)
  case (2 os d q fin pos v)
  have "0 < unat (rw_chunk q pos fin)"
    using 2(3) by (simp add: word_neq_0_conv [symmetric] unat_gt_0)
  then show ?case
    using rw_chunk_advance [OF 2(1), of q] 2(1) by (auto simp: word_le_unat word_less_unat)
qed simp

declare rw_loop.simps [simp del]

section \<open>The range\<close>

definition round_block :: "rewrite_flags \<Rightarrow> u64 \<Rightarrow> u64 \<Rightarrow> u64" where
  "round_block flags align bs =
     (let bs = (if bs = 0 then 4096 else bs) in
      if (rf_write_cache flags = WriteThrough \<or> rf_verify_writes flags) \<and>
         \<not> rf_verify_only flags \<and> bs mod align \<noteq> 0
      then ((bs + align - 1) div align) * align else bs)"

definition dev_align :: "device \<Rightarrow> u64" where
  "dev_align d = (if d_direct_align d = 0 then 4096 else d_direct_align d)"

definition rw_init :: "rat \<Rightarrow> rw_vars" where
  "rw_init now = \<lparr>rw_result = \<lparr>io_ok = True, io_errors = []\<rparr>, rw_cached_from = 0,
     rw_cached_to = 0, rw_have_cached = False, rw_last_poll = now\<rparr>"

definition rw_params_of ::
  "device \<Rightarrow> u64 \<Rightarrow> rewrite_flags \<Rightarrow> bool \<Rightarrow> string \<Rightarrow> rw_params" where
  "rw_params_of d bs flags scratch_ok path =
     \<lparr>rp_align = dev_align d,
      rp_block_size = round_block flags (dev_align d) bs,
      rp_write_through = (rf_write_cache flags = WriteThrough),
      rp_need_direct = ((rf_write_cache flags = WriteThrough \<or> rf_verify_writes flags) \<and>
        \<not> rf_verify_only flags),
      rp_probe = (if rf_write_cache flags = CacheMincore then ProbeMincore else ProbeCachestat),
      rp_poll_sec = (if 0 < rf_flush_poll_ms flags then of_int (rf_flush_poll_ms flags) else 780) / 1000,
      rp_scratch = (if scratch_ok then Some (round_block flags (dev_align d) bs) else None),
      rp_verify_only = rf_verify_only flags,
      rp_verify_writes = rf_verify_writes flags,
      rp_path = path\<rparr>"

definition rw_refuse ::
  "'w sys \<Rightarrow> string \<Rightarrow> (('w, 'z) pmach_scheme, block_io_result) io" where
  "rw_refuse os msg =
     iob (pg_message os LError msg) (\<lambda>_. ioret \<lparr>io_ok = False, io_errors = []\<rparr>)"

definition rewrite_range ::
  "'w sys \<Rightarrow> device \<Rightarrow> u64 \<Rightarrow> u64 \<Rightarrow> u64 \<Rightarrow> rewrite_flags \<Rightarrow> string
    \<Rightarrow> (('w, 'z) pmach_scheme, block_io_result) io" where
  "rewrite_range os d offset len bs flags path =
     (let align = dev_align d;
          bsize = round_block flags align bs;
          verify = rf_verify_writes flags \<and> \<not> rf_verify_only flags in
      iob (sysc (sys_memalign os (if align < 8 then 8 else align) bsize)) (\<lambda>buf.
      iob (sysc (sys_memalign os (if align < 8 then 8 else align) bsize)) (\<lambda>verify_buf.
      if \<not> buf then rw_refuse os (path @ '': aligned buffer alloc failed'')
      else if verify \<and> \<not> verify_buf then rw_refuse os (path @ '': verify buffer alloc failed'')
      else if verify \<and> \<not> has_direct d
      then rw_refuse os (path @ '': Verify writes needs O_DIRECT (unavailable on this target)'')
      else
        iob (sysc (sys_steady os)) (\<lambda>now.
        let q = rw_params_of d bs flags verify_buf path in
        iob (rw_loop os d q (offset + len) offset (rw_init now)) (\<lambda>(v, stopped).
        iob (if \<not> stopped \<and> rw_have_cached v
             then iob (maybe_promote os d (rp_probe q) (rw_cached_from v) (rw_cached_to v)
                        (rw_last_poll v) (rp_poll_sec q) True) (\<lambda>_. ioret ())
             else ioret ()) (\<lambda>_.
        ioret (rw_result v)))))))"

section \<open>A rule for the loop\<close>

text \<open>An invariant \<open>I\<close> over the position, the loop's variables and the state, kept by the pause and
  by every block, holds at the end, with the position where the loop stopped.  The verdicts on
  traps and on runs that do not return are those of its parts.\<close>

lemma rw_loop_rule:
  assumes "I pos v s" and "pos \<le> fin"
    and pause: "\<And>pos v s. I pos v s \<Longrightarrow> wpx t k (wait_if_paused os) (\<lambda>_ s'. I pos v s') s"
    and block: "\<And>pos chunk v s. I pos v s \<Longrightarrow> pos < fin \<Longrightarrow> chunk = rw_chunk q pos fin \<Longrightarrow>
        chunk \<noteq> 0 \<Longrightarrow> wpx t k (rw_block os d q pos chunk v) (\<lambda>v' s'. I (pos + chunk) v' s') s"
    and stopped: "\<And>pos v s. I pos v s \<Longrightarrow> pos \<le> fin \<Longrightarrow>
        R (v\<lparr>rw_result := (rw_result v)\<lparr>io_ok := False\<rparr>\<rparr>, True) s"
    and finished: "\<And>pos v s. I pos v s \<Longrightarrow> pos \<le> fin \<Longrightarrow>
        pos = fin \<or> pos < fin \<and> rw_chunk q pos fin = 0 \<Longrightarrow> R (v, False) s"
  shows "wpx t k (rw_loop os d q fin pos v) R s"
  using assms(1,2)
proof (induction "unat fin - unat pos" arbitrary: pos v s rule: less_induct)
  case less
  show ?case
  proof (cases "pos < fin")
    case False
    then show ?thesis
      using finished [OF less.prems] less.prems(2) by (subst rw_loop.simps) auto
  next
    case True
    let ?c = "rw_chunk q pos fin"
    note adv = rw_chunk_advance [OF True, of q]
    have next_turn: "wpx t k (rw_loop os d q fin (pos + ?c) v') R s'"
      if "I (pos + ?c) v' s'" "?c \<noteq> 0" for v' s'
    proof (rule less.hyps)
      have "0 < unat ?c" using that(2) by (simp add: unat_gt_0)
      then show "unat fin - unat (pos + ?c) < unat fin - unat pos"
        using adv True by (auto simp: word_le_unat word_less_unat)
    qed (use that adv in auto)
    have turn: "wpx t k (iob (rw_block os d q pos ?c v) (\<lambda>v. rw_loop os d q fin (pos + ?c) v)) R s'"
      if "I pos v s'" "?c \<noteq> 0" for s'
      unfolding wpx_bind
      by (rule wpx_weaken [OF block [OF that(1) True refl that(2)]])
        (assumption | rule next_turn [OF _ that(2)])+
    have "wpx t k (wait_if_paused os) (\<lambda>go. wpx t k
        (if \<not> go then ioret (v\<lparr>rw_result := (rw_result v)\<lparr>io_ok := False\<rparr>\<rparr>, True)
         else if ?c = 0 then ioret (v, False)
         else iob (rw_block os d q pos ?c v) (\<lambda>v. rw_loop os d q fin (pos + ?c) v)) R) s"
    proof (rule wpx_weaken [OF pause [OF less.prems(1)]])
      fix go s' assume "I pos v s'"
      then show "wpx t k
          (if \<not> go then ioret (v\<lparr>rw_result := (rw_result v)\<lparr>io_ok := False\<rparr>\<rparr>, True)
           else if ?c = 0 then ioret (v, False)
           else iob (rw_block os d q pos ?c v) (\<lambda>v. rw_loop os d q fin (pos + ?c) v)) R s'"
        using True less.prems(2)
        by (simp del: wpx_bind) (blast intro: stopped finished turn)
    qed auto
    then show ?thesis by (subst rw_loop.simps) (simp only: True if_True wpx_bind)
  qed
qed

section \<open>What the parts of a turn do\<close>

abbreviation live :: "'w sys \<Rightarrow> bool" where
  "live os \<equiv> never_interrupts os"

interpretation block: writer "\<lambda>buf off. rw_write os d wt align buf off chunk" content
    "posix_disk os {d_fd d, d_fd_direct d} content" "live os"
  for os :: "'w sys" and d wt align chunk content
proof unfold_locales
  show "world_only (\<not> live os) (rw_write os d wt align buf off chunk)" for buf off
    by (simp add: rw_write_def cached.wr_world direct.wr_world synced.wr_world)
next
  fix c and off :: u64 and buf
  assume a: "posix_disk os {d_fd d, d_fd_direct d} content" "length c < 2 ^ 63"
    "stored_at c (unat off) buf"
  have w: "posix_write os {d_fd d} content" "posix_write os {d_fd_direct d} content"
    "posix_quiet os content"
    using posix_disk_mono [OF a(1), of "{d_fd d}"] posix_disk_mono [OF a(1), of "{d_fd_direct d}"]
    by (simp_all add: posix_disk_def)
  show "keeps (\<lambda>s. content (world s)) c (rw_write os d wt align buf off chunk)"
    unfolding rw_write_def
    by (intro stays_if cached.wr_back direct.wr_back synced.wr_back conjI a w)
qed

lemma flush_world:
  "world_only k (query_flush_state os f off len probe)"
  "world_only k (wait_flushed os f off len)"
  unfolding world_only_def
  by (rule allI, rule wpx_weaken [OF flush_frame(1)], simp_all)
    (rule allI, rule wpx_weaken [OF flush_frame(2)], simp_all)

lemma rw_verify_world: "world_only (\<not> live os) (rw_verify os d wt align scratch buf pos chunk)"
  unfolding rw_verify_def verify_against_media_def
  by (auto intro!: world_only_bind flush_world world_only_ret pread_direct_world)

text \<open>The effect of one turn on the variables, the counters and the world, whatever the calls
  answer: one block is accounted for, no cell loses an error, and at most one error is added, for
  exactly this block, which its cells then show.\<close>

definition counted :: "u64 \<Rightarrow> progress \<Rightarrow> progress \<Rightarrow> bool" where
  "counted n p p' \<longleftrightarrow> p_bytes_total p' = p_bytes_total p \<and> cells_kept p p' \<and>
     p_bytes_done p' = (if p_bytes_total p < p_bytes_done p + n then p_bytes_total p
                        else p_bytes_done p + n)"

definition rw_turn :: "u64 \<Rightarrow> u64 \<Rightarrow> rw_vars \<Rightarrow> rw_vars \<Rightarrow> progress \<Rightarrow> bool" where
  "rw_turn pos chunk v v' p \<longleftrightarrow> rw_result v' = rw_result v \<or>
     (\<exists>st. st \<noteq> ExtOk \<and> rw_result v' = rw_result (add_error pos chunk st v) \<and>
        (chunk \<noteq> 0 \<longrightarrow> unat pos + unat chunk \<le> 18446744073709551616 \<longrightarrow> error_shown p pos chunk))"

lemma cells_kept_log: "cells_kept p (log_event now a b st msg p)"
  unfolding log_event_def Let_def
  by (rule cells_kept_trans [OF _ cells_kept_mark]) (simp add: cells_kept_same)

lemma log_event_counts [simp]:
  "p_bytes_done (log_event now a b st msg p) = p_bytes_done p"
  "p_bytes_total (log_event now a b st msg p) = p_bytes_total p"
  by (simp_all add: log_event_def Let_def)

lemma cells_kept_add_done: "cells_kept p (add_done t n p)"
  by (simp add: add_done_def Let_def cells_kept_same)

lemma counted_add_done:
  "p_bytes_done p' = p_bytes_done p \<Longrightarrow> p_bytes_total p' = p_bytes_total p \<Longrightarrow> cells_kept p p' \<Longrightarrow>
   counted n p (add_done t n p')"
  by (auto simp: counted_def intro: cells_kept_trans cells_kept_add_done)
    (simp_all add: add_done_def Let_def)

definition turn_post ::
  "u64 \<Rightarrow> u64 \<Rightarrow> rw_vars \<Rightarrow> ('w, 'z) pmach_scheme \<Rightarrow> rw_vars \<Rightarrow> ('w, 'z) pmach_scheme \<Rightarrow> bool" where
  "turn_post pos chunk v s v' s' \<longleftrightarrow>
     (\<exists>w p. s' = s\<lparr>world := w, prog := p\<rparr> \<and> counted chunk (prog s) p) \<and>
     rw_turn pos chunk v v' (prog s')"

lemma turn_postI:
  "rw_turn pos chunk v v' p \<Longrightarrow> counted chunk (prog s) p \<Longrightarrow>
   turn_post pos chunk v s v' (s\<lparr>world := w, prog := p\<rparr>)"
  by (auto simp: turn_post_def)

lemma turn_post_world [simp]:
  "turn_post pos chunk v (s\<lparr>world := w\<rparr>) = turn_post pos chunk v s"
  by (simp add: turn_post_def fun_eq_iff)

lemma rw_fail_turn:
  assumes "st \<noteq> ExtOk" and "is_error cell"
  shows "wpx False k (rw_fail os path what st cell pos chunk e v) (turn_post pos chunk v s) s"
proof -
  have shown: "error_shown (add_done t chunk (log_event now pos chunk cell msg p)) pos chunk"
    if "chunk \<noteq> 0" "unat pos + unat chunk \<le> 18446744073709551616" for t now msg p
    by (rule error_shown_kept [OF _ cells_kept_add_done])
      (simp add: log_event_def Let_def error_shown_mark [OF assms(2) that])
  show ?thesis
    using assms(1) shown
    by (auto simp: rw_fail_def pg_defs rw_turn_def split_def
        intro!: turn_postI [where s = s and w = "snd _", simplified] counted_add_done cells_kept_log)
qed

text \<open>Promotion paints cells and reads clocks, nothing else.\<close>

definition quiet_post :: "('w, 'z) pmach_scheme \<Rightarrow> ('w, 'z) pmach_scheme \<Rightarrow> bool" where
  "quiet_post s s' \<longleftrightarrow> (\<exists>w p. s' = s\<lparr>world := w, prog := p\<rparr> \<and>
     p_bytes_done p = p_bytes_done (prog s) \<and> p_bytes_total p = p_bytes_total (prog s) \<and>
     cells_kept (prog s) p)"

lemma quiet_postI:
  "p_bytes_done p = p_bytes_done (prog s) \<Longrightarrow> p_bytes_total p = p_bytes_total (prog s) \<Longrightarrow>
   cells_kept (prog s) p \<Longrightarrow> quiet_post s (s\<lparr>world := w, prog := p\<rparr>)"
  by (auto simp: quiet_post_def)

lemma quiet_post_world [simp]: "quiet_post s (s\<lparr>world := w\<rparr>)"
  using quiet_postI [of "prog s" s w] by simp

lemma maybe_promote_quiet:
  "wpx False k (maybe_promote os d probe from to last_poll poll_sec force) (\<lambda>_. quiet_post s) s"
proof (cases "to \<le> from")
  case True
  then show ?thesis using quiet_post_world [of s "world s"] by (simp add: maybe_promote_def)
next
  case False
  then show ?thesis
    by (auto simp: maybe_promote_def split_def pg_defs
        intro!: world_only_wpx [OF flush_world(1)] quiet_postI cells_kept_mark)
qed

lemma world_twice: "s\<lparr>world := w, world := w'\<rparr> = s\<lparr>world := w'\<rparr>"
  by simp

lemma rw_block_turn:
  "wpx False (\<not> live os) (rw_block os d q pos chunk v) (turn_post pos chunk v s) s"
proof -
  have done_step: "turn_post pos chunk v s v'
      (s'\<lparr>world := w2, prog := add_done t2 chunk (prog s')\<rparr>)"
    if "quiet_post s s'" "rw_result v' = rw_result v" for v' s' w2 t2
    using that
    by (auto simp: quiet_post_def rw_turn_def intro!: turn_postI counted_add_done)
  have cached_step: "wpx False k (rw_cached os d (rp_probe q) (rp_poll_sec q) pos chunk v)
      (\<lambda>v'. wpx False k (pg_add_done os chunk) (\<lambda>_. turn_post pos chunk v s v')) (s\<lparr>world := w\<rparr>)" for k w
  proof -
    have q: "quiet_post s s'"
      if "quiet_post (s\<lparr>world := w, prog := mark_cell pos chunk Cached (prog s)\<rparr>) s'" for s'
      using that
      by (auto simp: quiet_post_def [of "s\<lparr>world := _, prog := _\<rparr>"]
          intro!: quiet_postI elim: cells_kept_trans [OF cells_kept_mark])
    show ?thesis
      unfolding rw_cached_def
      by (auto simp: pg_defs Let_def split_def
          intro!: wpx_weaken [OF maybe_promote_quiet] done_step q)
  qed
  have fail: "wpx False k (rw_fail os (rp_path q) what st cell pos chunk e v) (turn_post pos chunk v s)
      (s\<lparr>world := w\<rparr>)" if "st \<noteq> ExtOk" "is_error cell" for k what st cell e w
    using rw_fail_turn [OF that, of k os "rp_path q" what pos chunk e v "s\<lparr>world := w\<rparr>"] by simp
  have painted: "wpx False k (iob (iob (pg_mark_cell pos chunk CellOk) (\<lambda>_. ioret v))
      (\<lambda>v. iob (pg_add_done os chunk) (\<lambda>_. ioret v))) (turn_post pos chunk v s) (s\<lparr>world := w\<rparr>)" for k w
    using done_step [OF quiet_postI, of "mark_cell pos chunk CellOk (prog s)" v]
    by (simp add: pg_defs split_def cells_kept_mark)
  show ?thesis
    unfolding rw_block_def wpx_bind
  proof (rule wpx_weaken [OF pread_all_world], goal_cases)
    case (3 r t)
    then obtain w where t: "t = s\<lparr>world := w\<rparr>" by blast
    show ?case
    proof (cases r)
      case (Inl e)
      then show ?thesis unfolding t by (simp add: fail is_error_def)
    next
      case (Inr buf)
      show ?thesis
      proof (cases "rp_verify_only q")
        case True
        then show ?thesis using painted [of "\<not> live os" w] Inr unfolding t by simp
      next
        case False
        let ?ok = "iob (if rp_write_through q \<or> rp_verify_writes q
              then iob (pg_mark_cell pos chunk CellOk) (\<lambda>_. ioret v)
              else rw_cached os d (rp_probe q) (rp_poll_sec q) pos chunk v) (\<lambda>v.
              iob (pg_add_done os chunk) (\<lambda>_. ioret v))"
        let ?verify = "if rp_verify_writes q
            then rw_verify os d (rp_write_through q) (rp_align q) (rp_scratch q) buf pos chunk
            else ioret None"
        let ?verified = "\<lambda>verr. case verr of
            Some e \<Rightarrow> rw_fail os (rp_path q) ''verify failed'' ExtWriteErr WriteErr pos chunk e v
          | None \<Rightarrow> ?ok"
        let ?written = "\<lambda>werr. case werr of
            Some e \<Rightarrow> rw_fail os (rp_path q) ''write error'' ExtWriteErr WriteErr pos chunk e v
          | None \<Rightarrow> iob ?verify ?verified"
        have ok: "wpx False k ?ok (turn_post pos chunk v s) (s\<lparr>world := w\<rparr>)" for k w
          using painted [of k w] cached_step [of k w] by simp
        have verified: "wpx False k (?verified verr) (turn_post pos chunk v s) (s\<lparr>world := w\<rparr>)" for k w verr
        proof (cases verr)
          case None
          show ?thesis unfolding None option.case by (rule ok)
        qed (simp add: fail is_error_def)
        have verify: "world_only (\<not> live os) ?verify"
          by (simp add: rw_verify_world world_only_ret)
        have written: "wpx False (\<not> live os) (?written werr) (turn_post pos chunk v s) (s\<lparr>world := w\<rparr>)"
          for w werr
        proof (cases werr)
          case None
          show ?thesis
            unfolding None option.case wpx_bind [of _ _ ?verify]
            by (rule world_only_wpx [OF verify]) (simp only: world_twice verified)
        qed (simp add: fail is_error_def)
        show ?thesis
          unfolding Inr t sum.case using False
          by (simp only: if_False wpx_bind [where m = "rw_write _ _ _ _ _ _ _"])
            (rule world_only_wpx [OF block.wr_world], simp only: world_twice written)
      qed
    qed
  qed auto
qed

section \<open>What a run does\<close>

definition errors_within :: "nat \<Rightarrow> nat \<Rightarrow> rewrite_extent list \<Rightarrow> bool" where
  "errors_within a b es \<longleftrightarrow>
     (\<forall>e \<in> set es. re_status e \<noteq> ExtOk \<and> re_length e \<noteq> 0 \<and> a \<le> unat (re_offset e) \<and>
        unat (re_offset e) + unat (re_length e) \<le> b) \<and>
     sorted_wrt (\<lambda>e f. unat (re_offset e) + unat (re_length e) \<le> unat (re_offset f)) es"

text \<open>After the blocks up to \<open>pos\<close>: the errors lie in what was done, in order, each shown by its
  cells; the result is \<open>ok\<close> only if there is none; what was done is accounted for.\<close>

definition rw_inv ::
  "('w, 'z) pmach_scheme \<Rightarrow> u64 \<Rightarrow> u64 \<Rightarrow> block_io_result \<Rightarrow> ('w, 'z) pmach_scheme \<Rightarrow> bool" where
  "rw_inv s offset pos r s' \<longleftrightarrow> offset \<le> pos \<and>
     errors_within (unat offset) (unat pos) (io_errors r) \<and>
     (io_ok r \<longrightarrow> io_errors r = []) \<and>
     (\<forall>e \<in> set (io_errors r). error_shown (prog s') (re_offset e) (re_length e)) \<and>
     same_frame s s' \<and>
     p_bytes_total (prog s') = p_bytes_total (prog s) \<and> cells_kept (prog s) (prog s') \<and>
     unat (p_bytes_done (prog s')) =
       min (unat (p_bytes_total (prog s))) (unat (p_bytes_done (prog s)) + (unat pos - unat offset))"

lemma errors_within_add:
  assumes "errors_within a (unat pos) es" and "a \<le> unat pos" and "st \<noteq> ExtOk" and "chunk \<noteq> 0"
    and "b = unat pos + unat chunk"
  shows "errors_within a b (es @ [\<lparr>re_offset = pos, re_length = chunk, re_status = st\<rparr>])"
  using assms by (fastforce simp: errors_within_def sorted_wrt_append)

lemma errors_within_mono: "errors_within a b es \<Longrightarrow> b \<le> b' \<Longrightarrow> errors_within a b' es"
  by (fastforce simp: errors_within_def)

lemma counted_unat:
  assumes "counted n p p'" and "unat (p_bytes_done p) + unat n < 18446744073709551616"
  shows "unat (p_bytes_done p') = min (unat (p_bytes_total p)) (unat (p_bytes_done p) + unat n)"
proof -
  have "unat (p_bytes_done p + n) = unat (p_bytes_done p) + unat n"
    using assms(2) by (rule unat_add_u64)
  then show ?thesis
    using assms(1) by (simp add: counted_def word_less_unat min_def)
qed

lemma rw_inv_turn:
  assumes "rw_inv s offset pos (rw_result v) t" and "turn_post pos chunk v t v' t'"
    and "chunk \<noteq> 0" and "unat (pos + chunk) = unat pos + unat chunk"
    and "unat (p_bytes_done (prog s)) + (unat pos - unat offset) + unat chunk < 18446744073709551616"
  shows "rw_inv s offset (pos + chunk) (rw_result v') t'"
proof -
  note inv = assms(1) [unfolded rw_inv_def]
  note post = assms(2) [unfolded turn_post_def]
  obtain w p where t': "t' = t\<lparr>world := w, prog := p\<rparr>" and counted: "counted chunk (prog t) p"
    using post by blast
  have le: "unat offset \<le> unat pos" using inv by (simp add: word_le_unat)
  have kept: "cells_kept (prog t) p" using counted by (simp add: counted_def)
  have d: "unat (p_bytes_done p) = min (unat (p_bytes_total (prog t))) (unat (p_bytes_done (prog t)) + unat chunk)"
    by (rule counted_unat [OF counted]) (use inv assms(5) in linarith)
  have tot: "p_bytes_total (prog t) = p_bytes_total (prog s)" using inv by blast
  have dt: "unat (p_bytes_done (prog t)) =
      min (unat (p_bytes_total (prog s))) (unat (p_bytes_done (prog s)) + (unat pos - unat offset))"
    using inv by blast
  have done_p: "unat (p_bytes_done p) = min (unat (p_bytes_total (prog s)))
      (unat (p_bytes_done (prog s)) + (unat (pos + chunk) - unat offset))"
    unfolding d dt tot assms(4) using le by linarith
  have errs: "errors_within (unat offset) (unat (pos + chunk)) (io_errors (rw_result v')) \<and>
      (io_ok (rw_result v') \<longrightarrow> io_errors (rw_result v') = []) \<and>
      (\<forall>e \<in> set (io_errors (rw_result v')). error_shown p (re_offset e) (re_length e))"
  proof (cases "rw_result v' = rw_result v")
    case True
    then show ?thesis
      using inv assms(4) kept by (auto intro: errors_within_mono error_shown_kept)
  next
    case False
    then obtain st where st: "st \<noteq> ExtOk" "rw_result v' = rw_result (add_error pos chunk st v)"
      and shown: "unat pos + unat chunk \<le> 18446744073709551616 \<Longrightarrow> error_shown p pos chunk"
      using post t' assms(3) by (auto simp: rw_turn_def)
    have "unat pos + unat chunk \<le> 18446744073709551616"
      using assms(4) unat_lt_u64 [of "pos + chunk"] by linarith
    then show ?thesis
      using inv shown kept le assms(3,4) st
      by (auto simp: add_error_def intro: errors_within_add error_shown_kept)
  qed
  have "offset \<le> pos + chunk" using le assms(4) by (simp add: word_le_unat)
  moreover have "same_frame s t'"
    using inv same_frame_trans [of s t t'] unfolding t' same_frame_def by blast
  moreover have "cells_kept (prog s) p" using inv kept cells_kept_trans by blast
  ultimately show ?thesis
    unfolding rw_inv_def using errs done_p counted t' tot by (simp add: counted_def)
qed

text \<open>The whole range, given that its end and the counters do not wrap.  \<open>k\<close> is \<open>False\<close> where the
  run is known to come back.\<close>

definition pause_ends :: "'w sys \<Rightarrow> ('w, 'z) pmach_scheme itself \<Rightarrow> bool" where
  "pause_ends os T \<longleftrightarrow> (\<forall>s :: ('w, 'z) pmach_scheme. wait_if_paused os s \<noteq> Stuck)"

lemma wait_world: "wp (wait_if_paused os) (\<lambda>_ s'. \<exists>w. s' = s\<lparr>world := w\<rparr>) s"
  by (rule wpx_weaken [OF wait_if_paused_frame [of os "\<lambda>_. ()"]]) (auto simp: loads_keep_def)

lemma wait_world_only:
  "\<not> k \<Longrightarrow> pause_ends os TYPE(('w, 'z) pmach_scheme) \<Longrightarrow>
   world_only k (wait_if_paused os :: (('w, 'z) pmach_scheme, bool) io)"
  "k \<Longrightarrow> world_only k (wait_if_paused os)"
  using wait_world unfolding world_only_def pause_ends_def
  by (fastforce simp: wpx_def split: outcome.splits)+

lemma same_frameI: "same_frame s (s\<lparr>world := w, prog := p\<rparr>)"
  unfolding same_frame_def by blast

lemma same_frame_world: "same_frame s (s\<lparr>world := w\<rparr>)"
  unfolding same_frame_def by (intro exI [of _ w] exI [of _ "prog s"]) simp

lemma rw_inv_world: "rw_inv s offset pos r t \<Longrightarrow> rw_inv s offset pos r (t\<lparr>world := w\<rparr>)"
  by (auto simp: rw_inv_def intro: same_frame_trans same_frame_world)

lemma rw_inv_quiet: "rw_inv s offset pos r t \<Longrightarrow> quiet_post t t' \<Longrightarrow> rw_inv s offset pos r t'"
  by (auto simp: rw_inv_def quiet_post_def
      intro: error_shown_kept cells_kept_trans same_frame_trans [OF _ same_frameI])

lemma rw_inv_stop:
  "rw_inv s offset pos r t \<Longrightarrow> rw_inv s offset pos (r\<lparr>io_ok := False\<rparr>) t"
  by (auto simp: rw_inv_def)

lemma rw_loop_inv:
  fixes s :: "('w, 'z) pmach_scheme"
  assumes k: "\<not> k \<Longrightarrow> live os \<and> pause_ends os TYPE(('w, 'z) pmach_scheme)"
    and "rw_inv s offset offset (rw_result v) t" and "offset \<le> fin"
    and "unat (p_bytes_done (prog s)) + (unat fin - unat offset) < 18446744073709551616"
  shows "wpx False k (rw_loop os d q fin offset v)
    (\<lambda>(v', stopped) s'. \<exists>pos. pos \<le> fin \<and> rw_inv s offset pos (rw_result v') s' \<and>
       (stopped \<longrightarrow> \<not> io_ok (rw_result v')) \<and>
       (\<not> stopped \<longrightarrow> pos = fin \<or> pos < fin \<and> rw_chunk q pos fin = 0)) t"
proof (rule rw_loop_rule [where I = "\<lambda>pos v t. rw_inv s offset pos (rw_result v) t", OF assms(2,3)])
  fix pos and v :: rw_vars and t :: "('w, 'z) pmach_scheme"
  assume inv: "rw_inv s offset pos (rw_result v) t"
  have "world_only k (wait_if_paused os :: (('w, 'z) pmach_scheme, bool) io)"
    using k wait_world_only by (cases k) auto
  then show "wpx False k (wait_if_paused os) (\<lambda>_ s'. rw_inv s offset pos (rw_result v) s') t"
    by (rule world_only_wpx) (rule rw_inv_world [OF inv])
  {
    fix chunk assume c: "pos < fin" "chunk = rw_chunk q pos fin" "chunk \<noteq> 0"
    note adv = rw_chunk_advance [OF c(1), of q, folded c(2)]
    have "unat (p_bytes_done (prog s)) + (unat pos - unat offset) + unat chunk < 18446744073709551616"
      using assms(4) adv inv by (simp add: rw_inv_def word_le_unat)
    then show "wpx False k (rw_block os d q pos chunk v)
        (\<lambda>v' s'. rw_inv s offset (pos + chunk) (rw_result v') s') t"
      using k by (intro wpx_weaken [OF rw_block_turn] rw_inv_turn [OF inv _ c(3) adv(1)]) auto
  }
qed (auto intro: rw_inv_stop)

lemma rewrite_range_inv:
  fixes s :: "('w, 'z) pmach_scheme"
  assumes k: "\<not> k \<Longrightarrow> live os \<and> pause_ends os TYPE(('w, 'z) pmach_scheme)"
    and "p_bytes_done (prog s) \<le> p_bytes_total (prog s)"
    and "unat offset + unat len < 18446744073709551616"
    and "unat (p_bytes_done (prog s)) + unat len < 18446744073709551616"
  shows "wpx False k (rewrite_range os d offset len bs flags path)
    (\<lambda>r s'. \<exists>pos ok. pos \<le> offset + len \<and> rw_inv s offset pos r s' \<and>
       (io_ok r \<longrightarrow> pos = offset + len \<or>
          pos < offset + len \<and> rw_chunk (rw_params_of d bs flags ok path) pos (offset + len) = 0)) s"
proof -
  have fin: "unat (offset + len) = unat offset + unat len" "offset \<le> offset + len"
    using assms(3) by (simp_all add: word_le_unat unat_add_u64)
  have start: "rw_inv s offset offset r (s\<lparr>world := w, prog := p\<rparr>)"
    if "io_errors r = []" "p_bytes_done p = p_bytes_done (prog s)"
      "p_bytes_total p = p_bytes_total (prog s)" "cells_kept (prog s) p" for w p r
    using that assms(2)
    by (auto simp: rw_inv_def errors_within_def same_frame_def word_le_unat)
  have refuse: "wpx False k (rw_refuse os msg) (\<lambda>r s'. \<exists>pos ok. pos \<le> offset + len \<and>
      rw_inv s offset pos r s' \<and> (io_ok r \<longrightarrow> pos = offset + len \<or>
          pos < offset + len \<and> rw_chunk (rw_params_of d bs flags ok path) pos (offset + len) = 0))
      (s\<lparr>world := w\<rparr>)" for msg w
    using fin(2)
    by (auto simp: rw_refuse_def pg_defs split_def log_message_def Let_def
        intro!: exI [of _ offset] start cells_kept_same)
  let ?post = "\<lambda>r s'. \<exists>pos ok. pos \<le> offset + len \<and> rw_inv s offset pos r s' \<and>
       (io_ok r \<longrightarrow> pos = offset + len \<or>
          pos < offset + len \<and> rw_chunk (rw_params_of d bs flags ok path) pos (offset + len) = 0)"
  have run: "wpx False k (iob (rw_loop os d (rw_params_of d bs flags ok path) (offset + len) offset
        (rw_init now)) (\<lambda>(v, stopped).
        iob (if \<not> stopped \<and> rw_have_cached v
             then iob (maybe_promote os d pr (rw_cached_from v) (rw_cached_to v)
                        (rw_last_poll v) ps True) (\<lambda>_. ioret ())
             else ioret ()) (\<lambda>_. ioret (rw_result v)))) ?post (s\<lparr>world := w\<rparr>)" for now ok pr ps w
    unfolding wpx_bind
  proof (rule wpx_weaken [OF rw_loop_inv [OF k, where s = s]], goal_cases)
    case 2
    then show ?case using start [of "rw_result (rw_init now)" "prog s" w] by (simp add: rw_init_def)
  next
    case (7 r t)
    obtain v stopped where r: "r = (v, stopped)" by force
    from 7 obtain pos where pos: "pos \<le> offset + len" "rw_inv s offset pos (rw_result v) t"
      "stopped \<longrightarrow> \<not> io_ok (rw_result v)"
      "\<not> stopped \<longrightarrow> pos = offset + len \<or> pos < offset + len \<and>
         rw_chunk (rw_params_of d bs flags ok path) pos (offset + len) = 0"
      unfolding r by auto
    then have post: "?post (rw_result v) t'" if "quiet_post t t'" for t'
      using rw_inv_quiet [OF pos(2) that] by blast
    have "wpx False k (maybe_promote os d pr (rw_cached_from v) (rw_cached_to v) (rw_last_poll v) ps True)
        (\<lambda>_. ?post (rw_result v)) t"
      by (rule wpx_weaken [OF maybe_promote_quiet]) (assumption | erule post)+
    moreover have "?post (rw_result v) t"
      using post quiet_post_world [of t "world t"] by simp
    ultimately show ?case unfolding r by simp
  qed (use fin assms(4) in auto)
  have sysc_step: "wpx False k (iob (sysc f) m) Q (s\<lparr>world := w\<rparr>)"
    if "\<And>a w. wpx False k (m a) Q (s\<lparr>world := w\<rparr>)" for f m Q w
    unfolding wpx_bind by (rule world_only_wpx [OF world_only_sysc]) (simp only: world_twice that)
  have "wpx False k (rewrite_range os d offset len bs flags path) ?post (s\<lparr>world := world s\<rparr>)"
    unfolding rewrite_range_def Let_def
    by (intro sysc_step wpx_ifI refuse run)
  then show ?thesis by simp
qed

lemma ram_live: "live ram_sys" "pause_ends ram_sys TYPE((bytes, 'z) pmach_scheme)"
  by (simp_all add: never_interrupts_def pause_ends_def ram_sys_def wait_if_paused_def iob_def
      sysc_def)

section \<open>The content of the device\<close>

lemma keeps_upd_prog [stays_intros]: "keeps (\<lambda>s. g (world s)) c (upd_prog f)"
  by (simp add: stays_def)

lemma pg_mark_keeps [stays_intros]: "keeps (\<lambda>s. g (world s)) c (pg_mark_cell off len st)"
  unfolding pg_mark_cell_def by (rule keeps_upd_prog)

lemma pg_keeps:
  assumes "posix_quiet os content"
  shows "keeps (\<lambda>s. content (world s)) c (pg_log os off len st msg)"
    and "keeps (\<lambda>s. content (world s)) c (pg_message os lv msg)"
    and "keeps (\<lambda>s. content (world s)) c (pg_add_done os n)"
  using assms unfolding pg_defs posix_quiet_def by (intro stays_intros keeps_sysc; blast)+

lemma quiet_keeps:
  assumes "posix_quiet os content"
  shows "keeps (\<lambda>s. content (world s)) c (query_flush_state os f off len probe)"
    and "keeps (\<lambda>s. content (world s)) c (wait_flushed os f off len)"
    and "keeps (\<lambda>s. content (world s)) c (wait_if_paused os)"
    and "keeps (\<lambda>s. content (world s)) c (sysc (sys_steady os))"
    and "keeps (\<lambda>s. content (world s)) c (sysc (sys_memalign os a b))"
proof -
  show "keeps (\<lambda>s. content (world s)) c (query_flush_state os f off len probe)"
    unfolding stays_def
    by (intro allI impI, rule wpx_weaken [OF flush_content(1) [OF assms]]) auto
  show "keeps (\<lambda>s. content (world s)) c (wait_flushed os f off len)"
    unfolding stays_def
    by (intro allI impI, rule wpx_weaken [OF flush_content(2) [OF assms]]) auto
  show "keeps (\<lambda>s. content (world s)) c (wait_if_paused os)"
    unfolding stays_def
    by (intro allI impI, rule wpx_weaken [OF wait_if_paused_frame [OF loads_keep_posix [OF assms]]])
      auto
qed (use assms in \<open>auto simp: posix_quiet_def intro!: keeps_sysc\<close>)

lemma maybe_promote_keeps:
  assumes "posix_quiet os content"
  shows "keeps (\<lambda>s. content (world s)) c (maybe_promote os d probe from to lp ps force)"
  unfolding maybe_promote_def by (intro stays_intros pg_keeps quiet_keeps assms)

lemma rw_block_keeps:
  assumes "posix_disk os {d_fd d, d_fd_direct d} content" and "length c < 2 ^ 63"
  shows "keeps (\<lambda>s. content (world s)) c (rw_block os d q pos chunk v)"
proof -
  have r: "posix_read os {d_fd d} content" "posix_read os {d_fd_direct d} content"
    and w: "posix_quiet os content"
    using posix_disk_mono [OF assms(1), of "{d_fd d}"]
      posix_disk_mono [OF assms(1), of "{d_fd_direct d}"] by (simp_all add: posix_disk_def)
  have fail: "keeps (\<lambda>s. content (world s)) c (rw_fail os path what st cell pos chunk e v)"
    for path what st cell e
    unfolding rw_fail_def by (intro stays_intros pg_keeps w)
  have verify: "keeps (\<lambda>s. content (world s)) c (rw_verify os d wt al sc buf pos chunk)"
    for wt al sc buf
    unfolding rw_verify_def verify_against_media_def
    by (intro stays_intros quiet_keeps keeps_pread_direct r w assms(2))
  show ?thesis
  proof (cases "rp_verify_only q")
    case True
    then show ?thesis
      unfolding rw_block_def
      by (intro keeps_pread_all [OF r(1) assms(2)])
        (auto intro!: fail stays_bind stays_ret pg_keeps pg_mark_keeps w)
  next
    case False
    then show ?thesis
      unfolding rw_block_def if_not_P [OF False] rw_cached_def
      by (intro block.read_write_back [OF r(1) assms] stays_intros fail verify pg_keeps w
          maybe_promote_keeps)
  qed
qed

lemma rewrite_range_keeps:
  assumes "posix_disk os {d_fd d, d_fd_direct d} content" and "length c < 2 ^ 63"
  shows "keeps (\<lambda>s :: ('w, 'z) pmach_scheme. content (world s)) c (rewrite_range os d off len bs flags path)"
proof -
  have q: "posix_quiet os content" using assms(1) by (simp add: posix_disk_def)
  have loop: "keeps (\<lambda>s :: ('w, 'z) pmach_scheme. content (world s)) c (rw_loop os d p fin pos v)"
    for p fin pos v
  proof (cases "pos \<le> fin")
    case True
    show ?thesis
      unfolding stays_def
    proof (intro allI impI, rule rw_loop_rule [where I = "\<lambda>pos v s. content (world s) = c", OF _ True])
      show "wlp (wait_if_paused os) (\<lambda>_ s'. content (world s') = c) t"
        if "content (world t) = c" for t :: "('w, 'z) pmach_scheme"
        by (rule keeps_wlp [where g = "\<lambda>s. content (world s)", OF quiet_keeps(3) [OF q] that])
      show "wlp (rw_block os d p pos' chunk v') (\<lambda>_ s'. content (world s') = c) t"
        if "content (world t) = c" for pos' chunk v' and t :: "('w, 'z) pmach_scheme"
        by (rule keeps_wlp [where g = "\<lambda>s. content (world s)", OF rw_block_keeps [OF assms] that])
    qed auto
  next
    case False
    then show ?thesis by (subst rw_loop.simps) (auto intro: stays_ret)
  qed
  show ?thesis
    unfolding rewrite_range_def rw_refuse_def
    by (intro stays_intros quiet_keeps pg_keeps loop maybe_promote_keeps q)
qed

text \<open>C1: rewriting never changes the device.  Whatever the flags, and whatever happens on the way
  (a read or write that fails or stops half-way, a failed verification, a pause, a stop), on
  return the bytes behind the descriptors are the ones that were there before, because a block is
  written only where it was read, and only with what was read.\<close>

theorem rewrite_preserves_content:
  fixes s :: "('w, 'z) pmach_scheme"
  assumes "posix_disk os {d_fd d, d_fd_direct d} content"
    and "length (content (world s)) < 2 ^ 63"
    and "rewrite_range os d off len bs flags path s = Ret (r, s')"
  shows "content (world s') = content (world s)"
  using keepsD [OF rewrite_range_keeps [OF assms(1,2)] refl assms(3)] .

lemma rewrite_preserves_content_witness:
  "\<exists>r s'. rewrite_range ram_sys ram_dev 0 3 2
       \<lparr>rf_verify_only = False, rf_write_cache = WriteThrough, rf_verify_writes = False,
        rf_flush_poll_ms = 0\<rparr> [] \<lparr>world = [7, 8, 9], prog = progress_init\<rparr> = Ret (r, s') \<and>
     world s' = [7, 8, 9]"
proof -
  let ?f = "\<lparr>rf_verify_only = False, rf_write_cache = WriteThrough, rf_verify_writes = False,
        rf_flush_poll_ms = 0\<rparr>" and ?s = "\<lparr>world = [7, 8, 9 :: u8], prog = progress_init\<rparr>"
  have run: "\<exists>r s'. rewrite_range ram_sys ram_dev 0 3 2 ?f [] ?s = Ret (r, s')"
    using twp_returns [OF rewrite_range_inv [of False ram_sys ?s 0 3 ram_dev 2 ?f "[]",
          OF conjI [OF ram_live]]]
    by (auto simp: progress_init_def)
  show ?thesis
    using run rewrite_preserves_content [OF posix_disk_mono [OF ram_sys_disk], of ram_dev ?s 0 3 2 ?f "[]"]
    by force
qed

section \<open>The report of a run\<close>


lemma ram_rewrite_returns:
  assumes "p_bytes_done p \<le> p_bytes_total p" and "unat offset + unat len < 18446744073709551616"
    and "unat (p_bytes_done p) + unat len < 18446744073709551616"
  shows "\<exists>r s'. rewrite_range ram_sys d offset len bs flags path \<lparr>world = w, prog = p\<rparr> = Ret (r, s')"
  using twp_returns [OF rewrite_range_inv [of False ram_sys "\<lparr>world = w, prog = p\<rparr>" offset len d
        bs flags path, OF conjI [OF ram_live]]] assms
  by auto


text \<open>The size of the blocks: no wrap-around, so never zero, and a multiple of the alignment
  wherever direct transfers are needed.  Then the trimming of a chunk to the alignment never
  applies.\<close>

lemma round_block:
  assumes "unat (if bs = 0 then 4096 else bs) + unat align \<le> 18446744073709551616" and "align \<noteq> 0"
  shows "round_block flags align bs \<noteq> 0"
    and "(rf_write_cache flags = WriteThrough \<or> rf_verify_writes flags) \<and> \<not> rf_verify_only flags \<Longrightarrow>
      round_block flags align bs mod align = 0"
    and "unat (if bs = 0 then 4096 else bs) \<le> unat (round_block flags align bs)"
proof -
  define b where "b = (if bs = 0 then 4096 else bs)"
  have b: "0 < unat b" by (simp add: b_def unat_gt_0)
  have al: "0 < unat align" using assms(2) by (simp add: unat_gt_0)
  let ?q = "(b + align - 1) div align"
  have q: "unat ?q = ceil_div (unat b) (unat align)"
    using assms(1) by (intro unat_ceil_div_u64) (simp_all add: b_def assms(2))
  have le: "ceil_div (unat b) (unat align) * unat align \<le> unat b + unat align - 1"
    by (simp add: ceil_div_def)
  have "unat (?q * align) = ceil_div (unat b) (unat align) * unat align"
    using le assms(1) al unfolding q [symmetric] by (intro unat_mult_u64) (simp add: q b_def)
  moreover have "unat b \<le> ceil_div (unat b) (unat align) * unat align"
    using ceil_div_le_iff [OF al, of "unat b" "ceil_div (unat b) (unat align)"] by simp
  ultimately have r: "unat b \<le> unat (?q * align)" "?q * align mod align = 0"
    by (simp_all add: word_unat_eq_iff unat_mod)
  have unfold_r: "round_block flags align bs =
      (if (rf_write_cache flags = WriteThrough \<or> rf_verify_writes flags) \<and> \<not> rf_verify_only flags \<and>
          b mod align \<noteq> 0 then ?q * align else b)"
    by (simp add: round_block_def Let_def b_def)
  show "unat (if bs = 0 then 4096 else bs) \<le> unat (round_block flags align bs)"
    using r unfolding unfold_r b_def by auto
  then show "round_block flags align bs \<noteq> 0"
    using b unfolding b_def [symmetric] by (auto simp: unat_gt_0 [symmetric] word_neq_0_conv)
  show "(rf_write_cache flags = WriteThrough \<or> rf_verify_writes flags) \<and> \<not> rf_verify_only flags \<Longrightarrow>
      round_block flags align bs mod align = 0"
    using r unfolding unfold_r by auto
qed

lemma rw_chunk_whole:
  fixes flags :: rewrite_flags and ok :: bool and path :: string and d :: device and bs :: u64
  assumes "unat (if bs = 0 then 4096 else bs) + unat (dev_align d) \<le> 18446744073709551616"
    and "pos < fin"
  defines "q \<equiv> rw_params_of d bs flags ok path"
  shows "rw_chunk q pos fin = min (rp_block_size q) (fin - pos) \<and> rw_chunk q pos fin \<noteq> 0 \<and>
    (rp_need_direct q \<longrightarrow> rp_block_size q mod rp_align q = 0)"
proof -
  have "dev_align d \<noteq> 0" by (simp add: dev_align_def)
  note r = round_block [OF assms(1) this, of flags]
  have q: "rp_block_size q = round_block flags (dev_align d) bs" "rp_align q = dev_align d"
    "rp_need_direct q \<longleftrightarrow>
       (rf_write_cache flags = WriteThrough \<or> rf_verify_writes flags) \<and> \<not> rf_verify_only flags"
    by (simp_all add: q_def rw_params_of_def)
  have al: "rp_need_direct q \<Longrightarrow> rp_block_size q mod rp_align q = 0"
    unfolding q by (rule r(2))
  have "rw_chunk q pos fin = min (rp_block_size q) (fin - pos)"
  proof (cases "rp_need_direct q \<and> pos + min (rp_block_size q) (fin - pos) < fin")
    case True
    then have "min (rp_block_size q) (fin - pos) = rp_block_size q"
      by (cases "rp_block_size q \<le> fin - pos") (auto simp: min_def)
    then show ?thesis using al True by (simp add: rw_chunk_def Let_def)
  qed (auto simp: rw_chunk_def Let_def)
  moreover have "min (rp_block_size q) (fin - pos) \<noteq> 0"
    using r(1) assms(2) by (auto simp: min_def q(1))
  ultimately show ?thesis using al by simp
qed

section \<open>A dry run\<close>

text \<open>The system with other answers to everything that changes a disk.\<close>

definition read_only_view :: "'w sys \<Rightarrow> 'w sys \<Rightarrow> bool" where
  "read_only_view os os' \<longleftrightarrow> (\<exists>f g h. os' = os\<lparr>sys_pwrite := f, sys_fdatasync := g, sys_sync_range := h\<rparr>)"

lemma io_exact_read_view:
  "read_only_view os os' \<Longrightarrow> io_exact_read fuel os' f off left acc = io_exact_read fuel os f off left acc"
proof (induction fuel os f off left acc rule: io_exact_read.induct)
  case (1 fuel os f off left acc)
  have call: "call_pread os' f left off = call_pread os f left off"
    using "1.prems" by (auto simp: read_only_view_def call_pread_def fun_eq_iff)
  show ?case
    using 1
    by (subst (1 2) io_exact_read.simps)
      (auto simp: call iob_def fun_eq_iff split: nat.splits errno.splits sum.splits
        intro!: obind_cong)
qed

lemma view_same:
  assumes "read_only_view os os'"
  shows "pread_all os' d = pread_all os d"
    and "wait_if_paused os' = wait_if_paused os"
    and "pg_log os' = pg_log os" and "pg_message os' = pg_message os"
    and "pg_add_done os' = pg_add_done os"
    and "query_flush_state os' = query_flush_state os"
    and "sys_memalign os' = sys_memalign os" and "sys_steady os' = sys_steady os"
proof -
  have f: "sys_fuel os' = sys_fuel os" "sys_load_paused os' = sys_load_paused os"
    "sys_load_stop os' = sys_load_stop os" "sys_time os' = sys_time os"
    "sys_cachestat os' = sys_cachestat os" "sys_mmap os' = sys_mmap os"
    "sys_mincore os' = sys_mincore os" "sys_pagesize os' = sys_pagesize os"
    and s: "sys_memalign os' = sys_memalign os" "sys_steady os' = sys_steady os"
    using assms by (auto simp: read_only_view_def)
  have "wait_loop n os' = wait_loop n os" for n
    by (induction n) (simp_all add: f cong: if_cong)
  then show "wait_if_paused os' = wait_if_paused os" by (simp add: wait_if_paused_def f)
  show "pread_all os' d = pread_all os d"
    by (simp add: pread_all_def fun_eq_iff io_exact_read_view [OF assms] f)
  show "pg_log os' = pg_log os" "pg_message os' = pg_message os" "pg_add_done os' = pg_add_done os"
    "query_flush_state os' = query_flush_state os"
    by (simp_all add: fun_eq_iff pg_defs flush_defs f s Let_def cong: if_cong option.case_cong)
qed (use assms in \<open>auto simp: read_only_view_def\<close>)

lemma rw_block_view:
  "read_only_view os os' \<Longrightarrow> rp_verify_only q \<Longrightarrow> rw_block os' d q pos chunk v = rw_block os d q pos chunk v"
  by (simp add: rw_block_def rw_fail_def view_same fun_eq_iff cong: if_cong sum.case_cong)

lemma rw_loop_view:
  assumes "read_only_view os os'" and "rp_verify_only q"
  shows "rw_loop os' d q fin pos v =
    (rw_loop os d q fin pos v :: (('w, 'z) pmach_scheme, rw_vars \<times> bool) io)"
proof (induction "unat fin - unat pos" arbitrary: pos v rule: less_induct)
  case less
  show ?case
  proof (cases "pos < fin \<and> rw_chunk q pos fin \<noteq> 0")
    case True
    then have "0 < unat (rw_chunk q pos fin)" by (simp add: unat_gt_0)
    then have "unat fin - unat (pos + rw_chunk q pos fin) < unat fin - unat pos"
      using rw_chunk_advance [of pos fin q] True by (auto simp: word_le_unat word_less_unat)
    then have "rw_loop os' d q fin (pos + rw_chunk q pos fin) v' =
        (rw_loop os d q fin (pos + rw_chunk q pos fin) v' :: (('w, 'z) pmach_scheme, _) io)" for v'
      by (rule less.hyps)
    then have "rw_loop os' d q fin (pos + rw_chunk q pos fin) =
        (rw_loop os d q fin (pos + rw_chunk q pos fin) ::
           _ \<Rightarrow> (('w, 'z) pmach_scheme, rw_vars \<times> bool) io)"
      by (rule ext)
    then show ?thesis
      by (subst (1 2) rw_loop.simps) (simp add: view_same [OF assms(1)] rw_block_view [OF assms] cong: if_cong)
  next
    case False
    then show ?thesis
      by (subst (1 2) rw_loop.simps) (auto simp: view_same [OF assms(1)] cong: if_cong)
  qed
qed

text \<open>C6: a dry run reads and nothing else: with \<open>verify_only\<close> the result, the final state and
  every effect on the world are the same for any two systems that differ only in what writing,
  flushing and syncing would do.\<close>

theorem dry_run_never_writes:
  assumes "rf_verify_only flags"
  shows "rewrite_range (os\<lparr>sys_pwrite := f, sys_fdatasync := g, sys_sync_range := h\<rparr>)
      d offset len bs flags path s =
    rewrite_range os d offset len bs flags path s"
proof -
  have v: "read_only_view os (os\<lparr>sys_pwrite := f, sys_fdatasync := g, sys_sync_range := h\<rparr>)"
    unfolding read_only_view_def by blast
  have "rp_verify_only (rw_params_of d bs flags ok path)" for ok
    using assms by (simp add: rw_params_of_def)
  then show ?thesis
    by (simp add: rewrite_range_def rw_refuse_def maybe_promote_def view_same [OF v] rw_loop_view [OF v]
        Let_def cong: if_cong)
qed

lemma dry_run_never_writes_witness:
  "rewrite_range (ram_sys\<lparr>sys_pwrite := \<lambda>f bs off w. (Inr (length bs), []),
       sys_fdatasync := sys_fdatasync ram_sys, sys_sync_range := sys_sync_range ram_sys\<rparr>) ram_dev 0 3 2
     \<lparr>rf_verify_only = True, rf_write_cache = WriteThrough, rf_verify_writes = True,
      rf_flush_poll_ms = 0\<rparr> [] \<lparr>world = [7, 8, 9], prog = progress_init\<rparr> =
   rewrite_range ram_sys ram_dev 0 3 2
     \<lparr>rf_verify_only = True, rf_write_cache = WriteThrough, rf_verify_writes = True,
      rf_flush_poll_ms = 0\<rparr> [] \<lparr>world = [7, 8, 9], prog = progress_init\<rparr>"
  by (rule dry_run_never_writes) simp

text \<open>Blocks fit the device: every position is reached in whole blocks, the last one cut to
  the end of the range, and where direct transfers are needed the block size is a multiple of the
  alignment, so the code that trims a chunk to the alignment never does anything.\<close>

theorem rewrite_chunks:
  fixes flags :: rewrite_flags and ok :: bool and path :: string and d :: device and bs :: u64
  assumes "unat (if bs = 0 then 4096 else bs) + unat (dev_align d) \<le> 2 ^ 64"
    and "pos < fin"
  defines "q \<equiv> rw_params_of d bs flags ok path"
  shows "rw_chunk q pos fin = min (rp_block_size q) (fin - pos) \<and> rw_chunk q pos fin \<noteq> 0 \<and>
    (rp_need_direct q \<longrightarrow> rp_block_size q mod rp_align q = 0)"
  using assms(1,2) unfolding q_def by (intro rw_chunk_whole) simp_all

lemma rewrite_chunks_witness:
  "rw_chunk (rw_params_of ram_dev 6000 \<lparr>rf_verify_only = False, rf_write_cache = WriteThrough,
     rf_verify_writes = False, rf_flush_poll_ms = 0\<rparr> True []) 0 10000 = 8192"
  using rewrite_chunks [of 6000 ram_dev 0 10000 "\<lparr>rf_verify_only = False,
     rf_write_cache = WriteThrough, rf_verify_writes = False, rf_flush_poll_ms = 0\<rparr>" True "[]"]
  by (simp add: rw_params_of_def round_block_def dev_align_def device_init_def Let_def)

text \<open>C5: a run comes back, whatever the disk answers, as long as the system does not interrupt the
  calls for ever and pauses end; and if it reports success it has been through the whole range:
  the bytes accounted for grow by its length (up to the total).\<close>

theorem rewrite_returns:
  fixes s :: "('w, 'z) pmach_scheme"
  assumes "never_interrupts os" and "pause_ends os TYPE(('w, 'z) pmach_scheme)"
    and "p_bytes_done (prog s) \<le> p_bytes_total (prog s)"
    and "unat offset + unat len < 2 ^ 64"
    and "unat (p_bytes_done (prog s)) + unat len < 2 ^ 64"
    and "unat (if bs = 0 then 4096 else bs) + unat (dev_align d) \<le> 2 ^ 64"
  shows "\<exists>r s'. rewrite_range os d offset len bs flags path s = Ret (r, s') \<and>
    (io_ok r \<longrightarrow> unat (p_bytes_done (prog s')) =
       min (unat (p_bytes_total (prog s))) (unat (p_bytes_done (prog s)) + unat len))"
proof -
  have fin: "unat (offset + len) = unat offset + unat len"
    using assms(4) by (simp add: unat_add_u64)
  have chunk: "pos < offset + len \<Longrightarrow> rw_chunk (rw_params_of d bs flags ok path) pos (offset + len) \<noteq> 0"
    for pos ok
    by (rule rw_chunk_whole [THEN conjunct2, THEN conjunct1]) (use assms(6) in simp_all)
  have "twp (rewrite_range os d offset len bs flags path) (\<lambda>r s'. io_ok r \<longrightarrow>
      unat (p_bytes_done (prog s')) =
       min (unat (p_bytes_total (prog s))) (unat (p_bytes_done (prog s)) + unat len)) s"
    by (rule wpx_weaken [OF rewrite_range_inv [of False os s offset len d bs flags path]])
      (use assms fin chunk in \<open>auto simp: rw_inv_def\<close>)
  then show ?thesis by (auto dest: twp_returns)
qed

lemma rewrite_returns_witness:
  "\<exists>r s'. rewrite_range ram_sys ram_dev 0 3 2
       \<lparr>rf_verify_only = False, rf_write_cache = CacheMincore, rf_verify_writes = False,
        rf_flush_poll_ms = 0\<rparr> [] \<lparr>world = [7, 8, 9], prog = progress_init\<lparr>p_bytes_total := 9\<rparr>\<rparr> =
       Ret (r, s') \<and> (io_ok r \<longrightarrow> unat (p_bytes_done (prog s')) = 3)"
  using rewrite_returns [OF ram_live, of "\<lparr>world = [7, 8, 9],
      prog = progress_init\<lparr>p_bytes_total := 9\<rparr>\<rparr>" 0 3 2 ram_dev "\<lparr>rf_verify_only = False,
      rf_write_cache = CacheMincore, rf_verify_writes = False, rf_flush_poll_ms = 0\<rparr>" "[]"]
  by (simp add: progress_init_def dev_align_def device_init_def)

end
