(* ===== verification/Options.thy ===== *)
theory Options
  imports Catalog BlockIo
begin

text \<open>
  The command line (\<open>src/options.hpp\<close>, \<open>options.cpp\<close>).

  The C library's \<open>getopt_long\<close> turns the arguments into a list of options, with the operands at
  the end; what it returns is the input of \<open>parse_options\<close>.  The C library's \<open>strtoull\<close> with base 0
  is written out, as the block size depends on it.  The texts that are printed are left out.
\<close>

section \<open>Options\<close>

datatype run_mode = RunLinear | RunRecursive

datatype run_action = ActMassage | ActTest

record options =
  op_target :: string
  op_sqlite_db :: string
  op_sqlite_db_explicit :: bool
  op_block_size :: u64
  op_mode :: run_mode
  op_action :: run_action
  op_dry_run :: bool
  op_write_cache :: write_cache_mode
  op_verify_writes :: bool
  op_flush_poll_ms :: int
  op_sha1_valid_days :: int
  op_gui :: bool
  op_verbosity :: int

definition options_init :: options where
  "options_init = \<lparr>op_target = [], op_sqlite_db = [], op_sqlite_db_explicit = False, op_block_size = 0,
     op_mode = RunLinear, op_action = ActMassage, op_dry_run = False, op_write_cache = CacheCachestat,
     op_verify_writes = False, op_flush_poll_ms = 780, op_sha1_valid_days = 183, op_gui = False,
     op_verbosity = 0\<rparr>"

definition write_through :: "options \<Rightarrow> bool" where
  "write_through o1 \<longleftrightarrow> op_write_cache o1 = WriteThrough"

section \<open>Numbers\<close>

definition digit_value :: "char \<Rightarrow> nat" where
  "digit_value c =
     (let n = of_char c in
      if 48 \<le> n \<and> n \<le> 57 then n - 48
      else if 97 \<le> n \<and> n \<le> 122 then n - 87
      else if 65 \<le> n \<and> n \<le> 90 then n - 55
      else 99)"

definition based_value :: "nat \<Rightarrow> string \<Rightarrow> nat" where
  "based_value base s = foldl (\<lambda>v c. base * v + digit_value c) 0 s"

text \<open>The base that the front of a number asks for, and the number without its prefix.\<close>

definition number_base :: "string \<Rightarrow> nat \<times> string" where
  "number_base s =
     (case s of
        z # x # d # r \<Rightarrow>
          if z = CHR ''0'' \<and> (x = CHR ''x'' \<or> x = CHR ''X'') \<and> digit_value d < 16 then (16, d # r)
          else if z = CHR ''0'' then (8, s) else (10, s)
      | z # _ \<Rightarrow> if z = CHR ''0'' then (8, s) else (10, s)
      | [] \<Rightarrow> (10, s))"

text \<open>\<open>strtoull(s, &end, 0)\<close>: the value and the text at \<open>end\<close>.\<close>

definition strtoull0 :: "string \<Rightarrow> u64 \<times> string" where
  "strtoull0 s =
     (let s1 = dropWhile is_space s;
          neg = (s1 \<noteq> [] \<and> hd s1 = CHR ''-'');
          s2 = (if s1 \<noteq> [] \<and> hd s1 \<in> {CHR ''-'', CHR ''+''} then tl s1 else s1) in
      case number_base s2 of
        (base, s3) \<Rightarrow>
          let ds = takeWhile (\<lambda>c. digit_value c < base) s3; v = based_value base ds in
          if ds = [] then (0, s)
          else (if 2 ^ 64 \<le> v then - 1 else if neg then - word_of_nat v else word_of_nat v,
                dropWhile (\<lambda>c. digit_value c < base) s3))"

section \<open>Parsing\<close>

datatype getopt_result =
    OptBlockSize string
  | OptSqliteDb string
  | OptTest
  | OptLinear
  | OptRecursive
  | OptGui
  | OptVerbose
  | OptQuiet
  | OptHelp
  | OptVersion
  | OptUnknown

datatype parse_result = Parsed options | Rejected | Exited

definition parse_operands :: "string list \<Rightarrow> options \<Rightarrow> parse_result" where
  "parse_operands rest o1 =
     (case rest of
        [] \<Rightarrow> if op_gui o1 then Parsed o1 else Rejected
      | [t] \<Rightarrow> Parsed (o1\<lparr>op_target := t\<rparr>)
      | _ \<Rightarrow> Rejected)"

fun parse_options :: "getopt_result list \<Rightarrow> string list \<Rightarrow> options \<Rightarrow> parse_result" where
  "parse_options [] rest o1 = parse_operands rest o1"
| "parse_options (OptBlockSize s # os) rest o1 =
     (case strtoull0 s of
        (v, fin) \<Rightarrow>
          if s = [] \<or> fin \<noteq> [] \<or> v = 0 then Rejected
          else parse_options os rest (o1\<lparr>op_block_size := v\<rparr>))"
| "parse_options (OptSqliteDb s # os) rest o1 =
     parse_options os rest (o1\<lparr>op_sqlite_db := s, op_sqlite_db_explicit := True\<rparr>)"
| "parse_options (OptTest # os) rest o1 = parse_options os rest (o1\<lparr>op_action := ActTest\<rparr>)"
| "parse_options (OptLinear # os) rest o1 = parse_options os rest (o1\<lparr>op_mode := RunLinear\<rparr>)"
| "parse_options (OptRecursive # os) rest o1 = parse_options os rest (o1\<lparr>op_mode := RunRecursive\<rparr>)"
| "parse_options (OptGui # os) rest o1 = parse_options os rest (o1\<lparr>op_gui := True\<rparr>)"
| "parse_options (OptVerbose # os) rest o1 = parse_options os rest (o1\<lparr>op_verbosity := op_verbosity o1 + 1\<rparr>)"
| "parse_options (OptQuiet # os) rest o1 = parse_options os rest (o1\<lparr>op_verbosity := op_verbosity o1 - 1\<rparr>)"
| "parse_options (OptHelp # os) rest o1 = Exited"
| "parse_options (OptVersion # os) rest o1 = Exited"
| "parse_options (OptUnknown # os) rest o1 = Rejected"

section \<open>Lemmas\<close>

lemma digit_value_digit:
  assumes "is_digit c"
  shows "digit_value c = of_char c - 48" and "digit_value c < 10"
  using assms by (auto simp: digit_value_def is_digit_def Let_def)

lemma based_value_digits: "\<forall>c \<in> set s. is_digit c \<Longrightarrow> based_value 10 s = dec_value s"
proof (induction s rule: rev_induct)
  case (snoc c s)
  then show ?case
    using digit_value_digit(1) [of c] by (simp add: based_value_def dec_value_def)
qed (simp add: based_value_def dec_value_def)

lemma dec_digits_first: "0 < n \<Longrightarrow> hd (dec_digits n) \<noteq> CHR ''0''"
proof (induction n rule: dec_digits.induct)
  case (1 n)
  show ?case
  proof (cases "n < 10")
    case True
    then have "of_char (char_of (48 + n) :: char) \<noteq> (of_char CHR ''0'' :: nat)"
      using of_char_digit [OF True] 1(2) by simp
    then have "char_of (48 + n) \<noteq> CHR ''0''" by metis
    then show ?thesis using True by (subst dec_digits.simps) simp
  next
    case False
    then have "0 < n div 10" by simp
    with 1(1) [OF False] have "hd (dec_digits (n div 10)) \<noteq> CHR ''0''" by simp
    then show ?thesis using False by (subst dec_digits.simps) (simp add: dec_digits_ne)
  qed
qed

lemma number_base_decimal: "s \<noteq> [] \<Longrightarrow> hd s \<noteq> CHR ''0'' \<Longrightarrow> number_base s = (10, s)"
  by (auto simp: number_base_def split: list.split)

lemma dec_digits_plain:
  assumes "0 < n"
  shows "dec_digits n \<noteq> []" and "dropWhile is_space (dec_digits n) = dec_digits n"
    and "hd (dec_digits n) \<noteq> CHR ''-''" and "hd (dec_digits n) \<noteq> CHR ''+''"
    and "number_base (dec_digits n) = (10, dec_digits n)"
    and "takeWhile (\<lambda>c. digit_value c < 10) (dec_digits n) = dec_digits n"
    and "dropWhile (\<lambda>c. digit_value c < 10) (dec_digits n) = []"
    and "based_value 10 (dec_digits n) = n"
proof -
  let ?s = "dec_digits n"
  have d: "\<forall>c \<in> set ?s. is_digit c" and ne: "?s \<noteq> []"
    by (rule dec_digits_are_digits) (rule dec_digits_ne)
  then have h: "is_digit (hd ?s)" by simp
  show "?s \<noteq> []" by (rule ne)
  show "dropWhile is_space ?s = ?s" using h digit_not_sign ne by (cases ?s) auto
  show "hd ?s \<noteq> CHR ''-''" "hd ?s \<noteq> CHR ''+''" using digit_not_sign [OF h] by blast+
  show "number_base ?s = (10, ?s)" by (rule number_base_decimal [OF ne dec_digits_first [OF assms]])
  have "\<forall>c \<in> set ?s. digit_value c < 10" using d digit_value_digit(2) by blast
  then show "takeWhile (\<lambda>c. digit_value c < 10) ?s = ?s" "dropWhile (\<lambda>c. digit_value c < 10) ?s = []"
    by (simp_all add: takeWhile_eq_all_conv)
  show "based_value 10 ?s = n" using based_value_digits [OF d] by (simp add: dec_value_digits)
qed

lemma strtoull0_digits:
  assumes "0 < n"
  shows "strtoull0 (dec_digits n) = (if 2 ^ 64 \<le> n then - 1 else word_of_nat n, [])"
    and "strtoull0 (CHR ''-'' # dec_digits n) = (if 2 ^ 64 \<le> n then - 1 else - word_of_nat n, [])"
  by (simp_all add: strtoull0_def Let_def is_space_def dec_digits_plain [OF assms])

section \<open>Properties\<close>

text \<open>An accepted command line names at most one target, and none only with a user interface; its
  block size is zero, which means automatic, only if no block size was given.\<close>

theorem accepted_options:
  assumes "parse_options os rest o1 = Parsed o2"
  shows "(rest = [] \<and> op_gui o2 \<and> op_target o2 = op_target o1 \<or> (\<exists>t. rest = [t] \<and> op_target o2 = t)) \<and>
    (op_block_size o2 = 0 \<longrightarrow> op_block_size o1 = 0 \<and> (\<forall>s. OptBlockSize s \<notin> set os))"
  using assms
  by (induction os rest o1 rule: parse_options.induct)
    (auto simp: parse_operands_def split: list.splits if_splits prod.splits)

lemma accepted_options_witness:
  "\<exists>o2. parse_options [OptBlockSize ''0x1000'', OptQuiet] [''/dev/sdx''] options_init = Parsed o2 \<and>
     op_target o2 = ''/dev/sdx''"
proof -
  have run: "parse_options [OptBlockSize ''0x1000'', OptQuiet] [''/dev/sdx''] options_init =
     Parsed (options_init\<lparr>op_block_size := 4096, op_verbosity := - 1, op_target := ''/dev/sdx''\<rparr>)"
    by (simp add: strtoull0_def number_base_def digit_value_def based_value_def is_space_def
        parse_operands_def options_init_def)
  show ?thesis
    using accepted_options [OF run] run by auto
qed

text \<open>A block size written in decimal is the number that is meant, up to the range of the type;
  a negative one is not refused but wraps around, and a number that is too large becomes the
  largest.\<close>

theorem block_size_numbers:
  assumes "0 < n"
  shows "n < 2 ^ 64 \<Longrightarrow> parse_options [OptBlockSize (dec_digits n)] [t] o1 =
      Parsed (o1\<lparr>op_block_size := word_of_nat n, op_target := t\<rparr>)"
    and "n < 2 ^ 64 \<Longrightarrow> parse_options [OptBlockSize (CHR ''-'' # dec_digits n)] [t] o1 =
      Parsed (o1\<lparr>op_block_size := - word_of_nat n, op_target := t\<rparr>)"
    and "2 ^ 64 \<le> n \<Longrightarrow> parse_options [OptBlockSize (dec_digits n)] [t] o1 =
      Parsed (o1\<lparr>op_block_size := - 1, op_target := t\<rparr>)"
proof -
  have nz: "(word_of_nat n :: u64) \<noteq> 0" if "n < 2 ^ 64"
  proof
    assume "(word_of_nat n :: u64) = 0"
    then have "unat (word_of_nat n :: u64) = 0" by simp
    then show False using that assms by simp
  qed
  note digits = strtoull0_digits [OF assms] dec_digits_plain(1) [OF assms]
  show "n < 2 ^ 64 \<Longrightarrow> parse_options [OptBlockSize (dec_digits n)] [t] o1 =
      Parsed (o1\<lparr>op_block_size := word_of_nat n, op_target := t\<rparr>)"
    using nz digits by (simp add: parse_operands_def)
  show "n < 2 ^ 64 \<Longrightarrow> parse_options [OptBlockSize (CHR ''-'' # dec_digits n)] [t] o1 =
      Parsed (o1\<lparr>op_block_size := - word_of_nat n, op_target := t\<rparr>)"
    using nz digits by (simp add: parse_operands_def)
  show "2 ^ 64 \<le> n \<Longrightarrow> parse_options [OptBlockSize (dec_digits n)] [t] o1 =
      Parsed (o1\<lparr>op_block_size := - 1, op_target := t\<rparr>)"
    using digits by (simp add: parse_operands_def)
qed

lemma block_size_numbers_witness:
  "parse_options [OptBlockSize (CHR ''-'' # dec_digits 1)] [''x''] options_init =
     Parsed (options_init\<lparr>op_block_size := 18446744073709551615, op_target := ''x''\<rparr>)"
  "parse_options [OptBlockSize (dec_digits 65536)] [''x''] options_init =
     Parsed (options_init\<lparr>op_block_size := 65536, op_target := ''x''\<rparr>)"
  "parse_options [OptBlockSize (dec_digits (2 ^ 70))] [''x''] options_init =
     Parsed (options_init\<lparr>op_block_size := - 1, op_target := ''x''\<rparr>)"
proof -
  show "parse_options [OptBlockSize (CHR ''-'' # dec_digits 1)] [''x''] options_init =
     Parsed (options_init\<lparr>op_block_size := 18446744073709551615, op_target := ''x''\<rparr>)"
    using block_size_numbers(2) [of 1 "''x''" options_init] by simp
  show "parse_options [OptBlockSize (dec_digits 65536)] [''x''] options_init =
     Parsed (options_init\<lparr>op_block_size := 65536, op_target := ''x''\<rparr>)"
    using block_size_numbers(1) [of 65536 "''x''" options_init] by simp
  show "parse_options [OptBlockSize (dec_digits (2 ^ 70))] [''x''] options_init =
     Parsed (options_init\<lparr>op_block_size := - 1, op_target := ''x''\<rparr>)"
    using block_size_numbers(3) [of "2 ^ 70" "''x''" options_init] by simp
qed

end
