(* ===== verification/Scanners.thy ===== *)
theory Scanners
  imports Detect Device
begin

text \<open>
  The probes and scanners (\<open>src/io/partition.cpp\<close>, \<open>src/fs/*.cpp\<close>) touch the device through their
  reading function only.  The interface is the locale \<open>passive_reader\<close>: reading keeps an observation
  of the state.  Inside it every probe and scanner is shown to keep it too; the locale is interpreted
  on the device's \<open>pread_all\<close> and the content of the disk.
\<close>

locale passive_reader =
  fixes rd :: "'s rd_fun" and obs :: "'s \<Rightarrow> 'c" and ok :: "'c \<Rightarrow> bool"
  assumes rd_keeps: "ok c \<Longrightarrow> keeps obs c (rd off n)"
begin

lemma fail_keeps: "keeps obs c (scan_fail e out)"
  unfolding scan_fail_def by (rule stays_ret)

lemma probe_keeps: "ok c \<Longrightarrow> keeps obs c (probe_partitions rd ss)"
  unfolding probe_partitions_def probe_gpt_def probe_mbr_def by (intro stays_intros rd_keeps)

lemma detect_keeps: "ok c \<Longrightarrow> keeps obs c (detect_fs rd base)"
  unfolding detect_fs_def by (intro stays_intros rd_keeps)

lemma read_extents_keeps: "ok c \<Longrightarrow> keeps obs c (read_extents rd es buf)"
  by (induction es arbitrary: buf) (auto intro!: stays_intros rd_keeps)

lemma fat_entries_keeps:
  assumes "\<And>a b d. keeps obs c (rec a b d)"
  shows "keeps obs c (fat_entries rec g fat pfx buf i lfn out)"
proof (induction "length buf - i" arbitrary: i lfn out rule: less_induct)
  case less
  show ?case
    by (subst fat_entries.simps) (intro stays_intros less assms; linarith)
qed

lemma fat_walk_keeps: "ok c \<Longrightarrow> keeps obs c (fat_walk_dir fuel rd g fat clus rt pfx out)"
proof (induction fuel arbitrary: clus rt pfx out)
  case 0
  show ?case by (simp add: stays_stuck)
next
  case (Suc fuel)
  show ?case
    unfolding fat_walk_dir.simps
    by (intro stays_intros rd_keeps read_extents_keeps fail_keeps fat_entries_keeps Suc)
qed

lemma scan_fat_keeps: "ok c \<Longrightarrow> keeps obs c (scan_fat fuel rd base ty out)"
  unfolding scan_fat_def scan_fat_volume_def
  by (intro stays_intros rd_keeps fail_keeps fat_walk_keeps)

lemma ex_entries_keeps:
  assumes "\<And>a b d. keeps obs c (rec a b d)"
  shows "keeps obs c (ex_entries rec g fat pfx dir i out)"
proof (induction "length dir - i" arbitrary: i out rule: less_induct)
  case less
  have adv: "length dir - fst (ex_name_loop dir n (64 + i) name) < length dir - i"
    if "\<not> length dir < 64 + i" for n name
    using ex_name_loop_mono [of "64 + i" dir n name] that by linarith
  show ?case
    by (subst ex_entries.simps) (intro stays_intros less assms; (linarith | simp add: adv))
qed

lemma ex_read_dir_keeps: "ok c \<Longrightarrow> keeps obs c (ex_read_dir rd g fat clus seen dir)"
proof (induction "unseen seen" arbitrary: clus seen dir rule: less_induct)
  case less
  show ?case
    by (subst ex_read_dir.simps) (intro stays_intros rd_keeps less; simp add: unseen_insert less.prems)
qed

lemma ex_walk_keeps: "ok c \<Longrightarrow> keeps obs c (ex_walk fuel rd g fat clus pfx out)"
proof (induction fuel arbitrary: clus pfx out)
  case 0
  show ?case by (simp add: stays_stuck)
next
  case (Suc fuel)
  show ?case
    unfolding ex_walk.simps
    by (intro stays_intros ex_read_dir_keeps fail_keeps ex_entries_keeps Suc)
qed

lemma scan_exfat_keeps: "ok c \<Longrightarrow> keeps obs c (scan_exfat fuel rd base out)"
  unfolding scan_exfat_def by (intro stays_intros rd_keeps fail_keeps ex_walk_keeps)

lemma scan_ntfs_keeps: "ok c \<Longrightarrow> keeps obs c (scan_ntfs fuel rd base out)"
  unfolding scan_ntfs_def scan_ntfs_volume_def
  by (intro stays_intros rd_keeps fail_keeps read_extents_keeps)

lemma read_block_keeps: "ok c \<Longrightarrow> keeps obs c (read_block rd g block)"
  unfolding read_block_def by (rule rd_keeps)

lemma read_inode_keeps: "ok c \<Longrightarrow> keeps obs c (read_inode rd g ino)"
  unfolding read_inode_def by (intro stays_intros rd_keeps)

lemma index_entries_keeps:
  assumes "\<And>a b. keeps obs c (rec a b)" and "ok c"
  shows "keeps obs c (index_entries rec rd g buf fsize n p left exts)"
  by (induction n arbitrary: p left exts) (auto intro!: stays_intros assms read_block_keeps)

lemma parse_extents_keeps: "ok c \<Longrightarrow> keeps obs c (parse_extents_full depth rd g buf eh fsize)"
proof (induction depth arbitrary: buf eh fsize)
  case 0
  show ?case by (simp add: stays_stuck)
next
  case (Suc depth)
  show ?case
    unfolding parse_extents_full.simps by (intro stays_intros index_entries_keeps Suc)
qed

lemma indirect_entries_keeps:
  assumes "\<And>a b. keeps obs c (rec a b)"
  shows "keeps obs c (indirect_entries rec buf n p st)"
  by (induction n arbitrary: p st) (auto intro!: stays_intros assms)

lemma collect_indirect_keeps: "ok c \<Longrightarrow> keeps obs c (collect_indirect level rd g block st)"
proof (induction level arbitrary: block st)
  case 0
  show ?case by (cases st) (simp only: collect_indirect.simps, intro stays_intros)
next
  case (Suc level)
  show ?case
    by (cases st) (simp only: collect_indirect.simps,
      intro stays_intros read_block_keeps indirect_entries_keeps Suc)
qed

lemma indirect_trees_keeps: "ok c \<Longrightarrow> keeps obs c (indirect_trees rd g inode ts st)"
proof (induction ts arbitrary: st)
  case (Cons t ts)
  show ?case
    by (cases t) (simp only: indirect_trees.simps, intro stays_intros collect_indirect_keeps Cons)
qed (simp add: stays_ret)

lemma inode_extents_keeps: "ok c \<Longrightarrow> keeps obs c (inode_data_extents depth rd g inode)"
  unfolding inode_data_extents_def
  by (intro stays_intros parse_extents_keeps indirect_entries_keeps collect_indirect_keeps indirect_trees_keeps)

lemma ext_entries_keeps:
  assumes "\<And>a b d e. keeps obs c (rec a b d e)"
  shows "keeps obs c (ext_entries rec pfx buf pos out seen)"
proof (induction "length buf - pos" arbitrary: pos out seen rule: less_induct)
  case less
  show ?case
    by (subst ext_entries.simps) (intro stays_intros less assms; linarith)
qed

lemma ext_walk_keeps: "ok c \<Longrightarrow> keeps obs c (ext_walk_dir fuel depth rd g ino pfx out seen)"
proof (induction fuel arbitrary: ino pfx out seen)
  case 0
  show ?case by (simp add: stays_stuck)
next
  case (Suc fuel)
  have fail: "keeps obs c (ext_fail e out seen)" for e out seen
    unfolding ext_fail_def by (rule stays_ret)
  show ?case
    unfolding ext_walk_dir.simps
    by (intro stays_intros read_inode_keeps inode_extents_keeps read_extents_keeps ext_entries_keeps fail Suc)
qed

lemma scan_ext_keeps: "ok c \<Longrightarrow> keeps obs c (scan_ext fuel depth rd base out)"
  unfolding scan_ext_def by (intro stays_intros rd_keeps fail_keeps ext_walk_keeps)

lemma scan_keeps: "ok c \<Longrightarrow> keeps obs c (scan_filesystem fuel depth rd base ty)"
  by (cases ty) (simp_all only: scan_filesystem.simps scan_fat_keeps scan_exfat_keeps scan_ntfs_keeps
      scan_ext_keeps fail_keeps)

end

interpretation disk: passive_reader "pread_all os d" "\<lambda>s. content (world s)"
    "\<lambda>c. posix_read os {d_fd d} content \<and> length c < 2 ^ 63"
  for os :: "'w sys" and d and content :: "'w \<Rightarrow> bytes"
proof unfold_locales
  fix c :: bytes and off :: u64 and n :: nat
  assume a: "posix_read os {d_fd d} content \<and> length c < 2 ^ 63"
  show "keeps (\<lambda>s :: ('w, 'z) mach_scheme. content (world s)) c (pread_all os d off n)"
    unfolding stays_def
    by (intro allI impI, rule wpx_weaken [OF pread_all_stored [where content = content]]) (use a in auto)
qed

end
