(* ===== verification/Silent.thy ===== *)
theory Silent
  imports BlockIo Scanners
begin

text \<open>
  Observations of the outside world that the worker's calls on an open device leave alone, such as the
  descriptors that are open or the mounts that were restored.  \<open>silent\<close> says it of the calls, the
  lemmas carry it to the routines of \<open>src/io\<close> and \<open>src/fs\<close>.
\<close>

definition silent :: "'w sys \<Rightarrow> ('w \<Rightarrow> 'c) \<Rightarrow> bool" where
  "silent os g \<longleftrightarrow>
     (\<forall>f n off w. g (snd (sys_pread os f n off w)) = g w) \<and>
     (\<forall>f bs off w. g (snd (sys_pwrite os f bs off w)) = g w) \<and>
     (\<forall>f w. g (snd (sys_fdatasync os f w)) = g w) \<and>
     (\<forall>f a b v w. g (snd (sys_sync_range os f a b v w)) = g w) \<and>
     (\<forall>f a b w. g (snd (sys_cachestat os f a b w)) = g w) \<and>
     (\<forall>f a b w. g (snd (sys_mmap os f a b w)) = g w) \<and>
     (\<forall>f a b w. g (snd (sys_mincore os f a b w)) = g w) \<and>
     (\<forall>a b w. g (snd (sys_memalign os a b w)) = g w) \<and>
     (\<forall>w. g (snd (sys_pagesize os w)) = g w) \<and>
     (\<forall>w. g (snd (sys_steady os w)) = g w) \<and>
     (\<forall>w. g (snd (sys_time os w)) = g w) \<and>
     (\<forall>w. g (snd (sys_load_paused os w)) = g w) \<and>
     (\<forall>w. g (snd (sys_load_stop os w)) = g w)"

abbreviation leaves :: "('w \<Rightarrow> 'c) \<Rightarrow> 'c \<Rightarrow> (('w, 'z) mach_scheme, 'a) io \<Rightarrow> bool" where
  "leaves g c m \<equiv> keeps (\<lambda>s. g (world s)) c m"

lemma leaves_calls:
  assumes "silent os g"
  shows "leaves g c (sysc (call_pread os f n off))" and "leaves g c (sysc (call_pwrite os f bs off))"
    and "leaves g c (sysc (sys_fdatasync os f))" and "leaves g c (sysc (sys_sync_range os f a b v))"
    and "leaves g c (sysc (sys_cachestat os f a b))" and "leaves g c (sysc (sys_mmap os f a b))"
    and "leaves g c (sysc (sys_mincore os f a b))" and "leaves g c (sysc (sys_memalign os a b))"
    and "leaves g c (sysc (sys_pagesize os))" and "leaves g c (sysc (sys_steady os))"
    and "leaves g c (sysc (sys_time os))" and "leaves g c (sysc (sys_load_paused os))"
    and "leaves g c (sysc (sys_load_stop os))"
  using assms unfolding silent_def
  by (intro keeps_sysc; simp add: call_pread_world call_pwrite_world)+

lemma leaves_errno:
  "(e = EINTR \<Longrightarrow> keeps g c m) \<Longrightarrow> (\<And>msg. e = Errno msg \<Longrightarrow> keeps g c (f msg)) \<Longrightarrow>
   keeps g c (case e of EINTR \<Rightarrow> m | Errno msg \<Rightarrow> f msg)"
  by (cases e) auto

lemma leaves_nat:
  "(n = 0 \<Longrightarrow> keeps g c m) \<Longrightarrow> (\<And>k. n = Suc k \<Longrightarrow> keeps g c (f k)) \<Longrightarrow>
   keeps g c (case n of 0 \<Rightarrow> m | Suc k \<Rightarrow> f k)"
  by (cases n) auto

lemma leaves_io_exact_read:
  assumes "silent os g"
  shows "leaves g c (io_exact_read fuel os f off left acc)"
proof (induction "fuel + left" arbitrary: fuel off left acc rule: less_induct)
  case less
  show ?case
    by (subst io_exact_read.simps)
      (intro stays_intros leaves_calls assms leaves_errno leaves_nat less; simp)
qed

lemma leaves_io_exact_write:
  assumes "silent os g"
  shows "leaves g c (io_exact_write fuel os f off buf)"
proof (induction "fuel + length buf" arbitrary: fuel off buf rule: less_induct)
  case less
  show ?case
    by (subst io_exact_write.simps)
      (intro stays_intros leaves_calls assms leaves_errno leaves_nat less; simp)
qed

lemma leaves_transfers:
  assumes "silent os g"
  shows "leaves g c (pread_all os d off n)" and "leaves g c (pread_direct os d off n)"
    and "leaves g c (pwrite_all os d buf off)" and "leaves g c (pwrite_direct os d buf off)"
    and "leaves g c (pwrite_sync os d buf off)"
proof -
  note rules = stays_intros leaves_calls [OF assms] leaves_io_exact_read [OF assms] leaves_io_exact_write [OF assms]
  show w: "leaves g c (pwrite_all os d buf off)"
    unfolding pwrite_all_def by (intro rules)
  show "leaves g c (pread_all os d off n)" "leaves g c (pread_direct os d off n)"
    "leaves g c (pwrite_direct os d buf off)"
    unfolding pread_all_def pread_direct_def pwrite_direct_def by (intro rules)+
  show "leaves g c (pwrite_sync os d buf off)"
    unfolding pwrite_sync_def by (intro rules w)
qed

lemma leaves_flush:
  assumes "silent os g"
  shows "leaves g c (query_flush_state os f off len probe)" and "leaves g c (wait_flushed os f off len)"
  unfolding flush_defs wait_flushed_def by (intro stays_intros leaves_calls assms)+

lemma leaves_wait:
  assumes "silent os g"
  shows "leaves g c (wait_if_paused os)" and "leaves g c (stop_requested os)"
proof -
  have "leaves g c (wait_loop n os)" for n
    by (induction n) (auto intro!: stays_intros leaves_calls assms)
  then show "leaves g c (wait_if_paused os)" by (simp add: wait_if_paused_def)
  show "leaves g c (stop_requested os)" unfolding stop_requested_def by (intro leaves_calls assms)
qed

lemma leaves_upd_prog: "leaves g c (upd_prog f)"
  by (simp add: stays_def)

lemma leaves_progress:
  assumes "silent os g"
  shows "leaves g c (pg_reset os n bs)" and "leaves g c (pg_add_done os n)" and "leaves g c (pg_mark_cell off len st)"
    and "leaves g c (pg_log os off len st msg)" and "leaves g c (pg_message os lv msg)"
    and "leaves g c (pg_set_phase msg)" and "leaves g c (pg_elapsed_sec os)"
  unfolding pg_defs by (intro stays_intros leaves_calls leaves_upd_prog assms)+

lemma leaves_rw_block:
  assumes "silent os g"
  shows "leaves g c (maybe_promote os d probe a b lp ps force)" and "leaves g c (rw_block os d q pos chunk v)"
proof -
  note rules = stays_intros leaves_calls [OF assms] leaves_transfers [OF assms] leaves_flush [OF assms]
    leaves_progress [OF assms]
  show p: "leaves g c (maybe_promote os d probe a b lp ps force)" for probe a b lp ps force
    unfolding maybe_promote_def by (intro rules)
  show "leaves g c (rw_block os d q pos chunk v)"
    unfolding rw_block_def rw_fail_def rw_write_def rw_verify_def rw_cached_def verify_against_media_def
    by (intro rules p)
qed

lemma leaves_rewrite_range:
  fixes os :: "'w sys"
  assumes "silent os g"
  shows "keeps (\<lambda>s :: ('w, 'z) pmach_scheme. g (world s)) c (rewrite_range os d off len bs flags path)"
proof -
  have loop: "keeps (\<lambda>s :: ('w, 'z) pmach_scheme. g (world s)) c (rw_loop os d p fin pos v)" for p fin pos v
  proof (cases "pos \<le> fin")
    case True
    show ?thesis
      unfolding stays_def
    proof (intro allI impI, rule rw_loop_rule [where I = "\<lambda>pos v s. g (world s) = c", OF _ True])
      show "wlp (wait_if_paused os) (\<lambda>_ s'. g (world s') = c) t"
        if "g (world t) = c" for t :: "('w, 'z) pmach_scheme"
        by (rule keeps_wlp [where g = "\<lambda>s. g (world s)", OF leaves_wait(1) [OF assms] that])
      show "wlp (rw_block os d p pos' chunk v') (\<lambda>_ s'. g (world s') = c) t"
        if "g (world t) = c" for pos' chunk v' and t :: "('w, 'z) pmach_scheme"
        by (rule keeps_wlp [where g = "\<lambda>s. g (world s)", OF leaves_rw_block(2) [OF assms] that])
    qed auto
  next
    case False
    then show ?thesis by (subst rw_loop.simps) (auto intro: stays_ret)
  qed
  show ?thesis
    unfolding rewrite_range_def rw_refuse_def
    by (intro stays_intros leaves_calls leaves_progress leaves_rw_block loop assms)
qed

interpretation still: passive_reader "pread_all os d" "\<lambda>s. g (world s)" "\<lambda>_. silent os g"
  for os :: "'w sys" and d and g
  by unfold_locales (rule leaves_transfers(1))

end
