(* ===== verification/Massage.thy ===== *)
theory Massage
  imports Automount Options Silent
begin

text \<open>
  \<open>MassageEngine\<close> (\<open>src/engine/massage.cpp\<close>): one run of the worker, from unmounting the target to
  restoring its mounts.

  What \<open>sqlite3_open\<close> finds, the environment variable and the thread that syncs the disk are fields of
  \<open>run_sys\<close>, functions of the outside world.  The syncing thread runs while the worker waits for it: the world says how often
  the worker polls before the thread is done, and the thread's calls come where the worker joins it.
\<close>

section \<open>Environment\<close>

record 'w run_sys =
  mx_home :: "'w \<Rightarrow> string option \<times> 'w"
  mx_db_file :: "string \<Rightarrow> 'w \<Rightarrow> (string + store) \<times> 'w"
  mx_errno :: "'w \<Rightarrow> string \<times> 'w"
  mx_sync_polls :: "'w \<Rightarrow> nat \<times> 'w"

record 'w engine_env =
  en_os :: "'w sys"
  en_fx :: "'w files_sys"
  en_host :: "'w host"
  en_mx :: "'w run_sys"
  en_sql :: sql_env
  en_fuel :: nat
  en_depth :: nat

type_synonym ('w, 'z, 'a) run = "(('w, 'z) engine_scheme, 'a) io"

definition say :: "'w engine_env \<Rightarrow> log_level \<Rightarrow> string \<Rightarrow> ('w, 'z, unit) run" where
  "say en lv msg = pg_message (en_os en) lv msg"

definition stopping :: "'w engine_env \<Rightarrow> ('w, 'z, bool) run" where
  "stopping en = stop_requested (en_os en)"

definition keep_meta :: "'w engine_env \<Rightarrow> string \<Rightarrow> string \<Rightarrow> ('w, 'z, unit) run" where
  "keep_meta en key val = iob (on_store (set_meta (en_sql en) key val)) (\<lambda>_. ioret ())"

section \<open>The statistics line\<close>

definition round_half_even :: "rat \<Rightarrow> int" where
  "round_half_even r =
     (let f = \<lfloor>r\<rfloor>; d = r - of_int f in
      if d < 1 / 2 then f else if 1 / 2 < d then f + 1 else if even f then f else f + 1)"

text \<open>\<open>%.kf\<close> of a value that is not negative.\<close>

definition show_fixed :: "nat \<Rightarrow> rat \<Rightarrow> string" where
  "show_fixed k r =
     (let n = nat (round_half_even (r * 10 ^ k)); fr = dec_digits (n mod 10 ^ k) in
      dec_digits (n div 10 ^ k) @
      (if k = 0 then [] else ''.'' @ replicate (k - length fr) CHR ''0'' @ fr))"

definition mib :: "u64 \<Rightarrow> rat" where
  "mib n = of_nat (unat n) / 1048576"

definition log_rewrite_stats :: "'w engine_env \<Rightarrow> bool \<Rightarrow> ('w, 'z, unit) run" where
  "log_rewrite_stats en dry_run =
     iob (pg_elapsed_sec (en_os en)) (\<lambda>sec.
     iob (ioget prog) (\<lambda>p.
     let sec = (if sec < 1 / 1000 then 1 / 1000 else sec);
         done = mib (p_bytes_done p);
         cells = (\<lambda>st. dec_digits (count_cells st p)) in
     say en LInfo (take 255 ((if dry_run then ''Dry-run'' else ''Rewrite'') @ '' done: '' @ show_fixed 2 done @
       '' MiB in '' @ show_fixed 1 sec @ ''s ('' @ show_fixed 1 (done / sec) @ '' MiB/s); cells ok='' @ cells CellOk @
       '' cached='' @ cells Cached @ '' read_err='' @ cells ReadErr @ '' write_err='' @ cells WriteErr))))"

section \<open>The database and the records\<close>

definition resolve_block_size :: "options \<Rightarrow> device \<Rightarrow> u64" where
  "resolve_block_size o1 d =
     (if op_block_size o1 \<noteq> 0 then op_block_size o1
      else if d_sector_size d \<noteq> 0 then d_sector_size d else 4096)"

definition prepare_db :: "'w engine_env \<Rightarrow> options \<Rightarrow> ('w, 'z, string option) run" where
  "prepare_db en o1 =
     iob (if op_sqlite_db o1 = [] \<and> \<not> op_sqlite_db_explicit o1
          then find_builtin_manifest_db (en_host en) (op_target o1) else ioret (op_sqlite_db o1)) (\<lambda>path.
     iob (if path = [] then iob (sysc (mx_home (en_mx en))) (\<lambda>home. ioret (default_db_path home (op_target o1)))
          else ioret path) (\<lambda>path.
     iob (sysc (mx_db_file (en_mx en) path)) (\<lambda>found.
     iob (on_store (open_store (en_sql en) found path)) (\<lambda>r.
     case r of
       Some err \<Rightarrow> ioret (Some err)
     | None \<Rightarrow>
         iob (keep_meta en ''target'' (op_target o1)) (\<lambda>_.
         iob (keep_meta en ''mode'' (if op_mode o1 = RunLinear then ''linear'' else ''recursive'')) (\<lambda>_.
         ioret None))))))"

definition extent_of_error :: "string \<Rightarrow> rewrite_extent \<Rightarrow> extent_record" where
  "extent_of_error path x =
     \<lparr>er_path = path, er_offset = sint (re_offset x), er_length = sint (re_length x),
      er_status = (if re_status x = ExtReadErr then 1 else 2)\<rparr>"

definition record_rewrite :: "sql_env \<Rightarrow> string \<Rightarrow> u64 \<Rightarrow> block_io_result \<Rightarrow> unit db" where
  "record_rewrite e path sz r =
     iob (replace_extents e path (map (extent_of_error path) (io_errors r))) (\<lambda>_.
     iob (bump_massage e path (sint sz)) (\<lambda>_. ioret ()))"

definition publish_fail :: "'w engine_env \<Rightarrow> string \<Rightarrow> ('w, 'z, unit) run" where
  "publish_fail en msg =
     iob (pg_reset (en_os en) 1 4096) (\<lambda>_.
     iob (pg_log (en_os en) 0 4096 ReadErr msg) (\<lambda>_.
     pg_set_phase ''failed''))"

section \<open>Rewriting\<close>

definition flags_of :: "options \<Rightarrow> rewrite_flags" where
  "flags_of o1 =
     \<lparr>rf_verify_only = op_dry_run o1, rf_write_cache = op_write_cache o1,
      rf_verify_writes = op_verify_writes o1, rf_flush_poll_ms = op_flush_poll_ms o1\<rparr>"

definition run_one ::
  "'w engine_env \<Rightarrow> options \<Rightarrow> device \<Rightarrow> u64 \<Rightarrow> string \<Rightarrow> u64 \<Rightarrow> u64 \<Rightarrow> ('w, 'z, unit) run" where
  "run_one en o1 d bs path off len =
     iob (pg_set_phase path) (\<lambda>_.
     iob (rewrite_range (en_os en) d off len bs (flags_of o1) path) (\<lambda>r.
     if \<not> op_dry_run o1 \<or> io_errors r \<noteq> [] then on_store (record_rewrite (en_sql en) path len r)
     else ioret ()))"

record work_item =
  wi_path :: string
  wi_offset :: u64
  wi_length :: u64

definition mk_work :: "string \<Rightarrow> u64 \<Rightarrow> u64 \<Rightarrow> work_item" where
  "mk_work p off len = \<lparr>wi_path = p, wi_offset = off, wi_length = len\<rparr>"

fun run_work :: "'w engine_env \<Rightarrow> options \<Rightarrow> device \<Rightarrow> u64 \<Rightarrow> work_item list \<Rightarrow> ('w, 'z, unit) run" where
  "run_work en o1 d bs [] = ioret ()"
| "run_work en o1 d bs (w # ws) =
     iob (stopping en) (\<lambda>stop.
     if stop then ioret ()
     else
       iob (run_one en o1 d bs (wi_path w) (wi_offset w) (wi_length w)) (\<lambda>_.
       run_work en o1 d bs ws))"

text \<open>The grid for the amount of work found, and the messages before the first block.\<close>

definition start_work :: "'w engine_env \<Rightarrow> options \<Rightarrow> u64 \<Rightarrow> u64 \<Rightarrow> ('w, 'z, unit) run" where
  "start_work en o1 all bs =
     iob (pg_reset (en_os en) all bs) (\<lambda>_.
     iob (pg_set_phase ''prepare'') (\<lambda>_.
     iob (say en LInfo (if op_dry_run o1 then ''Dry-run scan'' else ''Rewrite'')) (\<lambda>_.
     iob (ioget (\<lambda>s. p_cell_shift (prog s))) (\<lambda>sh.
     keep_meta en ''cell_shift'' (dec_digits sh)))))"

definition table_name :: "partition_map \<Rightarrow> string" where
  "table_name pm = (if pm_kind pm = TableGpt then ''::gpt'' else ''::mbr'')"

definition part_work :: "partition \<Rightarrow> work_item" where
  "part_work p = mk_work (pt_name p) (pt_start_bytes p) (pt_length_bytes p)"

definition rewrite_linear ::
  "'w engine_env \<Rightarrow> options \<Rightarrow> device \<Rightarrow> u64 \<Rightarrow> string \<Rightarrow> ('w, 'z, bool \<times> string) run" where
  "rewrite_linear en o1 d bs err =
     iob (probe_partitions (pread_all (en_os en) d) (d_sector_size d)) (\<lambda>r.
     case r of
       Inl e \<Rightarrow> iob (say en LError (''partition probe: '' @ e)) (\<lambda>_. ioret (False, e))
     | Inr pm \<Rightarrow>
         if pm_kind pm \<noteq> TableNone \<and> pm_parts pm \<noteq> [] then
           iob (start_work en o1 (foldl (\<lambda>t p. t + pt_length_bytes p) (pm_table_bytes pm) (pm_parts pm)) bs) (\<lambda>_.
           iob (run_one en o1 d bs (table_name pm) 0 (pm_table_bytes pm)) (\<lambda>_.
           iob (run_work en o1 d bs (map part_work (pm_parts pm))) (\<lambda>_.
           ioret (True, err))))
         else
           iob (start_work en o1 (d_size d) bs) (\<lambda>_.
           iob (run_one en o1 d bs ''::linear'' 0 (d_size d)) (\<lambda>_.
           ioret (True, err))))"

section \<open>Walking the file systems\<close>

definition object_work :: "fs_object \<Rightarrow> work_item list" where
  "object_work ob =
     map (\<lambda>x. mk_work (fo_path ob) (fe_offset x) (fe_length x)) (filter (\<lambda>x. fe_length x \<noteq> 0) (fo_extents ob))"

fun record_objects :: "'w engine_env \<Rightarrow> fs_object list \<Rightarrow> ('w, 'z, unit) run" where
  "record_objects en [] = ioret ()"
| "record_objects en (ob # obs) =
     iob (on_store (upsert_object (en_sql en) ((object_init (fo_path ob))\<lparr>or_size := sint (fo_size ob)\<rparr>))) (\<lambda>_.
     record_objects en obs)"

definition unknown_length :: "device \<Rightarrow> partition list \<Rightarrow> u64 \<Rightarrow> u64" where
  "unknown_length d parts base =
     (let len = (case find (\<lambda>p. pt_start_bytes p = base) parts of Some p \<Rightarrow> pt_length_bytes p | None \<Rightarrow> 0) in
      if len = 0 then (if base < d_size d then d_size d - base else 0) else len)"

text \<open>The loop over the jobs, with the work found so far and whether every scan went well.\<close>

fun scan_jobs ::
  "'w engine_env \<Rightarrow> device \<Rightarrow> partition list \<Rightarrow> (string \<times> u64) list \<Rightarrow> work_item list \<Rightarrow> bool \<Rightarrow>
   ('w, 'z, work_item list \<times> bool) run" where
  "scan_jobs en d parts [] work ok = ioret (work, ok)"
| "scan_jobs en d parts ((label, base) # jobs) work ok =
     iob (detect_fs (pread_all (en_os en) d) base) (\<lambda>(ft, derr).
     if ft = FsUnknown then
       iob (say en LWarn (label @ '': '' @ derr @ '' - rewriting partition linearly'')) (\<lambda>_.
       scan_jobs en d parts jobs (work @ [mk_work label base (unknown_length d parts base)]) ok)
     else
       iob (scan_filesystem (en_fuel en) (en_depth en) (pread_all (en_os en) d) base ft) (\<lambda>(good, scan).
       if \<not> good then
         iob (say en LError (''scan '' @ label @ '' ('' @ fs_type_name ft @ ''): '' @ fs_error scan)) (\<lambda>_.
         scan_jobs en d parts jobs work False)
       else
         iob (say en LInfo (label @ '': detected '' @ fs_type_name ft @ '', '' @
           dec_digits (length (fs_objects scan)) @ '' objects'')) (\<lambda>_.
         iob (record_objects en (fs_objects scan)) (\<lambda>_.
         scan_jobs en d parts jobs (work @ concat (map object_work (fs_objects scan))) ok))))"

definition work_total :: "work_item list \<Rightarrow> u64" where
  "work_total work = foldl (\<lambda>t w. t + wi_length w) 0 work"

definition no_table :: "u64 \<Rightarrow> partition_map" where
  "no_table ss = \<lparr>pm_kind = TableNone, pm_sector_size = ss, pm_table_bytes = 0, pm_parts = []\<rparr>"

definition rewrite_recursive ::
  "'w engine_env \<Rightarrow> options \<Rightarrow> device \<Rightarrow> u64 \<Rightarrow> string \<Rightarrow> ('w, 'z, bool \<times> string) run" where
  "rewrite_recursive en o1 d bs err =
     iob (probe_partitions (pread_all (en_os en) d) (d_sector_size d)) (\<lambda>r.
     let pm = (case r of Inl _ \<Rightarrow> no_table (d_sector_size d) | Inr pm \<Rightarrow> pm);
         jobs = (if pm_kind pm \<noteq> TableNone \<and> pm_parts pm \<noteq> []
                 then map (\<lambda>p. (pt_name p, pt_start_bytes p)) (pm_parts pm) else [(''::fs'', 0)]) in
     iob (detect_fs (pread_all (en_os en) d) 0) (\<lambda>(ft, _).
     let whole = (ft \<noteq> FsUnknown \<and> pm_parts pm = []);
         pm = (if whole then pm\<lparr>pm_kind := TableNone, pm_table_bytes := 0\<rparr> else pm);
         jobs = (if whole then [(''::fs'', 0)] else jobs);
         table = (if pm_kind pm \<noteq> TableNone \<and> 0 < pm_table_bytes pm \<and> pm_parts pm \<noteq> []
                  then [mk_work (table_name pm) 0 (pm_table_bytes pm)] else []) in
     iob (scan_jobs en d (pm_parts pm) jobs table True) (\<lambda>(work, ok).
     iob (start_work en o1 (if work_total work \<noteq> 0 then work_total work else 1) bs) (\<lambda>_.
     iob (run_work en o1 d bs work) (\<lambda>_.
     ioret (ok, err))))))"

section \<open>A run\<close>

definition rewrite_all ::
  "'w engine_env \<Rightarrow> options \<Rightarrow> device \<Rightarrow> u64 \<Rightarrow> string \<Rightarrow> ('w, 'z, bool \<times> string) run" where
  "rewrite_all en o1 d bs err =
     iob (if op_mode o1 = RunLinear then rewrite_linear en o1 d bs err
          else rewrite_recursive en o1 d bs err) (\<lambda>(ok, err).
     iob (stopping en) (\<lambda>stop. ioret (ok \<and> \<not> stop, err)))"

definition ellipsis :: string where
  "ellipsis = [CHR 0xE2, CHR 0x80, CHR 0xA6]"

text \<open>The polls while the thread syncs the disk.\<close>

fun sync_loop :: "'w engine_env \<Rightarrow> rat \<Rightarrow> nat \<Rightarrow> ('w, 'z, unit) run" where
  "sync_loop en t0 0 = ioret ()"
| "sync_loop en t0 (Suc n) =
     iob (stopping en) (\<lambda>stop.
     if stop then ioret ()
     else
       iob (sysc (sys_steady (en_os en))) (\<lambda>now.
       iob (pg_set_phase (take 95 (''Full-disk sync'' @ ellipsis @ '' '' @ show_fixed 0 (now - t0) @ ''s''))) (\<lambda>_.
       sync_loop en t0 n)))"

definition full_sync :: "'w engine_env \<Rightarrow> device \<Rightarrow> ('w, 'z, unit) run" where
  "full_sync en d =
     iob (pg_set_phase ''flush'') (\<lambda>_.
     iob (upd_prog (set_input_locked True)) (\<lambda>_.
     iob (say en LInfo (''Full-disk sync (background)'' @ ellipsis)) (\<lambda>_.
     iob (sysc (sys_steady (en_os en))) (\<lambda>t0.
     iob (sysc (mx_sync_polls (en_mx en))) (\<lambda>polls.
     iob (sync_loop en t0 polls) (\<lambda>_.
     iob (wait_flushed (en_os en) (d_fd d) 0 (if d_size d \<noteq> 0 then d_size d else 1)) (\<lambda>_.
     iob (sysc (sys_fdatasync (en_os en) (d_fd d))) (\<lambda>_.
     iob (upd_prog (set_input_locked False)) (\<lambda>_.
     iob (stopping en) (\<lambda>stop.
     if stop then ioret ()
     else
       iob (upd_prog upgrade_cached_to_ok) (\<lambda>_.
       iob (pg_set_phase ''flush'') (\<lambda>_.
       say en LInfo ''Full-disk sync done''))))))))))))"

fun report_bad :: "'w engine_env \<Rightarrow> extent_record list \<Rightarrow> ('w, 'z, unit) run" where
  "report_bad en [] = ioret ()"
| "report_bad en (x # xs) =
     iob (say en LError (er_path x @ '' offset='' @ show_int (er_offset x) @ '' length='' @ show_int (er_length x))) (\<lambda>_.
     report_bad en xs)"

definition hash_mounts ::
  "'w engine_env \<Rightarrow> options \<Rightarrow> mount_record list \<Rightarrow> string \<Rightarrow>
   ('w, 'z, bool \<times> mount_record list \<times> bool) run" where
  "hash_mounts en o1 original err =
     (let database_on = (\<not> op_gui o1 \<or> op_sqlite_db o1 \<noteq> []) in
      iob (if database_on then iob (stopping en) (\<lambda>stop. ioret (\<not> stop)) else ioret False) (\<lambda>do_sha1.
      if \<not> database_on then iob (say en LInfo ''SHA-1 skipped: no database'') (\<lambda>_. ioret (False, [], False))
      else
        iob (prepare_sha1_mounts (en_os en) (en_host en) (op_target o1) original err) (\<lambda>(ok, active, temp, err).
        if ok then ioret (do_sha1, active, temp)
        else
          iob (say en LWarn (if err = [] then ''SHA-1 mount failed'' else ''SHA-1 mount: '' @ err)) (\<lambda>_.
          ioret (False, active, temp)))))"

text \<open>From the open device to the end of the rewriting: whether all went well, and the error text.\<close>

definition refresh :: "'w engine_env \<Rightarrow> options \<Rightarrow> device \<Rightarrow> string \<Rightarrow> ('w, 'z, bool \<times> string) run" where
  "refresh en o1 d err =
     (let bs = resolve_block_size o1 d in
      iob (keep_meta en ''block_size'' (show_u64 bs)) (\<lambda>_.
      iob (pg_reset (en_os en) (if d_size d \<noteq> 0 then d_size d else 1) bs) (\<lambda>_.
      iob (pg_set_phase ''prepare'') (\<lambda>_.
      iob (if op_action o1 = ActTest then ioret (True, err) else rewrite_all en o1 d bs err) (\<lambda>(ok, err).
      iob (if op_dry_run o1 then ioret False
           else iob (stopping en) (\<lambda>stop. ioret (\<not> stop \<and> \<not> write_through o1))) (\<lambda>sync.
      iob (if sync then full_sync en d else ioret ()) (\<lambda>_.
      iob (log_rewrite_stats en (op_dry_run o1)) (\<lambda>_.
      ioret (ok, err)))))))))"

text \<open>After it: report the bad extents, hash the mounted files, restore the mounts.\<close>

definition wrap_up ::
  "'w engine_env \<Rightarrow> options \<Rightarrow> mount_record list \<Rightarrow> bool \<Rightarrow> string \<Rightarrow> ('w, 'z, bool) run" where
  "wrap_up en o1 original ok err =
     iob (on_store (bad_extents (en_sql en))) (\<lambda>(bad, _).
     iob (if bad = [] then ioret () else say en LWarn (dec_digits (length bad) @ '' bad extent(s)'')) (\<lambda>_.
     iob (report_bad en bad) (\<lambda>_.
     iob (hash_mounts en o1 original err) (\<lambda>(do_sha1, active, temp).
     iob (if do_sha1 \<and> active \<noteq> [] then
            iob (pg_set_phase ''sha1'') (\<lambda>_.
            iob (say en LInfo ''SHA-1'') (\<lambda>_.
            sha1_mounted_files (en_fuel en) (en_depth en) (en_os en) (en_fx en) (en_sql en) active
              (op_action o1 = ActTest)))
          else ioret True) (\<lambda>hashed.
     iob (if hashed then ioret () else say en LError ''SHA-1 failed'') (\<lambda>_.
     iob (restore_mount_state (en_host en) (op_target o1) original active temp []) (\<lambda>(restored, merr).
     iob (if restored then ioret () else say en LWarn (''restore mount: '' @ merr)) (\<lambda>_.
     ioret (ok \<and> hashed)))))))))"

text \<open>\<open>True\<close> is the exit code 0.\<close>

definition run_body :: "'w engine_env \<Rightarrow> options \<Rightarrow> ('w, 'z, bool) run" where
  "run_body en o1 =
     iob (pg_set_phase ''prepare'') (\<lambda>_.
     iob (say en LInfo (if op_dry_run o1 then ''Dry-run (read only)'' else ''Massage'')) (\<lambda>_.
     iob (ensure_unmounted (en_host en) (op_target o1) []) (\<lambda>(unmounted, original, err).
     if \<not> unmounted then
       iob (publish_fail en (if err = [] then ''unmount failed'' else err)) (\<lambda>_. ioret False)
     else
       iob (dev_open (en_os en) (op_target o1) device_init) (\<lambda>(opened, d).
       if \<not> opened then
         iob (sysc (mx_errno (en_mx en))) (\<lambda>msg.
         iob (publish_fail en (''cannot open '' @ op_target o1 @ '': '' @ msg)) (\<lambda>_.
         iob (restore_mount_state (en_host en) (op_target o1) original [] False []) (\<lambda>_.
         ioret False)))
       else
         iob (prepare_db en o1) (\<lambda>r.
         case r of
           Some msg \<Rightarrow>
             iob (publish_fail en (if msg = [] then ''database open failed'' else msg)) (\<lambda>_.
             iob (dev_close (en_os en) d) (\<lambda>_.
             iob (restore_mount_state (en_host en) (op_target o1) original [] False []) (\<lambda>_.
             ioret False)))
         | None \<Rightarrow>
             iob (refresh en o1 d err) (\<lambda>(ok, err).
             iob (dev_close (en_os en) d) (\<lambda>_.
             wrap_up en o1 original ok err)))))))"

text \<open>The guard that ends every run: the progress object is told that it is over, and how.\<close>

definition run_inner :: "'w engine_env \<Rightarrow> options \<Rightarrow> ('w, 'z, bool) run" where
  "run_inner en o1 =
     iob (run_body en o1) (\<lambda>ok.
     iob (upd_prog (set_finished (\<not> ok))) (\<lambda>_.
     ioret ok))"

section \<open>What a run leaves alone\<close>

text \<open>The interface between a run and what it calls: an observation of the world that rewriting,
  reading and the calls on clocks, flags and the page cache keep.  The refreshing part keeps it
  then.  \<open>ok\<close> is the condition under which they do.\<close>

locale run_frame =
  fixes en :: "'w engine_env" and d :: device and obs :: "'w \<Rightarrow> 'c" and ok :: "'c \<Rightarrow> bool"
    and ty :: "'z itself"
  assumes rewrite_obs: "ok c \<Longrightarrow> keeps (\<lambda>s :: ('w, 'z) engine_scheme. obs (world s)) c
      (rewrite_range (en_os en) d off len bs flags path)"
    and read_obs: "ok c \<Longrightarrow> keeps (\<lambda>s :: ('w, 'z) engine_scheme. obs (world s)) c (pread_all (en_os en) d off n)"
    and wait_obs: "ok c \<Longrightarrow> keeps (\<lambda>s :: ('w, 'z) engine_scheme. obs (world s)) c (wait_flushed (en_os en) f off len)"
    and steady_obs: "ok c \<Longrightarrow> obs (snd (sys_steady (en_os en) w)) = obs w"
    and time_obs: "ok c \<Longrightarrow> obs (snd (sys_time (en_os en) w)) = obs w"
    and stop_obs: "ok c \<Longrightarrow> obs (snd (sys_load_stop (en_os en) w)) = obs w"
    and sync_obs: "ok c \<Longrightarrow> obs (snd (sys_fdatasync (en_os en) f w)) = obs w"
    and polls_obs: "ok c \<Longrightarrow> obs (snd (mx_sync_polls (en_mx en) w)) = obs w"
begin

lemma on_store_obs: "keeps (\<lambda>s :: ('w, 'z) engine_scheme. obs (world s)) c (on_store m)"
  by (auto simp: stays_def wpx_def on_store_def split: outcome.splits prod.splits)

lemma progress_obs:
  assumes "ok c"
  shows "keeps (\<lambda>s :: ('w, 'z) engine_scheme. obs (world s)) c (pg_reset (en_os en) n bs)"
    and "keeps (\<lambda>s :: ('w, 'z) engine_scheme. obs (world s)) c (say en lv msg)"
    and "keeps (\<lambda>s :: ('w, 'z) engine_scheme. obs (world s)) c (pg_elapsed_sec (en_os en))"
    and "keeps (\<lambda>s :: ('w, 'z) engine_scheme. obs (world s)) c (pg_set_phase msg)"
    and "keeps (\<lambda>s :: ('w, 'z) engine_scheme. obs (world s)) c (pg_log (en_os en) off len st msg)"
    and "keeps (\<lambda>s :: ('w, 'z) engine_scheme. obs (world s)) c (pg_add_done (en_os en) n)"
    and "keeps (\<lambda>s :: ('w, 'z) engine_scheme. obs (world s)) c (upd_prog f)"
    and "keeps (\<lambda>s :: ('w, 'z) engine_scheme. obs (world s)) c (stopping en)"
  unfolding pg_defs say_def stopping_def stop_requested_def
  by (intro stays_intros leaves_upd_prog keeps_sysc steady_obs [OF assms] time_obs [OF assms] stop_obs [OF assms])+

lemma meta_obs: "keeps (\<lambda>s :: ('w, 'z) engine_scheme. obs (world s)) c (keep_meta en key val)"
  unfolding keep_meta_def by (intro stays_intros on_store_obs)

lemma run_one_obs: "ok c \<Longrightarrow> keeps (\<lambda>s :: ('w, 'z) engine_scheme. obs (world s)) c (run_one en o1 d bs path off len)"
  unfolding run_one_def by (intro stays_intros progress_obs rewrite_obs on_store_obs)

lemma run_work_obs:
  assumes "ok c"
  shows "keeps (\<lambda>s :: ('w, 'z) engine_scheme. obs (world s)) c (run_work en o1 d bs ws)"
  by (induction ws; simp only: run_work.simps; intro stays_intros progress_obs run_one_obs assms; assumption?)

lemma start_work_obs: "ok c \<Longrightarrow> keeps (\<lambda>s :: ('w, 'z) engine_scheme. obs (world s)) c (start_work en o1 n bs)"
  unfolding start_work_def by (intro stays_intros progress_obs meta_obs)

lemma reader_obs: "passive_reader (pread_all (en_os en) d) (\<lambda>s :: ('w, 'z) engine_scheme. obs (world s)) ok"
  by unfold_locales (rule read_obs)

lemmas scan_obs = passive_reader.probe_keeps [OF reader_obs] passive_reader.detect_keeps [OF reader_obs]
  passive_reader.scan_keeps [OF reader_obs]

lemma linear_obs: "ok c \<Longrightarrow> keeps (\<lambda>s :: ('w, 'z) engine_scheme. obs (world s)) c (rewrite_linear en o1 d bs err)"
  unfolding rewrite_linear_def
  by (intro stays_intros scan_obs progress_obs start_work_obs run_one_obs run_work_obs)

lemma record_objects_obs: "keeps (\<lambda>s :: ('w, 'z) engine_scheme. obs (world s)) c (record_objects en obs')"
  by (induction obs'; simp only: record_objects.simps; intro stays_intros on_store_obs; assumption?)

lemma scan_jobs_obs: "ok c \<Longrightarrow> keeps (\<lambda>s :: ('w, 'z) engine_scheme. obs (world s)) c (scan_jobs en d parts jobs work good)"
proof (induction jobs arbitrary: work good)
  case (Cons j jobs)
  show ?case
    by (cases j) (simp only: scan_jobs.simps, intro stays_intros scan_obs progress_obs record_objects_obs Cons)
qed (simp only: scan_jobs.simps stays_ret)

lemma recursive_obs: "ok c \<Longrightarrow> keeps (\<lambda>s :: ('w, 'z) engine_scheme. obs (world s)) c (rewrite_recursive en o1 d bs err)"
  unfolding rewrite_recursive_def
  by (intro stays_intros scan_obs scan_jobs_obs start_work_obs run_work_obs)

lemma sync_obs_all: "ok c \<Longrightarrow> keeps (\<lambda>s :: ('w, 'z) engine_scheme. obs (world s)) c (full_sync en d)"
proof -
  assume c: "ok c"
  have loop: "keeps (\<lambda>s :: ('w, 'z) engine_scheme. obs (world s)) c (sync_loop en t0 n)" for t0 n
    by (induction n; simp only: sync_loop.simps; intro stays_intros progress_obs keeps_sysc steady_obs [OF c] c)
  show ?thesis
    unfolding full_sync_def
    by (intro stays_intros progress_obs loop wait_obs keeps_sysc steady_obs [OF c] polls_obs [OF c] sync_obs [OF c] c)
qed

lemma refresh_obs: "ok c \<Longrightarrow> keeps (\<lambda>s :: ('w, 'z) engine_scheme. obs (world s)) c (refresh en o1 d err)"
  unfolding refresh_def rewrite_all_def log_rewrite_stats_def
  by (intro stays_intros progress_obs meta_obs linear_obs recursive_obs sync_obs_all)

end

interpretation content_run: run_frame en d content
    "\<lambda>c. posix_disk (en_os en) {d_fd d, d_fd_direct d} content \<and> length c < 2 ^ 63 \<and>
       (\<forall>w. content (snd (mx_sync_polls (en_mx en) w)) = content w)" ty
  for en :: "'w engine_env" and d :: device and content :: "'w \<Rightarrow> bytes" and ty :: "'z itself"
proof unfold_locales
  fix c :: bytes
  assume a: "posix_disk (en_os en) {d_fd d, d_fd_direct d} content \<and> length c < 2 ^ 63 \<and>
       (\<forall>w. content (snd (mx_sync_polls (en_mx en) w)) = content w)"
  then have q: "posix_quiet (en_os en) content" and r: "posix_read (en_os en) {d_fd d} content"
    using posix_disk_mono [of "en_os en" "{d_fd d, d_fd_direct d}" content "{d_fd d}"]
    by (auto simp: posix_disk_def)
  show "keeps (\<lambda>s :: ('w, 'z) engine_scheme. content (world s)) c (rewrite_range (en_os en) d off len bs flags path)"
    for off len bs flags path
    by (rule rewrite_range_keeps) (use a in simp_all)
  show "keeps (\<lambda>s :: ('w, 'z) engine_scheme. content (world s)) c (pread_all (en_os en) d off n)" for off n
    by (rule disk.rd_keeps) (use a r in simp)
  show "keeps (\<lambda>s :: ('w, 'z) engine_scheme. content (world s)) c (wait_flushed (en_os en) f off len)" for f off len
    by (rule quiet_keeps(2) [OF q])
  show "content (snd (sys_steady (en_os en) w)) = content w" "content (snd (sys_time (en_os en) w)) = content w"
    "content (snd (sys_load_stop (en_os en) w)) = content w"
    "content (snd (sys_fdatasync (en_os en) f w)) = content w"
    "content (snd (mx_sync_polls (en_mx en) w)) = content w" for f w
    using q a by (simp_all add: posix_quiet_def)
qed

interpretation silent_run: run_frame en d g
    "\<lambda>c. silent (en_os en) g \<and> (\<forall>w. g (snd (mx_sync_polls (en_mx en) w)) = g w)" ty
  for en :: "'w engine_env" and d :: device and g :: "'w \<Rightarrow> 'c" and ty :: "'z itself"
  by unfold_locales
    (simp_all add: leaves_rewrite_range leaves_transfers leaves_flush, simp_all add: silent_def)

end
