(* ===== verification/MountFrame.thy ===== *)
theory MountFrame
  imports Automount
begin

text \<open>
  What the routines of \<open>src/mount\<close> do to the outside world, as interfaces to the host.
  \<open>host_frame\<close>: every call of the host, and every command that cannot ask for a password, takes the
  world along a relation that preserves a condition on the state; then so does every routine that
  starts no other commands.  \<open>open_host\<close>: so does every command; then every routine does.  With the
  condition that is always true this says that the routines come back.
\<close>

definition asks :: "string \<Rightarrow> bool" where
  "asks cmd \<longleftrightarrow> starts_with ''pkexec '' cmd \<or> starts_with ''sudo '' cmd \<or> starts_with ''udisksctl '' cmd"

text \<open>Each call goes along \<open>R\<close>, and so does a command that does not ask.\<close>

definition host_moves :: "'w host \<Rightarrow> ('w \<Rightarrow> 'w \<Rightarrow> bool) \<Rightarrow> bool" where
  "host_moves hs R \<longleftrightarrow>
     (\<forall>p w. R w (snd (hs_realpath hs p w))) \<and> (\<forall>p w. R w (snd (hs_stat hs p w))) \<and>
     (\<forall>w. R w (snd (hs_proc_mounts hs w))) \<and> (\<forall>p d w. R w (snd (hs_umount hs p d w))) \<and>
     (\<forall>d p ty r w. R w (snd (hs_mount hs d p ty r w))) \<and> (\<forall>p w. R w (snd (hs_mkdir hs p w))) \<and>
     (\<forall>p w. R w (snd (hs_mkdtemp hs p w))) \<and> (\<forall>p w. R w (snd (hs_rmdir hs p w))) \<and>
     (\<forall>p w. R w (snd (hs_readable hs p w))) \<and> (\<forall>w. R w (snd (hs_gui hs w))) \<and>
     (\<forall>w. R w (snd (hs_in_ns hs w))) \<and> (\<forall>w. R w (snd (hs_set_in_ns hs w))) \<and>
     (\<forall>w. R w (snd (hs_userns_clone hs w))) \<and> (\<forall>w. R w (snd (hs_proc_status hs w))) \<and>
     (\<forall>w. R w (snd (hs_euid hs w))) \<and> (\<forall>w. R w (snd (hs_egid hs w))) \<and>
     (\<forall>n w. R w (snd (hs_unshare hs n w))) \<and> (\<forall>p w. R w (snd (hs_proc_open hs p w))) \<and>
     (\<forall>f c w. R w (snd (hs_proc_write hs f c w))) \<and> (\<forall>f w. R w (snd (hs_close hs f w))) \<and>
     (\<forall>w. R w (snd (hs_private_root hs w))) \<and> (\<forall>n v w. R w (snd (hs_setenv hs n v w))) \<and>
     (\<forall>cmd w. \<not> asks cmd \<longrightarrow> R w (snd (hs_system hs cmd w)) \<and> R w (snd (hs_popen hs cmd w)))"

lemmas asks_cmd = asks_def starts_with_def

locale host_frame =
  fixes hs :: "'w host" and R :: "'w \<Rightarrow> 'w \<Rightarrow> bool" and t k :: bool and P :: "('w, 'z) mach_scheme \<Rightarrow> bool"
  assumes moves: "host_moves hs R"
    and along: "P s \<Longrightarrow> R (world s) w \<Longrightarrow> P (s\<lparr>world := w\<rparr>)"
begin

lemma sysc_along: "(\<And>w. R w (snd (f w))) \<Longrightarrow> stays t k P (sysc f)"
  by (simp add: stays_def along split_def)

lemma calls:
  "stays t k P (sysc (hs_realpath hs p))" "stays t k P (sysc (hs_stat hs p))"
  "stays t k P (sysc (hs_proc_mounts hs))" "stays t k P (sysc (hs_umount hs p b))"
  "stays t k P (sysc (hs_mount hs q p ty b))" "stays t k P (sysc (hs_mkdir hs p))"
  "stays t k P (sysc (hs_mkdtemp hs p))" "stays t k P (sysc (hs_rmdir hs p))"
  "stays t k P (sysc (hs_readable hs p))" "stays t k P (sysc (hs_gui hs))"
  "stays t k P (sysc (hs_in_ns hs))" "stays t k P (sysc (hs_set_in_ns hs))"
  "stays t k P (sysc (hs_userns_clone hs))" "stays t k P (sysc (hs_proc_status hs))"
  "stays t k P (sysc (hs_euid hs))" "stays t k P (sysc (hs_egid hs))"
  "stays t k P (sysc (hs_unshare hs n))" "stays t k P (sysc (hs_proc_open hs p))"
  "stays t k P (sysc (hs_proc_write hs f c))" "stays t k P (sysc (hs_close hs f))"
  "stays t k P (sysc (hs_private_root hs))" "stays t k P (sysc (hs_setenv hs p c))"
  by (rule sysc_along, use moves in \<open>simp add: host_moves_def\<close>)+

lemma quiet_commands:
  assumes "\<not> asks cmd"
  shows "stays t k P (sysc (hs_system hs cmd))" and "stays t k P (sysc (hs_popen hs cmd))"
  by (rule sysc_along, use moves assms in \<open>simp add: host_moves_def\<close>)+

lemma shell:
  assumes "\<not> asks cmd"
  shows "stays t k P (run_shell hs cmd)" and "stays t k P (run_capture hs cmd)" and "stays t k P (shell_ok hs cmd)"
  unfolding run_shell_def run_capture_def shell_ok_def
  by (intro stays_intros quiet_commands assms)+

lemma which: "stays t k P (which_ok hs bin)"
  unfolding which_ok_def by (intro stays_intros shell) (simp add: asks_cmd)

lemma paths:
  "stays t k P (real_or_self hs p)" "stays t k P (is_kind hs kind p)" "stays t k P (path_is_block hs p)"
  "stays t k P (path_is_regular_file hs p)" "stays t k P (path_is_directory hs p)" "stays t k P (no_auth_target hs p)"
  unfolding real_or_self_def is_kind_def path_is_block_def path_is_regular_file_def path_is_directory_def
    no_auth_target_def
  by (intro stays_intros calls)+

lemma related: "stays t k P (is_related_device hs a b)"
  unfolding is_related_device_def same_device_file_def by (intro stays_intros calls paths)

lemma loops: "stays t k P (find_loop hs dev lps)" "stays t k P (losetup_of hs p)"
  by (induction lps; simp only: find_loop.simps; intro stays_intros related; assumption?)
    (unfold losetup_of_def, intro stays_intros shell, simp add: asks_cmd)

lemma match: "stays t k P (match_mounts hs p want also rs)"
  by (induction rs; simp only: match_mounts.simps; intro stays_intros related loops; assumption?)

lemma find: "stays t k P (find_mounts_for_device hs p)" "stays t k P (path_is_mounted hs p)"
proof -
  show *: "stays t k P (find_mounts_for_device hs p)" for p
    unfolding find_mounts_for_device_def by (intro stays_intros calls paths loops match)
  show "stays t k P (path_is_mounted hs p)"
    unfolding path_is_mounted_def by (intro stays_intros *)
qed

lemma first_ok:
  assumes "\<And>m. m \<in> set ms \<Longrightarrow> stays t k P m"
  shows "stays t k P (first_ok ms)"
  using assms by (induction ms) (auto intro!: stays_intros)

lemma quiet_unmount: "stays t k P (umount_quietly hs target)"
  unfolding umount_quietly_def
  by (rule first_ok) (auto simp: asks_cmd intro: shell calls)

lemma fuse_unmount: "mr_fuse_mount m \<Longrightarrow> stays t k P (unmount_one hs m err)"
  by (simp add: unmount_one_def) (intro stays_intros quiet_unmount)

lemma each_unmount:
  assumes "\<And>m. m \<in> set ms \<Longrightarrow> mr_fuse_mount m"
  shows "stays t k P (unmount_each hs temp ms)"
  using assms
proof (induction ms)
  case (Cons m ms)
  then show ?case
    unfolding unmount_each.simps by (intro stays_intros fuse_unmount calls Cons.IH) simp_all
qed (simp add: stays_intros)

lemma name_space: "stays t k P (ensure_user_mount_ns hs err)"
  unfolding ensure_user_mount_ns_def userns_allowed_def write_proc_file_def
  by (intro stays_intros calls)

lemma here: "stays t k P (mounted_here hs target)"
  unfolding mounted_here_def by (intro stays_intros calls paths shell) (simp add: asks_cmd)

lemma cands:
  assumes "set cs \<subseteq> set fuse_candidates"
  shows "stays t k P (try_cands hs img target ty opt cs last_err tried)"
  using assms
proof (induction cs arbitrary: last_err tried)
  case (Cons c cs)
  obtain bin kind where c: "c = (bin, kind)" by (cases c)
  have q: "\<not> asks (helper_cmd bin opt img target @ x)" for x
    using Cons.prems by (auto simp: c fuse_candidates_def asks_cmd helper_cmd_def)
  show ?case
    unfolding c try_cands.simps
    by (intro stays_intros which here shell q Cons.IH) (use Cons.prems in simp_all)
qed (simp add: stays_intros)

lemma fuse: "stays t k P (try_fuse_mount_file hs img target ty opts off err)"
  unfolding try_fuse_mount_file_def by (intro stays_intros calls cands name_space subset_refl)

end

text \<open>A host with nothing mounted and no commands, for the witnesses.\<close>

definition ram_host :: "'w host" where
  "ram_host = \<lparr>hs_realpath = \<lambda>p w. (Some p, w), hs_stat = \<lambda>p w. (Some \<lparr>nd_kind = KRegular, nd_rdev = 0\<rparr>, w),
     hs_system = \<lambda>c w. (Exited 127, w), hs_popen = \<lambda>c w. (Some [], w), hs_proc_mounts = \<lambda>w. ([], w),
     hs_umount = \<lambda>p d w. (False, w), hs_mount = \<lambda>d p ty r w. (False, w), hs_mkdir = \<lambda>p w. ((), w),
     hs_mkdtemp = \<lambda>p w. (Some ''/tmp/reflash-mnt-000000'', w), hs_rmdir = \<lambda>p w. ((), w), hs_readable = \<lambda>p w. (False, w),
     hs_gui = \<lambda>w. (True, w), hs_in_ns = \<lambda>w. (False, w), hs_set_in_ns = \<lambda>w. ((), w),
     hs_userns_clone = \<lambda>w. (None, w), hs_proc_status = \<lambda>w. ([], w), hs_euid = \<lambda>w. (1000, w), hs_egid = \<lambda>w. (1000, w),
     hs_unshare = \<lambda>n w. (None, w), hs_proc_open = \<lambda>p w. (Inr 5, w), hs_proc_write = \<lambda>f c w. ((int (length c), []), w),
     hs_close = \<lambda>f w. ((), w), hs_private_root = \<lambda>w. (True, w), hs_setenv = \<lambda>n v w. ((), w)\<rparr>"

text \<open>Every command preserves the condition, as when it is about nothing a command changes.\<close>

locale open_host = host_frame hs R t k P
  for hs :: "'w host" and R :: "'w \<Rightarrow> 'w \<Rightarrow> bool" and t k :: bool and P :: "('w, 'z) mach_scheme \<Rightarrow> bool" +
  assumes any_system: "R w (snd (hs_system hs cmd w))"
    and any_popen: "R w (snd (hs_popen hs cmd w))"
begin

lemma any_shell:
  "stays t k P (run_shell hs cmd)" "stays t k P (run_capture hs cmd)" "stays t k P (shell_ok hs cmd)"
  unfolding run_shell_def run_capture_def shell_ok_def by (intro stays_intros sysc_along any_system any_popen)+

lemma sudo: "stays t k P (sudo_ok hs cmd)"
  unfolding sudo_ok_def by (intro stays_intros calls any_shell)

lemma privileged:
  "stays t k P (try_privileged_umount hs target err)" "stays t k P (try_privileged_mount hs dev target ty opts err)"
  unfolding try_privileged_umount_def try_privileged_mount_def
  by (intro stays_intros calls first_ok; auto intro: calls any_shell sudo)+

lemma unmount: "stays t k P (unmount_one hs m err)"
  unfolding unmount_one_def by (intro stays_intros paths which quiet_unmount any_shell privileged)

lemma unmount_all: "stays t k P (unmount_all hs ms err)" "stays t k P (unmount_each hs temp ms)"
  by (induction ms arbitrary: err; simp only: unmount_all.simps unmount_each.simps;
      intro stays_intros unmount calls; assumption?)+

lemma unmounted: "stays t k P (unmount_device hs p err)" "stays t k P (ensure_unmounted hs p err)"
  unfolding unmount_device_def ensure_unmounted_def by (intro stays_intros find unmount_all)+

lemma udisks: "stays t k P (try_udisks_mount_block hs block opts err)"
  unfolding try_udisks_mount_block_def by (intro stays_intros which any_shell find)

lemma mount: "stays t k P (mount_device hs dev target ty opts err)"
  unfolding mount_device_def by (intro stays_intros calls paths which fuse udisks privileged)

lemma remount: "stays t k P (remount_loop hs ms err)" "stays t k P (remount_records hs ms err)"
proof -
  show *: "stays t k P (remount_loop hs ms err)" for ms
    by (induction ms arbitrary: err; simp only: remount_loop.simps;
        intro stays_intros calls paths fuse privileged; assumption?)
  show "stays t k P (remount_records hs ms err)" unfolding remount_records_def by (rule *)
qed

lemma restore: "stays t k P (restore_mount_state hs p original active temp err)"
  unfolding restore_mount_state_def by (intro stays_intros find unmount_all remount)

lemma manifest: "stays t k P (find_builtin_manifest_db hs p)"
proof -
  have "stays t k P (first_manifest hs ms)" for ms
    by (induction ms; simp only: first_manifest.simps manifest_at_def; intro stays_intros calls; assumption?)
  then show ?thesis
    unfolding find_builtin_manifest_db_def manifest_at_def by (intro stays_intros calls paths find)
qed

lemma browse:
  assumes "stays t k P (dev_open os p device_init)" and "\<And>d. stays t k P (dev_close os d)"
    and "\<And>d off. stays t k P (detect_fs (pread_all os d) off)"
    and "\<And>d ss. stays t k P (probe_partitions (pread_all os d) ss)"
  shows "stays t k P (mount_for_browse os hs p err)"
proof -
  have parts: "stays t k P (part_cands os hs d p ps)" for d ps
    by (induction ps; simp only: part_cands.simps; intro stays_intros assms(3) paths; assumption?)
  have cands: "stays t k P (browse_cands os hs d p)" for d
    unfolding browse_cands_def by (intro stays_intros assms(3,4) parts)
  have node: "stays t k P (browse_udisks hs cond q err)" if "stays t k P cond" for cond q err
    unfolding browse_udisks_def by (intro stays_intros which udisks that)
  have loop: "stays t k P (browse_loop hs p cs last_err err)" for cs last_err
    by (induction cs arbitrary: last_err; simp only: browse_loop.simps;
        intro stays_intros node calls paths fuse; (unfold whole_disk_def, intro stays_intros paths)?; assumption?)
  show ?thesis
    unfolding mount_for_browse_def by (intro stays_intros assms(1,2) paths find cands loop)
qed

end

text \<open>The routines that mount and unmount come back.\<close>

interpretation coming_back: open_host hs "\<lambda>_ _. True" t False "\<lambda>_ :: ('w, 'z) mach_scheme. True"
  for hs :: "'w host" and t
  by unfold_locales (simp_all add: host_moves_def)

end
