(* ===== verification/Returns.thy ===== *)
theory Returns
  imports Massage MountFrame
begin

text \<open>
  When a run comes back (\<open>replies\<close>), from the statements of the catalog over the calls of the worker
  to the rewriting of a device.
\<close>

lemma replies_pure: "replies t P (\<lambda>s. Ret (a, s))"
  by (simp add: stays_def wpx_def)

lemma replies_lift: "r \<noteq> Stuck \<Longrightarrow> replies True P (iolift r)"
  by (rule stays_lift) simp_all

section \<open>The catalog\<close>

abbreviation serves :: "bool \<Rightarrow> 'a db \<Rightarrow> bool" where
  "serves t m \<equiv> replies t st_open m"

definition stays_open :: "(store \<Rightarrow> string + store) \<Rightarrow> bool" where
  "stays_open f \<longleftrightarrow> (\<forall>s s'. f s = Inr s' \<longrightarrow> st_open s' = st_open s)"

lemma stays_open_stmts [simp]:
  "stays_open (insert_folder v p n)" "stays_open (upsert_object_row v ty d)" "stays_open (upsert_file_row g n d)"
  "stays_open (upsert_meta key val)" "stays_open insert_device" "stays_open (insert_volume dev)"
  "stays_open (delete_extents path)" "stays_open (insert_extent path now x)"
  by (auto simp: stays_open_def insert_folder_def upsert_object_row_def upsert_file_row_def upsert_meta_def
      insert_device_def insert_volume_def delete_extents_def insert_extent_def Let_def split: if_splits)

lemma serves_tick: "serves t tick" and serves_prepare: "serves t (prepare e)"
  by (auto simp: stays_def tick_def prepare_def)

lemma serves_step: "stays_open f \<Longrightarrow> serves t (step_stmt e f)"
  by (auto simp: stays_def step_stmt_def tick_def stays_open_def split: option.split sum.split)

lemma serves_stmt: "stays_open f \<Longrightarrow> serves t (run_stmt e f)"
  unfolding run_stmt_def by (intro stays_intros serves_prepare serves_step)

lemma serves_query: "serves t (run_query e q)" "serves t (query_first e p)"
proof -
  show q: "serves t (run_query e q)" for q :: "store \<Rightarrow> 'c list"
    unfolding run_query_def by (intro stays_intros serves_prepare serves_tick)
  show "serves t (query_first e p)"
    unfolding query_first_def by (intro stays_intros q)
qed

lemma serves_rowid: "serves t last_insert_rowid"
  by (simp add: stays_def last_insert_rowid_def)

lemmas serves_basic = serves_stmt serves_query serves_rowid serves_tick serves_prepare serves_step stays_open_stmts

lemma serves_meta: "serves t (set_meta e key val)"
  unfolding set_meta_def by (intro stays_intros serves_basic)

lemma serves_volume: "serves t (ensure_root_folder_locked e vol)" "serves t (ensure_volume_locked e)"
proof -
  show r: "serves t (ensure_root_folder_locked e vol)" for vol
    unfolding ensure_root_folder_locked_def by (intro stays_intros serves_basic)
  show "serves t (ensure_volume_locked e)"
    unfolding ensure_volume_locked_def by (intro stays_intros serves_basic serves_meta r)
qed

lemma serves_folders: "serves t (ensure_folders e vol parent ds)" "serves t (find_folders e vol parent ds)"
proof -
  have f: "serves t (ensure_folder_locked e vol parent d)" for parent d
    unfolding ensure_folder_locked_def by (intro stays_intros serves_basic)
  show "serves t (ensure_folders e vol parent ds)"
    by (induction ds arbitrary: parent; simp only: ensure_folders.simps; intro stays_intros f; assumption?; blast?)
  show "serves t (find_folders e vol parent ds)"
    by (induction ds arbitrary: parent; simp only: find_folders.simps; intro stays_intros serves_basic; assumption?; blast?)
qed

lemma serves_objects:
  "serves t (upsert_special_locked e o1)" "serves t (upsert_file_locked e o1)"
  "serves t (get_special_locked e p o1)" "serves t (get_file_locked e p o1)"
  unfolding upsert_special_locked_def upsert_file_locked_def get_special_locked_def get_file_locked_def
  by (intro stays_intros serves_basic serves_volume serves_folders)+

lemma serves_records:
  "serves t (upsert_object e o1)" "serves t (get_object e p o1)" "serves t (bump_massage e p sz)"
  "serves t (set_sha1 e p sha)" "serves t (bump_verify e p vs h)"
  unfolding upsert_object_def get_object_def bump_massage_def set_sha1_def bump_verify_def upsert_locked_def
    get_locked_def record_of_def now_secs_def
  by (intro stays_intros serves_objects)+

lemma serves_extents: "serves t (replace_extents e path xs)" "serves t (bad_extents e)"
proof -
  have "serves t (insert_extents e p now xs)" for p now
    by (induction xs; simp only: insert_extents.simps; intro stays_intros serves_basic; assumption?)
  then show "serves t (replace_extents e path xs)"
    unfolding replace_extents_def now_secs_def by (intro stays_intros serves_basic)
  show "serves t (bad_extents e)"
    unfolding bad_extents_def by (intro stays_intros serves_basic)
qed

lemma serves_record: "serves t (record_rewrite e path sz r)"
  unfolding record_rewrite_def by (intro stays_intros serves_extents serves_records)

lemma serves_import: "serves t (import_rows e rows)"
  by (induction rows; simp only: import_rows.simps; intro stays_intros serves_objects; assumption?)

lemma serves_migrate: "serves t (migrate e)"
proof -
  have i: "stays_open (\<lambda>s. Inr (s\<lparr>st_legacy := None\<rparr>))" "stays_open Inr" by (auto simp: stays_open_def)
  show ?thesis
    unfolding migrate_def exec_ddl_def import_legacy_objects_def table_exists_def
    by (intro stays_intros serves_basic serves_import i)
qed

text \<open>Opening a database returns, and on success it is open.\<close>

lemma open_store_returns:
  "twp (open_store e content path) (\<lambda>r s'. r = None \<longrightarrow> st_open s') s"
  unfolding open_store_def
  by (cases content) (auto intro!: stays_wpx [OF serves_migrate] split: option.split)

section \<open>The worker\<close>

abbreviation opened :: "('w, 'z) engine_scheme \<Rightarrow> bool" where
  "opened s \<equiv> st_open (cat s)"

lemma wpx_on_store [simp, wp_rules]:
  "wpx t k (on_store m) Q s = wpx t k m (\<lambda>a st. Q a (s\<lparr>cat := st\<rparr>)) (cat s)"
  by (cases "m (cat s)") (auto simp: wpx_def on_store_def)

lemma replies_on_store: "serves t m \<Longrightarrow> replies t opened (on_store m)"
  by (simp add: stays_def)

text \<open>Conditions that neither the outside world nor the progress object matter to.\<close>

definition apart :: "(('w, 'z) pmach_scheme \<Rightarrow> bool) \<Rightarrow> bool" where
  "apart P \<longleftrightarrow> (\<forall>s w p. P (s\<lparr>world := w, prog := p\<rparr>) = P s)"

lemma apart_world:
  assumes "apart P" shows "P (s\<lparr>world := w\<rparr>) = P s"
proof -
  have "P (s\<lparr>world := w, prog := prog s\<rparr>) = P s" using assms unfolding apart_def by blast
  then show ?thesis by simp
qed

lemma apart_prog:
  assumes "apart P" shows "P (s\<lparr>prog := p\<rparr>) = P s"
proof -
  have "P (s\<lparr>world := world s, prog := p\<rparr>) = P s" using assms unfolding apart_def by blast
  then show ?thesis by simp
qed

lemma apart_opened: "apart (opened :: ('w, 'z) engine_scheme \<Rightarrow> bool)" and apart_any: "apart (\<lambda>_. True)"
  by (simp_all add: apart_def)

lemma apart_frame: "apart P \<Longrightarrow> same_frame s s' \<Longrightarrow> P s' = P s"
  by (auto simp: apart_def same_frame_def)

lemma replies_sysc: "apart P \<Longrightarrow> replies t P (sysc f)"
  by (auto simp: stays_def apart_world split: prod.split)

text \<open>The routines that mount and unmount keep the database open.\<close>

interpretation open_back: open_host hs "\<lambda>_ _. True" t False "opened :: ('w, 'z) engine_scheme \<Rightarrow> bool"
  for hs :: "'w host" and t
  by unfold_locales (simp_all add: host_moves_def)

lemma replies_upd_prog: "apart P \<Longrightarrow> replies t P (upd_prog f)"
  by (simp add: stays_def apart_prog)

lemma replies_world: "apart P \<Longrightarrow> world_only False m \<Longrightarrow> replies False P m"
  unfolding stays_def by (auto intro: world_only_wpx simp: apart_world)

lemma replies_more: "replies False P m \<Longrightarrow> replies t P m"
  unfolding stays_def by (blast intro: wpx_weaken)

lemma replies_progress:
  assumes "apart P"
  shows "replies t P (pg_reset os n bs)" and "replies t P (pg_add_done os n)" and "replies t P (pg_log os off len st msg)"
    and "replies t P (pg_message os lv msg)" and "replies t P (pg_set_phase msg)" and "replies t P (pg_elapsed_sec os)"
  unfolding pg_defs by (intro stays_intros replies_sysc replies_upd_prog assms)+

lemma replies_say:
  assumes "apart P"
  shows "replies t P (say en lv msg)" and "replies t P (stopping en)"
  unfolding say_def stopping_def stop_requested_def
  by (intro replies_sysc replies_progress assms)+

lemma replies_rewrite:
  fixes P :: "('w, 'z) pmach_scheme \<Rightarrow> bool"
  assumes "apart P" and "never_interrupts os" and "pause_ends os TYPE(('w, 'z) pmach_scheme)"
  shows "replies t P (rewrite_range os d off len bs flags path)"
proof (rule replies_more)
  have wait: "world_only False (wait_if_paused os :: (('w, 'z) pmach_scheme, bool) io)"
    using assms(3) wait_world_only(1) by blast
  have loop: "replies False P (rw_loop os d q fin pos v)" for q fin pos v
  proof (cases "pos \<le> fin")
    case True
    show ?thesis
      unfolding stays_def
    proof (intro allI impI, rule rw_loop_rule [where I = "\<lambda>pos v s. P s", OF _ True])
      show "twp (wait_if_paused os) (\<lambda>_. P) s" if "P s" for s
        by (rule world_only_wpx [OF wait]) (use that assms(1) in \<open>simp add: apart_world\<close>)
      show "twp (rw_block os d q pos' chunk v') (\<lambda>_. P) s" if "P s" for s pos' chunk v'
        using rw_block_turn [of os d q pos' chunk v' s] that assms(1,2)
        by (auto elim!: wpx_weaken simp: turn_post_def apart_def)
    qed auto
  next
    case False
    then show ?thesis by (subst rw_loop.simps) (auto intro: stays_ret)
  qed
  have promote: "replies False P (maybe_promote os d pr a b lp ps force)" for pr a b lp ps force
    unfolding stays_def
    by (intro allI impI wpx_weaken [OF maybe_promote_quiet])
      (use assms(1) in \<open>auto simp: quiet_post_def apart_def\<close>)
  show "replies False P (rewrite_range os d off len bs flags path)"
    unfolding rewrite_range_def rw_refuse_def
    by (intro stays_intros replies_sysc replies_progress loop promote assms(1))
qed

text \<open>Reading a device and probing its partition table.\<close>

lemma replies_read:
  assumes "apart P" and "never_interrupts os"
  shows "replies t P (pread_all os d off n)"
  unfolding stays_def
  by (intro allI impI wpx_weaken [OF pread_all_world]) (use assms in \<open>auto simp: apart_world\<close>)

lemma entries_not_Stuck:
  "gpt_entries ents ss psz left i idx parts \<noteq> Stuck" "mbr_entries sector ss left j idx parts \<noteq> Stuck"
  "boot_signature sector \<noteq> Stuck"
proof -
  show "gpt_entries ents ss psz left i idx parts \<noteq> Stuck"
    by (induction left arbitrary: i idx parts) (auto simp: Let_def obind_eq_Stuck)
  show "mbr_entries sector ss left j idx parts \<noteq> Stuck"
    by (induction left arbitrary: j idx parts) (auto simp: Let_def obind_eq_Stuck)
qed (auto simp: boot_signature_def obind_eq_Stuck)

lemma replies_probe:
  assumes "apart P" and "never_interrupts os" and "512 \<le> unat ss"
  shows "replies t P (probe_partitions (pread_all os d) ss)"
proof (rule replies_more, rule replies_total)
  show "replies True P (probe_partitions (pread_all os d) ss)"
    unfolding probe_partitions_def probe_mbr_def probe_gpt_def
    by (intro stays_intros replies_read assms replies_lift entries_not_Stuck) auto
  have "512 \<le> unat (if ss \<noteq> 0 then ss else 512)" using assms(3) by simp
  from wp_not_Trap [OF dev.wp_probe [OF refl this]]
  show "probe_partitions (pread_all os d) ss s \<noteq> Trap" for s .
qed

section \<open>A linear run\<close>

text \<open>What the lemmas ask of the system: calls are not interrupted for ever and pauses end.\<close>

definition comes_back :: "'w engine_env \<Rightarrow> 'z itself \<Rightarrow> bool" where
  "comes_back en T \<longleftrightarrow> never_interrupts (en_os en) \<and> pause_ends (en_os en) TYPE(('w, ('z) engine_ext) pmach_scheme)"

lemma replies_run_one:
  fixes en :: "'w engine_env"
  assumes "comes_back en TYPE('z)"
  shows "replies t (opened :: ('w, 'z) engine_scheme \<Rightarrow> bool) (run_one en o1 d bs path off len)"
proof -
  have r: "replies t (opened :: ('w, 'z) engine_scheme \<Rightarrow> bool) (rewrite_range (en_os en) d off len bs flags path)" for flags
    using assms by (intro replies_rewrite apart_opened) (simp_all add: comes_back_def)
  show ?thesis
    unfolding run_one_def
    by (intro stays_intros replies_progress replies_on_store serves_record apart_opened r)
qed

lemma replies_run_work:
  fixes en :: "'w engine_env"
  assumes "comes_back en TYPE('z)"
  shows "replies t (opened :: ('w, 'z) engine_scheme \<Rightarrow> bool) (run_work en o1 d bs ws)"
  by (induction ws; simp only: run_work.simps; intro stays_intros replies_say replies_run_one apart_opened assms; assumption?)

lemma replies_meta: "replies t opened (keep_meta en key val)"
  unfolding keep_meta_def by (intro stays_intros replies_on_store serves_meta)

lemma replies_start: "replies t opened (start_work en o1 n bs)"
  unfolding start_work_def
  by (intro stays_intros replies_progress replies_say replies_meta apart_opened)

lemma replies_linear:
  fixes en :: "'w engine_env"
  assumes "comes_back en TYPE('z)" and "512 \<le> unat (d_sector_size d)"
  shows "replies t (opened :: ('w, 'z) engine_scheme \<Rightarrow> bool) (rewrite_linear en o1 d bs err)"
proof -
  have p: "replies t (opened :: ('w, 'z) engine_scheme \<Rightarrow> bool)
      (probe_partitions (pread_all (en_os en) d) (d_sector_size d))"
    using assms by (intro replies_probe apart_opened) (simp_all add: comes_back_def)
  show ?thesis
    unfolding rewrite_linear_def
    by (intro stays_intros p replies_say replies_start replies_run_one replies_run_work apart_opened assms)
qed

lemma replies_sync: "replies t opened (full_sync en d)"
proof -
  have loop: "replies t opened (sync_loop en t0 n)" for t0 n
    by (induction n; simp only: sync_loop.simps;
        intro stays_intros replies_progress replies_say replies_sysc apart_opened; assumption?)
  have wait: "replies t opened (wait_flushed (en_os en) f off len)" for f off len
    by (intro replies_more [OF replies_world] apart_opened flush_world)
  show ?thesis
    unfolding full_sync_def
    by (intro stays_intros replies_progress replies_say replies_sysc replies_upd_prog apart_opened loop wait)
qed

lemma replies_refresh:
  fixes en :: "'w engine_env"
  assumes "comes_back en TYPE('z)" and "op_action o1 = ActTest \<or> op_mode o1 = RunLinear"
    and "512 \<le> unat (d_sector_size d)"
  shows "replies t (opened :: ('w, 'z) engine_scheme \<Rightarrow> bool) (refresh en o1 d err)"
proof -
  have all: "replies t (opened :: ('w, 'z) engine_scheme \<Rightarrow> bool) (rewrite_all en o1 d bs err)"
    if "op_action o1 \<noteq> ActTest" for bs
    using assms that unfolding rewrite_all_def
    by (simp, intro stays_intros replies_linear replies_say apart_opened)
  show ?thesis
    unfolding refresh_def log_rewrite_stats_def
    by (intro stays_intros replies_progress replies_say replies_meta replies_sync all apart_opened)
qed

section \<open>Opening and closing\<close>

lemma replies_close: "apart P \<Longrightarrow> replies t P (dev_close os d)"
  unfolding dev_close_def by (intro stays_intros replies_sysc)

text \<open>A system whose devices and files have blocks of 512 bytes at least, if it says anything.\<close>

definition sound_sectors :: "'w sys \<Rightarrow> bool" where
  "sound_sectors os \<longleftrightarrow>
     (\<forall>f w n. fst (sys_blkssz os f w) = Some n \<longrightarrow> n = 0 \<or> 512 \<le> unat n) \<and>
     (\<forall>f w st. fst (sys_fstat os f w) = Some st \<longrightarrow> st_blksize st \<le> 0 \<or> 512 \<le> unat (word_of_int (st_blksize st) :: u64))"

lemma sysc_twp: "(\<And>a w. f (world s) = (a, w) \<Longrightarrow> Q a (s\<lparr>world := w\<rparr>)) \<Longrightarrow> twp (sysc f) Q s"
  by (simp split: prod.split)

lemma close_twp: "(\<And>d' w. Q d' (s\<lparr>world := w\<rparr>)) \<Longrightarrow> twp (dev_close os d) Q s"
proof -
  assume q: "\<And>d' w. Q d' (s\<lparr>world := w\<rparr>)"
  have "Q d' s" for d' using q [of d' "world s"] by simp
  then show ?thesis using q unfolding dev_close_def by (simp add: split_def)
qed

lemma fail_twp: "twp (dev_fail os d) (\<lambda>r s'. \<not> fst r) s"
  unfolding dev_fail_def wpx_bind by (rule close_twp) simp

lemma probe_size_twp:
  assumes "\<And>f w n. fst (sys_blkssz os f w) = Some n \<Longrightarrow> n = 0 \<or> 512 \<le> unat n"
    and "st_blksize st \<le> 0 \<or> 512 \<le> unat (word_of_int (st_blksize st) :: u64)"
    and "512 \<le> unat (d_sector_size d)"
  shows "twp (dev_probe_size os st d) (\<lambda>r s'. \<forall>d'. r = Some d' \<longrightarrow> 512 \<le> unat (d_sector_size d')) s"
proof -
  have "512 \<le> unat (ucast n :: u64)" if "fst (sys_blkssz os f w) = Some n" "0 < n" for f w n
    using assms(1) [OF that(1)] that(2) by auto
  then show ?thesis
    using assms(2,3) unfolding dev_probe_size_def
    by (auto simp: Let_def split_def split: option.split)
qed

lemma open_returns:
  assumes "sound_sectors os"
  shows "twp (dev_open os path d0) (\<lambda>r s'. fst r \<longrightarrow> 512 \<le> unat (d_sector_size (snd r))) s"
    (is "twp _ ?Q s")
proof -
  have fail: "twp (dev_fail os d) ?Q s'" for d and s' :: "('a, 'b) mach_scheme"
    by (rule wpx_weaken [OF fail_twp]) simp_all
  have size: "twp (dev_probe_size os st d) (\<lambda>r s'. \<forall>d'. r = Some d' \<longrightarrow> 512 \<le> unat (d_sector_size d')) s'"
    if "sys_fstat os f v = (Some st, w)" "d_sector_size d = 512" for f v w st d and s' :: "('a, 'b) mach_scheme"
  proof -
    have "fst (sys_fstat os f v) = Some st" using that(1) by simp
    then show ?thesis using assms that(2) by (intro probe_size_twp) (auto simp: sound_sectors_def)
  qed
  have rest: "twp (iob (dev_probe_size os st d) (\<lambda>r. case r of None \<Rightarrow> dev_fail os d | Some d \<Rightarrow> f d)) ?Q s'"
    if "sys_fstat os g v = (Some st, w)" "d_sector_size d = 512"
      "\<And>d s'. 512 \<le> unat (d_sector_size d) \<Longrightarrow> twp (f d) ?Q s'" for g v w st d f and s' :: "('a, 'b) mach_scheme"
    unfolding wpx_bind
    by (rule wpx_mono [OF size [OF that(1,2)]]) (auto intro: fail that(3) split: option.split)
  show ?thesis
    unfolding dev_open_def Let_def
    by (subst wpx_bind, rule close_twp, subst wpx_bind, rule sysc_twp, rule wpx_ifI, simp, subst wpx_bind,
        rule sysc_twp, rule wpx_optionI, rule fail, hypsubst, rule wpx_ifI, rule fail, rule rest, assumption, simp,
        simp add: split_def)
qed

section \<open>A whole run\<close>

lemma any_bind:
  "replies False (\<lambda>_. True) m \<Longrightarrow> (\<And>a s'. twp (f a) Q s') \<Longrightarrow> twp (iob m f) Q s"
  unfolding wpx_bind by (rule stays_wpx) simp_all

lemma prepare_returns: "twp (prepare_db en o1) (\<lambda>r s'. r = None \<longrightarrow> opened s') s"
proof -
  have meta: "twp (keep_meta en key val) (\<lambda>_. opened) s'" if "opened s'" for key val and s' :: "('a, 'b) engine_scheme"
    by (rule stays_wpx [OF replies_meta that])
  have last_step: "twp (on_store (open_store (en_sql en) found path)) (\<lambda>r. twp (case r of Some err \<Rightarrow> ioret (Some err)
      | None \<Rightarrow> iob (keep_meta en ''target'' tg) (\<lambda>_. iob (keep_meta en ''mode'' md) (\<lambda>_. ioret None)))
      (\<lambda>r s'. r = None \<longrightarrow> opened s')) s'" for found path tg md and s' :: "('a, 'b) engine_scheme"
    unfolding wpx_on_store
    by (rule wpx_mono [OF open_store_returns])
      (auto intro!: wpx_mono [OF meta] split: option.split)
  show ?thesis
    unfolding prepare_db_def
    by (rule any_bind, intro stays_intros coming_back.manifest, rule any_bind,
        intro stays_intros replies_sysc apart_any, rule any_bind, intro replies_sysc apart_any)
      (simp only: wpx_bind, rule last_step [unfolded wpx_bind])
qed

text \<open>After the rewriting, where nothing is to be hashed.\<close>

lemma replies_wrap_up:
  assumes "op_gui o1" and "op_sqlite_db o1 = []"
  shows "replies t opened (wrap_up en o1 original ok err)"
proof -
  have report: "replies t opened (report_bad en xs)" for xs
    by (induction xs; simp only: report_bad.simps; intro stays_intros replies_say apart_opened; assumption?)
  have hash: "hash_mounts en o1 original err = iob (say en LInfo ''SHA-1 skipped: no database'') (\<lambda>_. ioret (False, [], False))"
    using assms by (simp add: hash_mounts_def)
  show ?thesis
    unfolding wrap_up_def hash iob_assoc iob_ioret prod.case
    by (simp, intro stays_intros replies_on_store serves_extents report replies_say open_back.restore replies_progress apart_opened)
qed

lemma fail_returns: "replies t (\<lambda>_. True) (publish_fail en msg)"
  unfolding publish_fail_def by (intro stays_intros replies_progress apart_any)

lemma body_returns:
  fixes en :: "'w engine_env" and s :: "('w, 'z) engine_scheme"
  assumes "comes_back en TYPE('z)" and "sound_sectors (en_os en)"
    and "op_action o1 = ActTest \<or> op_mode o1 = RunLinear" and "op_gui o1" and "op_sqlite_db o1 = []"
  shows "twp (run_body en o1) (\<lambda>_ _. True) s"
proof -
  have more: "twp m (\<lambda>_ _. True) s'" if "replies False P m" "P s'" for P m and s' :: "('w, 'z) engine_scheme"
    by (rule stays_wpx [OF that]) simp
  have any: "twp m (\<lambda>_ _. True) s'" if "replies False (\<lambda>_. True) m" for m and s' :: "('w, 'z) engine_scheme"
    by (rule more [OF that]) simp
  have ends: "replies False (\<lambda>_ :: ('w, 'z) engine_scheme. True) (publish_fail en msg)"
    "replies False (\<lambda>_ :: ('w, 'z) engine_scheme. True) (dev_close (en_os en) d)"
    "replies False (\<lambda>_ :: ('w, 'z) engine_scheme. True) (restore_mount_state (en_host en) (op_target o1) original active temp [])" for msg d original active temp
    by (intro fail_returns replies_close coming_back.restore apart_any)+
  have rest: "twp (iob (refresh en o1 d err) (\<lambda>(ok, err). iob (dev_close (en_os en) d) (\<lambda>_. wrap_up en o1 original ok err)))
      (\<lambda>_ _. True) s'" if "512 \<le> unat (d_sector_size d)" "opened s'" for d original err and s' :: "('w, 'z) engine_scheme"
    by (rule stays_wpx [where P = opened, OF _ that(2)])
      (simp_all, intro stays_intros replies_refresh replies_close replies_wrap_up apart_opened assms that(1))
  have db: "twp (iob (prepare_db en o1) (\<lambda>r. case r of
         Some msg \<Rightarrow> iob (publish_fail en (if msg = [] then ''database open failed'' else msg)) (\<lambda>_.
             iob (dev_close (en_os en) d) (\<lambda>_. iob (restore_mount_state (en_host en) (op_target o1) original [] False []) (\<lambda>_. ioret False)))
       | None \<Rightarrow> iob (refresh en o1 d err) (\<lambda>(ok, err). iob (dev_close (en_os en) d) (\<lambda>_. wrap_up en o1 original ok err))))
      (\<lambda>_ _. True) s'" if "512 \<le> unat (d_sector_size d)" for d original err and s' :: "('w, 'z) engine_scheme"
    unfolding wpx_bind
    by (rule wpx_mono [OF prepare_returns], rule wpx_optionI)
      (rule rest [OF that], simp, rule any, intro stays_intros ends)
  have failed: "twp (iob (sysc (mx_errno (en_mx en))) (\<lambda>msg. iob (publish_fail en (mk msg)) (\<lambda>_.
         iob (restore_mount_state (en_host en) (op_target o1) original [] False []) (\<lambda>_. ioret False)))) (\<lambda>_ _. True) s'"
    for mk original and s' :: "('w, 'z) engine_scheme"
    by (rule any) (intro stays_intros replies_sysc apart_any ends)
  have dev: "twp (iob (dev_open (en_os en) (op_target o1) device_init) (\<lambda>(opened, d).
       if \<not> opened then
         iob (sysc (mx_errno (en_mx en))) (\<lambda>msg.
         iob (publish_fail en (''cannot open '' @ op_target o1 @ '': '' @ msg)) (\<lambda>_.
         iob (restore_mount_state (en_host en) (op_target o1) original [] False []) (\<lambda>_. ioret False)))
       else f d)) (\<lambda>_ _. True) s'"
    if "\<And>d s'. 512 \<le> unat (d_sector_size d) \<Longrightarrow> twp (f d) (\<lambda>_ _. True) s'"
    for original f and s' :: "('w, 'z) engine_scheme"
    unfolding wpx_bind
    by (rule wpx_mono [OF open_returns [OF assms(2)]], simp only: split_def, rule wpx_ifI, rule failed,
        rule that, simp)
  show ?thesis
    unfolding run_body_def
  proof (intro any_bind replies_progress replies_say coming_back.unmounted apart_any, simp only: split_def, rule wpx_ifI)
    fix a :: "bool \<times> mount_record list \<times> string" and s' :: "('w, 'z) engine_scheme"
    show "twp (iob (publish_fail en (if snd (snd a) = [] then ''unmount failed'' else snd (snd a))) (\<lambda>_. ioret False))
        (\<lambda>_ _. True) s'"
      by (rule any) (intro stays_intros ends)
  qed (rule dev [unfolded split_def], rule db [unfolded split_def])
qed

end
