(* ===== verification/Runs.thy ===== *)
theory Runs
  imports Returns
begin

text \<open>
  What a run of the worker promises: it leaves the device as it was, it comes back and says so, it
  records what it found, it gives back every descriptor and restores the mounts once.
\<close>

section \<open>The device\<close>

text \<open>C2: refreshing a device leaves every byte of it as it was: in either mode, whatever partition
  tables and file systems are found, whatever fails on the way and wherever the run is stopped.\<close>

theorem refresh_preserves_content:
  assumes "posix_disk (en_os en) {d_fd d, d_fd_direct d} content"
    and "\<And>w. content (snd (mx_sync_polls (en_mx en) w)) = content w"
    and "length (content (world s)) < 2 ^ 63"
    and "refresh en o1 d err s = Ret (r, s')"
  shows "content (world s') = content (world s)"
  using keepsD [OF content_run.refresh_obs refl assms(4), of content] assms(1-3) by simp

text \<open>A quiet environment around the disk in memory, for the witnesses.\<close>

definition ram_files :: "'w files_sys" where
  "ram_files = \<lparr>fx_open = \<lambda>p w. (Inl ''No such file or directory'', w), fx_read = \<lambda>f n w. (Inr [], w),
     fx_close = \<lambda>f w. ((), w), fx_digest_init = \<lambda>w. (True, w), fx_digest = \<lambda>bs. bs,
     fx_opendir = \<lambda>p w. (None, w), fx_readdir = \<lambda>d w. (None, w), fx_closedir = \<lambda>d w. ((), w),
     fx_lstat = \<lambda>p w. (None, w), fx_stat_size = \<lambda>p w. (None, w)\<rparr>"

definition ram_run :: "'w run_sys" where
  "ram_run = \<lparr>mx_home = \<lambda>w. (None, w), mx_db_file = \<lambda>p w. (Inr new_store, w), mx_errno = \<lambda>w. (''error'', w),
     mx_sync_polls = \<lambda>w. (1, w)\<rparr>"

definition ram_env :: "bytes engine_env" where
  "ram_env = \<lparr>en_os = ram_sys, en_fx = ram_files, en_host = ram_host, en_mx = ram_run, en_sql = calm_env, en_fuel = 10, en_depth = 3\<rparr>"

definition linear_options :: options where
  "linear_options = options_init\<lparr>op_mode := RunLinear, op_gui := True\<rparr>"

definition ram_engine :: "bytes engine" where
  "ram_engine = \<lparr>world = [7, 8, 9], prog = progress_init, cat = new_store\<rparr>"

lemma ram_comes_back: "comes_back ram_env TYPE('z)"
  using ram_live by (simp add: comes_back_def ram_env_def)

lemma ram_opened: "opened ram_engine"
  by (simp add: ram_engine_def new_store_def)

lemma refresh_preserves_content_witness:
  "\<exists>r s'. refresh ram_env linear_options (ram_dev\<lparr>d_sector_size := 512\<rparr>) [] ram_engine = Ret (r, s') \<and> world s' = [7, 8, 9]"
proof -
  let ?d = "ram_dev\<lparr>d_sector_size := 512\<rparr>"
  have "replies False opened (refresh ram_env linear_options ?d [])"
    by (rule replies_refresh [OF ram_comes_back]) (simp_all add: linear_options_def)
  from repliesD [OF this ram_opened] obtain r s'
    where run: "refresh ram_env linear_options ?d [] ram_engine = Ret (r, s')" by blast
  have "id (world s') = id (world ram_engine)"
    by (rule refresh_preserves_content [OF _ _ _ run, where content = id])
      (use posix_disk_mono [OF ram_sys_disk, of "{d_fd ?d, d_fd_direct ?d}"] in
        \<open>auto simp: ram_env_def ram_run_def ram_engine_def\<close>)
  then show ?thesis using run by (auto simp: ram_engine_def)
qed

section \<open>The end of a run\<close>

lemma finished_state:
  "p_finished (set_finished failed p)" "\<not> p_input_locked (set_finished failed p)"
  "p_failed (set_finished failed p) = failed"
  "\<not> failed \<Longrightarrow> p_bytes_done (set_finished failed p) = p_bytes_total (set_finished failed p)"
  by (simp_all add: set_finished_def Let_def)

text \<open>C3: a linear run of the graphical program without a database always comes to an end, whatever
  the disk, the host and the database answer and however often the user pauses it, as long as no
  call is interrupted for ever and every pause ends; and then the progress object says that it is
  finished, that input is free again and whether it failed, and shows no work left if it did not.\<close>

theorem linear_run_returns:
  fixes en :: "'w engine_env" and s :: "('w, 'z) engine_scheme"
  assumes "comes_back en TYPE('z)" and "sound_sectors (en_os en)"
    and "op_mode o1 = RunLinear" and "op_gui o1" and "op_sqlite_db o1 = []"
  shows "\<exists>ok s'. run_inner en o1 s = Ret (ok, s') \<and> p_finished (prog s') \<and> \<not> p_input_locked (prog s') \<and>
    p_failed (prog s') = (\<not> ok) \<and> (ok \<longrightarrow> p_bytes_done (prog s') = p_bytes_total (prog s'))"
proof -
  have "twp (run_body en o1) (\<lambda>_ _. True) s"
    by (rule body_returns) (use assms in simp_all)
  then have "twp (run_inner en o1) (\<lambda>ok s'. p_finished (prog s') \<and> \<not> p_input_locked (prog s') \<and>
      p_failed (prog s') = (\<not> ok) \<and> (ok \<longrightarrow> p_bytes_done (prog s') = p_bytes_total (prog s'))) s"
    unfolding run_inner_def wpx_bind
    by (rule wpx_weaken) (simp_all add: finished_state)
  from twp_returns [OF this] show ?thesis .
qed

lemma linear_run_returns_witness:
  "\<exists>ok s'. run_inner ram_env linear_options ram_engine = Ret (ok, s') \<and> p_finished (prog s')"
  using linear_run_returns [OF ram_comes_back, of linear_options ram_engine]
  by (auto simp: sound_sectors_def ram_env_def ram_sys_def linear_options_def options_init_def)

section \<open>A target that stays mounted\<close>

text \<open>Observations that mounting, unmounting and every command leave alone, and the clocks.\<close>

definition host_keeps :: "'w engine_env \<Rightarrow> ('w \<Rightarrow> 'c) \<Rightarrow> bool" where
  "host_keeps en g \<longleftrightarrow> host_moves (en_host en) (\<lambda>w w'. g w' = g w) \<and>
     (\<forall>cmd w. g (snd (hs_system (en_host en) cmd w)) = g w) \<and> (\<forall>cmd w. g (snd (hs_popen (en_host en) cmd w)) = g w) \<and>
     (\<forall>w. g (snd (sys_steady (en_os en) w)) = g w) \<and> (\<forall>w. g (snd (sys_time (en_os en) w)) = g w)"

interpretation untouched: open_host "en_host en" "\<lambda>w w'. host_keeps en g \<longrightarrow> g w' = g w" False False
    "\<lambda>s :: ('w, 'z) engine_scheme. host_keeps en g \<and> cat s = c \<and> g (world s) = v"
  for en :: "'w engine_env" and g c v
proof unfold_locales
  show "host_moves (en_host en) (\<lambda>w w'. host_keeps en g \<longrightarrow> g w' = g w)"
    by (cases "host_keeps en g") (auto simp: host_moves_def host_keeps_def)
qed (auto simp: host_keeps_def)

text \<open>C24: where the target cannot be unmounted the run comes back, fails, and says so; it has done
  nothing else: neither the database nor anything that only other calls change, such as the devices
  that are open or what is on them, is touched.\<close>

theorem refused_unmount_fails_run:
  fixes en :: "'w engine_env" and s :: "('w, 'z) engine_scheme"
  assumes "\<And>(s :: ('w, 'z) engine_scheme) r s'. ensure_unmounted (en_host en) (op_target o1) [] s = Ret (r, s') \<Longrightarrow> \<not> fst r"
    and "host_keeps en g"
  shows "\<exists>s'. run_inner en o1 s = Ret (False, s') \<and> p_finished (prog s') \<and> p_failed (prog s') \<and>
    cat s' = cat s \<and> g (world s') = g (world s)"
proof -
  let ?P = "\<lambda>s' :: ('w, 'z) engine_scheme. host_keeps en g \<and> cat s' = cat s \<and> g (world s') = g (world s)"
  have clock: "replies False ?P (sysc (sys_steady (en_os en)))" "replies False ?P (sysc (sys_time (en_os en)))"
    "replies False ?P (upd_prog f)" for f
    using assms(2) by (simp_all add: stays_def split_def host_keeps_def)
  have unmount: "twp (ensure_unmounted (en_host en) (op_target o1) []) (\<lambda>r s'. \<not> fst r \<and> ?P s') s'" if "?P s'" for s'
    using untouched.unmounted(2) [of en g "cat s" "g (world s)"] that
    by (auto simp: stays_def intro: wpx_mono dest: assms(1))
  have fail: "replies False ?P (publish_fail en msg)" for msg
    unfolding publish_fail_def pg_defs by (intro stays_intros clock)
  have failed: "twp (iob (publish_fail en msg) (\<lambda>_. ioret False)) (\<lambda>ok s'. \<not> ok \<and> ?P s') s'" if "?P s'" for msg s'
    unfolding wpx_bind by (rule stays_wpx [OF fail that]) simp
  have told: "replies False ?P (pg_set_phase m)" "replies False ?P (say en lv m)" for m lv
    unfolding say_def pg_defs by (intro stays_intros clock)+
  have start: "?P s" using assms(2) by simp
  have "twp (run_body en o1) (\<lambda>ok s'. \<not> ok \<and> ?P s') s"
    unfolding run_body_def wpx_bind
    by (rule stays_wpx [OF told(1) start], rule stays_wpx [OF told(2)], assumption,
        rule wpx_mono [OF unmount], assumption, unfold split_def, rule wpx_ifI, rule failed) simp_all
  then have "twp (run_inner en o1) (\<lambda>ok s'. \<not> ok \<and> p_finished (prog s') \<and> p_failed (prog s') \<and> ?P s') s"
    unfolding run_inner_def wpx_bind by (rule wpx_weaken) (simp_all add: finished_state)
  from twp_returns [OF this] show ?thesis by auto
qed

text \<open>A disk that is mounted and that nothing unmounts.\<close>

definition stuck_host :: "'w host" where
  "stuck_host = ram_host\<lparr>hs_proc_mounts := \<lambda>w. (''/dev/sda /mnt ext4 rw'', w), hs_stat := \<lambda>p w. (None, w)\<rparr>"

lemma stuck_refuses: "ensure_unmounted stuck_host ''/dev/sda'' [] s = Ret (r, s') \<Longrightarrow> \<not> fst r"
proof -
  have kinds: "path_is_regular_file stuck_host p s = Ret (False, s)" "path_is_block stuck_host p s = Ret (False, s)"
    "real_or_self stuck_host p s = Ret (p, s)" "which_ok stuck_host p s = Ret (False, s)" "shell_ok stuck_host p s = Ret (False, s)"
    for p and s :: "('a, 'b) mach_scheme"
    by (simp_all add: path_is_regular_file_def path_is_block_def real_or_self_def which_ok_def shell_ok_def run_shell_def
        is_kind_def iob_def sysc_def stuck_host_def ram_host_def)
  have calls: "sysc (hs_proc_mounts stuck_host) s = Ret (''/dev/sda /mnt ext4 rw'', s)"
    "sysc (hs_umount stuck_host p b) s = Ret (False, s)" "sysc (hs_gui stuck_host) s = Ret (True, s)"
    for p b and s :: "('a, 'b) mach_scheme"
    by (simp_all add: sysc_def stuck_host_def ram_host_def)
  let ?m = "record_of_mount ''/dev/sda'' ''/mnt'' ''ext4'' ''rw'' False"
  have quiet: "no_auth_target stuck_host ''/dev/sda'' s = Ret (False, s)" for s :: "('a, 'b) mach_scheme"
    by (simp add: no_auth_target_def iob_def kinds starts_with_def)
  have found: "find_mounts_for_device stuck_host ''/dev/sda'' s = Ret ([?m], s)" for s :: "('a, 'b) mach_scheme"
    by (simp add: find_mounts_for_device_def iob_def kinds calls getlines_def mount_of_line_def tokens_def is_space_def
        is_related_device_def record_of_mount_def map_filter_simps)
  have "unmount_one stuck_host ?m err s = Ret ((False, ''umount failed: /mnt''), s)" for err and s :: "('a, 'b) mach_scheme"
    by (simp add: unmount_one_def record_of_mount_def quiet kinds iob_def try_privileged_umount_def Let_def calls sudo_ok_def)
  then show "ensure_unmounted stuck_host ''/dev/sda'' [] s = Ret (r, s') \<Longrightarrow> \<not> fst r"
    by (auto simp: ensure_unmounted_def unmount_device_def iob_def found deepest_first_def)
qed

lemma refused_unmount_fails_run_witness:
  "\<exists>s'. run_inner (ram_env\<lparr>en_host := stuck_host\<rparr>) (linear_options\<lparr>op_target := ''/dev/sda''\<rparr>) ram_engine = Ret (False, s') \<and>
     p_failed (prog s') \<and> world s' = [7, 8, 9]"
  using refused_unmount_fails_run [of "ram_env\<lparr>en_host := stuck_host\<rparr>" "linear_options\<lparr>op_target := ''/dev/sda''\<rparr>" id ram_engine]
    stuck_refuses
  by (force simp: host_keeps_def host_moves_def stuck_host_def ram_host_def ram_env_def ram_sys_def ram_engine_def)

section \<open>The records of a run\<close>

text \<open>What an error of a rewrite looks like in the table of extents.\<close>

definition error_rows :: "block_io_result \<Rightarrow> (int \<times> int \<times> int) list" where
  "error_rows r = map (\<lambda>x. (sint (re_offset x), sint (re_length x), if re_status x = ExtReadErr then 1 else 2)) (io_errors r)"

lemma row_at_Some: "lookup s vol rt p = Some d \<Longrightarrow> row_at s vol rt p = d"
  by (simp add: row_at_def)

lemma record_rewrite_does:
  assumes "healthy e" and "ready s vol rt" and "key_ok p"
  shows "\<exists>s' t. record_rewrite e p sz r s = Ret ((), s') \<and> ready s' vol rt \<and>
    (\<forall>q. path_extents q s' = (if cstr q = cstr p
       then error_rows r
       else path_extents q s)) \<and>
    (\<forall>q. lookup s' vol rt q = (if path_key q = path_key p then
       Some ((row_at s vol rt p)\<lparr>rw_size := sint sz, rw_last_massage := t, rw_massage_count := rw_massage_count (row_at s vol rt p) + 1\<rparr>)
     else lookup s vol rt q))"
proof -
  let ?xs = "map (extent_of_error p) (io_errors r)"
  obtain now k where 1: "replace_extents e p ?xs s = 
      Ret (None, s\<lparr>st_extents := filter (\<lambda>r. ex_path r \<noteq> cstr p) (st_extents s) @
        map (extent_row_of (cstr p) now) ?xs, st_ticks := k\<rparr>)" (is "_ = Ret (_, ?s)")
    using replace_extents_does [OF assms(1), of s p ?xs] assms(2) by (auto simp: ready_def)
  have r: "ready ?s vol rt" and same: "row_at ?s vol rt p = row_at s vol rt p" using assms(2) by (simp_all add: row_at_def)
  obtain s' t where 2: "bump_massage e p (sint sz) ?s = Ret (None, s')" "ready s' vol rt" "st_extents s' = st_extents ?s"
      "\<And>q. lookup s' vol rt q = (if path_key q = path_key p then
       Some ((row_at s vol rt p)\<lparr>rw_size := sint sz, rw_last_massage := t, rw_massage_count := rw_massage_count (row_at s vol rt p) + 1\<rparr>)
     else lookup ?s vol rt q)"
    using bump_massage_does [OF assms(1) r assms(3), of "sint sz"] unfolding same by blast
  have rows: "path_extents q s' = (if cstr q = cstr p
       then error_rows r
       else path_extents q s)" for q
  proof (cases "cstr q = cstr p")
    case True
    then show ?thesis
      by (simp add: error_rows_def path_extents_def 2(3) filter_map comp_def extent_row_of_def extent_of_error_def)
  next
    case False
    then have keep: "filter (\<lambda>x. ex_path x \<noteq> cstr p \<and> ex_path x = cstr q) (st_extents s) =
        filter (\<lambda>x. ex_path x = cstr q) (st_extents s)"
      by (intro filter_cong) auto
    show ?thesis
      using False by (simp add: error_rows_def path_extents_def 2(3) filter_map comp_def extent_row_of_def extent_of_error_def)
        (simp only: keep)
  qed
  have "record_rewrite e p sz r s = Ret ((), s')"
    using 1 2(1) by (simp add: record_rewrite_def iob_def)
  then show ?thesis using 2(2,4) rows by (intro exI [of _ s'] exI [of _ t]) simp
qed

text \<open>C18: after a rewrite the table of extents holds for its path exactly the errors of the rewrite,
  in their order, the record of the path has the length rewritten and one massage more and keeps
  its hash and its verification, and no other path is touched.\<close>

theorem rewrite_recorded:
  assumes "healthy e" and "ready s vol rt" and "key_ok p" and "lookup s vol rt p = Some d"
  shows "\<exists>s' t. record_rewrite e p sz r s = Ret ((), s') \<and> ready s' vol rt \<and>
    (\<forall>q. path_extents q s' = (if cstr q = cstr p then error_rows r else path_extents q s)) \<and>
    (\<forall>q. lookup s' vol rt q = (if path_key q = path_key p
       then Some (d\<lparr>rw_size := sint sz, rw_last_massage := t, rw_massage_count := rw_massage_count d + 1\<rparr>)
       else lookup s vol rt q))"
  using record_rewrite_does [OF assms(1-3), of sz r] unfolding row_at_Some [OF assms(4)] .

definition bad_block :: block_io_result where
  "bad_block = \<lparr>io_ok = False, io_errors = [\<lparr>re_offset = 4096, re_length = 512, re_status = ExtReadErr\<rparr>]\<rparr>"

definition clean :: block_io_result where
  "clean = \<lparr>io_ok = True, io_errors = []\<rparr>"

lemma rewrite_recorded_witness:
  "\<exists>s'. record_rewrite calm_env ''/x'' 4096 bad_block usr_store = Ret ((), s') \<and>
     path_extents ''/x'' s' = [(4096, 512, 1)] \<and> map_option rw_massage_count (lookup s' 1 1 ''/x'') = Some 1"
  using rewrite_recorded [OF calm_healthy usr_store_ready usr_store_lookup(2,1), of 4096 bad_block]
  by (force simp: row_of_def object_init_def error_rows_def bad_block_def)

text \<open>A file of two extents is recorded as if it were the second only: the errors found in the
  first are forgotten, the size becomes the length of the second extent, and one run counts as two
  massages.\<close>

theorem second_extent_forgets_first:
  assumes "healthy e" and "ready s vol rt" and "key_ok p" and "lookup s vol rt p = Some d"
  shows "\<exists>s1 s2 t. record_rewrite e p len1 r1 s = Ret ((), s1) \<and> path_extents p s1 = error_rows r1 \<and>
    record_rewrite e p len2 r2 s1 = Ret ((), s2) \<and> path_extents p s2 = error_rows r2 \<and>
    lookup s2 vol rt p =
      Some (d\<lparr>rw_size := sint len2, rw_last_massage := t, rw_massage_count := rw_massage_count d + 2\<rparr>)"
proof -
  obtain s1 t1 where 1: "record_rewrite e p len1 r1 s = Ret ((), s1)" "ready s1 vol rt" "path_extents p s1 = error_rows r1"
      "lookup s1 vol rt p = Some (d\<lparr>rw_size := sint len1, rw_last_massage := t1, rw_massage_count := rw_massage_count d + 1\<rparr>)"
    using record_rewrite_does [OF assms(1-3), of len1 r1] unfolding row_at_Some [OF assms(4)] by auto
  obtain s2 t2 where 2: "record_rewrite e p len2 r2 s1 = Ret ((), s2)"
      "\<And>q. path_extents q s2 = (if cstr q = cstr p then error_rows r2 else path_extents q s1)"
      "\<And>q. lookup s2 vol rt q = (if path_key q = path_key p
         then Some (d\<lparr>rw_size := sint len2, rw_last_massage := t2, rw_massage_count := rw_massage_count d + 1 + 1\<rparr>)
         else lookup s1 vol rt q)"
    using record_rewrite_does [OF assms(1) 1(2) assms(3), of len2 r2] unfolding row_at_Some [OF 1(4)] by (auto cong: if_cong)
  then show ?thesis using 1 2(2) [of p] 2(3) [of p]
    by (intro exI [of _ s1] exI [of _ s2] exI [of _ t2]) (simp add: add.assoc)
qed

lemma second_extent_forgets_first_witness:
  "\<exists>s1 s2. record_rewrite calm_env ''/x'' 4096 bad_block usr_store = Ret ((), s1) \<and> path_extents ''/x'' s1 \<noteq> [] \<and>
     record_rewrite calm_env ''/x'' 512 clean s1 = Ret ((), s2) \<and> path_extents ''/x'' s2 = []"
  using second_extent_forgets_first [OF calm_healthy usr_store_ready usr_store_lookup(2,1), of 4096 bad_block 512 clean]
  by (fastforce simp: error_rows_def bad_block_def clean_def)

end
