(* ===== verification/Validate.thy ===== *)
theory Validate
  imports Store
begin

text \<open>
  The validation of a catalog, \<open>Store::validate_manifest\<close> (\<open>src/db/store.cpp\<close>): counts, three
  searches for rows that point nowhere, and the two checks of the database itself, with progress
  reports, pausing and cancelling.

  The two flags and the clock are read through \<open>val_env\<close>, each read at a time of its own, so they
  may change between any two reads.  What the checks of the database return, and when they call the
  progress handler, is a list of events of the environment.  The wait for the end of a pause is
  counted by \<open>fuel\<close>.
\<close>

section \<open>State\<close>

record validate_status =
  vs_phase :: string
  vs_done :: u64
  vs_total :: u64
  vs_eta :: rat
  vs_finished :: bool
  vs_failed :: bool
  vs_cancelled :: bool

definition status_init :: validate_status where
  "status_init = \<lparr>vs_phase = [], vs_done = 0, vs_total = 0, vs_eta = - 1, vs_finished = False,
     vs_failed = False, vs_cancelled = False\<rparr>"

record val_state =
  va_store :: store
  va_reads :: nat
  va_status :: validate_status
  va_events :: "validate_status list"
  va_done :: u64
  va_issues :: nat
  va_err :: "string option"
  va_report :: "string option"

datatype pragma_event = HandlerCall | CheckRow "string option"

record val_env =
  ve_sql :: sql_env
  ve_cancel :: "nat \<Rightarrow> bool"
  ve_pause :: "nat \<Rightarrow> bool"
  ve_clock :: "nat \<Rightarrow> rat"
  ve_quick :: "nat \<Rightarrow> pragma_event list"
  ve_full :: "nat \<Rightarrow> pragma_event list"

type_synonym 'a val = "(val_state, 'a) io"

definition indb :: "'a db \<Rightarrow> 'a val" where
  "indb m = (\<lambda>s. obind (m (va_store s)) (\<lambda>(a, st). Ret (a, s\<lparr>va_store := st\<rparr>)))"

definition outside :: "(nat \<Rightarrow> 'a) \<Rightarrow> 'a val" where
  "outside f = iob (ioget va_reads) (\<lambda>n. iob (ioupd (\<lambda>s. s\<lparr>va_reads := n + 1\<rparr>)) (\<lambda>_. ioret (f n)))"

section \<open>Flags and reports\<close>

definition val_cancelled :: "val_env \<Rightarrow> bool val" where
  "val_cancelled e = outside (ve_cancel e)"

fun wait_pause :: "nat \<Rightarrow> val_env \<Rightarrow> bool val" where
  "wait_pause 0 e = iostuck"
| "wait_pause (Suc n) e =
     iob (outside (ve_pause e)) (\<lambda>paused.
     if paused then iob (val_cancelled e) (\<lambda>c. if c then ioret False else wait_pause n e)
     else iob (val_cancelled e) (\<lambda>c. ioret (\<not> c)))"

definition publish :: "unit val" where
  "publish = ioupd (\<lambda>s. s\<lparr>va_events := va_events s @ [va_status s]\<rparr>)"

definition val_emit :: "string \<Rightarrow> u64 \<Rightarrow> u64 \<Rightarrow> rat \<Rightarrow> unit val" where
  "val_emit phase done all eta =
     iob (ioupd (\<lambda>s. s\<lparr>va_status := \<lparr>vs_phase = phase, vs_done = done, vs_total = all, vs_eta = eta,
       vs_finished = False, vs_failed = False, vs_cancelled = False\<rparr>\<rparr>)) (\<lambda>_. publish)"

definition val_finish :: "bool \<Rightarrow> bool \<Rightarrow> string \<Rightarrow> bool val" where
  "val_finish ok was_cancel rep =
     iob (ioupd (\<lambda>s. s\<lparr>va_status := (va_status s)\<lparr>vs_finished := True, vs_failed := \<not> ok \<and> \<not> was_cancel,
       vs_cancelled := was_cancel,
       vs_phase := (if was_cancel then ''Cancelled'' else if ok then ''Finished'' else ''Failed'')\<rparr>\<rparr>)) (\<lambda>_.
     iob publish (\<lambda>_.
     iob (ioupd (\<lambda>s. s\<lparr>va_report := Some rep\<rparr>)) (\<lambda>_.
     ioret (ok \<and> \<not> was_cancel))))"

definition set_val_err :: "string \<Rightarrow> unit val" where
  "set_val_err msg = ioupd (\<lambda>s. s\<lparr>va_err := map_option (\<lambda>_. msg) (va_err s)\<rparr>)"

text \<open>The weights of the five stages and the time of the start.\<close>

record val_plan =
  vp_folder :: u64
  vp_file :: u64
  vp_ext :: u64
  vp_total :: u64
  vp_start :: rat

definition w_quick :: u64 where
  "w_quick = 1000"

definition w_full :: u64 where
  "w_full = 5000"

definition plan_of :: "int \<Rightarrow> int \<Rightarrow> int \<Rightarrow> rat \<Rightarrow> val_plan" where
  "plan_of n_folder n_file n_ext t0 =
     (let wf = word_of_int (max n_folder 1); wl = word_of_int (max n_file 1); we = word_of_int (max n_ext 1) in
      \<lparr>vp_folder = wf, vp_file = wl, vp_ext = we, vp_total = wf + wl + we + w_quick + w_full, vp_start = t0\<rparr>)"

definition eta_for :: "val_env \<Rightarrow> val_plan \<Rightarrow> u64 \<Rightarrow> rat val" where
  "eta_for e pl d =
     iob (outside (ve_clock e)) (\<lambda>now.
     let elapsed = now - vp_start pl; rate = of_nat (unat d) / elapsed in
     ioret (if d = 0 \<or> elapsed < 1 / 5 then - 1
            else if rate < 1 then - 1
            else of_nat (unat (vp_total pl - d)) / rate))"

definition val_bump :: "val_plan \<Rightarrow> u64 \<Rightarrow> unit val" where
  "val_bump pl n = ioupd (\<lambda>s. s\<lparr>va_done := min (va_done s + n) (vp_total pl)\<rparr>)"

definition emit_at :: "val_env \<Rightarrow> val_plan \<Rightarrow> string \<Rightarrow> u64 \<Rightarrow> unit val" where
  "emit_at e pl phase d =
     iob (eta_for e pl d) (\<lambda>eta. val_emit phase d (vp_total pl) eta)"

definition emit_now :: "val_env \<Rightarrow> val_plan \<Rightarrow> string \<Rightarrow> unit val" where
  "emit_now e pl phase = iob (ioget va_done) (\<lambda>d. emit_at e pl phase d)"

section \<open>Rows that point nowhere\<close>

definition folder_orphans :: "store \<Rightarrow> int list" where
  "folder_orphans s =
     map fd_id (filter (\<lambda>r. fd_parent r \<noteq> 0 \<and> fd_parent r \<notin> fd_id ` set (st_folders s)) (st_folders s))"

definition file_orphans :: "store \<Rightarrow> int list" where
  "file_orphans s = map fl_id (filter (\<lambda>r. fl_folder r \<notin> fd_id ` set (st_folders s)) (st_files s))"

text \<open>All folders with their paths, from those whose parent is 0; their own name does not count.\<close>

definition folder_paths :: "store \<Rightarrow> (int \<times> string) list" where
  "folder_paths s =
     tree_levels (length (st_folders s) + 1) (s\<lparr>st_folders := filter (\<lambda>r. fd_parent r \<noteq> 0) (st_folders s)\<rparr>)
       (map (\<lambda>r. (fd_id r, [])) (filter (\<lambda>r. fd_parent r = 0) (st_folders s)))"

definition known_paths :: "bool \<Rightarrow> store \<Rightarrow> string list" where
  "known_paths objects s =
     concat (map (\<lambda>f. map (\<lambda>(i, rel). if rel = [] then ''/'' @ fl_name f else ''/'' @ rel @ ''/'' @ fl_name f)
       (filter (\<lambda>(i, rel). i = fl_folder f) (folder_paths s))) (st_files s)) @
     map (\<lambda>(i, rel). if rel = [] then ''/'' else ''/'' @ rel) (folder_paths s) @
     (if objects then map ob_type (st_objects s) else [])"

definition extent_orphans :: "bool \<Rightarrow> store \<Rightarrow> string list" where
  "extent_orphans objects s =
     (let known = set (known_paths objects s) in filter (\<lambda>p. p \<notin> known) (map ex_path (st_extents s)))"

definition orphan_part :: "u64 \<Rightarrow> int \<Rightarrow> int \<Rightarrow> u64" where
  "orphan_part weight rows seen =
     (if 0 < rows then (weight * word_of_int (min seen rows)) div word_of_int rows else weight)"

fun orphan_loop :: "nat \<Rightarrow> val_env \<Rightarrow> val_plan \<Rightarrow> string \<Rightarrow> u64 \<Rightarrow> int \<Rightarrow> 'a list \<Rightarrow> int \<Rightarrow> bool val" where
  "orphan_loop fuel e pl phase weight rows [] seen = ioret True"
| "orphan_loop fuel e pl phase weight rows (r # rs) seen =
     iob (val_cancelled e) (\<lambda>c.
     if c then ioret False
     else
       iob (wait_pause fuel e) (\<lambda>go.
       if \<not> go then ioret False
       else
         iob (ioupd (\<lambda>s. s\<lparr>va_issues := va_issues s + 1\<rparr>)) (\<lambda>_.
         let seen = seen + 1 in
         iob (if seen mod 64 = 0
              then iob (ioget va_done) (\<lambda>d. emit_at e pl phase (d + orphan_part weight rows seen))
              else ioret ()) (\<lambda>_.
         orphan_loop fuel e pl phase weight rows rs seen))))"

definition scan_orphans ::
  "nat \<Rightarrow> val_env \<Rightarrow> val_plan \<Rightarrow> string \<Rightarrow> (store \<Rightarrow> 'a list) \<Rightarrow> u64 \<Rightarrow> int \<Rightarrow> bool val" where
  "scan_orphans fuel e pl phase q weight rows =
     iob (wait_pause fuel e) (\<lambda>go.
     if \<not> go then ioret False
     else
       iob (emit_now e pl phase) (\<lambda>_.
       iob (indb (run_query (ve_sql e) q)) (\<lambda>r.
       case r of
         Inl msg \<Rightarrow> iob (set_val_err (phase @ '': '' @ msg)) (\<lambda>_. ioret False)
       | Inr found \<Rightarrow>
           iob (orphan_loop fuel e pl phase weight rows found 0) (\<lambda>ok.
           if \<not> ok then ioret False
           else
             iob (val_bump pl weight) (\<lambda>_.
             iob (emit_now e pl phase) (\<lambda>_.
             ioret True))))))"

definition newline :: string where
  "newline = [CHR 0x0A]"

definition orphan_fail :: "val_env \<Rightarrow> string \<Rightarrow> string \<Rightarrow> bool val" where
  "orphan_fail e summary phase =
     iob (val_cancelled e) (\<lambda>c.
     if c then val_finish False True (summary @ newline @ ''Cancelled during '' @ phase @ ''.'')
     else
       iob (ioget va_err) (\<lambda>err.
       val_finish False False (summary @ newline @
         (case err of Some (x # xs) \<Rightarrow> x # xs | _ \<Rightarrow> ''check failed''))))"

section \<open>The checks of the database\<close>

text \<open>A run of a check: the handler may end it, a row may, or the events run out.\<close>

fun pragma_loop :: "val_env \<Rightarrow> val_plan \<Rightarrow> u64 \<Rightarrow> u64 \<Rightarrow> pragma_event list \<Rightarrow> nat \<Rightarrow> string \<Rightarrow> bool \<Rightarrow>
    (bool \<times> string) val" where
  "pragma_loop e pl base weight [] ticks out ok = ioret (ok, out)"
| "pragma_loop e pl base weight (HandlerCall # es) ticks out ok =
     iob (val_cancelled e) (\<lambda>c.
     if c then ioret (ok, out)
     else
       iob (outside (ve_clock e)) (\<lambda>now.
       let d = base + min weight (word_of_nat (Suc ticks) * 10); elapsed = now - vp_start pl in
       iob (ioupd (\<lambda>s. s\<lparr>va_status := (va_status s)\<lparr>vs_done := d, vs_total := vp_total pl,
         vs_eta := (if 0 < d \<and> 1 / 5 < elapsed
           then of_nat (unat (vp_total pl - d)) / (of_nat (unat d) / elapsed) else vs_eta (va_status s))\<rparr>\<rparr>)) (\<lambda>_.
       iob publish (\<lambda>_.
       pragma_loop e pl base weight es (Suc ticks) out ok))))"
| "pragma_loop e pl base weight (CheckRow t # es) ticks out ok =
     iob (val_cancelled e) (\<lambda>c.
     if c then ioret (ok, out)
     else
       (case t of
          None \<Rightarrow> pragma_loop e pl base weight es ticks out ok
        | Some t \<Rightarrow> pragma_loop e pl base weight es ticks
            ((if out \<noteq> [] then out @ newline else out) @ t) (ok \<and> t = ''ok'')))"

definition pragma_check ::
  "val_env \<Rightarrow> val_plan \<Rightarrow> u64 \<Rightarrow> u64 \<Rightarrow> (nat \<Rightarrow> pragma_event list) \<Rightarrow> (bool \<times> string) val" where
  "pragma_check e pl base weight events =
     iob (indb (prepare (ve_sql e))) (\<lambda>p.
     case p of
       Some _ \<Rightarrow> ioret (True, [])
     | None \<Rightarrow> iob (outside events) (\<lambda>es. pragma_loop e pl base weight es 0 [] True))"

definition dots :: string where
  "dots = [CHR 0xE2, CHR 0x80, CHR 0xA6]"

definition full_check :: "val_env \<Rightarrow> val_plan \<Rightarrow> string \<Rightarrow> bool val" where
  "full_check e pl summary =
     iob (ioget va_done) (\<lambda>base.
     iob (emit_now e pl (''Full integrity check'' @ dots)) (\<lambda>_.
     iob (pragma_check e pl base w_full (ve_full e)) (\<lambda>(ok, out).
     iob (val_cancelled e) (\<lambda>c.
     if c then val_finish False True (summary @ newline @ ''Cancelled during integrity check.'')
     else
       let summary = summary @ ''Integrity check: '' @ (if out = [] then ''(empty)'' else out) @ newline in
       if \<not> ok then val_finish False False summary
       else
         iob (val_bump pl w_full) (\<lambda>_.
         iob (ioupd (\<lambda>s. s\<lparr>va_done := vp_total pl\<rparr>)) (\<lambda>_.
         iob (ioget va_issues) (\<lambda>issues.
         let summary = summary @ (if 0 < issues
           then ''Orphan / broken links found: '' @ show_int (int issues) @ newline
           else ''Cross-references: ok'' @ newline) in
         iob (val_emit ''Finished'' (vp_total pl) (vp_total pl) 0) (\<lambda>_.
         val_finish (issues = 0) False summary))))))))"

definition database_checks :: "nat \<Rightarrow> val_env \<Rightarrow> val_plan \<Rightarrow> string \<Rightarrow> bool val" where
  "database_checks fuel e pl summary =
     iob (wait_pause fuel e) (\<lambda>go.
     if \<not> go then val_finish False True (summary @ newline @ ''Cancelled.'')
     else
       iob (ioget va_done) (\<lambda>base.
       iob (emit_now e pl (''Quick database check'' @ dots)) (\<lambda>_.
       iob (pragma_check e pl base w_quick (ve_quick e)) (\<lambda>(ok, out).
       iob (val_cancelled e) (\<lambda>c.
       if c then val_finish False True (summary @ newline @ ''Cancelled during quick check.'')
       else if \<not> ok then val_finish False False (summary @ newline @ ''Quick check:'' @ newline @ out)
       else
         let summary = summary @ newline @ ''Quick check: ok'' @ newline in
         iob (val_bump pl w_quick) (\<lambda>_.
         iob (wait_pause fuel e) (\<lambda>go.
         if \<not> go then val_finish False True (summary @ newline @ ''Cancelled.'')
         else full_check e pl summary)))))))"

definition cross_checks :: "nat \<Rightarrow> val_env \<Rightarrow> val_plan \<Rightarrow> int \<Rightarrow> int \<Rightarrow> int \<Rightarrow> string \<Rightarrow> bool val" where
  "cross_checks fuel e pl n_folder n_file n_ext summary =
     iob (scan_orphans fuel e pl (''Checking folder links'' @ dots) folder_orphans (vp_folder pl) n_folder) (\<lambda>ok.
     if \<not> ok then orphan_fail e summary ''folder check''
     else
       iob (scan_orphans fuel e pl (''Checking file folder links'' @ dots) file_orphans (vp_file pl) n_file) (\<lambda>ok.
       if \<not> ok then orphan_fail e summary ''file check''
       else
         iob (indb (table_exists (ve_sql e) (\<lambda>_. True))) (\<lambda>objects.
         iob (scan_orphans fuel e pl (''Checking extent links'' @ dots) (extent_orphans objects) (vp_ext pl) n_ext) (\<lambda>ok.
         if \<not> ok then orphan_fail e summary ''extent check''
         else database_checks fuel e pl summary))))"

section \<open>The whole validation\<close>

definition scalar_i64 :: "sql_env \<Rightarrow> (store \<Rightarrow> nat) \<Rightarrow> int db" where
  "scalar_i64 e count =
     iob (query_first e (\<lambda>s. [int (count s)])) (\<lambda>r. ioret (case r of None \<Rightarrow> 0 | Some n \<Rightarrow> n))"

definition count_summary :: "int \<Rightarrow> int \<Rightarrow> int \<Rightarrow> int \<Rightarrow> string" where
  "count_summary n_file n_folder n_ext n_obj =
     ''Files: '' @ show_int n_file @ newline @ ''Folders: '' @ show_int n_folder @ newline @
     ''Extents: '' @ show_int n_ext @ newline @
     (if n_obj \<noteq> 0 then ''Legacy objects: '' @ show_int n_obj @ newline else [])"

definition validate_open :: "nat \<Rightarrow> val_env \<Rightarrow> bool val" where
  "validate_open fuel e =
     iob (wait_pause fuel e) (\<lambda>go.
     if \<not> go then val_finish False True ''cancelled''
     else
       iob (val_emit (''Counting catalog rows'' @ dots) 0 1 (- 1)) (\<lambda>_.
       iob (indb (scalar_i64 (ve_sql e) (\<lambda>s. length (st_files s)))) (\<lambda>n_file.
       iob (indb (scalar_i64 (ve_sql e) (\<lambda>s. length (st_folders s)))) (\<lambda>n_folder.
       iob (indb (scalar_i64 (ve_sql e) (\<lambda>s. length (st_extents s)))) (\<lambda>n_ext.
       iob (indb (table_exists (ve_sql e) (\<lambda>_. True))) (\<lambda>objects.
       iob (if objects then indb (scalar_i64 (ve_sql e) (\<lambda>s. length (st_objects s))) else ioret 0) (\<lambda>n_obj.
       iob (outside (ve_clock e)) (\<lambda>t0.
       iob (ioupd (\<lambda>s. s\<lparr>va_done := 0, va_issues := 0\<rparr>)) (\<lambda>_.
       cross_checks fuel e (plan_of n_folder n_file n_ext t0) n_folder n_file n_ext
         (count_summary n_file n_folder n_ext n_obj))))))))))"

definition validate_manifest :: "nat \<Rightarrow> val_env \<Rightarrow> bool val" where
  "validate_manifest fuel e =
     iob (ioget (\<lambda>s. st_open (va_store s))) (\<lambda>opened.
     if \<not> opened then iob (set_val_err not_open) (\<lambda>_. ioret False)
     else iob (ioupd (\<lambda>s. s\<lparr>va_status := status_init\<rparr>)) (\<lambda>_. validate_open fuel e))"

section \<open>Lemmas: what a validation leaves alone\<close>

definition tables :: "store \<Rightarrow> store" where
  "tables s = s\<lparr>st_ticks := 0\<rparr>"

lemma tables_ticks [simp]: "tables (s\<lparr>st_ticks := k\<rparr>) = tables s"
  by (simp add: tables_def)

lemma tickless_tables: "tickless (\<lambda>s. tables s = T)"
  by (simp add: tickless_def)

text \<open>While it runs, only reports of a run that goes on are sent, and the tables are as before.\<close>

definition ongoing :: "validate_status \<Rightarrow> bool" where
  "ongoing v \<longleftrightarrow> \<not> vs_finished v \<and> \<not> vs_failed v \<and> \<not> vs_cancelled v"

definition going :: "validate_status list \<Rightarrow> store \<Rightarrow> val_state \<Rightarrow> bool" where
  "going E T s \<longleftrightarrow> tables (va_store s) = T \<and> ongoing (va_status s) \<and>
     (\<exists>evs. va_events s = E @ evs \<and> (\<forall>v \<in> set evs. ongoing v))"

abbreviation goes :: "validate_status list \<Rightarrow> store \<Rightarrow> 'a val \<Rightarrow> bool" where
  "goes E T m \<equiv> stays True True (going E T) m"

lemma goes_outside [stays_intros]: "goes E T (outside f)"
  unfolding outside_def by (intro stays_intros stays_upd) (simp add: going_def)

lemma goes_indb:
  assumes "keeps tables T m"
  shows "goes E T (indb m)"
  unfolding stays_def
proof (intro allI impI)
  fix s assume s: "going E T s"
  then have "wlp m (\<lambda>_ s'. tables s' = T) (va_store s)"
    using assms by (simp add: stays_def going_def)
  then show "wlp (indb m) (\<lambda>_ s'. going E T s') s"
    using s by (cases "m (va_store s)") (auto simp: wpx_def indb_def going_def)
qed

lemma goes_publish [stays_intros]: "goes E T publish"
  unfolding publish_def by (rule stays_upd) (force simp: going_def)

lemma goes_emit [stays_intros]: "goes E T (val_emit phase d all eta)"
  unfolding val_emit_def
  by (intro stays_bind stays_upd goes_publish) (auto simp: going_def ongoing_def)

lemma goes_pieces [stays_intros]:
  "goes E T (val_cancelled e)" "goes E T (eta_for e pl d)" "goes E T (emit_at e pl phase d)"
  "goes E T (emit_now e pl phase)" "goes E T (val_bump pl n)" "goes E T (set_val_err msg)"
  unfolding val_cancelled_def eta_for_def emit_at_def emit_now_def val_bump_def set_val_err_def
  by (intro stays_intros stays_upd; simp add: going_def)+

lemma goes_wait_pause [stays_intros]: "goes E T (wait_pause n e)"
  by (induction n) (auto intro!: stays_intros)

lemma goes_queries [stays_intros]:
  "goes E T (indb (run_query e q))" "goes E T (indb (prepare e))" "goes E T (indb (scalar_i64 e c))"
  "goes E T (indb (table_exists e present))"
  unfolding scalar_i64_def table_exists_def
  by (intro goes_indb stays_intros holds_run_query holds_prepare holds_query_first tickless_tables)+

lemma goes_orphan_loop [stays_intros]: "goes E T (orphan_loop fuel e pl phase w rows rs seen)"
proof (induction rs arbitrary: seen)
  case (Cons r rs)
  show ?case
    unfolding orphan_loop.simps by (intro stays_intros stays_upd Cons) (simp add: going_def)
qed (simp add: stays_intros)

lemma goes_scan_orphans [stays_intros]: "goes E T (scan_orphans fuel e pl phase q w rows)"
  unfolding scan_orphans_def by (intro stays_intros)

lemma goes_pragma_loop [stays_intros]: "goes E T (pragma_loop e pl base w es ticks out ok)"
proof (induction es arbitrary: ticks out ok)
  case (Cons ev es)
  show ?case
    by (cases ev; simp only: pragma_loop.simps; intro stays_intros stays_upd Cons)
      (simp_all add: going_def ongoing_def)
qed (simp add: stays_intros)

lemma goes_pragma_check [stays_intros]: "goes E T (pragma_check e pl base w events)"
  unfolding pragma_check_def by (intro stays_intros)

text \<open>It ends with one report that the run is over, which says what the result is.\<close>

definition reported :: "validate_status list \<Rightarrow> store \<Rightarrow> bool \<Rightarrow> val_state \<Rightarrow> bool" where
  "reported E T ok s \<longleftrightarrow> tables (va_store s) = T \<and>
     (\<exists>evs v. va_events s = E @ evs @ [v] \<and> (\<forall>x \<in> set evs. ongoing x) \<and> vs_finished v \<and>
        ok = (\<not> vs_failed v \<and> \<not> vs_cancelled v) \<and> \<not> (vs_failed v \<and> vs_cancelled v)) \<and>
     va_report s \<noteq> None"

definition concludes :: "validate_status list \<Rightarrow> store \<Rightarrow> bool val \<Rightarrow> bool" where
  "concludes E T m \<longleftrightarrow> (\<forall>s. going E T s \<longrightarrow> wlp m (reported E T) s)"

lemma concludes_finish: "concludes E T (val_finish ok was_cancel rep)"
  by (auto simp: concludes_def val_finish_def publish_def going_def reported_def)

lemma concludes_bind: "goes E T m \<Longrightarrow> (\<And>a. concludes E T (f a)) \<Longrightarrow> concludes E T (iob m f)"
  unfolding concludes_def stays_def wpx_bind by (blast intro: wpx_weaken)

lemma concludes_if: "concludes E T m \<Longrightarrow> concludes E T m' \<Longrightarrow> concludes E T (if b then m else m')"
  by simp

lemma concludes_prod: "(\<And>a b. concludes E T (f a b)) \<Longrightarrow> concludes E T (case x of (a, b) \<Rightarrow> f a b)"
  by (cases x) auto

lemma concludes_let: "(\<And>x. concludes E T (f x)) \<Longrightarrow> concludes E T (let x = a in f x)"
  by simp

lemmas concludes_rules = concludes_bind concludes_if concludes_prod concludes_let concludes_finish

lemma concludes_stages:
  "concludes E T (orphan_fail e summary phase)"
  "concludes E T (full_check e pl summary)"
  unfolding orphan_fail_def full_check_def
  by (intro concludes_rules stays_intros stays_upd; simp add: going_def)+

lemma concludes_checks: "concludes E T (database_checks fuel e pl summary)"
  unfolding database_checks_def by (intro concludes_rules concludes_stages stays_intros)

lemma concludes_cross: "concludes E T (cross_checks fuel e pl a b c summary)"
  unfolding cross_checks_def by (intro concludes_rules concludes_stages concludes_checks stays_intros)

text \<open>A validation only reads: it leaves the tables as they are, on every outcome.  It sends
  exactly one report that it is over, as its last one, and this report says finished, failed or
  cancelled as the result does; a report text is always given.\<close>

theorem validation_reports:
  assumes "st_open (va_store s)" and "validate_manifest fuel e s = Ret (ok, s')"
  shows "tables (va_store s') = tables (va_store s) \<and>
    (\<exists>evs v. va_events s' = va_events s @ evs @ [v] \<and> (\<forall>x \<in> set evs. \<not> vs_finished x) \<and> vs_finished v \<and>
       ok = (\<not> vs_failed v \<and> \<not> vs_cancelled v) \<and> \<not> (vs_failed v \<and> vs_cancelled v)) \<and>
    va_report s' \<noteq> None"
proof -
  let ?E = "va_events s" and ?T = "tables (va_store s)"
  let ?s = "s\<lparr>va_status := status_init\<rparr>"
  have start: "going ?E ?T ?s" by (simp add: going_def ongoing_def status_init_def)
  have run: "validate_open fuel e ?s = Ret (ok, s')"
    using assms unfolding validate_manifest_def by (simp add: iob_def)
  have "concludes ?E ?T (validate_open fuel e)"
    unfolding validate_open_def
    by (intro concludes_rules concludes_cross stays_intros stays_upd) (simp_all add: going_def)
  then have "wlp (validate_open fuel e) (reported ?E ?T) ?s"
    using start by (simp add: concludes_def)
  from wlp_Ret [OF this run] have "reported ?E ?T ok s'" .
  then show ?thesis unfolding reported_def ongoing_def by blast
qed

section \<open>Lemmas: a validation without failures\<close>

text \<open>\<open>gives m i T r i'\<close>: from tables \<open>T\<close> and \<open>i\<close> issues the routine returns \<open>r\<close>, with the same
  tables and \<open>i'\<close> issues.  Reports and reads of the flags and the clock do not matter.\<close>

definition gives :: "'a val \<Rightarrow> nat \<Rightarrow> store \<Rightarrow> 'a \<Rightarrow> nat \<Rightarrow> bool" where
  "gives m i T r i' \<longleftrightarrow> (\<forall>s. va_issues s = i \<longrightarrow> tables (va_store s) = T \<longrightarrow>
     (\<exists>s'. m s = Ret (r, s') \<and> va_issues s' = i' \<and> tables (va_store s') = T))"

definition calm_val :: "val_env \<Rightarrow> bool" where
  "calm_val e \<longleftrightarrow> healthy (ve_sql e) \<and> (\<forall>n. \<not> ve_cancel e n) \<and> (\<forall>n. \<not> ve_pause e n)"

lemma gives_ret: "gives (ioret a) i T a i" and gives_Ret [simp]: "gives (\<lambda>s. Ret (a, s)) i T a i"
  by (simp_all add: gives_def)

lemma gives_bind: "gives m i T a i' \<Longrightarrow> gives (f a) i' T b i'' \<Longrightarrow> gives (iob m f) i T b i''"
  unfolding gives_def iob_def by fastforce

text \<open>A step whose value does not matter.\<close>

definition idles :: "'a val \<Rightarrow> bool" where
  "idles m \<longleftrightarrow> (\<forall>s. \<exists>a s'. m s = Ret (a, s') \<and> va_issues s' = va_issues s \<and> va_store s' = va_store s)"

lemma gives_idle: "idles m \<Longrightarrow> (\<And>a. gives (f a) i T b i') \<Longrightarrow> gives (iob m f) i T b i'"
  unfolding gives_def idles_def iob_def by fastforce

lemma idles_bind: "idles m \<Longrightarrow> (\<And>a. idles (f a)) \<Longrightarrow> idles (iob m f)"
  unfolding idles_def iob_def by fastforce

lemma idles_ret: "idles (ioret a)" and idles_get: "idles (ioget g)"
  by (simp_all add: idles_def)

lemma idles_upd:
  "(\<And>s. va_issues (f s) = va_issues s) \<Longrightarrow> (\<And>s. va_store (f s) = va_store s) \<Longrightarrow> idles (ioupd f)"
  by (simp add: idles_def)

lemma idles_let: "(\<And>x. idles (f x)) \<Longrightarrow> idles (let x = a in f x)"
  by simp

lemma idles_pieces:
  "idles (outside g)" "idles publish" "idles (val_emit phase d all eta)" "idles (eta_for e pl d)"
  "idles (emit_at e pl phase d)" "idles (emit_now e pl phase)" "idles (val_bump pl n)"
  unfolding outside_def publish_def val_emit_def eta_for_def emit_at_def emit_now_def val_bump_def
  by (intro idles_bind idles_ret idles_get idles_upd idles_let; simp)+

lemma gives_cancelled: "calm_val e \<Longrightarrow> gives (val_cancelled e) i T False i"
  by (simp add: gives_def val_cancelled_def outside_def calm_val_def iob_def)

lemma gives_wait_pause: "calm_val e \<Longrightarrow> 0 < n \<Longrightarrow> gives (wait_pause n e) i T True i"
  by (cases n) (simp_all add: gives_def val_cancelled_def outside_def calm_val_def iob_def)

lemma gives_indb:
  assumes "does m T r T" and "tables T = T"
  shows "gives (indb m) i T r i"
  unfolding gives_def
proof (intro allI impI)
  fix s :: val_state assume s: "va_issues s = i" "tables (va_store s) = T"
  have "va_store s = T\<lparr>st_ticks := st_ticks (va_store s)\<rparr>"
    using s(2) by (auto simp: tables_def)
  then have "eqt (va_store s) T" unfolding eqt_def by blast
  then obtain s1 where "m (va_store s) = Ret (r, s1)" "eqt s1 T"
    using assms(1) unfolding does_def by blast
  then show "\<exists>s'. indb m s = Ret (r, s') \<and> va_issues s' = i \<and> tables (va_store s') = T"
    using s assms(2) by (auto simp: indb_def eqt_def)
qed

lemma gives_query:
  "calm_val e \<Longrightarrow> st_open T \<Longrightarrow> tables T = T \<Longrightarrow> blind_query q \<Longrightarrow>
   gives (indb (run_query (ve_sql e) q)) i T (Inr (q T)) i"
  by (rule gives_indb [OF run_query_does]) (simp_all add: calm_val_def)

lemma gives_table_exists:
  assumes "calm_val e" and "st_open T" and "tables T = T"
  shows "gives (indb (table_exists (ve_sql e) (\<lambda>_. True))) i T True i"
  unfolding table_exists_def
  by (rule gives_indb [OF does_lift [OF query_first_does]])
    (use assms in \<open>simp_all add: calm_val_def blind_query_def first_row_def\<close>)

lemma gives_scalar:
  assumes "calm_val e" and "st_open T" and "tables T = T" and "\<And>s k. c (s\<lparr>st_ticks := k\<rparr>) = c s"
  shows "gives (indb (scalar_i64 (ve_sql e) c)) i T (int (c T)) i"
  unfolding scalar_i64_def
  by (rule gives_indb [OF does_lift [OF query_first_does]])
    (use assms in \<open>simp_all add: calm_val_def blind_query_def first_row_def\<close>)

lemma gives_orphan_loop:
  "calm_val e \<Longrightarrow> 0 < fuel \<Longrightarrow>
   gives (orphan_loop fuel e pl phase w rows rs seen) i T True (i + length rs)"
proof (induction rs arbitrary: i seen)
  case Nil
  show ?case by (simp add: gives_ret)
next
  case (Cons r rs)
  have issue: "gives (ioupd (\<lambda>s. s\<lparr>va_issues := va_issues s + 1\<rparr>)) i T () (i + 1)"
    by (simp add: gives_def)
  have report: "idles (if (seen + 1) mod 64 = 0
      then iob (ioget va_done) (\<lambda>d. emit_at e pl phase (d + orphan_part w rows (seen + 1))) else ioret ())"
    by (auto intro: idles_bind idles_get idles_ret idles_pieces)
  have rest: "gives (orphan_loop fuel e pl phase w rows rs (seen + 1)) (i + 1) T True (i + length (r # rs))"
    using Cons.IH [OF Cons.prems, of "seen + 1" "i + 1"] by simp
  show ?case
    unfolding orphan_loop.simps Let_def
    by (rule gives_bind [OF gives_cancelled [OF Cons.prems(1)]], simp only: if_False,
        rule gives_bind [OF gives_wait_pause [OF Cons.prems]], simp only: not_True_eq_False if_False,
        rule gives_bind [OF issue], rule gives_idle [OF report], rule rest)
qed

lemma gives_scan_orphans:
  assumes "calm_val e" and "0 < fuel" and "st_open T" and "tables T = T" and "blind_query q"
  shows "gives (scan_orphans fuel e pl phase q w rows) i T True (i + length (q T))"
  unfolding scan_orphans_def
  by (rule gives_bind [OF gives_wait_pause [OF assms(1,2)]], simp,
      rule gives_idle [OF idles_pieces(6)], rule gives_bind [OF gives_query [OF assms(1,3,4,5)]], simp,
      rule gives_bind [OF gives_orphan_loop [OF assms(1,2)]], simp)
    (intro gives_idle [OF idles_pieces(7)] gives_idle [OF idles_pieces(6)] gives_ret)

text \<open>The rows of a check are fine if none of them says anything but ok.\<close>

definition rows_ok :: "pragma_event list \<Rightarrow> bool" where
  "rows_ok es \<longleftrightarrow> (\<forall>t. CheckRow (Some t) \<in> set es \<longrightarrow> t = ''ok'')"

lemma rows_ok_simps:
  "rows_ok []" "rows_ok (HandlerCall # es) = rows_ok es" "rows_ok (CheckRow None # es) = rows_ok es"
  "rows_ok (CheckRow (Some x) # es) = (x = ''ok'' \<and> rows_ok es)"
  by (auto simp: rows_ok_def)

lemma gives_pragma_loop:
  "calm_val e \<Longrightarrow>
   \<exists>out'. gives (pragma_loop e pl base w es ticks out ok) i T (ok \<and> rows_ok es, out') i"
proof (induction es arbitrary: ticks out ok)
  case Nil
  show ?case by (intro exI [of _ out]) (simp add: rows_ok_def)
next
  case (Cons ev es)
  show ?case
  proof (cases ev)
    case HandlerCall
    obtain out' where "gives (pragma_loop e pl base w es (Suc ticks) out ok) i T (ok \<and> rows_ok es, out') i"
      using Cons by blast
    then have "gives (pragma_loop e pl base w (HandlerCall # es) ticks out ok) i T (ok \<and> rows_ok es, out') i"
      unfolding pragma_loop.simps Let_def
      by (intro gives_bind [OF gives_cancelled [OF Cons.prems]])
        (simp, intro gives_idle [OF idles_pieces(1)] gives_idle [OF idles_upd] gives_idle [OF idles_pieces(2)], simp_all)
    then show ?thesis unfolding HandlerCall rows_ok_simps by (rule exI)
  next
    case (CheckRow t)
    show ?thesis
    proof (cases t)
      case None
      obtain out' where "gives (pragma_loop e pl base w es ticks out ok) i T (ok \<and> rows_ok es, out') i"
        using Cons by blast
      then have "gives (pragma_loop e pl base w (CheckRow None # es) ticks out ok) i T (ok \<and> rows_ok es, out') i"
        unfolding pragma_loop.simps by (intro gives_bind [OF gives_cancelled [OF Cons.prems]]) simp
      then show ?thesis unfolding CheckRow None rows_ok_simps by (rule exI)
    next
      case (Some x)
      let ?out = "(if out \<noteq> [] then out @ newline else out) @ x"
      obtain out' where "gives (pragma_loop e pl base w es ticks ?out (ok \<and> x = ''ok'')) i T
          ((ok \<and> x = ''ok'') \<and> rows_ok es, out') i"
        using Cons by blast
      then have "gives (pragma_loop e pl base w (CheckRow (Some x) # es) ticks out ok) i T
          (ok \<and> x = ''ok'' \<and> rows_ok es, out') i"
        unfolding pragma_loop.simps conj_assoc by (intro gives_bind [OF gives_cancelled [OF Cons.prems]]) simp
      then show ?thesis unfolding CheckRow Some rows_ok_simps by (rule exI)
    qed
  qed
qed

lemma gives_pragma_check:
  assumes "calm_val e" and "st_open T" and "tables T = T" and "\<And>n. events n = es"
  shows "\<exists>out. gives (pragma_check e pl base w events) i T (rows_ok es, out) i"
proof -
  obtain out where loop: "gives (pragma_loop e pl base w es 0 [] True) i T (rows_ok es, out) i"
    using gives_pragma_loop [OF assms(1), of pl base w es 0 "[]" True] by auto
  have prep: "gives (indb (prepare (ve_sql e))) i T None i"
    using gives_indb [OF prepare_does] assms by (simp add: calm_val_def)
  have rows: "gives (outside events) i T es i"
    using assms(4) by (simp add: gives_def outside_def iob_def)
  have "gives (pragma_check e pl base w events) i T (rows_ok es, out) i"
    unfolding pragma_check_def
    by (rule gives_bind [OF prep], simp only: option.case, rule gives_bind [OF rows], rule loop)
  then show ?thesis by blast
qed

lemma tree_levels_folders: "st_folders s = st_folders s' \<Longrightarrow> tree_levels n s lvl = tree_levels n s' lvl"
  by (induction n arbitrary: lvl) simp_all

lemma orphan_queries:
  "blind_query folder_orphans" "blind_query file_orphans" "blind_query (extent_orphans objects)"
proof -
  have "folder_paths (s\<lparr>st_ticks := k\<rparr>) = folder_paths s" for s :: store and k
    unfolding folder_paths_def
    by (subst tree_levels_folders [where s' = "s\<lparr>st_folders := filter (\<lambda>r. fd_parent r \<noteq> 0) (st_folders s)\<rparr>"]) simp_all
  then show "blind_query folder_orphans" "blind_query file_orphans" "blind_query (extent_orphans objects)"
    by (simp_all add: blind_query_def folder_orphans_def file_orphans_def extent_orphans_def known_paths_def)
qed

lemma gives_finish: "r = (ok \<and> \<not> c) \<Longrightarrow> gives (val_finish ok c rep) i T r i"
  by (simp add: gives_def val_finish_def publish_def iob_def)

lemma gives_issues: "gives (ioget va_issues) i T i i"
  by (simp add: gives_def)

lemma gives_check:
  assumes "calm_val e" and "st_open T" and "tables T = T" and "\<And>n. events n = es"
    and f: "\<And>out. gives (f (rows_ok es, out)) i T r i'"
  shows "gives (iob (pragma_check e pl base w events) f) i T r i'"
proof -
  obtain out where "gives (pragma_check e pl base w events) i T (rows_ok es, out) i"
    using gives_pragma_check [where events = events, OF assms(1-4)] by blast
  then show ?thesis by (rule gives_bind) (rule f)
qed

lemmas gives_steps = gives_idle [OF idles_get] gives_idle [OF idles_pieces(3)]
  gives_idle [OF idles_pieces(6)] gives_idle [OF idles_pieces(7)]

lemma gives_full_check:
  assumes "calm_val e" and "st_open T" and "tables T = T" and "\<And>n. ve_full e n = es"
  shows "gives (full_check e pl summary) i T (rows_ok es \<and> i = 0) i"
proof -
  note cancelled = gives_bind [OF gives_cancelled [OF assms(1)]]
  have upd: "idles (ioupd (\<lambda>s. s\<lparr>va_done := vp_total pl\<rparr>))" by (rule idles_upd) simp_all
  show ?thesis
  proof (cases "rows_ok es")
    case True
    show ?thesis
      unfolding full_check_def Let_def
      by (rule gives_steps(1), rule gives_steps(3), rule gives_check [OF assms],
          simp only: prod.case True, rule cancelled, simp only: not_True_eq_False if_False,
          rule gives_steps(4), rule gives_idle [OF upd], rule gives_bind [OF gives_issues],
          rule gives_steps(2), rule gives_finish, simp)
  next
    case False
    show ?thesis
      unfolding full_check_def Let_def
      by (rule gives_steps(1), rule gives_steps(3), rule gives_check [OF assms],
          simp only: prod.case False, rule cancelled, simp only: not_False_eq_True if_True if_False,
          rule gives_finish, simp)
  qed
qed

lemma gives_database_checks:
  assumes "calm_val e" and "0 < fuel" and "st_open T" and "tables T = T"
    and "\<And>n. ve_quick e n = es" and "\<And>n. ve_full e n = es'"
  shows "gives (database_checks fuel e pl summary) i T (rows_ok es \<and> rows_ok es' \<and> i = 0) i"
proof -
  note go = gives_bind [OF gives_wait_pause [OF assms(1,2)]]
  note cancelled = gives_bind [OF gives_cancelled [OF assms(1)]]
  show ?thesis
  proof (cases "rows_ok es")
    case True
    show ?thesis
      unfolding database_checks_def Let_def
      by (rule go, simp only: not_True_eq_False if_False, rule gives_steps(1), rule gives_steps(3),
          rule gives_check [OF assms(1,3,4,5)], simp only: prod.case True, rule cancelled,
          simp only: not_True_eq_False if_False simp_thms, rule gives_steps(4), rule go,
          simp only: not_True_eq_False if_False simp_thms, rule gives_full_check [OF assms(1,3,4,6)])
  next
    case False
    show ?thesis
      unfolding database_checks_def Let_def
      by (rule go, simp only: not_True_eq_False if_False, rule gives_steps(1), rule gives_steps(3),
          rule gives_check [OF assms(1,3,4,5)], simp only: prod.case False, rule cancelled,
          simp only: not_False_eq_True if_True if_False, rule gives_finish, simp)
  qed
qed

definition orphan_count :: "store \<Rightarrow> nat" where
  "orphan_count s = length (folder_orphans s) + length (file_orphans s) + length (extent_orphans True s)"

lemma gives_cross_checks:
  assumes "calm_val e" and "0 < fuel" and "st_open T" and "tables T = T"
    and "\<And>n. ve_quick e n = es" and "\<And>n. ve_full e n = es'"
  shows "gives (cross_checks fuel e pl a b c summary) 0 T
    (rows_ok es \<and> rows_ok es' \<and> orphan_count T = 0) (orphan_count T)"
proof -
  note scan = gives_bind [OF gives_scan_orphans [OF assms(1-4)]]
  show ?thesis
    unfolding cross_checks_def orphan_count_def
    by (rule scan [OF orphan_queries(1)], simp only: not_True_eq_False if_False,
        rule scan [OF orphan_queries(2)], simp only: not_True_eq_False if_False,
        rule gives_bind [OF gives_table_exists [OF assms(1,3,4)]],
        rule scan [OF orphan_queries(3)], simp only: not_True_eq_False if_False add_0,
        rule gives_database_checks [OF assms])
qed

lemma gives_validate_open:
  assumes "calm_val e" and "0 < fuel" and "st_open T" and "tables T = T"
    and "\<And>n. ve_quick e n = es" and "\<And>n. ve_full e n = es'"
  shows "gives (validate_open fuel e) i T (rows_ok es \<and> rows_ok es' \<and> orphan_count T = 0) (orphan_count T)"
proof -
  note scalar = gives_bind [OF gives_scalar [OF assms(1,3,4)]]
  have reset: "gives (ioupd (\<lambda>s. s\<lparr>va_done := 0, va_issues := 0\<rparr>)) i T () 0"
    by (simp add: gives_def)
  show ?thesis
    unfolding validate_open_def
    by (rule gives_bind [OF gives_wait_pause [OF assms(1,2)]], simp only: not_True_eq_False if_False,
        rule gives_steps(2), rule scalar, simp, rule scalar, simp, rule scalar, simp,
        rule gives_bind [OF gives_table_exists [OF assms(1,3,4)]], simp only: if_True, rule scalar, simp,
        rule gives_idle [OF idles_pieces(1)], rule gives_bind [OF reset], rule gives_cross_checks [OF assms])
qed

section \<open>Properties of a validation\<close>

text \<open>C19: when nothing fails and nobody pauses or cancels it, the validation says yes exactly if no
  folder, file or extent points nowhere and both checks of the database return nothing but ok.\<close>

theorem validation_verdict:
  assumes "calm_val e" and "0 < fuel" and "st_open (va_store s)"
    and "\<And>n. ve_quick e n = es" and "\<And>n. ve_full e n = es'"
  shows "\<exists>s'. validate_manifest fuel e s = Ret
    (rows_ok es \<and> rows_ok es' \<and> folder_orphans (va_store s) = [] \<and> file_orphans (va_store s) = [] \<and>
     extent_orphans True (va_store s) = [], s')"
proof -
  let ?T = "tables (va_store s)"
  have T: "st_open ?T" "tables ?T = ?T" using assms(3) by (simp_all add: tables_def)
  have same: "folder_orphans ?T = folder_orphans (va_store s)" "file_orphans ?T = file_orphans (va_store s)"
    "extent_orphans True ?T = extent_orphans True (va_store s)"
    using orphan_queries unfolding tables_def blind_query_def by simp_all
  let ?s = "s\<lparr>va_status := status_init\<rparr>"
  have "gives (validate_open fuel e) (va_issues ?s) ?T (rows_ok es \<and> rows_ok es' \<and> orphan_count ?T = 0) (orphan_count ?T)"
    by (rule gives_validate_open [OF assms(1,2) T assms(4,5)])
  then obtain s' where "validate_open fuel e ?s = Ret (rows_ok es \<and> rows_ok es' \<and> orphan_count ?T = 0, s')"
    unfolding gives_def by fastforce
  then have "validate_manifest fuel e s = Ret (rows_ok es \<and> rows_ok es' \<and> orphan_count ?T = 0, s')"
    using assms(3) by (simp add: validate_manifest_def iob_def)
  then show ?thesis by (auto simp: orphan_count_def same)
qed

definition calm_checks :: val_env where
  "calm_checks = \<lparr>ve_sql = calm_env, ve_cancel = \<lambda>_. False, ve_pause = \<lambda>_. False, ve_clock = of_nat,
     ve_quick = \<lambda>_. [HandlerCall, CheckRow (Some ''ok'')], ve_full = \<lambda>_. [CheckRow (Some ''ok'')]\<rparr>"

definition val_start :: "store \<Rightarrow> val_state" where
  "val_start s = \<lparr>va_store = s, va_reads = 0, va_status = status_init, va_events = [], va_done = 0,
     va_issues = 0, va_err = None, va_report = None\<rparr>"

lemma validation_verdict_witness:
  "(\<exists>s'. validate_manifest 1 calm_checks (val_start usr_store) = Ret (True, s')) \<and>
   (\<exists>s'. validate_manifest 1 calm_checks (val_start (usr_store\<lparr>st_folders := []\<rparr>)) = Ret (False, s'))"
proof -
  have calm: "calm_val calm_checks" using calm_healthy by (simp add: calm_val_def calm_checks_def)
  have rows: "ve_quick calm_checks n = [HandlerCall, CheckRow (Some ''ok'')]"
    "ve_full calm_checks n = [CheckRow (Some ''ok'')]" for n
    by (simp_all add: calm_checks_def)
  have op: "st_open (va_store (val_start usr_store))" "st_open (va_store (val_start (usr_store\<lparr>st_folders := []\<rparr>)))"
    by (simp_all add: val_start_def usr_store_def new_store_def)
  have "\<exists>s'. validate_manifest 1 calm_checks (val_start usr_store) = Ret (True, s')"
    using validation_verdict [OF calm, of 1, OF _ op(1) rows]
    by (simp add: rows_ok_def val_start_def usr_store_def new_store_def folder_orphans_def file_orphans_def
        extent_orphans_def)
  moreover have "\<exists>s'. validate_manifest 1 calm_checks (val_start (usr_store\<lparr>st_folders := []\<rparr>)) = Ret (False, s')"
    using validation_verdict [OF calm, of 1, OF _ op(2) rows]
    by (simp add: rows_ok_def val_start_def usr_store_def new_store_def folder_orphans_def file_orphans_def)
  ultimately show ?thesis ..
qed

lemma validation_reports_witness:
  "\<exists>s' v. validate_manifest 1 (calm_checks\<lparr>ve_cancel := \<lambda>_. True\<rparr>) (val_start usr_store) = Ret (False, s') \<and>
     va_events s' = [v] \<and> vs_finished v"
proof -
  let ?e = "calm_checks\<lparr>ve_cancel := \<lambda>_. True\<rparr>"
  have run: "\<exists>s'. validate_manifest 1 ?e (val_start usr_store) = Ret (False, s') \<and> length (va_events s') = 1"
    by (simp add: validate_manifest_def validate_open_def iob_def outside_def calm_checks_def val_start_def
        usr_store_def new_store_def val_cancelled_def val_finish_def publish_def)
  then obtain s' where s': "validate_manifest 1 ?e (val_start usr_store) = Ret (False, s')" "length (va_events s') = 1"
    by blast
  have "st_open (va_store (val_start usr_store))" by (simp add: val_start_def usr_store_def new_store_def)
  from validation_reports [OF this s'(1)] show ?thesis
    using s' by (auto simp: val_start_def)
qed

end
