(* ===== verification/ImageMount.thy ===== *)
theory ImageMount
  imports MountFrame Silent
begin

text \<open>
  Image files are mounted to read without a password: the path of \<open>src/mount/automount.cpp\<close> for them
  starts no \<open>pkexec\<close>, \<open>sudo\<close> or \<open>udisksctl\<close>.  As nothing is known of the outside world, this reads:
  whatever all other calls and commands leave alone, such as the number of questions asked, is left
  alone by the whole routine.
\<close>

locale image_file = host_frame hs R True True P
  for hs :: "'w host" and R :: "'w \<Rightarrow> 'w \<Rightarrow> bool" and P :: "('w, 'z) mach_scheme \<Rightarrow> bool" +
  fixes os :: "'w sys" and path :: string
  assumes regular: "P s \<Longrightarrow> \<exists>st. fst (hs_stat hs path (world s)) = Some st \<and> nd_kind st = KRegular"
    and opens: "stays True True P (dev_open os path device_init)"
    and closes: "stays True True P (dev_close os d)"
    and reads: "stays True True P (pread_all os d off n)"
begin

text \<open>The questions about the path have one answer.\<close>

lemma kind_known: "P s \<Longrightarrow> wlp (is_kind hs kind path) (\<lambda>a s'. P s' \<and> a = (kind = KRegular)) s"
proof -
  assume s: "P s"
  obtain st w where st: "hs_stat hs path (world s) = (Some st, w)" "nd_kind st = KRegular"
    using regular [OF s] by (cases "hs_stat hs path (world s)") auto
  have "P (s\<lparr>world := w\<rparr>)"
    using stays_wpx [OF calls(2) [of path] s, of "\<lambda>_. P"] by (simp add: st(1))
  then show ?thesis using st(2) by (auto simp: is_kind_def st(1))
qed

lemma block_known: "P s \<Longrightarrow> wlp (path_is_block hs path) (\<lambda>a s'. P s' \<and> a = False) s"
  unfolding path_is_block_def by (rule wpx_mono [OF kind_known]) simp_all

lemma directory_known: "P s \<Longrightarrow> wlp (path_is_directory hs path) (\<lambda>a s'. P s' \<and> a = False) s"
  unfolding path_is_directory_def by (rule wpx_mono [OF kind_known]) simp_all

lemma quiet_known: "P s \<Longrightarrow> wlp (no_auth_target hs path) (\<lambda>a s'. P s' \<and> a = True) s"
  unfolding no_auth_target_def path_is_regular_file_def wpx_bind by (rule wpx_mono [OF kind_known]) simp_all

sublocale scans: passive_reader "pread_all os d" P "\<lambda>c. c" for d
  by unfold_locales (simp add: reads)

lemma detects: "stays True True P (detect_fs (pread_all os d) off)"
  and probes: "stays True True P (probe_partitions (pread_all os d) ss)"
  using scans.detect_keeps [of True] scans.probe_keeps [of True] by simp_all

text \<open>The candidates have no node of their own.\<close>

lemma part_cands_nodeless:
  "P s \<Longrightarrow> wlp (part_cands os hs d path ps) (\<lambda>cs s'. P s' \<and> (\<forall>c \<in> set cs. bc_part c = [])) s"
proof (induction ps arbitrary: s)
  case (Cons p ps)
  show ?case
    unfolding part_cands.simps wpx_bind
    by (rule stays_wpx [OF detects Cons.prems], simp only: split_def wpx_bind, rule wpx_mono [OF block_known], assumption, elim conjE,
        rule wpx_mono [OF Cons.IH]) (simp_all add: part_node_def)
qed simp

lemma browse_cands_nodeless:
  "P s \<Longrightarrow> wlp (browse_cands os hs d path) (\<lambda>cs s'. P s' \<and> (\<forall>c \<in> set cs. bc_part c = [])) s"
  unfolding browse_cands_def wpx_bind
  by (rule stays_wpx [OF detects], assumption, simp only: split_def wpx_bind, rule stays_wpx [OF probes], assumption,
      rule wpx_mono [OF part_cands_nodeless]) (auto simp: Let_def)

lemma disk_known: "P s \<Longrightarrow> wlp (whole_disk hs path c) (\<lambda>a s'. P s' \<and> a = False) s"
  unfolding whole_disk_def wpx_bind by (rule wpx_mono [OF block_known]) simp_all

text \<open>No candidate is left to udisks.\<close>

lemma no_udisks:
  assumes "\<And>s. P s \<Longrightarrow> wlp cond (\<lambda>a s'. P s' \<and> a = False) s" and "P s"
  shows "wlp (browse_udisks hs cond node err) (\<lambda>a s'. P s' \<and> a = (None, err)) s"
  unfolding browse_udisks_def wpx_bind by (rule wpx_mono [OF assms(1) [OF assms(2)]]) simp_all

lemma loop_stays:
  assumes "\<forall>c \<in> set cs. bc_part c = []"
  shows "stays True True P (browse_loop hs path cs last_err err)"
  using assms
proof (induction cs arbitrary: last_err)
  case (Cons c cs)
  have node: "P s \<Longrightarrow> wlp (if bc_part c \<noteq> [] then path_is_block hs (bc_part c) else ioret False)
      (\<lambda>a s'. P s' \<and> a = False) s" for s :: "('w, 'z) mach_scheme"
    using Cons.prems by simp
  have IH: "stays True True P (browse_loop hs path cs last_err err)" for last_err
    using Cons by simp
  show ?case
    unfolding browse_loop.simps
    by (rule stays_bind_where, rule no_udisks, erule node, assumption, simp only: prod.case option.case,
        rule stays_bind_where, rule no_udisks, erule disk_known, assumption, simp only: prod.case option.case)
      (intro stays_intros paths calls fuse IH)
qed (simp add: stays_intros)

lemma browse: "stays True True P (mount_for_browse os hs path err)"
proof -
  have cands: "stays True True P (iob (browse_cands os hs d path) (\<lambda>cands. iob (dev_close os d) (\<lambda>_.
      browse_loop hs path cands [] err)))" for d
    by (rule stays_bind_where, erule browse_cands_nodeless) (intro stays_intros closes loop_stays)
  show ?thesis
    unfolding mount_for_browse_def by (intro stays_intros paths find opens cands)
qed

lemma prepare: "stays True True P (prepare_sha1_mounts os hs path [] err)"
proof -
  have image: "stays True True P (iob (no_auth_target hs path) (\<lambda>q.
      if q then mount_for_browse os hs path err else mount_temporarily hs path err))"
    by (rule stays_bind_where, erule quiet_known) (simp add: browse)
  show ?thesis
    unfolding prepare_sha1_mounts_def by (rule stays_bind, rule find) (simp add: image stays_ret)
qed

end

section \<open>Nobody is asked\<close>

text \<open>What all calls but the commands that ask leave alone.\<close>

definition only_asking :: "'w host \<Rightarrow> 'w sys \<Rightarrow> ('w \<Rightarrow> 'c) \<Rightarrow> bool" where
  "only_asking hs os g \<longleftrightarrow> host_moves hs (\<lambda>w w'. g w' = g w) \<and> silent os g \<and>
     (\<forall>p m w. g (snd (sys_open os p m w)) = g w) \<and> (\<forall>f w. g (snd (sys_close os f w)) = g w) \<and>
     (\<forall>f w. g (snd (sys_fstat os f w)) = g w) \<and> (\<forall>f w. g (snd (sys_blkssz os f w)) = g w) \<and>
     (\<forall>f w. g (snd (sys_blksize64 os f w)) = g w) \<and> (\<forall>f w. g (snd (sys_lseek_end os f w)) = g w)"

definition image_path :: "'w host \<Rightarrow> string \<Rightarrow> bool" where
  "image_path hs path \<longleftrightarrow> (\<forall>w. \<exists>st. fst (hs_stat hs path w) = Some st \<and> nd_kind st = KRegular)"

lemma leaves_open:
  assumes "only_asking hs os g"
  shows "leaves g c (dev_open os path d)" and "leaves g c (dev_close os d)"
proof -
  have calls: "leaves g c (sysc (sys_open os p m))" "leaves g c (sysc (sys_close os f))"
    "leaves g c (sysc (sys_fstat os f))" "leaves g c (sysc (sys_blkssz os f))"
    "leaves g c (sysc (sys_blksize64 os f))" "leaves g c (sysc (sys_lseek_end os f))"
    "leaves g c (sysc (sys_pagesize os))" for p m f
    using assms by (auto simp: only_asking_def silent_def intro!: keeps_sysc)
  show close: "leaves g c (dev_close os d)" for d
    unfolding dev_close_def by (intro stays_intros calls)
  show "leaves g c (dev_open os path d)"
    unfolding dev_open_def dev_fail_def dev_probe_size_def by (intro stays_intros calls close)
qed

lemma only_asking_silent: "only_asking hs os g \<Longrightarrow> silent os g"
  by (simp add: only_asking_def)

lemma stays_under: "(b \<Longrightarrow> keeps g c m) \<Longrightarrow> stays True True (\<lambda>s. b \<and> g s = c) m"
  by (cases b) (auto simp: stays_def)

interpretation quiet_image: image_file hs "\<lambda>w w'. only_asking hs os g \<and> image_path hs path \<longrightarrow> g w' = g w"
    "\<lambda>s :: ('w, 'z) mach_scheme. (only_asking hs os g \<and> image_path hs path) \<and> g (world s) = c" os path
  for hs :: "'w host" and os g path c
proof unfold_locales
  show "host_moves hs (\<lambda>w w'. only_asking hs os g \<and> image_path hs path \<longrightarrow> g w' = g w)"
    by (cases "only_asking hs os g") (auto simp: host_moves_def only_asking_def)
  show "stays True True (\<lambda>s :: ('w, 'z) mach_scheme. (only_asking hs os g \<and> image_path hs path) \<and> g (world s) = c)
      (dev_open os path device_init)"
    "stays True True (\<lambda>s :: ('w, 'z) mach_scheme. (only_asking hs os g \<and> image_path hs path) \<and> g (world s) = c)
      (dev_close os d)"
    "stays True True (\<lambda>s :: ('w, 'z) mach_scheme. (only_asking hs os g \<and> image_path hs path) \<and> g (world s) = c)
      (pread_all os d off n)" for d off n
    by (rule stays_under, blast intro: leaves_open leaves_transfers dest: only_asking_silent)+
qed (auto simp: image_path_def)


text \<open>A world that counts the questions asked.\<close>

definition counting_host :: "nat host" where
  "counting_host = ram_host\<lparr>hs_system := \<lambda>c w. (Exited (if starts_with ''command'' c then 0 else 1), if asks c then Suc w else w),
     hs_popen := \<lambda>c w. (Some ''EPERM'', if asks c then Suc w else w)\<rparr>"

definition closed_sys :: "'w sys" where
  "closed_sys = \<lparr>sys_open = \<lambda>p m w. (-1, w), sys_close = \<lambda>f w. ((), w),
     sys_fstat = \<lambda>f w. (Some \<lparr>st_kind = KRegular, st_blksize = 512\<rparr>, w), sys_blkssz = \<lambda>f w. (None, w),
     sys_blksize64 = \<lambda>f w. (None, w), sys_lseek_end = \<lambda>f w. (0, w), sys_pagesize = \<lambda>w. (4096, w),
     sys_pread = \<lambda>f n off w. (Inl (Errno ''EIO''), w), sys_pwrite = \<lambda>f bs off w. (Inl (Errno ''EIO''), w),
     sys_fdatasync = \<lambda>f w. (None, w), sys_sync_range = \<lambda>f a b v w. (None, w), sys_cachestat = \<lambda>f a b w. (None, w),
     sys_mmap = \<lambda>f a b w. (False, w), sys_mincore = \<lambda>f a b w. (None, w), sys_memalign = \<lambda>a b w. (True, w),
     sys_steady = \<lambda>w. (0, w), sys_time = \<lambda>w. (0, w), sys_load_paused = \<lambda>w. (False, w), sys_load_stop = \<lambda>w. (False, w),
     sys_fuel = 0\<rparr>"

lemma counting_calls: "only_asking counting_host closed_sys id" "image_path counting_host path"
  by (simp_all add: only_asking_def host_moves_def counting_host_def ram_host_def silent_def closed_sys_def
      image_path_def asks_cmd)


end
