(* ===== verification/Shell.thy ===== *)
theory Shell
  imports Automount
begin

text \<open>
  The commands that \<open>src/mount\<close> hands to \<open>/bin/sh\<close>, read back by a reference lexer for simple
  commands: blanks separate words, a quote takes everything up to the next quote as it is, a
  backslash takes the character after it, and any other character with a meaning to the shell makes
  the text something else than one simple command.
\<close>

datatype sh_mode = Between | InWord string | InQuote string

definition sh_plain :: "char \<Rightarrow> bool" where
  "sh_plain c \<longleftrightarrow> c \<notin> set (''|&;<>()$`*?[]#~=%!{}'' @ [CHR 0x22, CHR 0x0A, CHR 0x00])"

fun sh_lex :: "sh_mode \<Rightarrow> string \<Rightarrow> string list option" where
  "sh_lex Between [] = Some []"
| "sh_lex (InWord acc) [] = Some [rev acc]"
| "sh_lex (InQuote acc) [] = None"
| "sh_lex (InQuote acc) (c # s) = (if c = CHR 0x27 then sh_lex (InWord acc) s else sh_lex (InQuote (c # acc)) s)"
| "sh_lex m (c # s) =
     (let acc = (case m of InWord acc \<Rightarrow> acc | _ \<Rightarrow> []) in
      if c = CHR '' '' \<or> c = CHR 0x09 then
        (if m = Between then sh_lex Between s else map_option ((#) (rev acc)) (sh_lex Between s))
      else if c = CHR 0x27 then sh_lex (InQuote acc) s
      else if c = CHR 0x5C then (case s of [] \<Rightarrow> None | d # s \<Rightarrow> sh_lex (InWord (d # acc)) s)
      else if sh_plain c then sh_lex (InWord (c # acc)) s
      else None)"

definition sh_words :: "string \<Rightarrow> string list option" where
  "sh_words s = sh_lex Between s"

text \<open>Inside quotes the escaped form of a text stands for the text.\<close>

lemma lex_body: "sh_lex (InQuote acc) (quote_body s @ CHR 0x27 # rest) = sh_lex (InWord (rev s @ acc)) rest"
  by (induction s arbitrary: acc) simp_all

lemma lex_quote:
  "sh_lex Between (shell_quote s @ rest) = sh_lex (InWord (rev s)) rest"
  "sh_lex (InWord acc) (shell_quote s @ rest) = sh_lex (InWord (rev s @ acc)) rest"
  by (simp_all add: shell_quote_def quote_char_def lex_body)

lemma lex_quote_end:
  "sh_lex Between (shell_quote s) = Some [s]"
  using lex_quote(1) [of s "[]"] by simp

lemmas lex_simps = sh_words_def sh_plain_def lex_quote lex_quote_end

text \<open>C25: whatever the device, the directory, the type and the options are, the shell sees one command
  with exactly these as arguments: no character of them is taken as anything else.\<close>

theorem mount_command_words:
  "sh_words (mount_cmd dev target ty opts) =
     Some [''mount'', ''-t'', ty, ''-o'', if opts = [] then ''defaults'' else opts, dev, target] \<and>
   sh_words (umount_cmd target) = Some [''umount'', target]"
  by (simp add: mount_cmd_def umount_cmd_def lex_simps)

lemma helper_command_words:
  "(bin, kind) \<in> set fuse_candidates \<Longrightarrow> sh_words (helper_cmd bin opt img target) = Some [bin, ''-o'', opt, img, target]"
  by (auto simp: helper_cmd_def fuse_candidates_def lex_simps)

end
