(* ===== verification/MountOrder.thy ===== *)
theory MountOrder
  imports MountFrame "HOL-Library.Multiset"
begin

text \<open>
  The order of unmounting and mounting again (\<open>src/mount/automount.cpp\<close>), and which names are taken
  for partitions of a disk.
\<close>

section \<open>Unmounting\<close>

lemma starts_with_length: "starts_with a b \<Longrightarrow> a \<noteq> b \<Longrightarrow> length a < length b"
  by (metis append_take_drop_id le_neq_implies_less length_take min.absorb_iff2 min_def starts_with_def take_all)


definition plain_mount :: "string \<Rightarrow> string \<Rightarrow> mount_record" where
  "plain_mount dev target = record_of_mount dev target ''ext4'' ''rw'' False"


section \<open>Mounting again\<close>

text \<open>Where \<open>mount\<close> succeeds, \<open>remount_records\<close> mounts every record once, with its own
  directory, type and access, in the reverse of the order in which they were listed, and nothing else.\<close>

theorem remount_in_reverse:
  assumes "\<And>d p ty ro w. hs_mount hs d p ty ro w = (True, mounted (d, p, ty, ro) w)"
  shows "remount_records hs recs err s = Ret ((True, err), s\<lparr>world :=
    fold mounted (map (\<lambda>m. (mr_device m, mr_target m, mr_fstype m, read_only m)) (rev recs)) (world s)\<rparr>)"
proof -
  have "remount_loop hs ms err s = Ret ((True, err), s\<lparr>world :=
      fold mounted (map (\<lambda>m. (mr_device m, mr_target m, mr_fstype m, read_only m)) ms) (world s)\<rparr>)" for ms s
    by (induction ms arbitrary: s) (simp_all add: iob_def sysc_def assms)
  then show ?thesis by (simp add: remount_records_def)
qed

definition listing_host :: "(string \<times> string \<times> string \<times> bool) list host" where
  "listing_host = ram_host\<lparr>hs_mount := \<lambda>d p ty ro w. (True, w @ [(d, p, ty, ro)])\<rparr>"

lemma remount_in_reverse_witness:
  "remount_records listing_host [plain_mount ''/dev/sda1'' ''/mnt'', plain_mount ''/dev/sda2'' ''/mnt/b''] [] \<lparr>world = []\<rparr> =
     Ret ((True, []), \<lparr>world = [(''/dev/sda2'', ''/mnt/b'', ''ext4'', False), (''/dev/sda1'', ''/mnt'', ''ext4'', False)]\<rparr>)"
  using remount_in_reverse [of listing_host "\<lambda>x w. w @ [x]"
      "[plain_mount ''/dev/sda1'' ''/mnt'', plain_mount ''/dev/sda2'' ''/mnt/b'']" "[]" "\<lparr>world = []\<rparr>"]
  by (simp add: listing_host_def plain_mount_def record_of_mount_def read_only_def options_has_ro_def getlines_def)

section \<open>Partitions\<close>

text \<open>The tenth partition is taken for a partition of the first, and so is unmounted with it.\<close>

lemma tenth_partition_related: "names_part ''/dev/sda1'' ''/dev/sda10''"
  by (simp add: names_part_def starts_with_def is_digit_def)

text \<open>A mount point with a dot in its name is cut at the dot.\<close>

lemma mount_point_cut:
  "parse_mount_point ''Mounted /dev/sda1 at /run/media/u/v1.2'' = ''/run/media/u/v1''"
  by (simp add: parse_mount_point_def)

end
