(* ===== verification/Session.thy ===== *)
theory Session
  imports Options
begin

text \<open>
  What the graphical program remembers between runs (\<open>src/gui/session.cpp\<close>): the last target and
  settings, the recent targets, the answer to conflicts and the look of the browser.

  The files are read and written by \<open>wxFileConfig\<close>, which is not part of the repository: reading an
  entry, writing one and flushing the file are functions of the outside world, as are the
  environment, \<open>access\<close> and \<open>mkdir\<close>.  What the properties rely on is stated in \<open>conf_ok\<close>: an entry
  that was written is read back, other entries stay as they are, and a file that was flushed exists.
\<close>

section \<open>Calls\<close>

text \<open>An entry is written as a text or as a number.\<close>

datatype conf_val = CStr string | CNum int

record 'w conf_sys =
  cf_getenv :: "string \<Rightarrow> 'w \<Rightarrow> string option \<times> 'w"
  cf_exists :: "string \<Rightarrow> 'w \<Rightarrow> bool \<times> 'w"
  cf_mkdir :: "string \<Rightarrow> 'w \<Rightarrow> unit \<times> 'w"
  cf_read_str :: "string \<Rightarrow> string \<Rightarrow> 'w \<Rightarrow> string option \<times> 'w"
  cf_read_num :: "string \<Rightarrow> string \<Rightarrow> 'w \<Rightarrow> int option \<times> 'w"
  cf_write :: "string \<Rightarrow> string \<Rightarrow> conf_val \<Rightarrow> 'w \<Rightarrow> unit \<times> 'w"
  cf_flush :: "string \<Rightarrow> 'w \<Rightarrow> unit \<times> 'w"

type_synonym ('w, 'z, 'a) conf_io = "(('w, 'z) mach_scheme, 'a) io"

section \<open>Files\<close>

definition before_slash :: "string \<Rightarrow> string" where
  "before_slash p = rev (drop 1 (dropWhile (\<lambda>c. c \<noteq> CHR ''/'') (rev p)))"

lemma before_slash_shorter: "p \<noteq> [] \<Longrightarrow> length (before_slash p) < length p"
proof -
  assume "p \<noteq> []"
  moreover have "length (dropWhile (\<lambda>c. c \<noteq> CHR ''/'') (rev p)) \<le> length p"
    by (metis length_dropWhile_le length_rev)
  ultimately show ?thesis by (cases p rule: rev_cases) (auto simp: before_slash_def le_diff_conv)
qed

function mkdir_p :: "'w conf_sys \<Rightarrow> string \<Rightarrow> ('w, 'z, unit) conf_io" where
  "mkdir_p cs dir =
     (if dir = [] \<or> dir = ''/'' then ioret ()
      else iob (if CHR ''/'' \<in> set dir \<and> before_slash dir \<noteq> [] then mkdir_p cs (before_slash dir) else ioret ()) (\<lambda>_.
        sysc (cf_mkdir cs dir)))"
  by pat_completeness auto
termination
  by (relation "measure (\<lambda>(_, dir). length dir)") (auto simp: before_slash_shorter)

declare mkdir_p.simps [simp del]

definition mkdir_p_parent :: "'w conf_sys \<Rightarrow> string \<Rightarrow> ('w, 'z, unit) conf_io" where
  "mkdir_p_parent cs file =
     (if CHR ''/'' \<notin> set file \<or> before_slash file = [] then ioret () else mkdir_p cs (before_slash file))"

definition path_exists :: "'w conf_sys \<Rightarrow> string \<Rightarrow> ('w, 'z, bool) conf_io" where
  "path_exists cs p = (if p = [] then ioret False else sysc (cf_exists cs p))"

definition legacy_gui_session_path :: "'w conf_sys \<Rightarrow> ('w, 'z, string) conf_io" where
  "legacy_gui_session_path cs =
     iob (sysc (cf_getenv cs ''HOME'')) (\<lambda>home.
     ioret (case home of None \<Rightarrow> [] | Some h \<Rightarrow> if h = [] then [] else h @ ''/.config/reflash/gui.ini''))"

definition env_set :: "string option \<Rightarrow> bool" where
  "env_set v \<longleftrightarrow> (case v of None \<Rightarrow> False | Some e \<Rightarrow> e \<noteq> [])"

definition config_dir :: "'w conf_sys \<Rightarrow> ('w, 'z, string) conf_io" where
  "config_dir cs =
     iob (sysc (cf_getenv cs ''REFLASH_CONFIG'')) (\<lambda>env.
     if env_set env then iob (mkdir_p cs (the env)) (\<lambda>_. ioret (the env))
     else
       iob (sysc (cf_getenv cs ''HOME'')) (\<lambda>home.
       let dir = (case home of Some h \<Rightarrow> h @ ''/.config/reflash'' | None \<Rightarrow> ''/tmp/reflash'') in
       iob (case home of Some h \<Rightarrow> mkdir_p cs (h @ ''/.config'') | None \<Rightarrow> ioret ()) (\<lambda>_.
       iob (mkdir_p cs dir) (\<lambda>_. ioret dir))))"

definition gui_session_path :: "'w conf_sys \<Rightarrow> ('w, 'z, string) conf_io" where
  "gui_session_path cs =
     iob (sysc (cf_getenv cs ''REFLASH_SESSION'')) (\<lambda>env.
     if env_set env then ioret (the env)
     else iob (config_dir cs) (\<lambda>dir. ioret (dir @ ''/reflash.ini'')))"

text \<open>The file to read: the session, else the one of an older version, else none.\<close>

definition session_source :: "'w conf_sys \<Rightarrow> ('w, 'z, string option) conf_io" where
  "session_source cs =
     iob (gui_session_path cs) (\<lambda>path.
     iob (path_exists cs path) (\<lambda>there.
     if there then ioret (Some path)
     else
       iob (legacy_gui_session_path cs) (\<lambda>legacy.
       iob (path_exists cs legacy) (\<lambda>there. ioret (if there then Some legacy else None)))))"

fun conf_puts :: "'w conf_sys \<Rightarrow> string \<Rightarrow> (string \<times> conf_val) list \<Rightarrow> ('w, 'z, unit) conf_io" where
  "conf_puts cs path [] = sysc (cf_flush cs path)"
| "conf_puts cs path ((key, val) # kvs) =
     iob (sysc (cf_write cs path key val)) (\<lambda>_. conf_puts cs path kvs)"

definition conf_save :: "'w conf_sys \<Rightarrow> string \<Rightarrow> (string \<times> conf_val) list \<Rightarrow> ('w, 'z, unit) conf_io" where
  "conf_save cs path kvs = iob (mkdir_p_parent cs path) (\<lambda>_. conf_puts cs path kvs)"

section \<open>The session\<close>

text \<open>A path is taken over if it exists.\<close>

definition restore_path ::
  "'w conf_sys \<Rightarrow> bool \<Rightarrow> string \<Rightarrow> string \<Rightarrow> (string \<Rightarrow> options) \<Rightarrow> options \<Rightarrow> ('w, 'z, options) conf_io" where
  "restore_path cs keep path key upd o1 =
     (if keep then ioret o1
      else
        iob (sysc (cf_read_str cs path key)) (\<lambda>v.
        case v of
          None \<Rightarrow> ioret o1
        | Some p \<Rightarrow> iob (path_exists cs p) (\<lambda>there. ioret (if there then upd p else o1))))"

definition read_num :: "'w conf_sys \<Rightarrow> string \<Rightarrow> string \<Rightarrow> (int \<Rightarrow> options) \<Rightarrow> options \<Rightarrow> ('w, 'z, options) conf_io" where
  "read_num cs path key upd o1 =
     iob (sysc (cf_read_num cs path key)) (\<lambda>v. ioret (case v of None \<Rightarrow> o1 | Some n \<Rightarrow> upd n))"

definition restore_mode :: "string option \<Rightarrow> options \<Rightarrow> options" where
  "restore_mode v o1 =
     (if v = Some ''recursive'' then o1\<lparr>op_mode := RunRecursive\<rparr>
      else if v = Some ''linear'' then o1\<lparr>op_mode := RunLinear\<rparr> else o1)"

definition cache_of_name :: "string \<Rightarrow> write_cache_mode" where
  "cache_of_name s =
     (if s = ''writethrough'' \<or> s = ''write_through'' then WriteThrough
      else if s = ''mincore'' then CacheMincore else CacheCachestat)"

definition restore_cache :: "'w conf_sys \<Rightarrow> string \<Rightarrow> options \<Rightarrow> ('w, 'z, options) conf_io" where
  "restore_cache cs path o1 =
     iob (sysc (cf_read_str cs path ''write_cache'')) (\<lambda>v.
     case v of
       Some s \<Rightarrow> ioret (o1\<lparr>op_write_cache := cache_of_name s\<rparr>)
     | None \<Rightarrow> read_num cs path ''write_through'' (\<lambda>n. if n \<noteq> 0 then o1\<lparr>op_write_cache := WriteThrough\<rparr> else o1) o1)"

definition restore_gui_session ::
  "'w conf_sys \<Rightarrow> options \<Rightarrow> bool \<Rightarrow> bool \<Rightarrow> ('w, 'z, options) conf_io" where
  "restore_gui_session cs o1 keep_target keep_db =
     iob (session_source cs) (\<lambda>src.
     case src of
       None \<Rightarrow> ioret o1
     | Some path \<Rightarrow>
         iob (restore_path cs keep_target path ''target'' (\<lambda>p. o1\<lparr>op_target := p\<rparr>) o1) (\<lambda>o1.
         iob (restore_path cs keep_db path ''database'' (\<lambda>p. o1\<lparr>op_sqlite_db := p\<rparr>) o1) (\<lambda>o1.
         iob (if keep_target then ioret o1
              else iob (sysc (cf_read_str cs path ''mode'')) (\<lambda>v. ioret (restore_mode v o1))) (\<lambda>o1.
         iob (read_num cs path ''sha1_valid_days''
               (\<lambda>n. if 0 < n \<and> n \<le> 3650 then o1\<lparr>op_sha1_valid_days := n\<rparr> else o1) o1) (\<lambda>o1.
         iob (read_num cs path ''dry_run'' (\<lambda>n. o1\<lparr>op_dry_run := (n \<noteq> 0)\<rparr>) o1) (\<lambda>o1.
         iob (restore_cache cs path o1) (\<lambda>o1.
         iob (read_num cs path ''verify_writes'' (\<lambda>n. o1\<lparr>op_verify_writes := (n \<noteq> 0)\<rparr>) o1) (\<lambda>o1.
         iob (read_num cs path ''flush_poll_ms''
               (\<lambda>n. if 50 \<le> n \<and> n \<le> 60000 then o1\<lparr>op_flush_poll_ms := n\<rparr> else o1) o1) (\<lambda>o1.
         read_num cs path ''block_size'' (\<lambda>n. if 0 \<le> n then o1\<lparr>op_block_size := word_of_int n\<rparr> else o1) o1)))))))))"

definition num_of_bool :: "bool \<Rightarrow> conf_val" where
  "num_of_bool b = CNum (if b then 1 else 0)"

fun cache_name :: "write_cache_mode \<Rightarrow> string" where
  "cache_name WriteThrough = ''writethrough''"
| "cache_name CacheMincore = ''mincore''"
| "cache_name CacheCachestat = ''cachestat''"

definition session_entries :: "options \<Rightarrow> (string \<times> conf_val) list" where
  "session_entries o1 =
     [(''target'', CStr (op_target o1)), (''database'', CStr (op_sqlite_db o1)),
      (''mode'', CStr (if op_mode o1 = RunRecursive then ''recursive'' else ''linear'')),
      (''sha1_valid_days'', CNum (op_sha1_valid_days o1)), (''dry_run'', num_of_bool (op_dry_run o1)),
      (''write_cache'', CStr (cache_name (op_write_cache o1))), (''verify_writes'', num_of_bool (op_verify_writes o1)),
      (''flush_poll_ms'', CNum (op_flush_poll_ms o1)), (''block_size'', CNum (sint (op_block_size o1)))]"

definition save_gui_session :: "'w conf_sys \<Rightarrow> options \<Rightarrow> ('w, 'z, unit) conf_io" where
  "save_gui_session cs o1 =
     iob (gui_session_path cs) (\<lambda>path. conf_save cs path (session_entries o1))"

section \<open>Recent targets\<close>

definition recent_key :: "nat \<Rightarrow> string" where
  "recent_key i = ''recent/path'' @ dec_digits i"

fun recent_loop :: "'w conf_sys \<Rightarrow> string \<Rightarrow> nat \<Rightarrow> nat \<Rightarrow> nat \<Rightarrow> string list \<Rightarrow> ('w, 'z, string list) conf_io" where
  "recent_loop cs path max_n i 0 out = ioret out"
| "recent_loop cs path max_n i (Suc left) out =
     (if max_n \<le> length out then ioret out
      else
        iob (sysc (cf_read_str cs path (recent_key i))) (\<lambda>v.
        case v of
          None \<Rightarrow> recent_loop cs path max_n (i + 1) left out
        | Some p \<Rightarrow>
            iob (path_exists cs p) (\<lambda>there.
            recent_loop cs path max_n (i + 1) left (if there then out @ [p] else out))))"

definition load_recent_targets :: "'w conf_sys \<Rightarrow> nat \<Rightarrow> ('w, 'z, string list) conf_io" where
  "load_recent_targets cs max_n =
     iob (session_source cs) (\<lambda>src.
     case src of
       None \<Rightarrow> ioret []
     | Some path \<Rightarrow>
         iob (sysc (cf_read_num cs path ''recent/count'')) (\<lambda>n.
         recent_loop cs path max_n 0 (case n of None \<Rightarrow> 0 | Some n \<Rightarrow> nat n) []))"

definition newest_first :: "nat \<Rightarrow> string \<Rightarrow> string list \<Rightarrow> string list" where
  "newest_first max_n p ps = take max_n (p # filter (\<lambda>q. q \<noteq> p) ps)"

definition recent_entries :: "string list \<Rightarrow> (string \<times> conf_val) list" where
  "recent_entries ps =
     (''recent/count'', CNum (int (length ps))) # map (\<lambda>i. (recent_key i, CStr (ps ! i))) [0..<length ps]"

definition remember_recent_target :: "'w conf_sys \<Rightarrow> string \<Rightarrow> nat \<Rightarrow> ('w, 'z, unit) conf_io" where
  "remember_recent_target cs p max_n =
     iob (path_exists cs p) (\<lambda>there.
     if \<not> there then ioret ()
     else
       iob (load_recent_targets cs max_n) (\<lambda>ps.
       iob (gui_session_path cs) (\<lambda>conf.
       conf_save cs conf (recent_entries (newest_first max_n p ps)))))"

section \<open>Conflicts and the browser\<close>

definition load_conflict_pref :: "'w conf_sys \<Rightarrow> ('w, 'z, int \<times> bool) conf_io" where
  "load_conflict_pref cs =
     iob (session_source cs) (\<lambda>src.
     case src of
       None \<Rightarrow> ioret (-1, False)
     | Some path \<Rightarrow>
         iob (sysc (cf_read_num cs path ''conflict/remember'')) (\<lambda>rem.
         iob (sysc (cf_read_num cs path ''conflict/action'')) (\<lambda>act.
         ioret (case act of None \<Rightarrow> -1 | Some n \<Rightarrow> signed_take_bit 31 n,
                case rem of None \<Rightarrow> False | Some n \<Rightarrow> n \<noteq> 0))))"

definition save_conflict_pref :: "'w conf_sys \<Rightarrow> int \<Rightarrow> bool \<Rightarrow> ('w, 'z, unit) conf_io" where
  "save_conflict_pref cs act rem =
     iob (gui_session_path cs) (\<lambda>path.
     conf_save cs path [(''conflict/remember'', num_of_bool rem), (''conflict/action'', CNum act)])"

record browser_settings =
  bw_view_mode :: int
  bw_arrange :: int
  bw_arrange_rev :: bool
  bw_show_hidden :: bool
  bw_show_thumbs :: bool
  bw_zoom_level :: int
  bw_auto_rewrite_months :: int

definition browser_init :: browser_settings where
  "browser_init = \<lparr>bw_view_mode = 1, bw_arrange = 1, bw_arrange_rev = False, bw_show_hidden = False,
     bw_show_thumbs = False, bw_zoom_level = 0, bw_auto_rewrite_months = 6\<rparr>"

definition in_range :: "int option \<Rightarrow> int \<Rightarrow> int \<Rightarrow> int \<Rightarrow> int" where
  "in_range v lo hi dflt = (case v of None \<Rightarrow> dflt | Some n \<Rightarrow> if lo \<le> n \<and> n \<le> hi then n else dflt)"

definition truth :: "int option \<Rightarrow> bool \<Rightarrow> bool" where
  "truth v dflt = (case v of None \<Rightarrow> dflt | Some n \<Rightarrow> n \<noteq> 0)"

definition browser_settings_path :: "'w conf_sys \<Rightarrow> ('w, 'z, string) conf_io" where
  "browser_settings_path cs = iob (config_dir cs) (\<lambda>dir. ioret (dir @ ''/browser.ini''))"

definition load_browser_settings :: "'w conf_sys \<Rightarrow> ('w, 'z, browser_settings) conf_io" where
  "load_browser_settings cs =
     (let b = browser_init in
      iob (browser_settings_path cs) (\<lambda>path.
      iob (path_exists cs path) (\<lambda>there.
      if \<not> there then ioret b
      else
        iob (sysc (cf_read_num cs path ''view/mode'')) (\<lambda>mode.
        iob (sysc (cf_read_num cs path ''view/arrange'')) (\<lambda>arr.
        iob (sysc (cf_read_num cs path ''view/arrange_rev'')) (\<lambda>rv.
        iob (sysc (cf_read_num cs path ''view/show_hidden'')) (\<lambda>hid.
        iob (sysc (cf_read_num cs path ''view/show_thumbs'')) (\<lambda>th.
        iob (sysc (cf_read_num cs path ''view/zoom'')) (\<lambda>zoom.
        iob (sysc (cf_read_num cs path ''prefs/auto_rewrite_months'')) (\<lambda>months.
        ioret \<lparr>bw_view_mode = in_range mode 0 2 (bw_view_mode b), bw_arrange = in_range arr 0 4 (bw_arrange b),
           bw_arrange_rev = truth rv (bw_arrange_rev b), bw_show_hidden = truth hid (bw_show_hidden b),
           bw_show_thumbs = truth th (bw_show_thumbs b), bw_zoom_level = in_range zoom (-2) 3 (bw_zoom_level b),
           bw_auto_rewrite_months = in_range months 1 120 (bw_auto_rewrite_months b)\<rparr>))))))))))"

definition browser_entries :: "browser_settings \<Rightarrow> (string \<times> conf_val) list" where
  "browser_entries b =
     [(''view/mode'', CNum (bw_view_mode b)), (''view/arrange'', CNum (bw_arrange b)),
      (''view/arrange_rev'', num_of_bool (bw_arrange_rev b)), (''view/show_hidden'', num_of_bool (bw_show_hidden b)),
      (''view/show_thumbs'', num_of_bool (bw_show_thumbs b)), (''view/zoom'', CNum (bw_zoom_level b)),
      (''prefs/auto_rewrite_months'', CNum (bw_auto_rewrite_months b))]"

definition save_browser_settings :: "'w conf_sys \<Rightarrow> browser_settings \<Rightarrow> ('w, 'z, unit) conf_io" where
  "save_browser_settings cs b =
     iob (browser_settings_path cs) (\<lambda>path. conf_save cs path (browser_entries b))"

section \<open>What the files promise\<close>

definition put_entry :: "(string \<Rightarrow> string \<Rightarrow> conf_val option) \<Rightarrow> string \<Rightarrow> string \<times> conf_val \<Rightarrow> string \<Rightarrow> string \<Rightarrow> conf_val option" where
  "put_entry v p e = (\<lambda>q k. if q = p \<and> k = fst e then Some (snd e) else v q k)"

text \<open>A text that comes back as it was written: \<open>wxFileConfig\<close> replaces variables of the environment
  when it reads an entry, and converts it with the encoding of the locale.\<close>

definition plain_text :: "string \<Rightarrow> bool" where
  "plain_text s \<longleftrightarrow> list_all (\<lambda>c. 32 \<le> (of_char c :: nat) \<and> (of_char c :: nat) < 127 \<and> c \<noteq> CHR ''$'' \<and> c \<noteq> CHR 0x5C) s"

text \<open>\<open>view\<close> is what the files hold, \<open>there\<close> the paths that exist, \<open>env\<close> the environment.\<close>

definition conf_ok ::
  "'w conf_sys \<Rightarrow> ('w \<Rightarrow> string \<Rightarrow> string \<Rightarrow> conf_val option) \<Rightarrow> ('w \<Rightarrow> string \<Rightarrow> bool) \<Rightarrow> (string \<Rightarrow> string option) \<Rightarrow> bool" where
  "conf_ok cs view there env \<longleftrightarrow>
     (\<forall>k w. cf_getenv cs k w = (env k, w)) \<and> (\<forall>p w. cf_exists cs p w = (there w p, w)) \<and>
     (\<forall>p w. view (snd (cf_mkdir cs p w)) = view w \<and> (\<forall>q. there w q \<longrightarrow> there (snd (cf_mkdir cs p w)) q)) \<and>
     (\<forall>p k s w. view w p k = Some (CStr s) \<and> plain_text s \<longrightarrow> cf_read_str cs p k w = (Some s, w)) \<and>
     (\<forall>p k n w. view w p k = Some (CNum n) \<longrightarrow> cf_read_num cs p k w = (Some n, w)) \<and>
     (\<forall>p k w. view w p k = None \<longrightarrow> cf_read_str cs p k w = (None, w) \<and> cf_read_num cs p k w = (None, w)) \<and>
     (\<forall>p k x w. view (snd (cf_write cs p k x w)) = put_entry (view w) p (k, x) \<and> (\<forall>q. there w q \<longrightarrow> there (snd (cf_write cs p k x w)) q)) \<and>
     (\<forall>p w. view (snd (cf_flush cs p w)) = view w \<and> (\<forall>q. there w q \<longrightarrow> there (snd (cf_flush cs p w)) q) \<and> there (snd (cf_flush cs p w)) p)"

text \<open>The state in which the files hold \<open>v\<close> and the paths of \<open>T\<close> exist.\<close>

definition holding ::
  "('w \<Rightarrow> string \<Rightarrow> string \<Rightarrow> conf_val option) \<Rightarrow> ('w \<Rightarrow> string \<Rightarrow> bool) \<Rightarrow> (string \<Rightarrow> string \<Rightarrow> conf_val option) \<Rightarrow> string set \<Rightarrow>
   ('w, 'z) mach_scheme \<Rightarrow> bool" where
  "holding view there v T s \<longleftrightarrow> view (world s) = v \<and> (\<forall>p \<in> T. there (world s) p)"

lemma sysc_pure: "f (world s) = (a, world s) \<Longrightarrow> sysc f s = Ret (a, s)"
  by (simp add: sysc_def)

lemma conf_reads:
  assumes "conf_ok cs view there env" and "holding view there v T s"
  shows "sysc (cf_getenv cs k) s = Ret (env k, s)"
    and "p \<in> T \<Longrightarrow> p \<noteq> [] \<Longrightarrow> path_exists cs p s = Ret (True, s)"
    and "v p k = Some (CStr x) \<Longrightarrow> plain_text x \<Longrightarrow> sysc (cf_read_str cs p k) s = Ret (Some x, s)"
    and "v p k = Some (CNum n) \<Longrightarrow> sysc (cf_read_num cs p k) s = Ret (Some n, s)"
    and "v p k = None \<Longrightarrow> sysc (cf_read_str cs p k) s = Ret (None, s)"
    and "v p k = None \<Longrightarrow> sysc (cf_read_num cs p k) s = Ret (None, s)"
  using assms by (auto simp: conf_ok_def holding_def path_exists_def intro!: sysc_pure)

lemma conf_changes:
  assumes "conf_ok cs view there env"
  shows "replies False (holding view there v T) (sysc (cf_mkdir cs p))"
    and "holding view there v T s \<Longrightarrow> \<exists>s'. sysc (cf_write cs p k x) s = Ret ((), s') \<and> holding view there (put_entry v p (k, x)) T s'"
    and "holding view there v T s \<Longrightarrow> \<exists>s'. sysc (cf_flush cs p) s = Ret ((), s') \<and> holding view there v (insert p T) s'"
  using assms
  by (auto simp: conf_ok_def holding_def stays_def sysc_def split_def wpx_def)

lemma mkdirs_hold:
  assumes "conf_ok cs view there env"
  shows "replies False (holding view there v T) (mkdir_p cs dir)" and "replies False (holding view there v T) (mkdir_p_parent cs file)"
proof -
  show *: "replies False (holding view there v T) (mkdir_p cs dir)" for dir
  proof (induction dir rule: measure_induct_rule [of length])
    case (less dir)
    show ?case
      by (subst mkdir_p.simps) (intro stays_intros conf_changes(1) [OF assms] less before_slash_shorter; simp)
  qed
  show "replies False (holding view there v T) (mkdir_p_parent cs file)"
    unfolding mkdir_p_parent_def by (intro stays_intros *)
qed

definition conf_home :: "(string \<Rightarrow> string option) \<Rightarrow> string" where
  "conf_home env =
     (if env_set (env ''REFLASH_CONFIG'') then the (env ''REFLASH_CONFIG'')
      else case env ''HOME'' of Some h \<Rightarrow> h @ ''/.config/reflash'' | None \<Rightarrow> ''/tmp/reflash'')"

definition session_file :: "(string \<Rightarrow> string option) \<Rightarrow> string" where
  "session_file env =
     (if env_set (env ''REFLASH_SESSION'') then the (env ''REFLASH_SESSION'') else conf_home env @ ''/reflash.ini'')"

lemma paths_not_empty: "session_file env \<noteq> []"
  by (auto simp: session_file_def env_set_def split: option.splits)

lemma paths_found:
  assumes "conf_ok cs view there env" and "holding view there v T s"
  shows "\<exists>s'. config_dir cs s = Ret (conf_home env, s') \<and> holding view there v T s'"
    and "\<exists>s'. gui_session_path cs s = Ret (session_file env, s') \<and> holding view there v T s'"
proof -
  note mk = repliesD [OF mkdirs_hold(1) [OF assms(1)]]
  note r = conf_reads(1) [OF assms]
  show dir: "\<exists>s'. config_dir cs s = Ret (conf_home env, s') \<and> holding view there v T s'"
  proof (cases "env_set (env ''REFLASH_CONFIG'')")
    case True
    then show ?thesis using mk [OF assms(2)] by (fastforce simp: config_dir_def conf_home_def r)
  next
    case False
    let ?dir = "case env ''HOME'' of Some h \<Rightarrow> h @ ''/.config/reflash'' | None \<Rightarrow> ''/tmp/reflash''"
    let ?m = "case env ''HOME'' of Some h \<Rightarrow> mkdir_p cs (h @ ''/.config'') | None \<Rightarrow> ioret ()"
    obtain s1 where 1: "?m s = Ret ((), s1)" "holding view there v T s1"
      using mk [OF assms(2)] assms(2) by (cases "env ''HOME''") auto
    obtain s2 where 2: "mkdir_p cs ?dir s1 = Ret ((), s2)" "holding view there v T s2"
      using mk [OF 1(2), of ?dir] by auto
    show ?thesis
      using False 1 2 by (intro exI [of _ s2]) (simp add: config_dir_def conf_home_def r Let_def)
  qed
  show "\<exists>s'. gui_session_path cs s = Ret (session_file env, s') \<and> holding view there v T s'"
    using dir assms(2) by (cases "env_set (env ''REFLASH_SESSION'')") (auto simp: gui_session_path_def session_file_def r)
qed

lemma saved:
  assumes "conf_ok cs view there env" and "holding view there v T s"
  shows "\<exists>s'. conf_save cs p kvs s = Ret ((), s') \<and> holding view there (foldl (\<lambda>v. put_entry v p) v kvs) (insert p T) s'"
proof -
  have puts: "\<exists>s'. conf_puts cs p kvs s = Ret ((), s') \<and> holding view there (foldl (\<lambda>v. put_entry v p) v kvs) (insert p T) s'"
    if "holding view there v T s" for v s
    using that
  proof (induction kvs arbitrary: v s)
    case Nil
    then show ?case using conf_changes(3) [OF assms(1)] by simp
  next
    case (Cons e kvs)
    obtain k x where e: "e = (k, x)" by (cases e)
    obtain s1 where 1: "sysc (cf_write cs p k x) s = Ret ((), s1)" "holding view there (put_entry v p (k, x)) T s1"
      using conf_changes(2) [OF assms(1) Cons.prems] by blast
    then show ?case using Cons.IH [OF 1(2)] by (auto simp: e)
  qed
  obtain s1 where "mkdir_p_parent cs p s = Ret ((), s1)" "holding view there v T s1"
    using repliesD [OF mkdirs_hold(2) [OF assms(1)] assms(2)] by auto
  then show ?thesis using puts [of v s1] by (auto simp: conf_save_def)
qed

section \<open>The session comes back\<close>

text \<open>What a saved session makes of options.\<close>

definition session_merge :: "bool \<Rightarrow> bool \<Rightarrow> options \<Rightarrow> options \<Rightarrow> options" where
  "session_merge keep_target keep_db o1 o2 =
     o2\<lparr>op_target := (if keep_target then op_target o2 else op_target o1),
        op_sqlite_db := (if keep_db then op_sqlite_db o2 else op_sqlite_db o1),
        op_mode := (if keep_target then op_mode o2 else op_mode o1), op_sha1_valid_days := op_sha1_valid_days o1,
        op_dry_run := op_dry_run o1, op_write_cache := op_write_cache o1, op_verify_writes := op_verify_writes o1,
        op_flush_poll_ms := op_flush_poll_ms o1, op_block_size := op_block_size o1\<rparr>"

definition saveable :: "options \<Rightarrow> bool" where
  "saveable o1 \<longleftrightarrow> op_target o1 \<noteq> [] \<and> op_sqlite_db o1 \<noteq> [] \<and> plain_text (op_target o1) \<and> plain_text (op_sqlite_db o1) \<and> 0 < op_sha1_valid_days o1 \<and> op_sha1_valid_days o1 \<le> 3650 \<and>
     50 \<le> op_flush_poll_ms o1 \<and> op_flush_poll_ms o1 \<le> 60000 \<and> unat (op_block_size o1) < 2 ^ 63"

lemma saved_entries:
  fixes o1 :: options
  assumes w: "w = foldl (\<lambda>v. put_entry v p) v (session_entries o1)"
  shows "w p ''target'' = Some (CStr (op_target o1))" and "w p ''database'' = Some (CStr (op_sqlite_db o1))"
    and "w p ''mode'' = Some (CStr (if op_mode o1 = RunRecursive then ''recursive'' else ''linear''))"
    and "w p ''sha1_valid_days'' = Some (CNum (op_sha1_valid_days o1))" and "w p ''dry_run'' = Some (num_of_bool (op_dry_run o1))"
    and "w p ''write_cache'' = Some (CStr (cache_name (op_write_cache o1)))"
    and "w p ''verify_writes'' = Some (num_of_bool (op_verify_writes o1))"
    and "w p ''flush_poll_ms'' = Some (CNum (op_flush_poll_ms o1))" and "w p ''block_size'' = Some (CNum (sint (op_block_size o1)))"
  by (simp_all add: w session_entries_def put_entry_def)

lemma plain_words:
  "plain_text (if m = RunRecursive then ''recursive'' else ''linear'')" "plain_text (cache_name c)"
  by (simp add: plain_text_def) (cases c; simp add: plain_text_def)

lemma cache_round: "cache_of_name (cache_name c) = c"
  by (cases c) (simp_all add: cache_of_name_def)

lemma sint_small: "unat (n :: u64) < 2 ^ 63 \<Longrightarrow> sint n = int (unat n)"
proof -
  assume "unat n < 2 ^ 63"
  then have "uint n < 2 ^ 63" unfolding uint_nat by (metis of_nat_less_iff of_nat_numeral of_nat_power)
  moreover have "- (2 ^ 63) \<le> uint n" by (rule order_trans [OF _ uint_ge_0]) simp
  ultimately have "sint n = uint n" by (simp add: sint_uint signed_take_bit_int_eq_self)
  then show "sint n = int (unat n)" by (simp only: uint_nat)
qed

lemma session_restored:
  assumes ok: "conf_ok cs view there env" and at: "holding view there w T s"
    and paths: "session_file env \<in> T" "op_target o1 \<in> T" "op_sqlite_db o1 \<in> T" and "saveable o1"
    and w: "w = foldl (\<lambda>v. put_entry v (session_file env)) v (session_entries o1)"
  shows "\<exists>s'. restore_gui_session cs o2 kt kd s = Ret (session_merge kt kd o1 o2, s') \<and> holding view there w T s'"
proof -
  obtain s1 where 1: "gui_session_path cs s = Ret (session_file env, s1)" "holding view there w T s1"
    using paths_found(2) [OF ok at] by blast
  note r = conf_reads [OF ok 1(2)]
  have src: "session_source cs s = Ret (Some (session_file env), s1)"
    using 1(1) r(2) [OF paths(1) paths_not_empty] by (auto simp: session_source_def)
  have t: "path_exists cs (op_target o1) s1 = Ret (True, s1)" "path_exists cs (op_sqlite_db o1) s1 = Ret (True, s1)"
    using r(2) paths(2,3) assms(6) by (simp_all add: saveable_def)
  note e = saved_entries [OF w]
  have str: "sysc (cf_read_str cs (session_file env) ''target'') s1 = Ret (Some (op_target o1), s1)"
    "sysc (cf_read_str cs (session_file env) ''database'') s1 = Ret (Some (op_sqlite_db o1), s1)"
    "sysc (cf_read_str cs (session_file env) ''mode'') s1 = Ret (Some (if op_mode o1 = RunRecursive then ''recursive'' else ''linear''), s1)"
    "sysc (cf_read_str cs (session_file env) ''write_cache'') s1 = Ret (Some (cache_name (op_write_cache o1)), s1)"
    using assms(6) by - (rule r(3), rule e, simp add: saveable_def plain_words)+
  have num: "sysc (cf_read_num cs (session_file env) ''sha1_valid_days'') s1 = Ret (Some (op_sha1_valid_days o1), s1)"
    "sysc (cf_read_num cs (session_file env) ''dry_run'') s1 = Ret (Some (if op_dry_run o1 then 1 else 0), s1)"
    "sysc (cf_read_num cs (session_file env) ''verify_writes'') s1 = Ret (Some (if op_verify_writes o1 then 1 else 0), s1)"
    "sysc (cf_read_num cs (session_file env) ''flush_poll_ms'') s1 = Ret (Some (op_flush_poll_ms o1), s1)"
    "sysc (cf_read_num cs (session_file env) ''block_size'') s1 = Ret (Some (sint (op_block_size o1)), s1)"
    by (rule r(4), rule e [unfolded num_of_bool_def])+
  have mode: "restore_mode (Some (if op_mode o1 = RunRecursive then ''recursive'' else ''linear'')) o' = o'\<lparr>op_mode := op_mode o1\<rparr>" for o'
    by (cases "op_mode o1") (simp_all add: restore_mode_def)
  have num': "0 \<le> sint (op_block_size o1)" "word_of_int (sint (op_block_size o1)) = op_block_size o1"
    using assms(6) by (simp_all add: saveable_def sint_small)
  show ?thesis
    using assms(6) 1(2)
    by (intro exI [of _ s1] conjI)
      (simp_all add: restore_gui_session_def src restore_path_def read_num_def restore_cache_def str num t mode num' iob_apply_Ret
        saveable_def cache_round session_merge_def)
qed

lemma session_restored_after_save:
  assumes "conf_ok cs view there env" and "there (world s) (op_target o1)" and "there (world s) (op_sqlite_db o1)"
    and "saveable o1"
  shows "\<exists>s1 s2. save_gui_session cs o1 s = Ret ((), s1) \<and>
    restore_gui_session cs o2 kt kd s1 = Ret (session_merge kt kd o1 o2, s2)"
proof -
  let ?T = "{op_target o1, op_sqlite_db o1}" and ?v = "view (world s)"
  have "holding view there ?v ?T s" using assms(2,3) by (simp add: holding_def)
  from paths_found(2) [OF assms(1) this] obtain s0
    where 0: "gui_session_path cs s = Ret (session_file env, s0)" "holding view there ?v ?T s0" by blast
  from saved [OF assms(1) 0(2)] obtain s1
    where 1: "conf_save cs (session_file env) (session_entries o1) s0 = Ret ((), s1)"
      "holding view there (foldl (\<lambda>v. put_entry v (session_file env)) ?v (session_entries o1)) (insert (session_file env) ?T) s1"
    by blast
  have "save_gui_session cs o1 s = Ret ((), s1)"
    using 0(1) 1(1) by (simp add: save_gui_session_def)
  then show ?thesis
    using session_restored [OF assms(1) 1(2) _ _ _ assms(4) refl, of o2 kt kd] by auto
qed

text \<open>A session that is saved and restored gives back every setting it holds, if the target and
  the database are still there, their paths hold no character that the file rewrites, and the settings
  are in their ranges.\<close>

theorem session_roundtrip:
  assumes "conf_ok cs view there env" and "there (world s) (op_target o1)" and "there (world s) (op_sqlite_db o1)"
    and "saveable o1"
  shows "\<exists>s1 s2. save_gui_session cs o1 s = Ret ((), s1) \<and>
    restore_gui_session cs o2 False False s1 = Ret (session_merge False False o1 o2, s2)"
  by (rule session_restored_after_save [OF assms])

text \<open>A file in memory, for the witnesses.\<close>

type_synonym mem_conf = "string \<Rightarrow> string \<Rightarrow> conf_val option"

definition mem_sys :: "mem_conf conf_sys" where
  "mem_sys = \<lparr>cf_getenv = \<lambda>k w. (None, w), cf_exists = \<lambda>p w. (True, w), cf_mkdir = \<lambda>p w. ((), w),
     cf_read_str = \<lambda>p k w. (case w p k of Some (CStr s) \<Rightarrow> Some s | _ \<Rightarrow> None, w),
     cf_read_num = \<lambda>p k w. (case w p k of Some (CNum n) \<Rightarrow> Some n | _ \<Rightarrow> None, w),
     cf_write = \<lambda>p k x w. ((), put_entry w p (k, x)), cf_flush = \<lambda>p w. ((), w)\<rparr>"

lemma mem_ok: "conf_ok mem_sys id (\<lambda>_ _. True) (\<lambda>_. None)"
  by (simp add: conf_ok_def mem_sys_def)

definition some_options :: options where
  "some_options = options_init\<lparr>op_target := ''/dev/sdb'', op_sqlite_db := ''/x.db'', op_block_size := 4096\<rparr>"

lemma some_saveable: "saveable some_options"
  by (simp add: saveable_def some_options_def options_init_def plain_text_def)

lemma session_roundtrip_witness:
  "\<exists>s1 s2. save_gui_session mem_sys some_options \<lparr>world = \<lambda>_ _. None\<rparr> = Ret ((), s1) \<and>
     restore_gui_session mem_sys options_init False False s1 =
       Ret (session_merge False False some_options options_init, s2)"
  by (rule session_roundtrip [OF mem_ok _ _ some_saveable]) simp_all

text \<open>Options of the command line do not survive the restored session: a run that is asked to
  write nothing, with a target of its own, is turned into one that writes when the last session was
  not such a dry run, and its block size is replaced as well.\<close>

theorem dry_run_overridden:
  assumes "conf_ok cs view there env" and "there (world s) (op_target o1)" and "there (world s) (op_sqlite_db o1)"
    and "saveable o1" and "\<not> op_dry_run o1" and "op_dry_run o2"
  shows "\<exists>s1 s2 o'. save_gui_session cs o1 s = Ret ((), s1) \<and> restore_gui_session cs o2 True kd s1 = Ret (o', s2) \<and>
    op_target o' = op_target o2 \<and> \<not> op_dry_run o' \<and> op_block_size o' = op_block_size o1"
  using session_restored_after_save [OF assms(1-4), of o2 True kd] assms(5) by (fastforce simp: session_merge_def)

lemma dry_run_overridden_witness:
  "\<exists>s1 s2 o'. save_gui_session mem_sys some_options \<lparr>world = \<lambda>_ _. None\<rparr> = Ret ((), s1) \<and>
     restore_gui_session mem_sys (options_init\<lparr>op_target := ''/dev/sdc'', op_dry_run := True\<rparr>) True True s1 = Ret (o', s2) \<and>
     op_target o' = ''/dev/sdc'' \<and> \<not> op_dry_run o'"
proof -
  let ?o = "options_init\<lparr>op_target := ''/dev/sdc'', op_dry_run := True\<rparr>"
  have dry: "\<not> op_dry_run some_options" "op_dry_run ?o" by (simp_all add: some_options_def options_init_def)
  show ?thesis
    using dry_run_overridden [OF mem_ok TrueI TrueI some_saveable dry, of "\<lparr>world = \<lambda>_ _. None\<rparr>" True] by fastforce
qed

section \<open>The settings of the browser\<close>

lemma mkdir_returns: "replies False (\<lambda>_. True) (mkdir_p cs dir)"
proof (induction dir rule: measure_induct_rule [of length])
  case (less dir)
  show ?case
    by (subst mkdir_p.simps) (intro stays_intros less before_slash_shorter; simp add: stays_def split_def)
qed

definition settings_ok :: "browser_settings \<Rightarrow> bool" where
  "settings_ok b \<longleftrightarrow> 0 \<le> bw_view_mode b \<and> bw_view_mode b \<le> 2 \<and> 0 \<le> bw_arrange b \<and> bw_arrange b \<le> 4 \<and>
     - 2 \<le> bw_zoom_level b \<and> bw_zoom_level b \<le> 3 \<and> 1 \<le> bw_auto_rewrite_months b \<and> bw_auto_rewrite_months b \<le> 120"

lemma in_range_bounds: "lo \<le> d \<Longrightarrow> d \<le> hi \<Longrightarrow> lo \<le> in_range v lo hi d \<and> in_range v lo hi d \<le> hi"
  by (auto simp: in_range_def split: option.splits)

text \<open>Whatever the settings file of the browser holds, or if there is none, the settings that are
  loaded are in the ranges of their menus.\<close>

theorem browser_settings_in_range:
  "\<exists>b s'. load_browser_settings cs s = Ret (b, s') \<and> settings_ok b"
proof -
  have call: "replies False (\<lambda>_. True) (sysc f)" for f :: "'a \<Rightarrow> 'x \<times> 'a"
    by (simp add: stays_def split_def)
  have path: "replies False (\<lambda>_. True) (browser_settings_path cs)"
    unfolding browser_settings_path_def config_dir_def by (intro stays_intros call mkdir_returns)
  have there: "replies False (\<lambda>_. True) (path_exists cs p)" for p
    unfolding path_exists_def by (intro stays_intros call)
  have "twp (load_browser_settings cs) (\<lambda>b s'. settings_ok b) s"
    unfolding load_browser_settings_def Let_def wpx_bind
    by (rule stays_wpx [OF path], simp, rule stays_wpx [OF there], simp, rule wpx_ifI)
      (simp_all add: split_def settings_ok_def browser_init_def in_range_bounds)
  then show ?thesis by (rule twp_returns)
qed

end
