(* ===== verification/Devices.thy ===== *)
theory Devices
  imports Host
begin

text \<open>
  The list of block devices (\<open>src/io/devices.cpp\<close>): the lines \<open>KEY="value" ...\<close> of \<open>lsblk -P\<close> are
  taken apart.  A \<open>std::map\<close> is a map in which a missing key reads as the empty text.
\<close>

section \<open>A line\<close>

definition blank :: "char \<Rightarrow> bool" where
  "blank c \<longleftrightarrow> c = CHR '' '' \<or> c = CHR 0x09 \<or> c = CHR 0x0A"

text \<open>A value up to its closing quote, and what comes after it.\<close>

fun quoted_value :: "string \<Rightarrow> string \<times> string" where
  "quoted_value [] = ([], [])"
| "quoted_value [c] = (if c = CHR 0x22 then ([], []) else ([c], []))"
| "quoted_value (c # d # s) =
     (if c = CHR 0x22 then ([], d # s)
      else if c = CHR 0x5C then (case quoted_value s of (v, r) \<Rightarrow> (d # v, r))
      else (case quoted_value (d # s) of (v, r) \<Rightarrow> (c # v, r)))"

lemma quoted_value_shorter: "length (snd (quoted_value s)) \<le> length s"
  by (induction s rule: quoted_value.induct) (auto split: prod.splits)

function lsblk_pairs :: "string \<Rightarrow> (string \<rightharpoonup> string) \<Rightarrow> (string \<rightharpoonup> string)" where
  "lsblk_pairs s kv =
     (let s = dropWhile blank s in
      if s = [] \<or> CHR ''='' \<notin> set s then kv
      else
        let key = takeWhile (\<lambda>c. c \<noteq> CHR ''='') s; r = tl (dropWhile (\<lambda>c. c \<noteq> CHR ''='') s) in
        if r = [] \<or> hd r \<noteq> CHR 0x22 then kv
        else case quoted_value (tl r) of (v, r') \<Rightarrow> lsblk_pairs r' (kv(key \<mapsto> v)))"
  by pat_completeness auto
termination
proof (relation "measure (\<lambda>(s, _). length s)", goal_cases)
  case (2 s kv s' key r v r')
  have "length r' \<le> length (tl r)" using quoted_value_shorter [of "tl r"] 2(6) by (metis snd_conv)
  also have "\<dots> < length r" using 2(5) by (cases r) auto
  also have "\<dots> \<le> length (dropWhile (\<lambda>c. c \<noteq> CHR ''='') s')" using 2(4) by simp
  also have "\<dots> \<le> length s" using length_dropWhile_le order_trans 2(1) by blast
  finally show ?case by simp
qed simp

declare lsblk_pairs.simps [simp del]

definition parse_lsblk_p_line :: "string \<Rightarrow> (string \<rightharpoonup> string)" where
  "parse_lsblk_p_line l = lsblk_pairs l Map.empty"

definition at_key :: "(string \<rightharpoonup> string) \<Rightarrow> string \<Rightarrow> string" where
  "at_key kv k = (case kv k of None \<Rightarrow> [] | Some v \<Rightarrow> v)"

section \<open>The devices\<close>

record block_dev_info =
  bd_path :: string
  bd_name :: string
  bd_type :: string
  bd_size :: string
  bd_model :: string
  bd_transport :: string
  bd_label :: string
  bd_fstype :: string
  bd_mountpoint :: string
  bd_removable :: bool
  bd_parent :: string

definition dev_of_line :: "string \<Rightarrow> block_dev_info option" where
  "dev_of_line l =
     (let kv = at_key (parse_lsblk_p_line l) in
      if kv ''PATH'' = [] \<or> kv ''NAME'' = [] then None
      else Some \<lparr>bd_path = kv ''PATH'', bd_name = kv ''NAME'', bd_type = kv ''TYPE'', bd_size = kv ''SIZE'',
        bd_model = kv ''MODEL'', bd_transport = kv ''TRAN'', bd_label = kv ''LABEL'', bd_fstype = kv ''FSTYPE'',
        bd_mountpoint = kv ''MOUNTPOINT'', bd_removable = (kv ''RM'' = ''1''), bd_parent = kv ''PKNAME''\<rparr>)"

definition lsblk_cmd :: string where
  "lsblk_cmd = ''lsblk -P -o NAME,PATH,TYPE,SIZE,MODEL,TRAN,RM,MOUNTPOINT,PKNAME,LABEL,FSTYPE 2>/dev/null''"

definition list_block_devices :: "'w host \<Rightarrow> ('w, 'z, block_dev_info list) host_io" where
  "list_block_devices hs =
     iob (run_capture hs lsblk_cmd) (\<lambda>text. ioret (List.map_filter dev_of_line (getlines CHR 0x0A text)))"

definition device_group_label :: "block_dev_info \<Rightarrow> string" where
  "device_group_label d =
     (if bd_type d = ''loop'' then ''Loop''
      else if bd_removable d \<or> bd_transport d = ''usb'' then ''Removable''
      else if bd_type d = ''disk'' \<or> bd_type d = ''part'' then ''Disks''
      else if bd_type d = ''rom'' then ''Optical''
      else ''Other'')"

section \<open>Lines that were printed are read back\<close>

text \<open>The reference printer: pairs with a blank between them, quotes and backslashes with a backslash.\<close>

fun escaped :: "string \<Rightarrow> string" where
  "escaped [] = []"
| "escaped (c # s) = (if c = CHR 0x22 \<or> c = CHR 0x5C then [CHR 0x5C, c] else [c]) @ escaped s"

fun print_pairs :: "(string \<times> string) list \<Rightarrow> string" where
  "print_pairs [] = []"
| "print_pairs ((k, v) # kvs) = CHR '' '' # k @ ''='' @ [CHR 0x22] @ escaped v @ [CHR 0x22] @ print_pairs kvs"

lemma quoted_value_escaped: "quoted_value (escaped v @ CHR 0x22 # rest) = (v, rest)"
proof (induction v)
  case Nil
  show ?case by (cases rest) simp_all
next
  case (Cons c v)
  obtain d s where d: "escaped v @ CHR 0x22 # rest = d # s" by (cases "escaped v @ CHR 0x22 # rest") auto
  show ?case using Cons by (auto simp: d)
qed

definition plain_key :: "string \<Rightarrow> bool" where
  "plain_key k \<longleftrightarrow> k \<noteq> [] \<and> CHR ''='' \<notin> set k \<and> \<not> blank (hd k)"

lemma pairs_read: "\<forall>(k, v) \<in> set kvs. plain_key k \<Longrightarrow> lsblk_pairs (print_pairs kvs) kv = kv ++ map_of (rev kvs)"
proof (induction kvs arbitrary: kv)
  case Nil
  show ?case by (subst lsblk_pairs.simps) simp
next
  case (Cons e kvs)
  obtain k v where e: "e = (k, v)" by (cases e)
  let ?s = "k @ CHR ''='' # CHR 0x22 # escaped v @ CHR 0x22 # print_pairs kvs"
  have k: "plain_key k" using Cons.prems e by simp
  have start: "dropWhile blank (print_pairs (e # kvs)) = ?s"
    using k by (cases k) (simp_all add: e plain_key_def blank_def)
  have parts: "takeWhile (\<lambda>c. c \<noteq> CHR ''='') ?s = k"
    "dropWhile (\<lambda>c. c \<noteq> CHR ''='') ?s = CHR ''='' # CHR 0x22 # escaped v @ CHR 0x22 # print_pairs kvs"
    using k by (auto simp: plain_key_def takeWhile_append2 dropWhile_append2 takeWhile_append dropWhile_append)
  have "lsblk_pairs (print_pairs (e # kvs)) kv = lsblk_pairs (print_pairs kvs) (kv(k \<mapsto> v))"
    by (subst lsblk_pairs.simps) (simp only: start Let_def parts, simp add: quoted_value_escaped)
  also have "\<dots> = kv(k \<mapsto> v) ++ map_of (rev kvs)" by (rule Cons.IH) (use Cons.prems in simp)
  also have "\<dots> = kv ++ map_of (rev (e # kvs))"
    by (rule ext) (simp add: e map_add_def split: option.split)
  finally show ?case .
qed

text \<open>A line with any values, whatever characters they hold, is read back as the pairs it was
  printed from; of several values for a key the last one counts.\<close>

theorem lsblk_line_roundtrip:
  assumes "\<forall>(k, v) \<in> set kvs. plain_key k"
  shows "parse_lsblk_p_line (print_pairs kvs) = map_of (rev kvs)"
  using pairs_read [OF assms, of Map.empty] by (simp add: parse_lsblk_p_line_def)

lemma lsblk_line_roundtrip_witness:
  "parse_lsblk_p_line (print_pairs [(''NAME'', ''sda''), (''LABEL'', [CHR 0x22, CHR ''='', CHR 0x5C])]) ''LABEL'' =
     Some [CHR 0x22, CHR ''='', CHR 0x5C]"
  using lsblk_line_roundtrip [of "[(''NAME'', ''sda''), (''LABEL'', [CHR 0x22, CHR ''='', CHR 0x5C])]"]
  by (simp add: plain_key_def blank_def)

end
