(* ===== verification/Agent.thy ===== *)
theory Agent
  imports Host Extents
begin

text \<open>
  The privilege agent (\<open>src/mount/host_priv.cpp\<close>): a child process, forked before the program
  enters its name space, that runs scripts as root.  Requests and replies go through two pipes:
  a request is the length of a script and the script, a reply the exit status, the length of the
  output and the output; numbers are four bytes, the lowest first.

  The calls on pipes are the fields of \<open>pipe_sys\<close>, those that run a script of \<open>script_sys\<close>.  The
  process-wide variables \<open>g_req_w\<close>, \<open>g_rep_r\<close>, \<open>g_pid\<close>, \<open>g_gui\<close> and the remembered environment extend
  the state of the program; the mutex makes each routine atomic.
\<close>

section \<open>Calls and state\<close>

record 'w pipe_sys =
  pi_write :: "fd \<Rightarrow> bytes \<Rightarrow> 'w \<Rightarrow> (errno + nat) \<times> 'w"
  pi_read :: "fd \<Rightarrow> nat \<Rightarrow> 'w \<Rightarrow> (errno + bytes) \<times> 'w"
  pi_fuel :: nat

text \<open>A command that was started: the fork or the wait failed, or how it ended.\<close>

datatype spawned = NoFork | NoWait | Ended wait_status

record 'w script_sys =
  sc_uid :: "'w \<Rightarrow> nat \<times> 'w"
  sc_mkdir :: "string \<Rightarrow> 'w \<Rightarrow> (bool \<times> string) option \<times> 'w"
  sc_open :: "string \<Rightarrow> 'w \<Rightarrow> (string + fd) \<times> 'w"
  sc_write :: "fd \<Rightarrow> string \<Rightarrow> 'w \<Rightarrow> bool \<times> 'w"
  sc_fchmod :: "fd \<Rightarrow> 'w \<Rightarrow> unit \<times> 'w"
  sc_close :: "fd \<Rightarrow> 'w \<Rightarrow> unit \<times> 'w"
  sc_mkstemp :: "'w \<Rightarrow> (string \<times> fd) option \<times> 'w"
  sc_spawn :: "string list \<Rightarrow> (string \<times> string) list \<Rightarrow> string \<Rightarrow> 'w \<Rightarrow> spawned \<times> 'w"
  sc_read_file :: "string \<Rightarrow> 'w \<Rightarrow> string option \<times> 'w"
  sc_unlink :: "string \<Rightarrow> 'w \<Rightarrow> unit \<times> 'w"
  sc_getenv :: "string \<Rightarrow> 'w \<Rightarrow> string option \<times> 'w"
  sc_pipe :: "'w \<Rightarrow> (fd \<times> fd) option \<times> 'w"
  sc_fork :: "'w \<Rightarrow> int \<times> 'w"

text \<open>\<open>sc_mkdir\<close> gives the error, with whether it is \<open>EEXIST\<close>; \<open>sc_spawn\<close> runs a command with
  variables set and its output in a file.\<close>

record 'w priv = "'w mach" +
  pv_req_w :: fd
  pv_rep_r :: fd
  pv_pid :: int
  pv_gui :: bool
  pv_env :: "(string \<times> string) list"

type_synonym ('w, 'z, 'a) priv_io = "(('w, 'z) priv_scheme, 'a) io"

section \<open>Whole transfers\<close>

text \<open>Interrupted calls are tried again; \<open>pi_fuel\<close> bounds how often.\<close>

function write_loop :: "nat \<Rightarrow> 'w pipe_sys \<Rightarrow> fd \<Rightarrow> bytes \<Rightarrow> (('w, 'z) mach_scheme, bool) io" where
  "write_loop fuel ps f buf =
     (if buf = [] then ioret True
      else
        iob (sysc (pi_write ps f buf)) (\<lambda>r.
        case r of
          Inl e \<Rightarrow> if e = EINTR then (case fuel of 0 \<Rightarrow> iostuck | Suc n \<Rightarrow> write_loop n ps f buf) else ioret False
        | Inr k \<Rightarrow> if k = 0 then ioret False else write_loop fuel ps f (drop k buf)))"
  by pat_completeness auto
termination
  by (relation "measure (\<lambda>(fuel, _, _, buf). fuel + length buf)") auto

function read_loop :: "nat \<Rightarrow> 'w pipe_sys \<Rightarrow> fd \<Rightarrow> nat \<Rightarrow> bytes \<Rightarrow> (('w, 'z) mach_scheme, bytes option) io" where
  "read_loop fuel ps f n acc =
     (if n = 0 then ioret (Some acc)
      else
        iob (sysc (pi_read ps f n)) (\<lambda>r.
        case r of
          Inl e \<Rightarrow> if e = EINTR then (case fuel of 0 \<Rightarrow> iostuck | Suc k \<Rightarrow> read_loop k ps f n acc) else ioret None
        | Inr bs \<Rightarrow> if bs = [] then ioret None else read_loop fuel ps f (n - length bs) (acc @ take n bs)))"
  by pat_completeness auto
termination
  by (relation "measure (\<lambda>(fuel, _, _, n, _). fuel + n)") auto

declare write_loop.simps [simp del] read_loop.simps [simp del]

definition write_all :: "'w pipe_sys \<Rightarrow> fd \<Rightarrow> bytes \<Rightarrow> (('w, 'z) mach_scheme, bool) io" where
  "write_all ps f buf = write_loop (pi_fuel ps) ps f buf"

definition read_all :: "'w pipe_sys \<Rightarrow> fd \<Rightarrow> nat \<Rightarrow> (('w, 'z) mach_scheme, bytes option) io" where
  "read_all ps f n = read_loop (pi_fuel ps) ps f n []"

definition to_byte :: "char \<Rightarrow> u8" where
  "to_byte c = of_char c"

definition of_byte :: "u8 \<Rightarrow> char" where
  "of_byte b = char_of (unat b)"

definition put32 :: "u32 \<Rightarrow> bytes" where
  "put32 n = [ucast n, ucast (drop_bit 8 n), ucast (drop_bit 16 n), ucast (drop_bit 24 n)]"

section \<open>Running a script\<close>

definition session_keys :: "string list" where
  "session_keys = [''DISPLAY'', ''WAYLAND_DISPLAY'', ''XAUTHORITY'', ''DBUS_SESSION_BUS_ADDRESS'', ''XDG_RUNTIME_DIR'']"

fun snap_env :: "'w script_sys \<Rightarrow> string list \<Rightarrow> ('w, 'z, (string \<times> string) list) priv_io" where
  "snap_env ss [] = ioret []"
| "snap_env ss (k # ks) =
     iob (sysc (sc_getenv ss k)) (\<lambda>v.
     iob (snap_env ss ks) (\<lambda>rest. ioret ((k, case v of None \<Rightarrow> [] | Some x \<Rightarrow> x) # rest)))"

definition snap_session_env :: "'w script_sys \<Rightarrow> ('w, 'z, unit) priv_io" where
  "snap_session_env ss = iob (snap_env ss session_keys) (\<lambda>env. ioupd (\<lambda>s. s\<lparr>pv_env := env\<rparr>))"

definition script_dir :: "nat \<Rightarrow> string" where
  "script_dir uid = ''/tmp/reflash-priv-'' @ dec_digits uid"

definition fixed_script_path :: "nat \<Rightarrow> string" where
  "fixed_script_path uid = script_dir uid @ ''/run.sh''"

definition ensure_script_dir :: "'w script_sys \<Rightarrow> ('w, 'z, string option) priv_io" where
  "ensure_script_dir ss =
     iob (sysc (sc_uid ss)) (\<lambda>uid.
     iob (sysc (sc_mkdir ss (script_dir uid))) (\<lambda>r.
     ioret (case r of None \<Rightarrow> None | Some (exists, msg) \<Rightarrow> if exists then None else Some (''mkdir: '' @ msg))))"

definition script_text :: "string \<Rightarrow> string" where
  "script_text body = ''#!/bin/bash'' @ [CHR 0x0A] @ ''set -e'' @ [CHR 0x0A] @ body @ [CHR 0x0A]"

text \<open>The path of the script, or the error.\<close>

definition write_fixed_script :: "'w script_sys \<Rightarrow> string \<Rightarrow> ('w, 'z, string + string) priv_io" where
  "write_fixed_script ss body =
     iob (ensure_script_dir ss) (\<lambda>e.
     case e of
       Some msg \<Rightarrow> ioret (Inl msg)
     | None \<Rightarrow>
         iob (sysc (sc_uid ss)) (\<lambda>uid.
         let path = fixed_script_path uid in
         iob (sysc (sc_open ss path)) (\<lambda>r.
         case r of
           Inl msg \<Rightarrow> ioret (Inl (''open script: '' @ msg))
         | Inr f \<Rightarrow>
             iob (sysc (sc_write ss f (script_text body))) (\<lambda>ok.
             if \<not> ok then iob (sysc (sc_close ss f)) (\<lambda>_. ioret (Inl ''could not write privileged script''))
             else
               iob (sysc (sc_fchmod ss f)) (\<lambda>_.
               iob (sysc (sc_close ss f)) (\<lambda>_.
               ioret (Inr path)))))))"

text \<open>The exit status and the output, which stays what it was if it cannot be read.\<close>

definition run_argv_capture :: "'w script_sys \<Rightarrow> string list \<Rightarrow> string \<Rightarrow> ('w, 'z, int \<times> string) priv_io" where
  "run_argv_capture ss argv out =
     (if argv = [] then ioret (-1, out)
      else
        iob (sysc (sc_mkstemp ss)) (\<lambda>t.
        case t of
          None \<Rightarrow> ioret (-1, out)
        | Some (tmpl, f) \<Rightarrow>
            iob (sysc (sc_close ss f)) (\<lambda>_.
            iob (ioget pv_env) (\<lambda>env.
            iob (sysc (sc_spawn ss argv (filter (\<lambda>(k, v). v \<noteq> []) env) tmpl)) (\<lambda>r.
            case r of
              Ended st \<Rightarrow>
                iob (sysc (sc_read_file ss tmpl)) (\<lambda>text.
                iob (sysc (sc_unlink ss tmpl)) (\<lambda>_.
                ioret (case st of Exited n \<Rightarrow> n | _ \<Rightarrow> -1, case text of None \<Rightarrow> out | Some x \<Rightarrow> x)))
            | _ \<Rightarrow> iob (sysc (sc_unlink ss tmpl)) (\<lambda>_. ioret (-1, out)))))))"

definition run_script_host :: "'w script_sys \<Rightarrow> string \<Rightarrow> ('w, 'z, int \<times> string) priv_io" where
  "run_script_host ss script =
     iob (write_fixed_script ss script) (\<lambda>r.
     case r of
       Inl msg \<Rightarrow> ioret (-1, msg)
     | Inr path \<Rightarrow>
         iob (run_argv_capture ss [''pkexec'', ''/bin/bash'', path] []) (\<lambda>(rc, out).
         if rc = 0 then ioret (0, out)
         else
           iob (ioget pv_gui) (\<lambda>gui.
           if gui then ioret (rc, out)
           else
             iob (run_argv_capture ss [''sudo'', ''-n'', ''/bin/bash'', path] out) (\<lambda>(rc, out).
             if rc = 0 then ioret (0, out)
             else run_argv_capture ss [''sudo'', ''/bin/bash'', path] out))))"

section \<open>The agent\<close>

definition max_script :: nat where
  "max_script = 8 * 1024 * 1024"

definition max_output :: nat where
  "max_output = 1024 * 1024"

text \<open>One request; \<open>True\<close> if the agent waits for another one.  \<open>run\<close> runs the script.\<close>

definition agent_turn ::
  "'w pipe_sys \<Rightarrow> (string \<Rightarrow> ('w, 'z, int \<times> string) priv_io) \<Rightarrow> fd \<Rightarrow> fd \<Rightarrow> ('w, 'z, bool) priv_io" where
  "agent_turn ps run req_r rep_w =
     iob (read_all ps req_r 4) (\<lambda>r.
     case r of
       None \<Rightarrow> ioret False
     | Some lenb \<Rightarrow>
         let len = v32 lenb 0 in
         if len = 0xffffffff \<or> max_script < unat len then ioret False
         else
           iob (read_all ps req_r (unat len)) (\<lambda>r.
           case r of
             None \<Rightarrow> ioret False
           | Some script \<Rightarrow>
               iob (run (map of_byte script)) (\<lambda>(rc, output).
               let output = take max_output output in
               iob (write_all ps rep_w (put32 (word_of_int rc))) (\<lambda>ok.
               iob (if ok then write_all ps rep_w (put32 (word_of_nat (length output))) else ioret False) (\<lambda>ok.
               if ok then write_all ps rep_w (map to_byte output) else ioret False)))))"

text \<open>The loop of the child process, for at most the given number of requests.\<close>

fun agent_main :: "nat \<Rightarrow> 'w pipe_sys \<Rightarrow> 'w script_sys \<Rightarrow> fd \<Rightarrow> fd \<Rightarrow> ('w, 'z, unit) priv_io" where
  "agent_main 0 ps ss req_r rep_w = iostuck"
| "agent_main (Suc n) ps ss req_r rep_w =
     iob (agent_turn ps (run_script_host ss) req_r rep_w) (\<lambda>more.
     if more then agent_main n ps ss req_r rep_w else ioret ())"

section \<open>The program's side\<close>

definition set_host_priv_gui :: "bool \<Rightarrow> ('w, 'z, unit) priv_io" where
  "set_host_priv_gui gui = ioupd (\<lambda>s. s\<lparr>pv_gui := gui\<rparr>)"

definition host_priv_gui :: "('w, 'z, bool) priv_io" where
  "host_priv_gui = ioget pv_gui"

text \<open>The parent's side of the fork; the child runs \<open>agent_main\<close> on the other ends of the pipes.\<close>

definition start_host_priv_agent :: "'w script_sys \<Rightarrow> ('w, 'z, bool) priv_io" where
  "start_host_priv_agent ss =
     iob (ioget pv_pid) (\<lambda>pid.
     if 0 < pid then ioret True
     else
       iob (snap_session_env ss) (\<lambda>_.
       iob (sysc (sc_pipe ss)) (\<lambda>req.
       case req of
         None \<Rightarrow> ioret False
       | Some (req_r, req_w) \<Rightarrow>
           iob (sysc (sc_pipe ss)) (\<lambda>rep.
           case rep of
             None \<Rightarrow> iob (sysc (sc_close ss req_r)) (\<lambda>_. iob (sysc (sc_close ss req_w)) (\<lambda>_. ioret False))
           | Some (rep_r, rep_w) \<Rightarrow>
               iob (sysc (sc_fork ss)) (\<lambda>pid.
               if pid < 0 then
                 iob (sysc (sc_close ss req_r)) (\<lambda>_. iob (sysc (sc_close ss req_w)) (\<lambda>_.
                 iob (sysc (sc_close ss rep_r)) (\<lambda>_. iob (sysc (sc_close ss rep_w)) (\<lambda>_. ioret False))))
               else
                 iob (sysc (sc_close ss req_r)) (\<lambda>_. iob (sysc (sc_close ss rep_w)) (\<lambda>_.
                 iob (ioupd (\<lambda>s. s\<lparr>pv_req_w := req_w, pv_rep_r := rep_r, pv_pid := pid\<rparr>)) (\<lambda>_. ioret True))))))))"

definition agent_running :: "('w, 'z) priv_scheme \<Rightarrow> bool" where
  "agent_running s \<longleftrightarrow> 0 < pv_pid s \<and> 0 \<le> pv_req_w s \<and> 0 \<le> pv_rep_r s"

definition host_priv_agent_running :: "('w, 'z, bool) priv_io" where
  "host_priv_agent_running = ioget agent_running"

text \<open>The position of the last character with a property.\<close>

fun last_at :: "(char \<Rightarrow> bool) \<Rightarrow> string \<Rightarrow> nat option" where
  "last_at P [] = None"
| "last_at P (c # s) = (case last_at P s of Some i \<Rightarrow> Some (Suc i) | None \<Rightarrow> if P c then Some 0 else None)"

text \<open>The last line of the output that is not blank, as it is cut out for the error message.\<close>

definition error_line :: "string \<Rightarrow> string" where
  "error_line out =
     (case last_at (\<lambda>c. c \<notin> {CHR '' '', CHR 0x09, CHR 0x0D, CHR 0x0A}) out of
        None \<Rightarrow> []
      | Some pos \<Rightarrow>
          let line = (case last_at (\<lambda>c. c = CHR 0x0A) (take (pos + 1) out) of
              None \<Rightarrow> take pos out
            | Some start \<Rightarrow> take (pos - start) (drop (start + 1) out)) in
          rev (dropWhile (\<lambda>c. c = CHR 0x0A \<or> c = CHR 0x0D) (rev line)))"

definition approval_failed :: "string \<Rightarrow> string \<Rightarrow> string" where
  "approval_failed hint out =
     ''Administrator approval failed'' @
     (if out = [] then hint else if error_line out = [] then [] else '': '' @ error_line out)"

definition gui_hint :: "bool \<Rightarrow> string" where
  "gui_hint gui = (if gui then '' (pkexec cancelled or unavailable)'' else '' (pkexec/sudo unavailable or cancelled)'')"

definition run_host_privileged_script :: "'w pipe_sys \<Rightarrow> string \<Rightarrow> ('w, 'z, bool \<times> string) priv_io" where
  "run_host_privileged_script ps script =
     iob (ioget id) (\<lambda>s.
     if \<not> agent_running s then ioret (False, ''host privilege agent is not running'')
     else
       let len = word_of_nat (length script) :: u32 in
       iob (write_all ps (pv_req_w s) (put32 len)) (\<lambda>ok.
       iob (if ok \<and> 0 < len then write_all ps (pv_req_w s) (take (unat len) (map to_byte script)) else ioret ok) (\<lambda>ok.
       if \<not> ok then ioret (False, ''failed to send privileged script to host agent'')
       else
         iob (read_all ps (pv_rep_r s) 4) (\<lambda>rc.
         iob (if rc = None then ioret None else read_all ps (pv_rep_r s) 4) (\<lambda>olen.
         case olen of
           None \<Rightarrow> ioret (False, ''host privilege agent disconnected'')
         | Some olen \<Rightarrow>
             if max_output < unat (v32 olen 0) then ioret (False, ''host privilege agent reply too large'')
             else
               iob (read_all ps (pv_rep_r s) (unat (v32 olen 0))) (\<lambda>out.
               case out of
                 None \<Rightarrow> ioret (False, ''host privilege agent disconnected'')
               | Some out \<Rightarrow>
                   if v32 (the rc) 0 \<noteq> 0
                   then ioret (False, approval_failed (gui_hint (pv_gui s)) (map of_byte out))
                   else ioret (True, [])))))))"

section \<open>Bytes\<close>

lemma of_byte_to_byte [simp]: "of_byte (to_byte c) = c"
proof -
  have "(of_char c :: u8) = word_of_nat (of_char c)" by (rule of_nat_of_char [symmetric])
  moreover have "(of_char c :: nat) < 256" by simp
  ultimately have "unat (of_char c :: u8) = of_char c" by (simp only: unat_of_nat) simp
  then show ?thesis by (simp add: of_byte_def to_byte_def)
qed

lemma bytes_text [simp]: "of_byte \<circ> to_byte = id"
  by (simp add: fun_eq_iff)

lemma put32_length [simp]: "length (put32 n) = 4"
  by (simp add: put32_def)

lemma v32_put32 [simp]: "v32 (put32 n) 0 = n"
proof (rule bit_word_eqI)
  show "bit (v32 (put32 n) 0) i = bit n i" if "i < LENGTH(32)" for i
    using that by (cases "i < 8"; cases "i < 16"; cases "i < 24")
      (auto simp: v32_def v16_def le32_def le16_def put32_def bit_simps)
qed

section \<open>Pipes\<close>

text \<open>The reading end of a pipe: a call on a pipe that holds bytes gives some of them, the first ones,
  and takes them out.\<close>

locale pipe_out =
  fixes ps :: "'w pipe_sys" and f :: fd and q :: "'w \<Rightarrow> bytes" and put :: "bytes \<Rightarrow> 'w \<Rightarrow> 'w" and cap :: nat
  assumes reads: "q w \<noteq> [] \<Longrightarrow> 0 < n \<Longrightarrow>
      pi_read ps f n w = (Inr (take (min n (Suc cap)) (q w)), put (drop (min n (Suc cap)) (q w)) w)"
    and q_put: "q (put x w) = x" and put_put: "put x (put y w) = put x w" and put_q: "put (q w) w = w"
begin

lemma read_loop_all:
  "n \<le> length (q (world s)) \<Longrightarrow>
   read_loop fuel ps f n acc s = Ret (Some (acc @ take n (q (world s))), s\<lparr>world := put (drop n (q (world s))) (world s)\<rparr>)"
proof (induction n arbitrary: acc s rule: less_induct)
  case (less n)
  show ?case
  proof (cases "n = 0")
    case True
    then show ?thesis by (subst read_loop.simps) (simp add: put_q)
  next
    case False
    let ?m = "min n (Suc cap)" and ?s = "s\<lparr>world := put (drop (min n (Suc cap)) (q (world s))) (world s)\<rparr>"
    have ne: "q (world s) \<noteq> []" "take ?m (q (world s)) \<noteq> []" "length (take ?m (q (world s))) = ?m" "0 < n" "0 < ?m"
      using False less.prems by auto
    have "read_loop fuel ps f n acc s = read_loop fuel ps f (n - ?m) (acc @ take ?m (q (world s))) ?s"
      by (subst read_loop.simps) (use False ne(1-4) in \<open>simp add: iob_def sysc_def reads\<close>, use ne(4) in \<open>simp add: min_def\<close>)
    also have "\<dots> = Ret (Some (acc @ take n (q (world s))), s\<lparr>world := put (drop n (q (world s))) (world s)\<rparr>)"
      using less.IH [of "n - ?m" ?s] less.prems ne(4,5)
      by (simp add: q_put put_put take_add [symmetric] add.commute)
    finally show ?thesis .
  qed
qed

lemma read_whole:
  "n \<le> length (q (world s)) \<Longrightarrow>
   read_all ps f n s = Ret (Some (take n (q (world s))), s\<lparr>world := put (drop n (q (world s))) (world s)\<rparr>)"
  by (simp add: read_all_def read_loop_all)

end

text \<open>The writing end: a call takes some of the bytes, the first ones.\<close>

locale pipe_in =
  fixes ps :: "'w pipe_sys" and f :: fd and q :: "'w \<Rightarrow> bytes" and put :: "bytes \<Rightarrow> 'w \<Rightarrow> 'w" and cap :: nat
    and open_end :: "'w \<Rightarrow> bool"
  assumes writes: "open_end w \<Longrightarrow> bs \<noteq> [] \<Longrightarrow>
      pi_write ps f bs w = (Inr (length (take (Suc cap) bs)), put (q w @ take (Suc cap) bs) w)"
    and q_put: "q (put x w) = x" and put_put: "put x (put y w) = put x w" and put_q: "put (q w) w = w"
    and open_put: "open_end (put x w) = open_end w"
begin

lemma write_loop_all:
  "open_end (world s) \<Longrightarrow> write_loop fuel ps f bs s = Ret (True, s\<lparr>world := put (q (world s) @ bs) (world s)\<rparr>)"
proof (induction bs arbitrary: s rule: measure_induct_rule [of length])
  case (less bs)
  show ?case
  proof (cases "bs = []")
    case True
    then show ?thesis by (subst write_loop.simps) (simp add: put_q)
  next
    case False
    let ?s = "s\<lparr>world := put (q (world s) @ take (Suc cap) bs) (world s)\<rparr>"
    have "write_loop fuel ps f bs s = write_loop fuel ps f (drop (length (take (Suc cap) bs)) bs) ?s"
      by (subst write_loop.simps) (use False less.prems in \<open>simp add: iob_def sysc_def writes min_def\<close>)
    also have "\<dots> = Ret (True, s\<lparr>world := put (q (world s) @ bs) (world s)\<rparr>)"
      using less.IH [of "drop (length (take (Suc cap) bs)) bs" ?s] less.prems False
      by (simp add: q_put put_put open_put min_def)
    finally show ?thesis .
  qed
qed

lemma write_whole:
  "open_end (world s) \<Longrightarrow> write_all ps f bs s = Ret (True, s\<lparr>world := put (q (world s) @ bs) (world s)\<rparr>)"
  by (simp add: write_all_def write_loop_all)

end

section \<open>The program and its agent\<close>

text \<open>
  The two pipes with the agent behind them.  A call transfers at most \<open>Suc cap\<close> bytes.  A process
  that reads from an empty pipe waits: where the program reads a reply that is not there yet, the
  agent takes its turn.
\<close>

record 'w pipes =
  px_req :: bytes
  px_rep :: bytes
  px_gone :: bool
  px_host :: 'w

definition agent_end :: "nat \<Rightarrow> 'w pipes pipe_sys" where
  "agent_end cap =
     \<lparr>pi_write = \<lambda>f bs w. (Inr (length (take (Suc cap) bs)), w\<lparr>px_rep := px_rep w @ take (Suc cap) bs\<rparr>),
      pi_read = \<lambda>f n w. (Inr (take (min n (Suc cap)) (px_req w)), w\<lparr>px_req := drop (min n (Suc cap)) (px_req w)\<rparr>),
      pi_fuel = 0\<rparr>"

text \<open>The agent runs its script on the host; the rest of its state is its own copy.\<close>

definition on_host :: "('w, unit, 'a) priv_io \<Rightarrow> ('w pipes, unit, 'a) priv_io" where
  "on_host m = (\<lambda>s.
     case m \<lparr>world = px_host (world s), pv_req_w = pv_req_w s, pv_rep_r = pv_rep_r s, pv_pid = pv_pid s,
             pv_gui = pv_gui s, pv_env = pv_env s\<rparr> of
       Ret (a, t) \<Rightarrow> Ret (a, s\<lparr>world := (world s)\<lparr>px_host := world t\<rparr>\<rparr>)
     | Trap \<Rightarrow> Trap
     | Stuck \<Rightarrow> Stuck)"

definition child_state :: "bool \<Rightarrow> (string \<times> string) list \<Rightarrow> 'w \<Rightarrow> 'w priv" where
  "child_state gui env w = \<lparr>world = w, pv_req_w = -1, pv_rep_r = -1, pv_pid = -1, pv_gui = gui, pv_env = env\<rparr>"

definition agent_step :: "'w script_sys \<Rightarrow> nat \<Rightarrow> bool \<Rightarrow> (string \<times> string) list \<Rightarrow> 'w pipes \<Rightarrow> 'w pipes" where
  "agent_step ss cap gui env w =
     (case agent_turn (agent_end cap) (\<lambda>script. on_host (run_script_host ss script)) 3 6 (child_state gui env w) of
        Ret (waits, s) \<Rightarrow> (if waits then world s else (world s)\<lparr>px_gone := True\<rparr>)
      | _ \<Rightarrow> w\<lparr>px_gone := True\<rparr>)"

definition program_end :: "'w script_sys \<Rightarrow> nat \<Rightarrow> bool \<Rightarrow> (string \<times> string) list \<Rightarrow> 'w pipes pipe_sys" where
  "program_end ss cap gui env =
     \<lparr>pi_write = \<lambda>f bs w.
        (if px_gone w then (Inl (Errno ''Broken pipe''), w)
         else (Inr (length (take (Suc cap) bs)), w\<lparr>px_req := px_req w @ take (Suc cap) bs\<rparr>)),
      pi_read = \<lambda>f n w.
        (let w = (if px_rep w = [] \<and> \<not> px_gone w then agent_step ss cap gui env w else w) in
         (Inr (take (min n (Suc cap)) (px_rep w)), w\<lparr>px_rep := drop (min n (Suc cap)) (px_rep w)\<rparr>)),
      pi_fuel = 0\<rparr>"

interpretation requests: pipe_out "agent_end cap" f px_req "\<lambda>x w. w\<lparr>px_req := x\<rparr>" cap for cap f
  by unfold_locales (simp_all add: agent_end_def)

interpretation answers: pipe_in "agent_end cap" f px_rep "\<lambda>x w. w\<lparr>px_rep := x\<rparr>" cap "\<lambda>_. True" for cap f
  by unfold_locales (simp_all add: agent_end_def)

interpretation replies_in: pipe_out "program_end ss cap gui env" f px_rep "\<lambda>x w. w\<lparr>px_rep := x\<rparr>" cap
  for ss cap gui env f
  by unfold_locales (simp_all add: program_end_def)

interpretation requests_in: pipe_in "program_end ss cap gui env" f px_req "\<lambda>x w. w\<lparr>px_req := x\<rparr>" cap "\<lambda>w. \<not> px_gone w"
  for ss cap gui env f
  by unfold_locales (simp_all add: program_end_def)

definition request :: "string \<Rightarrow> bytes" where
  "request script = put32 (word_of_nat (length script)) @ map to_byte script"

definition reply :: "int \<Rightarrow> string \<Rightarrow> bytes" where
  "reply rc out = put32 (word_of_int rc) @ put32 (word_of_nat (length out)) @ map to_byte out"

lemma script_length: "length script \<le> max_script \<Longrightarrow> unat (word_of_nat (length script) :: u32) = length script"
  by (simp add: max_script_def unat_of_nat)

lemma agent_answers:
  assumes "length script \<le> max_script" and "px_req w = request script" and "px_rep w = []"
    and "run_script_host ss script (child_state gui env (px_host w)) = Ret ((rc, out), t)"
  shows "agent_step ss cap gui env w = w\<lparr>px_req := [], px_rep := reply rc (take max_output out), px_host := world t\<rparr>"
proof -
  let ?len = "word_of_nat (length script) :: u32"
  have len: "unat ?len = length script" by (rule script_length [OF assms(1)])
  then have ok: "\<not> (?len = 0xffffffff \<or> max_script < unat ?len)"
    using assms(1) by (auto simp: max_script_def dest: arg_cong [of _ _ unat])
  let ?s = "child_state gui env w"
  have r1: "read_all (agent_end cap) 3 4 ?s = Ret (Some (put32 ?len), child_state gui env (w\<lparr>px_req := map to_byte script\<rparr>))"
    using requests.read_whole [where n = 4 and s = ?s and cap = cap and f = 3] assms(2) by (simp add: child_state_def request_def)
  have r2: "read_all (agent_end cap) 3 (unat ?len) (child_state gui env (w\<lparr>px_req := map to_byte script\<rparr>)) =
      Ret (Some (map to_byte script), child_state gui env (w\<lparr>px_req := []\<rparr>))"
    using requests.read_whole [where n = "unat ?len" and s = "child_state gui env (w\<lparr>px_req := map to_byte script\<rparr>)" and cap = cap and f = 3]
    by (simp add: child_state_def len)
  have run: "on_host (run_script_host ss script) (child_state gui env (w\<lparr>px_req := []\<rparr>)) =
      Ret ((rc, out), child_state gui env (w\<lparr>px_req := [], px_host := world t\<rparr>))"
    using assms(4) by (simp add: on_host_def child_state_def)
  have wr: "write_all (agent_end cap) 6 bs (child_state gui env x) = Ret (True, child_state gui env (x\<lparr>px_rep := px_rep x @ bs\<rparr>))"
    for bs and x :: "'a pipes"
    using answers.write_whole [where s = "child_state gui env x" and cap = cap and f = 6] by (simp add: child_state_def)
  have "agent_turn (agent_end cap) (\<lambda>script. on_host (run_script_host ss script)) 3 6 ?s =
      Ret (True, child_state gui env (w\<lparr>px_req := [], px_host := world t, px_rep := reply rc (take max_output out)\<rparr>))"
    using assms(3) ok by (simp add: agent_turn_def iob_def r1 r2 run wr Let_def reply_def)
  then show ?thesis by (cases w) (simp add: agent_step_def child_state_def)
qed

lemma read_loop_cong:
  assumes "0 < n" and "pi_read ps f n (world s) = pi_read ps f n w'"
  shows "read_loop fuel ps f n acc s = read_loop fuel ps f n acc (s\<lparr>world := w'\<rparr>)"
proof -
  have "sysc (pi_read ps f n) s = sysc (pi_read ps f n) (s\<lparr>world := w'\<rparr>)" using assms(2) by (simp add: sysc_def)
  then show ?thesis using assms(1) by (subst (1 2) read_loop.simps) (simp add: iob_def)
qed

lemma read_awaits:
  assumes "agent_step ss cap gui env w = w'" and "px_rep w = []" and "\<not> px_gone w" and "px_rep w' \<noteq> []" and "0 < n"
  shows "read_all (program_end ss cap gui env) f n (s\<lparr>world := w\<rparr>) = read_all (program_end ss cap gui env) f n (s\<lparr>world := w'\<rparr>)"
proof -
  have "pi_read (program_end ss cap gui env) f n (world (s\<lparr>world := w\<rparr>)) = pi_read (program_end ss cap gui env) f n w'"
    using assms by (simp add: program_end_def)
  from read_loop_cong [OF assms(5) this] show ?thesis by (simp add: read_all_def program_end_def)
qed

lemma request_written:
  fixes s :: "'w pipes priv" and script :: string
  defines "len \<equiv> word_of_nat (length script) :: u32"
  assumes "length script \<le> max_script" and "px_req (world s) = []" and "\<not> px_gone (world s)"
  shows "write_all (program_end ss cap gui env) f (put32 len) s = Ret (True, s\<lparr>world := (world s)\<lparr>px_req := put32 len\<rparr>\<rparr>)"
    and "(if 0 < len then write_all (program_end ss cap gui env) f (take (unat len) (map to_byte script)) else ioret True)
        (s\<lparr>world := (world s)\<lparr>px_req := put32 len\<rparr>\<rparr>) = Ret (True, s\<lparr>world := (world s)\<lparr>px_req := request script\<rparr>\<rparr>)"
proof -
  let ?s = "s\<lparr>world := (world s)\<lparr>px_req := put32 len\<rparr>\<rparr>"
  have len: "unat len = length script" unfolding len_def by (rule script_length [OF assms(2)])
  show "write_all (program_end ss cap gui env) f (put32 len) s = Ret (True, ?s)"
    using requests_in.write_whole [where s = s and ss = ss and cap = cap and gui = gui and env = env] assms(3,4) by simp
  have w2: "write_all (program_end ss cap gui env) f (map to_byte script) ?s =
      Ret (True, s\<lparr>world := (world s)\<lparr>px_req := request script\<rparr>\<rparr>)"
    using requests_in.write_whole [where s = ?s and ss = ss and cap = cap and gui = gui and env = env] assms(4)
    by (simp add: request_def len_def)
  show "(if 0 < len then write_all (program_end ss cap gui env) f (take (unat len) (map to_byte script)) else ioret True) ?s =
      Ret (True, s\<lparr>world := (world s)\<lparr>px_req := request script\<rparr>\<rparr>)"
  proof (cases "script = []")
    case False
    then have "0 < len" using len by (metis length_0_conv unat_0 word_neq_0_conv)
    then show ?thesis using w2 by (simp add: len)
  qed (simp add: request_def len_def)
qed

text \<open>C21: a script that is handed to the agent is run there once, in the environment and with the mode
  the agent was forked with, and the program gets its exit status and its output, as the caller of
  \<open>run_script_host\<close> would: success exactly for the status 0, else the message made of the first
  mebibyte of the output.  However the pipes cut the bytes up, both are empty afterwards, so the next
  request is not mistaken.\<close>

theorem agent_call:
  fixes s :: "'w pipes priv"
  assumes "agent_running s" and "length script \<le> max_script"
    and "px_req (world s) = []" and "px_rep (world s) = []" and "\<not> px_gone (world s)"
    and "run_script_host ss script (child_state gui env (px_host (world s))) = Ret ((rc, out), t)"
  shows "run_host_privileged_script (program_end ss cap gui env) script s =
    Ret ((if (word_of_int rc :: u32) = 0 then (True, []) else (False, approval_failed (gui_hint (pv_gui s)) (take max_output out))),
      s\<lparr>world := (world s)\<lparr>px_host := world t\<rparr>\<rparr>)"
proof -
  let ?ps = "program_end ss cap gui env" and ?len = "word_of_nat (length script) :: u32" and ?out = "take max_output out"
  let ?at = "\<lambda>w. s\<lparr>world := w\<rparr>" and ?w = "world s"
  note w = request_written [OF assms(2,3,5), where ss = ss and cap = cap and gui = gui and env = env]
  let ?v = "\<lambda>x. ?w\<lparr>px_host := world t, px_rep := x\<rparr>"
  have step: "agent_step ss cap gui env (?w\<lparr>px_req := request script\<rparr>) = ?v (reply rc ?out)"
    using agent_answers [OF assms(2), where w = "?w\<lparr>px_req := request script\<rparr>"] assms(3-6) by (cases "world s") simp
  let ?rc = "word_of_int rc :: u32" and ?olen = "word_of_nat (length ?out) :: u32"
  have olen: "unat ?olen = length ?out" by (simp add: max_output_def unat_of_nat)
  have r1: "read_all ?ps f 4 (?at (?w\<lparr>px_req := request script\<rparr>)) =
      Ret (Some (put32 ?rc), ?at (?v (put32 ?olen @ map to_byte ?out)))" for f
  proof -
    have "read_all ?ps f 4 (?at (?w\<lparr>px_req := request script\<rparr>)) = read_all ?ps f 4 (?at (?v (reply rc ?out)))"
      by (rule read_awaits [OF step]) (simp_all add: assms(4,5) reply_def put32_def)
    then show ?thesis
      using replies_in.read_whole [where s = "?at (?v (reply rc ?out))" and n = 4 and ss = ss and cap = cap and gui = gui and env = env]
      by (simp add: reply_def)
  qed
  have r2: "read_all ?ps f 4 (?at (?v (put32 ?olen @ map to_byte ?out))) =
      Ret (Some (put32 ?olen), ?at (?v (map to_byte ?out)))" for f
    using replies_in.read_whole [where s = "?at (?v (put32 ?olen @ map to_byte ?out))" and n = 4
        and ss = ss and cap = cap and gui = gui and env = env] by simp
  have r3: "read_all ?ps f (length ?out) (?at (?v (map to_byte ?out))) =
      Ret (Some (map to_byte ?out), ?at (?v []))" for f
    using replies_in.read_whole [where s = "?at (?v (map to_byte ?out))" and n = "length ?out"
        and ss = ss and cap = cap and gui = gui and env = env] by simp
  have last: "?at (?v []) = s\<lparr>world := ?w\<lparr>px_host := world t\<rparr>\<rparr>"
    using assms(4) by (cases "world s") simp
  have short: "\<not> max_output < length ?out" by simp
  show ?thesis
    by (simp add: run_host_privileged_script_def assms(1) iob_def Let_def w r1 r2 r3 olen last
        short del: length_take)
qed

text \<open>A host on which every script is approved and prints one line, and one on which none is.\<close>

definition approving :: "int \<Rightarrow> 'w script_sys" where
  "approving rc =
     \<lparr>sc_uid = \<lambda>w. (1000, w), sc_mkdir = \<lambda>p w. (Some (True, ''File exists''), w), sc_open = \<lambda>p w. (Inr 7, w),
      sc_write = \<lambda>f x w. (True, w), sc_fchmod = \<lambda>f w. ((), w), sc_close = \<lambda>f w. ((), w),
      sc_mkstemp = \<lambda>w. (Some (''/tmp/reflash-priv-out-000000'', 8), w), sc_spawn = \<lambda>a env out w. (Ended (Exited rc), w),
      sc_read_file = \<lambda>p w. (Some ''dismissed'', w), sc_unlink = \<lambda>p w. ((), w), sc_getenv = \<lambda>k w. (None, w),
      sc_pipe = \<lambda>w. (Some (3, 4), w), sc_fork = \<lambda>w. (99, w)\<rparr>"

lemma approving_runs: "run_script_host (approving rc) script (child_state True env w) = Ret ((rc, ''dismissed''), child_state True env w)"
  by (simp add: run_script_host_def write_fixed_script_def ensure_script_dir_def run_argv_capture_def iob_def sysc_def
      approving_def child_state_def Let_def)

definition idle_program :: "unit pipes priv" where
  "idle_program = \<lparr>world = \<lparr>px_req = [], px_rep = [], px_gone = False, px_host = ()\<rparr>, pv_req_w = 4, pv_rep_r = 5, pv_pid = 99,
     pv_gui = True, pv_env = []\<rparr>"

lemma agent_call_witness:
  "run_host_privileged_script (program_end (approving 0) 1 True []) ''ls'' idle_program = Ret ((True, []), idle_program)"
  using agent_call [OF _ _ _ _ _ approving_runs, of idle_program "''ls''" 0 1 "[]"]
  by (simp add: idle_program_def agent_running_def max_script_def child_state_def)

text \<open>A message of one line without a line break loses its last character.\<close>

lemma error_line_cut: "error_line ''dismissed'' = ''dismisse''" "error_line (''dismissed'' @ [CHR 0x0A]) = ''dismisse''"
  "error_line (''Error:'' @ [CHR 0x0A] @ ''dismissed'') = ''dismissed''"
  by (simp_all add: error_line_def Let_def)

end
