(* ===== verification/FuseUser.thy ===== *)
theory FuseUser
  imports Agent
begin

text \<open>
  Letting a user mount with FUSE (\<open>src/mount/fuse_user.cpp\<close>): the group \<open>fuse\<close> and the mode and the
  capabilities of the helper \<open>fusermount\<close> are looked up, and changed by a script that is run as root,
  through the agent when it runs.
\<close>

section \<open>Calls\<close>

record unix_group =
  ug_gid :: nat
  ug_members :: "string list"

record 'w fuse_sys =
  fu_mode :: "string \<Rightarrow> 'w \<Rightarrow> nat option \<times> 'w"
  fu_popen :: "string \<Rightarrow> 'w \<Rightarrow> (string \<times> wait_status) option \<times> 'w"
  fu_getgrnam :: "string \<Rightarrow> 'w \<Rightarrow> unix_group option \<times> 'w"
  fu_getgid :: "'w \<Rightarrow> nat \<times> 'w"
  fu_getegid :: "'w \<Rightarrow> nat \<times> 'w"
  fu_count_groups :: "'w \<Rightarrow> int \<times> 'w"
  fu_getgroups :: "nat \<Rightarrow> 'w \<Rightarrow> nat list \<times> 'w"
  fu_getenv :: "string \<Rightarrow> 'w \<Rightarrow> string option \<times> 'w"
  fu_pw_name :: "'w \<Rightarrow> string option \<times> 'w"
  fu_mkstemp :: "'w \<Rightarrow> (string \<times> fd) option \<times> 'w"
  fu_write :: "fd \<Rightarrow> string \<Rightarrow> 'w \<Rightarrow> bool \<times> 'w"
  fu_fchmod :: "fd \<Rightarrow> 'w \<Rightarrow> unit \<times> 'w"
  fu_close :: "fd \<Rightarrow> 'w \<Rightarrow> unit \<times> 'w"
  fu_unlink :: "string \<Rightarrow> 'w \<Rightarrow> unit \<times> 'w"

text \<open>\<open>fu_mode\<close> is the mode that \<open>stat\<close> gives, \<open>fu_popen\<close> what the command wrote and how it ended,
  \<open>fu_getgroups\<close> at most as many groups as asked for, fewer if the call fails.\<close>

section \<open>Looking\<close>

record fuse_status =
  fs_group_exists :: bool
  fs_user_in_group :: bool
  fs_setuid :: bool
  fs_cap :: bool
  fs_path :: string

record fuse_desire =
  fd_group :: bool
  fd_member :: bool
  fd_setuid :: bool
  fd_cap :: bool

definition file_exists :: "'w fuse_sys \<Rightarrow> string \<Rightarrow> ('w, 'z, bool) priv_io" where
  "file_exists fu p = iob (sysc (fu_mode fu p)) (\<lambda>m. ioret (m \<noteq> None))"

definition has_setuid :: "'w fuse_sys \<Rightarrow> string \<Rightarrow> ('w, 'z, bool) priv_io" where
  "has_setuid fu p =
     iob (sysc (fu_mode fu p)) (\<lambda>m. ioret (case m of None \<Rightarrow> False | Some m \<Rightarrow> bit m 11))"

definition pick_tool :: "'w fuse_sys \<Rightarrow> string \<Rightarrow> ('w, 'z, string) priv_io" where
  "pick_tool fu tool =
     iob (file_exists fu (''/sbin/'' @ tool)) (\<lambda>a.
     if a then ioret (''/sbin/'' @ tool)
     else iob (file_exists fu (''/usr/sbin/'' @ tool)) (\<lambda>b.
       ioret (if b then ''/usr/sbin/'' @ tool else tool)))"

definition has_cap_sys_admin :: "'w fuse_sys \<Rightarrow> string \<Rightarrow> ('w, 'z, bool) priv_io" where
  "has_cap_sys_admin fu p =
     iob (pick_tool fu ''getcap'') (\<lambda>getcap.
     iob (sysc (fu_popen fu (getcap @ '' '' @ p @ '' 2>/dev/null''))) (\<lambda>r.
     ioret (case r of None \<Rightarrow> False | Some (out, _) \<Rightarrow> contains ''cap_sys_admin'' out)))"

definition group_exists :: "'w fuse_sys \<Rightarrow> string \<Rightarrow> ('w, 'z, bool) priv_io" where
  "group_exists fu g = iob (sysc (fu_getgrnam fu g)) (\<lambda>r. ioret (r \<noteq> None))"

text \<open>The login name: the variable \<open>USER\<close>, else the entry of the user database.\<close>

definition login_name :: "'w fuse_sys \<Rightarrow> bool \<Rightarrow> ('w, 'z, string option) priv_io" where
  "login_name fu need_text =
     iob (sysc (fu_getenv fu ''USER'')) (\<lambda>u.
     case u of
       Some e \<Rightarrow> if need_text \<and> e = [] then sysc (fu_pw_name fu) else ioret (Some e)
     | None \<Rightarrow> sysc (fu_pw_name fu))"

definition user_in_group :: "'w fuse_sys \<Rightarrow> string \<Rightarrow> ('w, 'z, bool) priv_io" where
  "user_in_group fu gname =
     iob (sysc (fu_getgrnam fu gname)) (\<lambda>g.
     case g of
       None \<Rightarrow> ioret False
     | Some g \<Rightarrow>
         iob (sysc (fu_getgid fu)) (\<lambda>gid.
         if gid = ug_gid g then ioret True
         else
           iob (sysc (fu_getegid fu)) (\<lambda>egid.
           if egid = ug_gid g then ioret True
           else
             iob (sysc (fu_count_groups fu)) (\<lambda>n.
             if n < 0 then ioret False
             else
               iob (sysc (fu_getgroups fu (nat n))) (\<lambda>gids.
               if ug_gid g \<in> set gids then ioret True
               else
                 iob (sysc (fu_getgrnam fu gname)) (\<lambda>g2.
                 case g2 of
                   None \<Rightarrow> ioret False
                 | Some g2 \<Rightarrow>
                     iob (login_name fu False) (\<lambda>user.
                     ioret (case user of None \<Rightarrow> False | Some u \<Rightarrow> u \<in> set (ug_members g2)))))))))"

definition helpers :: "string list" where
  "helpers = [''/bin/fusermount3'', ''/usr/bin/fusermount3'', ''/bin/fusermount'', ''/usr/bin/fusermount'']"

fun probe_helpers :: "'w fuse_sys \<Rightarrow> string list \<Rightarrow> fuse_status \<Rightarrow> ('w, 'z, fuse_status) priv_io" where
  "probe_helpers fu [] st = ioret st"
| "probe_helpers fu (h # hs) st =
     iob (file_exists fu h) (\<lambda>there.
     if \<not> there then probe_helpers fu hs st
     else
       iob (has_setuid fu h) (\<lambda>su.
       iob (has_cap_sys_admin fu h) (\<lambda>cap.
       probe_helpers fu hs (st\<lparr>fs_setuid := (su \<or> fs_setuid st), fs_cap := (cap \<or> fs_cap st),
         fs_path := (if fs_path st = [] then h else fs_path st)\<rparr>))))"

definition probe_fuse_user_mounts :: "'w fuse_sys \<Rightarrow> ('w, 'z, fuse_status) priv_io" where
  "probe_fuse_user_mounts fu =
     iob (group_exists fu ''fuse'') (\<lambda>g.
     iob (user_in_group fu ''fuse'') (\<lambda>m.
     probe_helpers fu helpers
       \<lparr>fs_group_exists = g, fs_user_in_group = m, fs_setuid = False, fs_cap = False, fs_path = []\<rparr>))"

section \<open>Changing\<close>

definition desire_matches :: "fuse_desire \<Rightarrow> fuse_status \<Rightarrow> bool" where
  "desire_matches d st \<longleftrightarrow> \<not> (fd_group d \<and> \<not> fs_group_exists st) \<and> fd_member d = fs_user_in_group st \<and>
     fd_setuid d = fs_setuid st \<and> fd_cap d = fs_cap st"

definition run_cmd_capture :: "'w fuse_sys \<Rightarrow> string \<Rightarrow> ('w, 'z, int \<times> string) priv_io" where
  "run_cmd_capture fu cmd =
     iob (sysc (fu_popen fu (cmd @ '' 2>&1''))) (\<lambda>r.
     ioret (case r of None \<Rightarrow> (-1, []) | Some (out, st) \<Rightarrow> (case st of Exited n \<Rightarrow> n | _ \<Rightarrow> -1, out)))"

definition write_temp_script :: "'w fuse_sys \<Rightarrow> string \<Rightarrow> ('w, 'z, string + string) priv_io" where
  "write_temp_script fu body =
     iob (sysc (fu_mkstemp fu)) (\<lambda>t.
     case t of
       None \<Rightarrow> ioret (Inl ''could not create temporary script'')
     | Some (path, f) \<Rightarrow>
         iob (sysc (fu_write fu f (''#!/bin/bash'' @ [CHR 0x0A] @ body @ [CHR 0x0A]))) (\<lambda>ok.
         if \<not> ok then
           iob (sysc (fu_close fu f)) (\<lambda>_. iob (sysc (fu_unlink fu path)) (\<lambda>_.
           ioret (Inl ''could not write temporary script'')))
         else
           iob (sysc (fu_fchmod fu f)) (\<lambda>_. iob (sysc (fu_close fu f)) (\<lambda>_. ioret (Inr path)))))"

definition run_privileged_script ::
  "'w pipe_sys \<Rightarrow> 'w fuse_sys \<Rightarrow> string \<Rightarrow> string \<Rightarrow> ('w, 'z, bool \<times> string) priv_io" where
  "run_privileged_script ps fu script err =
     iob host_priv_agent_running (\<lambda>running.
     if running then run_host_privileged_script ps script
     else
       iob (write_temp_script fu script) (\<lambda>r.
       case r of
         Inl msg \<Rightarrow> ioret (False, msg)
       | Inr path \<Rightarrow>
           iob (run_cmd_capture fu (''pkexec /bin/bash '' @ shell_quote path)) (\<lambda>(rc, out).
           iob (sysc (fu_unlink fu path)) (\<lambda>_.
           ioret (if rc \<noteq> 0 then (False, approval_failed '' (pkexec unavailable or cancelled)'' out) else (True, err))))))"

definition lines_text :: "string list \<Rightarrow> string" where
  "lines_text ls = concat (map (\<lambda>l. l @ [CHR 0x0A]) ls)"

definition fuse_script :: "fuse_desire \<Rightarrow> string \<Rightarrow> string \<Rightarrow> string" where
  "fuse_script d user setcap =
     lines_text
       ([''set -e'', ''PATH=/usr/sbin:/sbin:/usr/bin:/bin''] @
        (if fd_group d then [''groupadd -f fuse || true''] else []) @
        (if fd_member d then [''usermod -aG fuse '' @ user]
         else [''gpasswd -d '' @ user @ '' fuse 2>/dev/null || true'', ''deluser '' @ user @ '' fuse 2>/dev/null || true'']) @
        [''for f in /bin/fusermount3 /usr/bin/fusermount3 /bin/fusermount /usr/bin/fusermount; do'',
         ''  [ -f '' @ [CHR 0x22] @ ''$f'' @ [CHR 0x22] @ '' ] || continue'',
         ''  chmod u'' @ (if fd_setuid d then ''+'' else ''-'') @ ''s '' @ [CHR 0x22] @ ''$f'' @ [CHR 0x22] @ '' || true'',
         (if fd_cap d then ''  '' @ setcap @ '' cap_sys_admin+ep '' @ [CHR 0x22] @ ''$f'' @ [CHR 0x22] @ '' || true''
          else ''  '' @ setcap @ '' -r '' @ [CHR 0x22] @ ''$f'' @ [CHR 0x22] @ '' 2>/dev/null || true''),
         ''done''])"

definition sign_out_note :: string where
  "sign_out_note = ''Group membership was updated. Sign out and back in (or reboot) before it takes effect.''"

definition apply_fuse_user_mounts ::
  "'w pipe_sys \<Rightarrow> 'w fuse_sys \<Rightarrow> fuse_desire \<Rightarrow> string \<Rightarrow> ('w, 'z, bool \<times> string) priv_io" where
  "apply_fuse_user_mounts ps fu d err =
     iob (login_name fu True) (\<lambda>user.
     if user = None \<or> user = Some [] then ioret (False, ''cannot determine current user name'')
     else
       iob (probe_fuse_user_mounts fu) (\<lambda>cur.
       if desire_matches d cur then ioret (True, [])
       else
         iob (pick_tool fu ''setcap'') (\<lambda>setcap.
         iob (run_privileged_script ps fu (fuse_script d (the user) setcap) err) (\<lambda>(ok, err).
         if \<not> ok then ioret (False, err)
         else
           iob (probe_fuse_user_mounts fu) (\<lambda>st.
           ioret (True, if fd_member d \<and> \<not> fs_user_in_group st then sign_out_note else err))))))"

definition disable_fuse_user_mounts :: "'w pipe_sys \<Rightarrow> 'w fuse_sys \<Rightarrow> string \<Rightarrow> ('w, 'z, bool \<times> string) priv_io" where
  "disable_fuse_user_mounts ps fu err =
     apply_fuse_user_mounts ps fu \<lparr>fd_group = True, fd_member = False, fd_setuid = False, fd_cap = False\<rparr> err"

end
