(* ===== verification/Lifecycle.thy ===== *)
theory Lifecycle
  imports Progress Pause "HOL-Library.Sublist"
begin

text \<open>
  The engine and its worker thread (\<open>MassageEngine::start\<close>, \<open>join\<close>, \<open>src/engine/massage.cpp\<close>) and
  the main thread that waits for it when there is no interface (\<open>headless_progress_loop\<close> and the end
  of \<open>main\<close>, \<open>src/main.cpp\<close>), as step relations.  A step is what one thread does between two looks at
  what they share: the progress object under its lock, the running flag, the exit code, the two flags
  of \<open>PauseControl\<close>.  What the worker does to the progress object is left open; it ends as
  \<open>run_inner\<close> does, with \<open>set_finished\<close>.

  The locale \<open>engine_user\<close> is the contract of a thread that uses the engine; its lemmas hold for the
  headless loop below and for the main frame of \<open>RunControl\<close>.
\<close>

section \<open>The engine\<close>

text \<open>The worker: none, in \<open>run_inner\<close>, past the end of \<open>run_inner\<close> with its result, past the exit code, over.\<close>

datatype thread_at = NoThread | Busy | Returned int | Stored | Over

text \<open>Two fields are not in the program: \<open>eg_logged\<close>, the lines logged since the last start or reset of
  the log, and \<open>eg_result\<close>, what the last run returned.\<close>

record massage_engine =
  eg_target :: string
  eg_running :: bool
  eg_exit :: int
  eg_thread :: thread_at
  eg_pause :: pause_ctl
  eg_prog :: progress
  eg_logged :: "log_entry list"
  eg_result :: "int option"

definition engine_init :: "string \<Rightarrow> massage_engine" where
  "engine_init dev = \<lparr>eg_target = dev, eg_running = False, eg_exit = 1, eg_thread = NoThread, eg_pause = pause_init,
     eg_prog = progress_init, eg_logged = [], eg_result = None\<rparr>"

definition start_refused :: "massage_engine \<Rightarrow> string option" where
  "start_refused e =
     (if eg_running e then Some ''already running''
      else if eg_target e = [] then Some ''no DEVICE/FILE selected'' else None)"

text \<open>A join waits until the thread is over.\<close>

definition joinable :: "massage_engine \<Rightarrow> bool" where
  "joinable e \<longleftrightarrow> eg_thread e = NoThread \<or> eg_thread e = Over"

definition join_thread :: "massage_engine \<Rightarrow> massage_engine" where
  "join_thread e = e\<lparr>eg_thread := NoThread\<rparr>"

text \<open>The rest of \<open>start\<close>, once the old thread is joined.\<close>

definition start_thread :: "rat \<Rightarrow> massage_engine \<Rightarrow> massage_engine" where
  "start_thread now e =
     e\<lparr>eg_running := True, eg_exit := 1, eg_thread := Busy, eg_pause := pause_step OpReset (eg_pause e),
       eg_prog := note_restart now (eg_prog e), eg_logged := [], eg_result := None\<rparr>"

definition thread_store :: "int \<Rightarrow> massage_engine \<Rightarrow> massage_engine" where
  "thread_store rc e = e\<lparr>eg_exit := rc, eg_thread := Stored\<rparr>"

definition thread_over :: "massage_engine \<Rightarrow> massage_engine" where
  "thread_over e = e\<lparr>eg_running := False, eg_thread := Over\<rparr>"

text \<open>What the worker does to the progress object; it takes no lines and does not restart it.\<close>

fun worker_op :: "prog_op \<Rightarrow> bool" where
  "worker_op PTake = False"
| "worker_op (PRestart _) = False"
| "worker_op (PFinished _) = False"
| "worker_op _ = True"

definition all_lines :: "prog_op \<Rightarrow> massage_engine \<Rightarrow> log_entry list" where
  "all_lines x e = (case x of PReset _ _ _ \<Rightarrow> []
    | _ \<Rightarrow> eg_logged e @ drop (length (p_logs (eg_prog e))) (p_logs (prog_step x (eg_prog e))))"

definition thread_work :: "prog_op \<Rightarrow> massage_engine \<Rightarrow> massage_engine" where
  "thread_work x e = e\<lparr>eg_prog := prog_step x (eg_prog e), eg_logged := all_lines x e\<rparr>"

definition thread_return :: "int \<Rightarrow> massage_engine \<Rightarrow> massage_engine" where
  "thread_return rc e = e\<lparr>eg_prog := set_finished (rc \<noteq> 0) (eg_prog e), eg_thread := Returned rc, eg_result := Some rc\<rparr>"

inductive worker_step :: "massage_engine \<Rightarrow> massage_engine \<Rightarrow> bool" where
  work: "eg_thread e = Busy \<Longrightarrow> worker_op x \<Longrightarrow> worker_step e (thread_work x e)"
| return: "eg_thread e = Busy \<Longrightarrow> worker_step e (thread_return rc e)"
| store: "eg_thread e = Returned rc \<Longrightarrow> worker_step e (thread_store rc e)"
| over: "eg_thread e = Stored \<Longrightarrow> worker_step e (thread_over e)"

inductive_cases worker_step_cases: "worker_step e e'"

section \<open>What a user of the engine does\<close>

definition drain :: "massage_engine \<Rightarrow> massage_engine" where
  "drain e = e\<lparr>eg_prog := snd (take_logs (eg_prog e))\<rparr>"

text \<open>With the lines it has shown so far: it looks, sets options and starts (and may clear what it shows),
  joins, sets flags, tells the progress object whether it is paused, takes the lines and shows them.\<close>

inductive user_step :: "massage_engine \<Rightarrow> log_entry list \<Rightarrow> massage_engine \<Rightarrow> log_entry list \<Rightarrow> bool" where
  look: "user_step e sh e sh"
| start: "start_refused (e\<lparr>eg_target := dev\<rparr>) = None \<Longrightarrow> joinable e \<Longrightarrow> user_step e sh (start_thread now (e\<lparr>eg_target := dev\<rparr>)) sh'"
| join: "joinable e \<Longrightarrow> user_step e sh (join_thread e) sh"
| flags: "user_step e sh (e\<lparr>eg_pause := c\<rparr>) sh"
| tell: "user_step e sh (e\<lparr>eg_pause := c, eg_prog := set_paused v (eg_prog e)\<rparr>) sh"
| drain: "user_step e sh (drain e) (sh @ p_pending_logs (eg_prog e))"

section \<open>The engine under any user\<close>

fun busy :: "thread_at \<Rightarrow> bool" where
  "busy NoThread = False"
| "busy Over = False"
| "busy _ = True"

text \<open>The running flag is on exactly while the worker is busy; a result is the exit code once it is stored,
  and what the progress object says.\<close>

definition result_ok :: "massage_engine \<Rightarrow> bool" where
  "result_ok e \<longleftrightarrow> (case eg_thread e of
      Busy \<Rightarrow> eg_result e = None
    | Returned rc \<Rightarrow> eg_result e = Some rc
    | NoThread \<Rightarrow> eg_result e = None \<or> eg_result e = Some (eg_exit e)
    | _ \<Rightarrow> eg_result e = Some (eg_exit e))"

definition verdict_ok :: "massage_engine \<Rightarrow> bool" where
  "verdict_ok e \<longleftrightarrow> (p_finished (eg_prog e) \<longleftrightarrow> eg_result e \<noteq> None) \<and>
     (\<forall>rc. eg_result e = Some rc \<longrightarrow> (p_failed (eg_prog e) \<longleftrightarrow> rc \<noteq> 0))"

definition engine_ok :: "massage_engine \<Rightarrow> bool" where
  "engine_ok e \<longleftrightarrow> (eg_running e \<longleftrightarrow> busy (eg_thread e)) \<and> result_ok e \<and> verdict_ok e"

lemmas engine_defs = engine_ok_def result_ok_def verdict_ok_def

lemma engine_ok_init: "engine_ok (engine_init dev)"
  by (simp add: engine_defs engine_init_def progress_init_def)

lemma work_unfinished: "worker_op x \<Longrightarrow> \<not> p_finished p \<Longrightarrow> \<not> p_finished (prog_step x p)"
  by (cases x) (auto simp: progress_reset_def set_phase_def add_done_def set_done_def log_event_def log_message_def set_paused_def
      set_input_locked_def upgrade_cached_to_ok_def Let_def)

lemma engine_ok_worker: "engine_ok e \<Longrightarrow> worker_step e e' \<Longrightarrow> engine_ok e'"
  by (erule worker_step_cases)
    (auto simp: engine_defs thread_work_def thread_return_def thread_store_def thread_over_def set_finished_def Let_def work_unfinished)

lemma engine_ok_user: "engine_ok e \<Longrightarrow> user_step e sh e' sh' \<Longrightarrow> engine_ok e'"
  by (erule user_step.cases)
    (auto simp: engine_defs joinable_def start_thread_def join_thread_def set_paused_def drain_def take_logs_def
      note_restart_def split: thread_at.splits)

text \<open>The lines logged since the last start or reset are the last ones shown, but for those still to be taken.\<close>

definition lines_ok :: "massage_engine \<Rightarrow> log_entry list \<Rightarrow> bool" where
  "lines_ok e sh \<longleftrightarrow> suffix (eg_logged e) (sh @ p_pending_logs (eg_prog e))"

lemma suffix_append_both: "suffix xs ys \<Longrightarrow> suffix (xs @ zs) (ys @ zs)"
  by (auto simp: suffix_def)

lemma work_lines:
  assumes "worker_op x"
  shows "(\<exists>now n bs. x = PReset now n bs) \<or> (\<exists>es. p_logs (prog_step x p) = p_logs p @ es \<and>
    p_pending_logs (prog_step x p) = p_pending_logs p @ es)"
  using assms
  by (cases x) (auto simp: set_phase_def add_done_def set_done_def log_event_def log_message_def set_paused_def
      set_input_locked_def upgrade_cached_to_ok_def Let_def recompute_rate_def mark_cell_def)

lemma lines_ok_worker:
  assumes "lines_ok e sh" and "worker_step e e'"
  shows "lines_ok e' sh"
  using assms(2)
proof cases
  case (work x)
  then show ?thesis
    using assms(1) work_lines [OF work(3), of "eg_prog e"]
    by (cases x) (auto simp: lines_ok_def thread_work_def all_lines_def simp flip: append_assoc intro: suffix_append_both)
qed (use assms(1) in \<open>auto simp: lines_ok_def thread_return_def thread_store_def thread_over_def set_finished_def Let_def\<close>)

lemma lines_ok_user: "lines_ok e sh \<Longrightarrow> user_step e sh e' sh' \<Longrightarrow> lines_ok e' sh'"
  by (erule user_step.cases)
    (auto simp: lines_ok_def start_thread_def join_thread_def set_paused_def drain_def take_logs_def note_restart_def)

locale engine_user =
  fixes step :: "'s \<Rightarrow> 's \<Rightarrow> bool" and starts :: "'s \<Rightarrow> bool" and eng :: "'s \<Rightarrow> massage_engine" and shown :: "'s \<Rightarrow> log_entry list"
  assumes at_start: "starts s \<Longrightarrow> \<exists>dev. eng s = engine_init dev"
    and uses: "step s s' \<Longrightarrow> worker_step (eng s) (eng s') \<and> shown s' = shown s \<or> user_step (eng s) (shown s) (eng s') (shown s')"
begin

lemma engine_sound:
  assumes "starts s0" and "step\<^sup>*\<^sup>* s0 s"
  shows "engine_ok (eng s)"
  using assms(2)
proof (induction rule: rtranclp_induct)
  case base
  then show ?case using at_start [OF assms(1)] engine_ok_init by force
next
  case (step s s')
  then show ?case using uses engine_ok_worker engine_ok_user by blast
qed

lemma lines_sound:
  assumes "starts s0" and "step\<^sup>*\<^sup>* s0 s"
  shows "lines_ok (eng s) (shown s)"
  using assms(2)
proof (induction rule: rtranclp_induct)
  case base
  then show ?case using at_start [OF assms(1)] by (auto simp: lines_ok_def engine_init_def)
next
  case (step s s')
  then show ?case using uses lines_ok_worker lines_ok_user by metis
qed

text \<open>The join in \<open>start\<close> never waits for a run.\<close>

lemma start_never_waits:
  assumes "starts s0" and "step\<^sup>*\<^sup>* s0 s" and "start_refused (eng s) = None"
  shows "joinable (eng s)"
  using engine_sound [OF assms(1,2)] assms(3)
  by (cases "eg_thread (eng s)") (auto simp: engine_ok_def start_refused_def joinable_def split: if_splits)

end

section \<open>The program without an interface\<close>

text \<open>The main thread: before the start, in the loop (reading the running flag, the finished flag, a
  snapshot, taking the lines, showing the numbers, asleep), at the last join, or at its end.\<close>

datatype main_at = HeadFree | HeadRunning | HeadFinished | HeadBody | HeadSnap progress_snapshot
  | HeadShow progress_snapshot | HeadSleep | HeadJoin | HeadExit int

text \<open>What goes to the terminal: the message of a log line, or phase, per cent, MiB/s, time left and whether paused.\<close>

datatype out_line = OutLog log_entry | OutStatus string rat rat rat bool

record headless =
  hd_eng :: massage_engine
  hd_main :: main_at
  hd_out :: "out_line list"

definition head_running :: "headless \<Rightarrow> headless" where
  "head_running s = s\<lparr>hd_main := if eg_running (hd_eng s) then HeadBody else HeadFinished\<rparr>"

definition head_finished :: "headless \<Rightarrow> headless" where
  "head_finished s = s\<lparr>hd_main := if \<not> s_finished (snapshot (eg_prog (hd_eng s))) then HeadBody else HeadJoin\<rparr>"

definition head_snap :: "headless \<Rightarrow> headless" where
  "head_snap s = s\<lparr>hd_main := HeadSnap (snapshot (eg_prog (hd_eng s)))\<rparr>"

definition head_logs :: "progress_snapshot \<Rightarrow> headless \<Rightarrow> headless" where
  "head_logs snap s =
     s\<lparr>hd_eng := drain (hd_eng s), hd_out := hd_out s @ map OutLog (fst (take_logs (eg_prog (hd_eng s)))), hd_main := HeadShow snap\<rparr>"

definition head_show :: "progress_snapshot \<Rightarrow> headless \<Rightarrow> headless" where
  "head_show snap s =
     s\<lparr>hd_out := hd_out s @
         (if s_bytes_total snap = 0 then []
          else [OutStatus (s_phase snap) (100 * of_nat (unat (s_bytes_done snap)) / of_nat (unat (s_bytes_total snap)))
                  (s_bytes_per_sec snap / 1048576) (s_eta_seconds snap) (s_paused snap)]),
       hd_main := (if s_finished snap then HeadJoin else HeadSleep)\<rparr>"

text \<open>The end of \<open>main\<close>: refused, started, or returning the exit code after the last join.\<close>

definition head_missing :: "headless \<Rightarrow> headless" where
  "head_missing s = s\<lparr>hd_main := HeadExit 2\<rparr>"

definition head_start :: "rat \<Rightarrow> headless \<Rightarrow> headless" where
  "head_start now s =
     (if start_refused (hd_eng s) \<noteq> None then s\<lparr>hd_main := HeadExit 1\<rparr>
      else s\<lparr>hd_eng := start_thread now (hd_eng s), hd_main := HeadRunning\<rparr>)"

definition head_return :: "headless \<Rightarrow> headless" where
  "head_return s = s\<lparr>hd_eng := join_thread (hd_eng s), hd_main := HeadExit (eg_exit (hd_eng s))\<rparr>"

inductive head_step :: "headless \<Rightarrow> headless \<Rightarrow> bool" where
  missing: "hd_main s = HeadFree \<Longrightarrow> eg_target (hd_eng s) = [] \<Longrightarrow> head_step s (head_missing s)"
| start: "hd_main s = HeadFree \<Longrightarrow> eg_target (hd_eng s) \<noteq> [] \<Longrightarrow> joinable (hd_eng s) \<Longrightarrow> head_step s (head_start now s)"
| running: "hd_main s = HeadRunning \<Longrightarrow> head_step s (head_running s)"
| finished: "hd_main s = HeadFinished \<Longrightarrow> head_step s (head_finished s)"
| snap: "hd_main s = HeadBody \<Longrightarrow> head_step s (head_snap s)"
| logs: "hd_main s = HeadSnap snap \<Longrightarrow> head_step s (head_logs snap s)"
| numbers: "hd_main s = HeadShow snap \<Longrightarrow> head_step s (head_show snap s)"
| wake: "hd_main s = HeadSleep \<Longrightarrow> head_step s (s\<lparr>hd_main := HeadRunning\<rparr>)"
| finish: "hd_main s = HeadJoin \<Longrightarrow> joinable (hd_eng s) \<Longrightarrow> head_step s (head_return s)"
| worker: "worker_step (hd_eng s) e \<Longrightarrow> head_step s (s\<lparr>hd_eng := e\<rparr>)"

inductive_cases head_step_cases: "head_step s s'"

definition head_init :: "string \<Rightarrow> headless" where
  "head_init dev = \<lparr>hd_eng = engine_init dev, hd_main = HeadFree, hd_out = []\<rparr>"

fun log_of :: "out_line \<Rightarrow> log_entry list" where
  "log_of (OutLog e) = [e]"
| "log_of (OutStatus _ _ _ _ _) = []"

definition printed :: "headless \<Rightarrow> log_entry list" where
  "printed s = concat (map log_of (hd_out s))"

lemma log_of_lines [simp]: "concat (map (log_of \<circ> OutLog) es) = es"
  by (induction es) simp_all

lemmas head_defs = head_missing_def head_start_def head_running_def head_finished_def head_snap_def head_logs_def
  head_show_def head_return_def

interpretation head: engine_user head_step "\<lambda>s. \<exists>dev. s = head_init dev" hd_eng printed
proof unfold_locales
  fix s s' assume "head_step s s'"
  then show "worker_step (hd_eng s) (hd_eng s') \<and> printed s' = printed s \<or> user_step (hd_eng s) (printed s) (hd_eng s') (printed s')"
  proof cases
    case (logs snap)
    have "user_step (hd_eng s) (printed s) (drain (hd_eng s)) (printed s @ p_pending_logs (eg_prog (hd_eng s)))" by (rule user_step.drain)
    then show ?thesis unfolding logs(1) by (simp add: printed_def head_defs take_logs_def)
  next
    case (start now)
    show ?thesis
      unfolding start(1) using start user_step.start [where e = "hd_eng s" and dev = "eg_target (hd_eng s)" and sh = "printed s" and now = now and sh' = "printed s"] by (auto simp: printed_def head_defs user_step.look)
  next
    case finish
    show ?thesis
      unfolding finish(1) using finish user_step.join [of "hd_eng s" "printed s"] by (auto simp: printed_def head_defs)
  qed (auto simp: printed_def head_defs user_step.look)
qed (auto simp: head_init_def)

section \<open>The headless program ends as its run does\<close>

fun in_loop :: "main_at \<Rightarrow> bool" where
  "in_loop HeadFree = False"
| "in_loop (HeadExit _) = False"
| "in_loop _ = True"

definition head_inv :: "headless \<Rightarrow> bool" where
  "head_inv s \<longleftrightarrow>
     (in_loop (hd_main s) \<longrightarrow> eg_thread (hd_eng s) \<noteq> NoThread) \<and>
     (hd_main s = HeadFree \<longrightarrow> eg_thread (hd_eng s) = NoThread \<and> eg_result (hd_eng s) = None) \<and>
     (\<forall>c. hd_main s = HeadExit c \<longrightarrow> eg_thread (hd_eng s) = NoThread \<and>
        (eg_target (hd_eng s) = [] \<and> c = 2 \<and> eg_result (hd_eng s) = None \<or> eg_result (hd_eng s) = Some c))"

lemma head_inv_step:
  assumes "head_inv s" and "engine_ok (hd_eng s)" and "head_step s s'"
  shows "head_inv s'"
  using assms(3)
proof cases
  case (worker e)
  then show ?thesis
    using assms(1) by (cases "hd_main s") (auto simp: head_inv_def thread_work_def thread_return_def thread_store_def thread_over_def
      elim!: worker_step_cases)
next
  case (start now)
  then show ?thesis
    using assms(1,2) by (auto simp: head_inv_def head_defs start_thread_def start_refused_def engine_ok_def split: if_splits)
next
  case finish
  then show ?thesis
    using assms(1,2) by (auto simp: head_inv_def head_defs join_thread_def joinable_def engine_ok_def result_ok_def)
qed (use assms(1) in \<open>auto simp: head_inv_def head_defs drain_def\<close>)

lemma head_inv_reachable:
  assumes "head_step\<^sup>*\<^sup>* (head_init dev) s"
  shows "head_inv s"
  using assms
proof (induction rule: rtranclp_induct)
  case (step s s')
  then show ?case using head_inv_step head.engine_sound by blast
qed (simp add: head_inv_def head_init_def engine_init_def)

text \<open>C28: a run without an interface ends with the code that the worker returned, or 2 when there is no
  target; the worker is gone by then, and the lines it logged since the last reset of the log were
  printed in order, but for those that nobody took.\<close>

theorem headless_exit:
  assumes "head_step\<^sup>*\<^sup>* (head_init dev) s" and "hd_main s = HeadExit c"
  shows "eg_thread (hd_eng s) = NoThread \<and>
    (eg_target (hd_eng s) = [] \<and> c = 2 \<or> eg_result (hd_eng s) = Some c) \<and>
    suffix (eg_logged (hd_eng s)) (printed s @ p_pending_logs (eg_prog (hd_eng s)))"
proof -
  have "lines_ok (hd_eng s) (printed s)" using head.lines_sound [OF _ assms(1)] by blast
  then show ?thesis
    using head_inv_reachable [OF assms(1)] assms(2) by (auto simp: head_inv_def lines_ok_def)
qed

text \<open>A run whose worker logs a line and returns while the loop sleeps: the line is never printed.\<close>

definition some_line :: log_entry where
  "some_line = \<lparr>le_offset = 0, le_length = 0, le_message = ''write error'', le_status = CellOk, le_level = LError, le_time = 0\<rparr>"

definition short_run :: "bool \<Rightarrow> int \<Rightarrow> thread_at \<Rightarrow> progress \<Rightarrow> log_entry list \<Rightarrow> int option \<Rightarrow> main_at \<Rightarrow> headless" where
  "short_run r c th p es res m =
     \<lparr>hd_eng = \<lparr>eg_target = ''d'', eg_running = r, eg_exit = c, eg_thread = th, eg_pause = pause_init, eg_prog = p,
        eg_logged = es, eg_result = res\<rparr>, hd_main = m, hd_out = []\<rparr>"

abbreviation short_start :: progress where
  "short_start \<equiv> note_restart 1 progress_init"

abbreviation short_end :: progress where
  "short_end \<equiv> set_finished True (log_message 0 LError ''write error'' short_start)"

lemmas short_evals = short_run_def head_defs start_refused_def start_thread_def pause_init_def
  drain_def take_logs_def thread_work_def all_lines_def thread_return_def thread_store_def thread_over_def join_thread_def
  joinable_def some_line_def

lemma short_progress:
  "p_pending_logs short_start = []" "p_logs short_start = []" "short_start\<lparr>p_pending_logs := []\<rparr> = short_start"
  "s_finished (snapshot short_start) = False" "s_bytes_total (snapshot short_start) = 0"
  "p_logs (log_message 0 LError ''write error'' short_start) = [some_line]" "s_finished (snapshot short_end)"
  by (simp_all add: note_restart_def progress_init_def snapshot_def log_message_def set_finished_def some_line_def Let_def)

lemma short_run_asleep: "head_step\<^sup>*\<^sup>* (head_init ''d'') (short_run True 1 Busy short_start [] None HeadSleep)"
proof -
  let ?s = "short_run True 1 Busy short_start [] None"
  note p0 = short_progress
  have "head_step (head_init ''d'') (?s HeadRunning)"
    using head_step.start [of "head_init ''d''" 1] by (simp add: short_evals head_init_def engine_init_def)
  moreover have "head_step (?s HeadRunning) (?s HeadBody)"
    using head_step.running [of "?s HeadRunning"] by (simp add: short_evals)
  moreover have "head_step (?s HeadBody) (?s (HeadSnap (snapshot short_start)))"
    using head_step.snap [of "?s HeadBody"] by (simp add: short_evals)
  moreover have "head_step (?s (HeadSnap (snapshot short_start))) (?s (HeadShow (snapshot short_start)))"
    using head_step.logs [of "?s (HeadSnap (snapshot short_start))" "snapshot short_start"] p0 by (simp add: short_evals)
  moreover have "head_step (?s (HeadShow (snapshot short_start))) (?s HeadSleep)"
    using head_step.numbers [of "?s (HeadShow (snapshot short_start))" "snapshot short_start"] p0 by (simp add: short_evals)
  ultimately show ?thesis by (meson converse_rtranclp_into_rtranclp rtranclp.rtrancl_refl)
qed

lemma short_run_over: "head_step\<^sup>*\<^sup>* (head_init ''d'') (short_run False 1 Over short_end [some_line] (Some 1) HeadSleep)"
proof -
  let ?s0 = "short_run True 1 Busy short_start [] None HeadSleep"
  let ?s1 = "short_run True 1 Busy (log_message 0 LError ''write error'' short_start) [some_line] None HeadSleep"
  let ?s2 = "\<lambda>r th. short_run r 1 th short_end [some_line] (Some 1) HeadSleep"
  have "head_step ?s0 ?s1"
    using head_step.worker [OF worker_step.work [of "hd_eng ?s0" "PMessage 0 LError ''write error''"]] short_progress by (simp add: short_evals)
  moreover have "head_step ?s1 (?s2 True (Returned 1))"
    using head_step.worker [OF worker_step.return [of "hd_eng ?s1" 1]] by (simp add: short_evals)
  moreover have "head_step (?s2 True (Returned 1)) (?s2 True Stored)"
    using head_step.worker [OF worker_step.store [of "hd_eng (?s2 True (Returned 1))" 1]] by (simp add: short_evals)
  moreover have "head_step (?s2 True Stored) (?s2 False Over)"
    using head_step.worker [OF worker_step.over [of "hd_eng (?s2 True Stored)"]] by (simp add: short_evals)
  ultimately show ?thesis using short_run_asleep by (meson rtranclp.rtrancl_into_rtrancl)
qed

lemma short_run_reachable: "head_step\<^sup>*\<^sup>* (head_init ''d'') (short_run False 1 NoThread short_end [some_line] (Some 1) (HeadExit 1))"
proof -
  let ?s = "short_run False 1 Over short_end [some_line] (Some 1)"
  have "head_step (?s HeadSleep) (?s HeadRunning)"
    using head_step.wake [of "?s HeadSleep"] by (simp add: short_evals)
  moreover have "head_step (?s HeadRunning) (?s HeadFinished)"
    using head_step.running [of "?s HeadRunning"] by (simp add: short_evals)
  moreover have "head_step (?s HeadFinished) (?s HeadJoin)"
    using head_step.finished [of "?s HeadFinished"] short_progress by (simp add: short_evals)
  moreover have "head_step (?s HeadJoin) (short_run False 1 NoThread short_end [some_line] (Some 1) (HeadExit 1))"
    using head_step.finish [of "?s HeadJoin"] by (simp add: short_evals)
  ultimately show ?thesis using short_run_over by (meson rtranclp.rtrancl_into_rtrancl)
qed

text \<open>So the last lines of a run can be lost; the loop is left without a last look at the log.\<close>

lemma last_lines_lost:
  "\<exists>s. head_step\<^sup>*\<^sup>* (head_init ''d'') s \<and> hd_main s = HeadExit 1 \<and> eg_logged (hd_eng s) \<noteq> [] \<and> hd_out s = []"
  using short_run_reachable by (auto simp: short_run_def)

lemma headless_exit_witness:
  "let s = short_run False 1 NoThread short_end [some_line] (Some 1) (HeadExit 1) in
     hd_main s = HeadExit 1 \<and> eg_result (hd_eng s) = Some 1 \<and>
     suffix (eg_logged (hd_eng s)) (printed s @ p_pending_logs (eg_prog (hd_eng s)))"
  using headless_exit [OF short_run_reachable, of 1] by (simp add: short_run_def)

text \<open>Steps that are left in the loop once the worker is over.\<close>

fun head_left :: "main_at \<Rightarrow> nat" where
  "head_left (HeadExit _) = 0"
| "head_left HeadJoin = 1"
| "head_left HeadFinished = 2"
| "head_left HeadRunning = 3"
| "head_left HeadSleep = 4"
| "head_left (HeadShow _) = 5"
| "head_left (HeadSnap _) = 6"
| "head_left HeadBody = 7"
| "head_left HeadFree = 8"

text \<open>C29: when the worker is over the main thread is never stuck, every step it takes brings it nearer to
  its end, and within seven steps the program ends.\<close>

theorem headless_ends:
  assumes "head_step\<^sup>*\<^sup>* (head_init dev) s" and "eg_thread (hd_eng s) = Over" and "\<not> (\<exists>c. hd_main s = HeadExit c)"
  shows "(\<exists>s'. head_step s s') \<and>
    (\<forall>s'. head_step s s' \<longrightarrow> head_left (hd_main s') < head_left (hd_main s) \<and>
       (eg_thread (hd_eng s') = Over \<or> (\<exists>c. hd_main s' = HeadExit c))) \<and> head_left (hd_main s) \<le> 7"
proof (intro conjI allI impI)
  have ok: "head_inv s" "engine_ok (hd_eng s)"
    using head_inv_reachable [OF assms(1)] head.engine_sound [OF _ assms(1)] by blast+
  have over: "\<not> eg_running (hd_eng s)" "p_finished (eg_prog (hd_eng s))" "hd_main s \<noteq> HeadFree" "joinable (hd_eng s)"
    using ok assms(2) by (auto simp: engine_defs head_inv_def joinable_def)
  show "\<exists>s'. head_step s s'"
    using assms(3) over(3,4) by (cases "hd_main s") (blast intro: head_step.intros)+
  show "head_left (hd_main s) \<le> 7" using over(3) by (cases "hd_main s") simp_all
  fix s' assume step: "head_step s s'"
  show "head_left (hd_main s') < head_left (hd_main s)"
    using step over assms(2) by (cases rule: head_step_cases) (auto simp: head_defs snapshot_def elim!: worker_step_cases)
  show "eg_thread (hd_eng s') = Over \<or> (\<exists>c. hd_main s' = HeadExit c)"
    using step over assms(2) by (cases rule: head_step_cases) (auto simp: head_defs drain_def elim!: worker_step_cases)
qed

lemma headless_ends_witness:
  "let s = short_run False 1 Over short_end [some_line] (Some 1) HeadSleep in
     (\<exists>s'. head_step s s') \<and> (\<forall>s'. head_step s s' \<longrightarrow> head_left (hd_main s') < 4)"
  using headless_ends [OF short_run_over] by (simp add: short_run_def)

end
