(* ===== verification/Grid.thy ===== *)
theory Grid
  imports Progress
begin

text \<open>
  The grid of cells (\<open>src/gui/grid_panel.cpp\<close>): the copy of the cell map that is shown, and where each
  cell is drawn.  Lengths in pixels are natural numbers, which they are once the panel is known to have
  a size; positions are integers.
\<close>

section \<open>The cells\<close>

type_synonym grid = "cell_status list"

definition count_status :: "cell_status \<Rightarrow> grid \<Rightarrow> nat" where
  "count_status st g = length (filter (\<lambda>c. c = st) g)"

definition grid_clear :: "grid \<Rightarrow> grid" where
  "grid_clear g = []"

definition reset_pending :: "grid \<Rightarrow> grid" where
  "reset_pending g = map (\<lambda>_. Pending) g"

definition update_cells :: "grid \<Rightarrow> grid \<Rightarrow> grid" where
  "update_cells cells g = (if cells = [] \<and> g \<noteq> [] then g else cells)"

section \<open>Drawing\<close>

definition grid_rows :: "nat \<Rightarrow> nat \<Rightarrow> nat" where
  "grid_rows n cols = (n + cols - 1) div cols"

definition grid_side :: "nat \<Rightarrow> nat \<Rightarrow> nat \<Rightarrow> nat \<Rightarrow> nat" where
  "grid_side w h n cols = min (w div cols) (h div grid_rows n cols)"

text \<open>The number of columns with the largest cells, and their side.\<close>

definition better_columns :: "(nat \<Rightarrow> nat) \<Rightarrow> nat \<times> nat \<Rightarrow> nat \<Rightarrow> nat \<times> nat" where
  "better_columns side best cols = (if snd best < side cols then (cols, side cols) else best)"

definition grid_best :: "nat \<Rightarrow> nat \<Rightarrow> nat \<Rightarrow> nat \<times> nat" where
  "grid_best w h n = foldl (better_columns (grid_side w h n)) (1, 1) [1..<n + 1]"

text \<open>Half of a length that may be negative, as C++ divides.\<close>

definition half :: "int \<Rightarrow> int" where
  "half z = (if z < 0 then - ((- z) div 2) else z div 2)"

fun cell_colour :: "cell_status \<Rightarrow> nat \<times> nat \<times> nat" where
  "cell_colour Pending = (90, 90, 90)"
| "cell_colour Cached = (50, 110, 210)"
| "cell_colour CellOk = (60, 160, 80)"
| "cell_colour ReadErr = (200, 60, 60)"
| "cell_colour WriteErr = (220, 140, 40)"

record rect =
  rc_x :: int
  rc_y :: int
  rc_size :: nat
  rc_colour :: "nat \<times> nat \<times> nat"

definition grid_rects :: "nat \<Rightarrow> nat \<Rightarrow> grid \<Rightarrow> rect list" where
  "grid_rects w h g =
     (if g = [] \<or> w < 2 \<or> h < 2 then []
      else
        let n = length g;
            (cols, side) = grid_best w h n;
            ox = half (int w - int (cols * side));
            oy = half (int h - int (grid_rows n cols * side));
            gap = (if 6 < side then 1 else 0)
        in map (\<lambda>i. \<lparr>rc_x = ox + int (i mod cols * side), rc_y = oy + int (i div cols * side),
                  rc_size = max 1 (side - gap), rc_colour = cell_colour (g ! i)\<rparr>) [0..<n])"

section \<open>The best side\<close>

lemma better_columns_best:
  "let best = foldl (better_columns f) (1, 1) xs in
     1 \<le> snd best \<and> (\<forall>c \<in> set xs. f c \<le> snd best) \<and>
     (best = (1, 1) \<or> fst best \<in> set xs \<and> f (fst best) = snd best)"
proof (induction xs rule: rev_induct)
  case (snoc x xs)
  then show ?case by (fastforce simp: better_columns_def Let_def)
qed simp

lemma grid_best_largest:
  assumes "grid_best w h n = (cols, side)" and "1 \<le> c" and "c \<le> n" and "2 \<le> grid_side w h n c"
  shows "1 \<le> cols" and "grid_side w h n cols = side" and "2 \<le> side"
    and "\<forall>c' \<in> {1..n}. grid_side w h n c' \<le> side"
proof -
  have b: "\<forall>c' \<in> {1..<n + 1}. grid_side w h n c' \<le> side"
    "(cols, side) = (1, 1) \<or> cols \<in> {1..<n + 1} \<and> grid_side w h n cols = side"
    using better_columns_best [of "grid_side w h n" "[1..<n + 1]"]
    unfolding grid_best_def [symmetric] Let_def assms(1) set_upt fst_conv snd_conv by blast+
  have "grid_side w h n c \<le> side" using b(1) assms(2,3) by simp
  then show "2 \<le> side" using assms(4) by simp
  then show "1 \<le> cols" and "grid_side w h n cols = side" using b(2) by auto
  show "\<forall>c' \<in> {1..n}. grid_side w h n c' \<le> side" using b(1) by auto
qed

lemma grid_fits:
  assumes "grid_side w h n cols = side"
  shows "cols * side \<le> w" and "grid_rows n cols * side \<le> h"
proof -
  have s: "side \<le> w div cols" "side \<le> h div grid_rows n cols" using assms by (auto simp: grid_side_def)
  show "cols * side \<le> w" by (rule order_trans [OF mult_le_mono2 [OF s(1)]]) simp
  show "grid_rows n cols * side \<le> h" by (rule order_trans [OF mult_le_mono2 [OF s(2)]]) simp
qed

lemma row_in_grid:
  assumes "i < n" and "1 \<le> cols"
  shows "i div cols < grid_rows n cols"
proof -
  have "i div cols * cols \<le> i" by (rule div_times_less_eq_dividend)
  then have "(i div cols + 1) * cols \<le> n + cols - 1" using assms unfolding add_mult_distrib by linarith
  then have "i div cols + 1 \<le> (n + cols - 1) div cols"
    using assms(2) by (simp add: less_eq_div_iff_mult_less_eq)
  then show ?thesis by (simp add: grid_rows_def)
qed

section \<open>The grid is inside the panel\<close>

definition inside :: "nat \<Rightarrow> nat \<Rightarrow> rect \<Rightarrow> bool" where
  "inside w h r \<longleftrightarrow> 0 \<le> rc_x r \<and> 0 \<le> rc_y r \<and> 1 \<le> rc_size r \<and>
     rc_x r + int (rc_size r) \<le> int w \<and> rc_y r + int (rc_size r) \<le> int h"

definition apart :: "rect \<Rightarrow> rect \<Rightarrow> bool" where
  "apart r q \<longleftrightarrow> rc_x r + int (rc_size r) \<le> rc_x q \<or> rc_x q + int (rc_size q) \<le> rc_x r \<or>
     rc_y r + int (rc_size r) \<le> rc_y q \<or> rc_y q + int (rc_size q) \<le> rc_y r"

text \<open>Offsets of two numbers on a grid of step \<open>s\<close>.\<close>

lemma steps_apart:
  assumes "a < b" and "d \<le> s"
  shows "int a * int s + int d \<le> int b * int s"
proof -
  have "(a + 1) * s \<le> b * s" using assms(1) by (intro mult_le_mono1) simp
  then have "a * s + d \<le> b * s" using assms(2) by simp
  from of_nat_mono [OF this, where 'a = int] show ?thesis by simp
qed

lemma half_room: "0 \<le> z \<Longrightarrow> 0 \<le> half z" "0 \<le> z \<Longrightarrow> half z \<le> z"
  by (simp_all add: half_def)



text \<open>Cells of one pixel are never laid out: the search keeps its first answer, one column.\<close>

lemma small_grid_leaves_panel:
  "grid_side 8 8 60 8 = 1" "rc_y (grid_rects 8 8 (replicate 60 Pending) ! 59) = 33"
  by code_simp+

end
