(* ===== verification/LogPanel.thy ===== *)
theory LogPanel
  imports Massage
begin

text \<open>
  The log of the main window (\<open>src/gui/log_panel.cpp\<close>): the rows it keeps and those of them that the
  list shows, and the texts of the status line (\<open>src/gui/main_frame.cpp\<close>).  The text of a time is the
  work of wxWidgets, a function of the seconds.
\<close>

section \<open>Rows\<close>

fun level_name :: "log_level \<Rightarrow> string" where
  "level_name LTrace = ''Trace''"
| "level_name LDebug = ''Debug''"
| "level_name LInfo = ''Info''"
| "level_name LWarn = ''Warn''"
| "level_name LError = ''Error''"

fun level_image :: "log_level \<Rightarrow> nat" where
  "level_image LTrace = 0"
| "level_image LDebug = 0"
| "level_image LInfo = 1"
| "level_image LWarn = 2"
| "level_image LError = 3"

text \<open>The levels in the order of the enumeration.\<close>

fun level_rank :: "log_level \<Rightarrow> nat" where
  "level_rank LTrace = 0"
| "level_rank LDebug = 1"
| "level_rank LInfo = 2"
| "level_rank LWarn = 3"
| "level_rank LError = 4"

record log_row =
  lr_level :: log_level
  lr_time :: string
  lr_level_name :: string
  lr_message :: string
  lr_image :: nat

text \<open>The panel; \<open>lp_list\<close> are the rows of the list control.\<close>

record log_panel =
  lp_rows :: "log_row list"
  lp_list :: "log_row list"
  lp_min :: log_level

definition panel_init :: log_panel where
  "panel_init = \<lparr>lp_rows = [], lp_list = [], lp_min = LInfo\<rparr>"

definition format_time :: "(int \<Rightarrow> string) \<Rightarrow> int \<Rightarrow> int \<Rightarrow> string" where
  "format_time clock now sec = clock (if sec \<le> 0 then now else sec)"

definition row_message :: "log_entry \<Rightarrow> string" where
  "row_message e =
     le_message e @ (if le_length e \<noteq> 0 then ''  @'' @ show_u64 (le_offset e) @ ''+'' @ show_u64 (le_length e) else [])"

definition row_of_entry :: "(int \<Rightarrow> string) \<Rightarrow> int \<Rightarrow> log_entry \<Rightarrow> log_row" where
  "row_of_entry clock now e =
     \<lparr>lr_level = le_level e, lr_time = format_time clock now (le_time e), lr_level_name = level_name (le_level e),
      lr_message = row_message e, lr_image = level_image (le_level e)\<rparr>"

definition row_hidden :: "log_panel \<Rightarrow> log_row \<Rightarrow> bool" where
  "row_hidden lp r \<longleftrightarrow> level_rank (lr_level r) < level_rank (lp_min lp)"

definition log_append :: "(int \<Rightarrow> string) \<Rightarrow> int \<Rightarrow> log_entry \<Rightarrow> log_panel \<Rightarrow> log_panel" where
  "log_append clock now e lp =
     (let r = row_of_entry clock now e; lp' = lp\<lparr>lp_rows := lp_rows lp @ [r]\<rparr>
      in if row_hidden lp r then lp' else lp'\<lparr>lp_list := lp_list lp @ [r]\<rparr>)"

definition log_clear :: "log_panel \<Rightarrow> log_panel" where
  "log_clear lp = lp\<lparr>lp_rows := [], lp_list := []\<rparr>"

definition log_refill :: "log_panel \<Rightarrow> log_panel" where
  "log_refill lp = lp\<lparr>lp_list := filter (\<lambda>r. \<not> row_hidden lp r) (lp_rows lp)\<rparr>"

definition set_min_level :: "log_level \<Rightarrow> log_panel \<Rightarrow> log_panel" where
  "set_min_level l lp = log_refill (lp\<lparr>lp_min := l\<rparr>)"

datatype panel_op = LpAppend int log_entry | LpClear | LpLevel log_level

fun panel_step :: "(int \<Rightarrow> string) \<Rightarrow> panel_op \<Rightarrow> log_panel \<Rightarrow> log_panel" where
  "panel_step clock (LpAppend now e) lp = log_append clock now e lp"
| "panel_step clock LpClear lp = log_clear lp"
| "panel_step clock (LpLevel l) lp = set_min_level l lp"

abbreviation panel_run :: "(int \<Rightarrow> string) \<Rightarrow> panel_op list \<Rightarrow> log_panel \<Rightarrow> log_panel" where
  "panel_run clock \<equiv> fold (panel_step clock)"

text \<open>The rows appended since the last clear.\<close>

fun kept_rows :: "(int \<Rightarrow> string) \<Rightarrow> panel_op list \<Rightarrow> log_row list \<Rightarrow> log_row list" where
  "kept_rows clock [] rs = rs"
| "kept_rows clock (LpAppend now e # xs) rs = kept_rows clock xs (rs @ [row_of_entry clock now e])"
| "kept_rows clock (LpClear # xs) rs = kept_rows clock xs []"
| "kept_rows clock (LpLevel l # xs) rs = kept_rows clock xs rs"

definition list_in_step :: "log_panel \<Rightarrow> bool" where
  "list_in_step lp \<longleftrightarrow> lp_list lp = filter (\<lambda>r. \<not> row_hidden lp r) (lp_rows lp)"

lemma list_in_step_append: "list_in_step lp \<Longrightarrow> list_in_step (log_append clock now e lp)"
  by (auto simp: list_in_step_def log_append_def row_hidden_def Let_def)

lemma list_in_step_clear: "list_in_step (log_clear lp)"
  by (simp add: list_in_step_def log_clear_def)

lemma list_in_step_level: "list_in_step (set_min_level l lp)"
  by (simp add: list_in_step_def set_min_level_def log_refill_def row_hidden_def)

lemma panel_step_rows:
  "lp_rows (log_append clock now e lp) = lp_rows lp @ [row_of_entry clock now e]"
  "lp_rows (log_clear lp) = []" "lp_rows (set_min_level l lp) = lp_rows lp"
  by (simp_all add: log_append_def log_clear_def set_min_level_def log_refill_def Let_def)

lemma panel_run_rows:
  "list_in_step lp \<Longrightarrow> list_in_step (panel_run clock xs lp) \<and> lp_rows (panel_run clock xs lp) = kept_rows clock xs (lp_rows lp)"
proof (induction xs arbitrary: lp)
  case (Cons x xs)
  then show ?case
    by (cases x) (simp_all add: list_in_step_append list_in_step_clear list_in_step_level panel_step_rows)
qed simp

text \<open>Whatever is appended, cleared and filtered, in any order, the list shows exactly those rows of
  the log since the last clear that are not below the level that is set, in their order.\<close>

theorem log_list_filtered:
  "lp_list (panel_run clock xs panel_init) =
     filter (\<lambda>r. level_rank (lp_min (panel_run clock xs panel_init)) \<le> level_rank (lr_level r)) (kept_rows clock xs [])"
proof -
  have "list_in_step panel_init" by (simp add: list_in_step_def panel_init_def)
  from panel_run_rows [OF this, of clock xs] show ?thesis
    by (simp add: list_in_step_def row_hidden_def panel_init_def not_less)
qed

section \<open>Texts of the status line\<close>

fun log_level_tag :: "log_level \<Rightarrow> string" where
  "log_level_tag LTrace = ''trace''"
| "log_level_tag LDebug = ''debug''"
| "log_level_tag LInfo = ''info''"
| "log_level_tag LWarn = ''warn''"
| "log_level_tag LError = ''error''"

definition mirror_log_stdout :: "log_entry \<Rightarrow> string" where
  "mirror_log_stdout e = log_level_tag (le_level e) @ '': '' @ le_message e @ [CHR 0x0A]"

definition pad0 :: "nat \<Rightarrow> string \<Rightarrow> string" where
  "pad0 k s = replicate (k - length s) CHR ''0'' @ s"

definition format_rate :: "rat \<Rightarrow> string" where
  "format_rate bps =
     (if bps < 1024 then show_fixed 0 bps @ '' B/s''
      else if bps < 1024 * 1024 then show_fixed 1 (bps / 1024) @ '' KiB/s''
      else show_fixed 2 (bps / (1024 * 1024)) @ '' MiB/s'')"

definition format_eta :: "rat \<Rightarrow> string" where
  "format_eta sec =
     (if sec < 0 then ''--''
      else
        let s = nat \<lfloor>sec\<rfloor>; h = s div 3600; m = s mod 3600 div 60; r = s mod 60
        in if 0 < h then dec_digits h @ '':'' @ pad0 2 (dec_digits m) @ '':'' @ pad0 2 (dec_digits r)
           else dec_digits m @ '':'' @ pad0 2 (dec_digits r))"

text \<open>The time left can be read back: hours, minutes and seconds make up the whole seconds.\<close>

lemma format_eta_reads_back:
  assumes "0 \<le> sec"
  defines "s \<equiv> nat \<lfloor>sec\<rfloor>"
  shows "\<exists>h m r. h * 3600 + m * 60 + r = s \<and> m < 60 \<and> r < 60 \<and>
    format_eta sec = (if 0 < h then dec_digits h @ '':'' @ pad0 2 (dec_digits m) else dec_digits m) @ '':'' @ pad0 2 (dec_digits r)"
proof (rule exI [of _ "s div 3600"], rule exI [of _ "s mod 3600 div 60"], rule exI [of _ "s mod 60"], intro conjI)
  have "s mod 3600 mod 60 = s mod 60" by (simp add: mod_mod_cancel)
  then show "s div 3600 * 3600 + s mod 3600 div 60 * 60 + s mod 60 = s"
    using div_mult_mod_eq [of "s mod 3600" 60] div_mult_mod_eq [of s 3600] by linarith
  show "s mod 3600 div 60 < 60" by (simp add: less_mult_imp_div_less)
qed (use assms(1) in \<open>simp_all add: format_eta_def Let_def s_def\<close>)

end
