(* ===== verification/RunControl.thy ===== *)
theory RunControl
  imports Lifecycle Grid LogPanel
begin

text \<open>
  How the main window starts, watches, pauses and ends a run (\<open>src/gui/main_frame.cpp\<close>): the handlers
  of the menus and of the timer, as steps of the interface thread between which the worker may run.
  The menu bar is a map from items to whether they are enabled; the buttons of the tool bar that stand
  for the same actions are enabled under the same conditions.  An engine that has not been made yet is
  one that has not run; whether the user may mount file systems is an answer of the outside world.
\<close>

section \<open>State\<close>

datatype menu_item = MImage | MClose | MEject | MRemove | MRaw | MFiles | MDry | MThrough | MCachestat | MMincore | MVerify
  | MPrefs | MStart | MPause | MStop | MDbCreate | MDbOpen | MDbClose | MDbValidate | MDbBrowse | MDbAdmin | MDbMounts

datatype work_icon = WIdle | WRun | WPause | WOk | WErr

text \<open>The interface thread: free, inside the timer's handler (with its snapshot before the lines, the menus
  and the end are looked at; before and after its join), joining before it quits, or gone.\<close>

datatype frame_at = FrameFree | FrameSnap progress_snapshot | FrameMenus progress_snapshot | FrameDecide progress_snapshot
  | FrameEnding | FrameEnded | FrameQuitting | FrameGone

record status_fields =
  sf_phase :: string
  sf_pct :: rat
  sf_rate :: string
  sf_eta :: string
  sf_cells :: "nat \<times> nat"

text \<open>\<open>fr_shown\<close>, the entries appended to the log since it was cleared, is not in the program.\<close>

record frame =
  fr_eng :: massage_engine
  fr_main :: frame_at
  fr_target :: string
  fr_recursive :: bool
  fr_fs_ok :: bool
  fr_db_open :: bool
  fr_paused :: bool
  fr_offered :: bool
  fr_timer :: bool
  fr_log :: log_panel
  fr_stdout :: string
  fr_grid :: grid
  fr_gauge :: int
  fr_resets :: nat
  fr_fields :: status_fields
  fr_msg :: string
  fr_work :: work_icon
  fr_resume_label :: bool
  fr_menu :: "menu_item \<Rightarrow> bool"
  fr_alerts :: "string list"
  fr_shown :: "log_entry list"

section \<open>Menus\<close>

definition enable_items :: "(menu_item \<times> bool) list \<Rightarrow> frame \<Rightarrow> frame" where
  "enable_items xs s = s\<lparr>fr_menu := fold (\<lambda>(i, b) m. m(i := b)) xs (fr_menu s)\<rparr>"

definition set_status :: "string \<Rightarrow> frame \<Rightarrow> frame" where
  "set_status m s = s\<lparr>fr_msg := m\<rparr>"

definition set_pause_label :: "bool \<Rightarrow> frame \<Rightarrow> frame" where
  "set_pause_label b s = s\<lparr>fr_resume_label := b\<rparr>"

definition set_work_state :: "work_icon \<Rightarrow> frame \<Rightarrow> frame" where
  "set_work_state w s = s\<lparr>fr_work := w\<rparr>"

definition alert :: "string \<Rightarrow> frame \<Rightarrow> frame" where
  "alert m s = s\<lparr>fr_alerts := fr_alerts s @ [m]\<rparr>"

definition update_drive_ui :: "frame \<Rightarrow> frame" where
  "update_drive_ui s =
     (let b = fr_target s \<noteq> [] \<and> \<not> eg_running (fr_eng s) in enable_items [(MClose, b), (MEject, b), (MRemove, b)] s)"

definition update_db_ui :: "bool \<Rightarrow> frame \<Rightarrow> frame" where
  "update_db_ui mounts s =
     (let has = fr_target s \<noteq> [] in
      enable_items [(MDbClose, fr_db_open s), (MDbValidate, fr_db_open s), (MDbBrowse, mounts \<and> (fr_db_open s \<or> has)),
        (MDbAdmin, fr_db_open s), (MDbCreate, has), (MDbOpen, True), (MDbMounts, True)] s)"

definition files_blocked :: "frame \<Rightarrow> bool" where
  "files_blocked s \<longleftrightarrow> fr_recursive s \<and> \<not> fr_fs_ok s"

definition running_items :: "bool \<Rightarrow> bool \<Rightarrow> frame \<Rightarrow> (menu_item \<times> bool) list" where
  "running_items mounts running s =
     (let free = \<not> running; has = fr_target s \<noteq> [] in
      [(MImage, free), (MClose, free \<and> has), (MEject, free \<and> has), (MRemove, free \<and> has), (MRaw, free), (MFiles, free),
       (MDry, free), (MThrough, free), (MCachestat, free), (MMincore, free), (MVerify, free), (MPrefs, free),
       (MStart, free \<and> has \<and> \<not> files_blocked s), (MPause, running), (MStop, running), (MDbCreate, free \<and> has), (MDbOpen, free),
       (MDbClose, free \<and> fr_db_open s), (MDbValidate, free \<and> fr_db_open s),
       (MDbBrowse, free \<and> mounts \<and> (fr_db_open s \<or> has)), (MDbAdmin, free \<and> fr_db_open s), (MDbMounts, free)])"

definition set_running_ui :: "bool \<Rightarrow> bool \<Rightarrow> frame \<Rightarrow> frame" where
  "set_running_ui mounts running s =
     (let s1 = (if running then s else set_pause_label False s);
          s2 = update_db_ui mounts (update_drive_ui (enable_items (running_items mounts running s1) s1));
          s3 = (if running then set_work_state (if fr_paused s2 then WPause else WRun) s2
                else if \<not> files_blocked s2 then set_work_state WIdle s2 else s2)
      in if \<not> running \<and> files_blocked s3 \<and> fr_target s3 \<noteq> [] then set_status ''Files mode: filesystem not supported'' s3 else s3)"

section \<open>Starting, pausing, stopping\<close>

definition start_run :: "rat \<Rightarrow> bool \<Rightarrow> frame \<Rightarrow> frame" where
  "start_run now mounts s =
     (if fr_target s = [] then alert ''Open a file or choose a device first.'' s
      else if eg_running (fr_eng s) then s
      else
        let e = join_thread (fr_eng s)\<lparr>eg_target := fr_target s\<rparr>;
            s1 = s\<lparr>fr_eng := e, fr_offered := False, fr_paused := False, fr_resume_label := False, fr_log := log_clear (fr_log s),
                   fr_shown := [], fr_grid := reset_pending (fr_grid s), fr_gauge := 0, fr_resets := fr_resets s + 1\<rparr>
        in case start_refused e of
             Some err \<Rightarrow> set_running_ui mounts False (alert err s1)
           | None \<Rightarrow>
               (let s2 = set_running_ui mounts True (s1\<lparr>fr_eng := start_thread now e\<rparr>)
                in (set_status ''Starting...'' s2)\<lparr>fr_timer := True\<rparr>))"

definition on_pause :: "frame \<Rightarrow> frame" where
  "on_pause s =
     (let e = fr_eng s in
      if \<not> eg_running e \<or> p_input_locked (eg_prog e) then s
      else if \<not> fr_paused s then
        set_status ''Paused'' (set_work_state WPause (set_pause_label True
          (s\<lparr>fr_eng := e\<lparr>eg_pause := pause_step OpPause (eg_pause e), eg_prog := set_paused True (eg_prog e)\<rparr>, fr_paused := True\<rparr>)))
      else
        set_status ''Running'' (set_work_state WRun (set_pause_label False
          (s\<lparr>fr_eng := e\<lparr>eg_pause := pause_step OpResume (eg_pause e), eg_prog := set_paused False (eg_prog e)\<rparr>, fr_paused := False\<rparr>))))"

definition ask_stop :: "massage_engine \<Rightarrow> massage_engine" where
  "ask_stop e = e\<lparr>eg_pause := pause_step OpResume (pause_step OpStop (eg_pause e))\<rparr>"

definition on_stop :: "frame \<Rightarrow> frame" where
  "on_stop s =
     (if \<not> eg_running (fr_eng s) \<or> p_input_locked (eg_prog (fr_eng s)) then s
      else set_status ''Stopping...'' (s\<lparr>fr_eng := ask_stop (fr_eng s)\<rparr>))"

definition on_quit :: "frame \<Rightarrow> frame" where
  "on_quit s =
     (if eg_running (fr_eng s) then s\<lparr>fr_eng := ask_stop (fr_eng s), fr_main := FrameQuitting\<rparr> else s\<lparr>fr_main := FrameGone\<rparr>)"

text \<open>The window is closed: the destructor of the engine asks for the stop and joins.\<close>

definition close_window :: "frame \<Rightarrow> frame" where
  "close_window s = s\<lparr>fr_eng := (fr_eng s)\<lparr>eg_pause := pause_step OpStop (eg_pause (fr_eng s))\<rparr>, fr_main := FrameQuitting\<rparr>"

section \<open>The timer\<close>

definition gauge_value :: "progress_snapshot \<Rightarrow> int" where
  "gauge_value snap = min 1000 (sint (ucast (s_bytes_done snap * 1000 div s_bytes_total snap) :: 32 word))"

definition show_numbers :: "progress_snapshot \<Rightarrow> status_fields" where
  "show_numbers snap =
     \<lparr>sf_phase = (if s_paused snap then s_phase snap @ '' paused'' else s_phase snap),
      sf_pct = (if s_bytes_total snap \<noteq> 0 then 100 * of_nat (unat (s_bytes_done snap)) / of_nat (unat (s_bytes_total snap)) else 0),
      sf_rate = format_rate (s_bytes_per_sec snap), sf_eta = format_eta (s_eta_seconds snap),
      sf_cells = (length (s_cells snap), s_cell_shift snap)\<rparr>"

definition timer_snap :: "frame \<Rightarrow> frame" where
  "timer_snap s =
     (let snap = snapshot (eg_prog (fr_eng s)) in
      s\<lparr>fr_gauge := (if 0 < s_bytes_total snap then gauge_value snap else fr_gauge s), fr_fields := show_numbers snap,
        fr_grid := update_cells (s_cells snap) (fr_grid s), fr_main := FrameSnap snap\<rparr>)"

text \<open>The loop over the lines that \<open>take_logs\<close> gives.\<close>

definition show_lines :: "(int \<Rightarrow> string) \<Rightarrow> int \<Rightarrow> frame \<Rightarrow> frame" where
  "show_lines clock now s =
     (let es = fst (take_logs (eg_prog (fr_eng s))) in
      s\<lparr>fr_eng := drain (fr_eng s), fr_log := fold (log_append clock now) es (fr_log s),
        fr_stdout := fr_stdout s @ concat (map mirror_log_stdout es), fr_shown := fr_shown s @ es\<rparr>)"

definition timer_menus :: "progress_snapshot \<Rightarrow> frame \<Rightarrow> frame" where
  "timer_menus snap s =
     (let s1 = (if s_input_locked snap then enable_items [(MPause, False), (MStop, False)] s
                else if eg_running (fr_eng s) then enable_items [(MPause, True), (MStop, True)] s else s)
      in if \<not> s_finished snap \<and> s_phase snap \<noteq> [] then set_status (if s_paused snap then ''Paused'' else s_phase snap) s1 else s1)"

definition timer_decide :: "progress_snapshot \<Rightarrow> frame \<Rightarrow> frame" where
  "timer_decide snap s =
     (if s_finished snap \<or> \<not> eg_running (fr_eng s) then s\<lparr>fr_timer := False, fr_main := FrameEnding\<rparr> else s\<lparr>fr_main := FrameFree\<rparr>)"

definition offer_badblocks :: "frame \<Rightarrow> frame" where
  "offer_badblocks s = s\<lparr>fr_offered := True\<rparr>"

text \<open>The end of a run, after the join.\<close>

definition timer_end :: "(int \<Rightarrow> string) \<Rightarrow> int \<Rightarrow> bool \<Rightarrow> frame \<Rightarrow> frame" where
  "timer_end clock now mounts s =
     (let snap = snapshot (eg_prog (fr_eng s));
          s2 = show_lines clock now (s\<lparr>fr_grid := update_cells (s_cells snap) (fr_grid s)\<rparr>);
          s3 = set_running_ui mounts False (s2\<lparr>fr_paused := False\<rparr>);
          s4 = (if s_failed snap \<or> \<not> s_finished snap
                then set_status (if s_failed snap then ''Failed'' else ''Stopped'') (set_work_state WErr s3)
                else set_status ''Finished'' (set_work_state WOk s3))
      in (if s_finished snap then offer_badblocks s4 else s4)\<lparr>fr_main := FrameFree\<rparr>)"

section \<open>The handlers that change the target, the mode or the manifest\<close>

definition on_edit_raw_disk :: "bool \<Rightarrow> frame \<Rightarrow> frame" where
  "on_edit_raw_disk mounts s = set_running_ui mounts False (set_status ''Raw mode'' (s\<lparr>fr_recursive := False\<rparr>))"

definition on_edit_on_files :: "bool \<Rightarrow> string \<Rightarrow> bool \<Rightarrow> frame \<Rightarrow> frame" where
  "on_edit_on_files yes fstype mounts s =
     (if \<not> fr_recursive s \<and> \<not> yes then s
      else set_running_ui mounts False
             (set_status (if fr_fs_ok s then ''Files mode ('' @ fstype @ '')'' else ''Files mode'') (s\<lparr>fr_recursive := True\<rparr>)))"

text \<open>What opening or closing a target does to the run control; what file system it has and which manifest
  is open then is found by routines that are modelled elsewhere.\<close>

definition new_target :: "string \<Rightarrow> bool \<Rightarrow> bool \<Rightarrow> bool \<Rightarrow> frame \<Rightarrow> frame" where
  "new_target dev fs db mounts s =
     set_running_ui mounts False (set_status (if dev = [] then ''No target'' else ''Target: '' @ dev)
       (s\<lparr>fr_target := dev, fr_fs_ok := fs, fr_db_open := db, fr_grid := (if dev = [] then grid_clear (fr_grid s) else fr_grid s),
          fr_gauge := (if dev = [] then 0 else fr_gauge s)\<rparr>))"

definition new_manifest :: "bool \<Rightarrow> bool \<Rightarrow> frame \<Rightarrow> frame" where
  "new_manifest db mounts s = update_db_ui mounts (s\<lparr>fr_db_open := db\<rparr>)"

section \<open>Steps\<close>

inductive frame_step :: "(int \<Rightarrow> string) \<Rightarrow> frame \<Rightarrow> frame \<Rightarrow> bool" for clock :: "int \<Rightarrow> string" where
  start: "fr_main s = FrameFree \<Longrightarrow> eg_running (fr_eng s) \<or> joinable (fr_eng s) \<Longrightarrow> frame_step clock s (start_run now mounts s)"
| pause: "fr_main s = FrameFree \<Longrightarrow> frame_step clock s (on_pause s)"
| stop: "fr_main s = FrameFree \<Longrightarrow> frame_step clock s (on_stop s)"
| quit: "fr_main s = FrameFree \<Longrightarrow> frame_step clock s (on_quit s)"
| shut: "fr_main s = FrameFree \<Longrightarrow> frame_step clock s (close_window s)"
| gone: "fr_main s = FrameQuitting \<Longrightarrow> joinable (fr_eng s) \<Longrightarrow>
    frame_step clock s (s\<lparr>fr_eng := join_thread (fr_eng s), fr_main := FrameGone\<rparr>)"
| tick: "fr_main s = FrameFree \<Longrightarrow> fr_timer s \<Longrightarrow> frame_step clock s (timer_snap s)"
| lines: "fr_main s = FrameSnap snap \<Longrightarrow> frame_step clock s (show_lines clock now s\<lparr>fr_main := FrameMenus snap\<rparr>)"
| menus: "fr_main s = FrameMenus snap \<Longrightarrow> frame_step clock s (timer_menus snap s\<lparr>fr_main := FrameDecide snap\<rparr>)"
| decide: "fr_main s = FrameDecide snap \<Longrightarrow> frame_step clock s (timer_decide snap s)"
| ending: "fr_main s = FrameEnding \<Longrightarrow> joinable (fr_eng s) \<Longrightarrow>
    frame_step clock s (s\<lparr>fr_eng := join_thread (fr_eng s), fr_main := FrameEnded\<rparr>)"
| ended: "fr_main s = FrameEnded \<Longrightarrow> frame_step clock s (timer_end clock now mounts s)"
| raw: "fr_main s = FrameFree \<Longrightarrow> fr_menu s MRaw \<Longrightarrow> frame_step clock s (on_edit_raw_disk mounts s)"
| files: "fr_main s = FrameFree \<Longrightarrow> fr_menu s MFiles \<Longrightarrow> frame_step clock s (on_edit_on_files yes fstype mounts s)"
| target: "fr_main s = FrameFree \<Longrightarrow> \<not> eg_running (fr_eng s) \<Longrightarrow> frame_step clock s (new_target dev fs db mounts s)"
| manifest: "fr_main s = FrameFree \<Longrightarrow> frame_step clock s (new_manifest db mounts s)"
| level: "fr_main s = FrameFree \<Longrightarrow> frame_step clock s (s\<lparr>fr_log := set_min_level l (fr_log s)\<rparr>)"
| worker: "worker_step (fr_eng s) e \<Longrightarrow> frame_step clock s (s\<lparr>fr_eng := e\<rparr>)"

inductive_cases frame_step_cases: "frame_step clock s s'"

definition frame_init :: "string \<Rightarrow> frame" where
  "frame_init dev =
     \<lparr>fr_eng = engine_init dev, fr_main = FrameFree, fr_target = dev, fr_recursive = False, fr_fs_ok = False, fr_db_open = False,
      fr_paused = False, fr_offered = False, fr_timer = False, fr_log = panel_init, fr_stdout = [], fr_grid = [], fr_gauge = 0,
      fr_resets = 0, fr_fields = \<lparr>sf_phase = [], sf_pct = 0, sf_rate = [], sf_eta = [], sf_cells = (0, 0)\<rparr>, fr_msg = ''Ready'',
      fr_work = WIdle, fr_resume_label = False, fr_menu = (\<lambda>_. True), fr_alerts = [], fr_shown = []\<rparr>"

section \<open>What the handlers leave alone\<close>

lemmas texts_defs = set_status_def set_pause_label_def set_work_state_def alert_def

lemma items_keep [simp]:
  "fr_eng (enable_items xs s) = fr_eng s" "fr_shown (enable_items xs s) = fr_shown s" "fr_main (enable_items xs s) = fr_main s"
  "fr_timer (enable_items xs s) = fr_timer s" "fr_log (enable_items xs s) = fr_log s" "fr_paused (enable_items xs s) = fr_paused s"
  "fr_target (enable_items xs s) = fr_target s" "fr_stdout (enable_items xs s) = fr_stdout s" "fr_work (enable_items xs s) = fr_work s"
  "fr_resume_label (enable_items xs s) = fr_resume_label s" "fr_alerts (enable_items xs s) = fr_alerts s"
  by (simp_all add: enable_items_def)

lemma drive_ui_keeps [simp]:
  "fr_eng (update_drive_ui s) = fr_eng s" "fr_shown (update_drive_ui s) = fr_shown s" "fr_main (update_drive_ui s) = fr_main s"
  "fr_timer (update_drive_ui s) = fr_timer s" "fr_log (update_drive_ui s) = fr_log s" "fr_paused (update_drive_ui s) = fr_paused s"
  "fr_target (update_drive_ui s) = fr_target s" "fr_stdout (update_drive_ui s) = fr_stdout s" "fr_work (update_drive_ui s) = fr_work s"
  "fr_resume_label (update_drive_ui s) = fr_resume_label s" "fr_alerts (update_drive_ui s) = fr_alerts s"
  by (simp_all add: update_drive_ui_def Let_def)

lemma db_ui_keeps [simp]:
  "fr_eng (update_db_ui b s) = fr_eng s" "fr_shown (update_db_ui b s) = fr_shown s" "fr_main (update_db_ui b s) = fr_main s"
  "fr_timer (update_db_ui b s) = fr_timer s" "fr_log (update_db_ui b s) = fr_log s" "fr_paused (update_db_ui b s) = fr_paused s"
  "fr_target (update_db_ui b s) = fr_target s" "fr_stdout (update_db_ui b s) = fr_stdout s" "fr_work (update_db_ui b s) = fr_work s"
  "fr_resume_label (update_db_ui b s) = fr_resume_label s" "fr_alerts (update_db_ui b s) = fr_alerts s"
  by (simp_all add: update_db_ui_def Let_def)

lemma running_ui_keeps [simp]:
  "fr_eng (set_running_ui b r s) = fr_eng s" "fr_shown (set_running_ui b r s) = fr_shown s" "fr_main (set_running_ui b r s) = fr_main s"
  "fr_timer (set_running_ui b r s) = fr_timer s" "fr_log (set_running_ui b r s) = fr_log s" "fr_paused (set_running_ui b r s) = fr_paused s"
  "fr_target (set_running_ui b r s) = fr_target s" "fr_stdout (set_running_ui b r s) = fr_stdout s"
  "fr_resume_label (set_running_ui b r s) = (r \<and> fr_resume_label s)" "fr_alerts (set_running_ui b r s) = fr_alerts s"
  by (simp_all add: set_running_ui_def texts_defs Let_def)

lemma running_ui_work: "fr_work (set_running_ui b True s) = (if fr_paused s then WPause else WRun)"
  by (simp add: set_running_ui_def texts_defs Let_def)

text \<open>The items that would change what a run works on.\<close>

definition settings_items :: "menu_item set" where
  "settings_items = {MImage, MClose, MEject, MRemove, MRaw, MFiles, MDry, MThrough, MCachestat, MMincore, MVerify, MPrefs, MStart}"

lemma db_ui_menu: "i \<in> settings_items \<Longrightarrow> fr_menu (update_db_ui b s) i = fr_menu s i"
  by (auto simp: settings_items_def update_db_ui_def enable_items_def Let_def)

lemma drive_ui_menu: "eg_running (fr_eng s) \<Longrightarrow> \<not> fr_menu s i \<Longrightarrow> \<not> fr_menu (update_drive_ui s) i"
  by (simp add: update_drive_ui_def enable_items_def Let_def)

lemma running_items_menu: "i \<in> settings_items \<Longrightarrow> \<not> fr_menu (enable_items (running_items b True s) s) i"
  unfolding settings_items_def by (elim insertE emptyE) (simp_all add: running_items_def enable_items_def Let_def)

lemma running_ui_locks: "eg_running (fr_eng s) \<Longrightarrow> i \<in> settings_items \<Longrightarrow> \<not> fr_menu (set_running_ui b True s) i"
  by (simp add: set_running_ui_def texts_defs Let_def db_ui_menu drive_ui_menu running_items_menu)

lemma start_run_cases:
  assumes "eg_running (fr_eng s) \<or> joinable (fr_eng s)"
  shows "start_run now mounts s = alert ''Open a file or choose a device first.'' s \<and> fr_target s = [] \<or>
    start_run now mounts s = s \<and> eg_running (fr_eng s) \<or>
    \<not> eg_running (fr_eng s) \<and> fr_target s \<noteq> [] \<and> joinable (fr_eng s) \<and>
    start_refused (fr_eng s\<lparr>eg_target := fr_target s\<rparr>) = None \<and>
    start_run now mounts s = (set_status ''Starting...'' (set_running_ui mounts True
      (s\<lparr>fr_offered := False, fr_paused := False, fr_resume_label := False, fr_log := log_clear (fr_log s), fr_shown := [],
         fr_grid := reset_pending (fr_grid s), fr_gauge := 0, fr_resets := fr_resets s + 1,
         fr_eng := start_thread now (fr_eng s\<lparr>eg_target := fr_target s\<rparr>)\<rparr>)))\<lparr>fr_timer := True\<rparr>"
  using assms by (auto simp: start_run_def start_refused_def join_thread_def start_thread_def Let_def)

lemma user_started:
  "start_refused (e\<lparr>eg_target := dev\<rparr>) = None \<Longrightarrow> joinable e \<Longrightarrow> e' = start_thread now (e\<lparr>eg_target := dev\<rparr>) \<Longrightarrow> user_step e sh e' sh'"
  using user_step.start by simp

lemma show_lines_keeps [simp]:
  "fr_eng (show_lines clock now s) = drain (fr_eng s)" "fr_shown (show_lines clock now s) = fr_shown s @ p_pending_logs (eg_prog (fr_eng s))"
  "fr_main (show_lines clock now s) = fr_main s" "fr_timer (show_lines clock now s) = fr_timer s"
  "fr_paused (show_lines clock now s) = fr_paused s" "fr_resume_label (show_lines clock now s) = fr_resume_label s"
  "fr_work (show_lines clock now s) = fr_work s" "fr_menu (show_lines clock now s) = fr_menu s" "fr_target (show_lines clock now s) = fr_target s"
  by (simp_all add: show_lines_def take_logs_def Let_def)

lemma timer_menus_keeps [simp]:
  "fr_eng (timer_menus snap s) = fr_eng s" "fr_shown (timer_menus snap s) = fr_shown s" "fr_timer (timer_menus snap s) = fr_timer s"
  "fr_log (timer_menus snap s) = fr_log s" "fr_paused (timer_menus snap s) = fr_paused s" "fr_work (timer_menus snap s) = fr_work s"
  "fr_resume_label (timer_menus snap s) = fr_resume_label s"
  by (simp_all add: timer_menus_def texts_defs Let_def)

lemma timer_menus_menu: "i \<in> settings_items \<Longrightarrow> fr_menu (timer_menus snap s) i = fr_menu s i"
  by (auto simp: timer_menus_def texts_defs enable_items_def settings_items_def Let_def)

lemma timer_end_keeps [simp]:
  "fr_eng (timer_end clock now b s) = drain (fr_eng s)"
  "fr_shown (timer_end clock now b s) = fr_shown s @ p_pending_logs (eg_prog (fr_eng s))"
  "fr_main (timer_end clock now b s) = FrameFree" "fr_timer (timer_end clock now b s) = fr_timer s"
  "fr_log (timer_end clock now b s) = fold (log_append clock now) (p_pending_logs (eg_prog (fr_eng s))) (fr_log s)"
  by (simp_all add: timer_end_def texts_defs offer_badblocks_def Let_def) (simp_all add: show_lines_def take_logs_def Let_def)

lemmas handler_defs = on_pause_def on_stop_def ask_stop_def on_quit_def close_window_def timer_snap_def timer_decide_def
  on_edit_raw_disk_def on_edit_on_files_def new_target_def new_manifest_def texts_defs

lemmas user_looks = user_step.look user_step.flags user_step.tell user_step.join user_step.drain

interpretation frame: engine_user "frame_step clock" "\<lambda>s. \<exists>dev. s = frame_init dev" fr_eng fr_shown for clock
proof unfold_locales
  fix s s' assume "frame_step clock s s'"
  then show "worker_step (fr_eng s) (fr_eng s') \<and> fr_shown s' = fr_shown s \<or> user_step (fr_eng s) (fr_shown s) (fr_eng s') (fr_shown s')"
  proof cases
    case (start now mounts)
    show ?thesis
      unfolding start(1) using start_run_cases [OF start(3), of now mounts]
      by (elim disjE conjE) (simp_all add: texts_defs user_step.look user_started)
  qed (auto simp: handler_defs Let_def intro: user_looks)
qed (auto simp: frame_init_def)

section \<open>A run that was started is watched to its end\<close>

fun snap_of :: "frame_at \<Rightarrow> progress_snapshot option" where
  "snap_of (FrameSnap snap) = Some snap"
| "snap_of (FrameMenus snap) = Some snap"
| "snap_of (FrameDecide snap) = Some snap"
| "snap_of _ = None"

definition leaving :: "frame_at \<Rightarrow> bool" where
  "leaving m \<longleftrightarrow> m = FrameQuitting \<or> m = FrameGone"

definition watch_inv :: "frame \<Rightarrow> bool" where
  "watch_inv s \<longleftrightarrow>
     (\<not> leaving (fr_main s) \<longrightarrow> (eg_thread (fr_eng s) \<noteq> NoThread \<longleftrightarrow> fr_timer s \<or> fr_main s = FrameEnding)) \<and>
     (fr_main s = FrameEnding \<or> fr_main s = FrameEnded \<longrightarrow> eg_result (fr_eng s) \<noteq> None \<and> \<not> fr_timer s) \<and>
     (\<forall>snap. snap_of (fr_main s) = Some snap \<longrightarrow> fr_timer s \<and> (s_finished snap \<longrightarrow> eg_result (fr_eng s) \<noteq> None)) \<and>
     (eg_thread (fr_eng s) = NoThread \<and> fr_main s = FrameFree \<longrightarrow> p_pending_logs (eg_prog (fr_eng s)) = [])"

lemma worker_keeps_result:
  "engine_ok e \<Longrightarrow> worker_step e e' \<Longrightarrow> eg_thread e' \<noteq> NoThread \<and> eg_thread e \<noteq> NoThread \<and> (eg_result e \<noteq> None \<longrightarrow> eg_result e' \<noteq> None)"
  by (erule worker_step_cases) (auto simp: thread_work_def thread_return_def thread_store_def thread_over_def)

lemma not_running_result:
  "engine_ok e \<Longrightarrow> eg_thread e \<noteq> NoThread \<Longrightarrow> \<not> eg_running e \<Longrightarrow> eg_result e \<noteq> None"
  by (cases "eg_thread e") (auto simp: engine_defs)

lemma watch_step:
  assumes "watch_inv s" and "engine_ok (fr_eng s)" and "frame_step clock s s'"
  shows "watch_inv s'"
  using assms(3)
proof cases
  case (start now mounts)
  show ?thesis
    unfolding start(1) using start_run_cases [OF start(3), of now mounts] assms(1) start(2)
    by (elim disjE conjE) (simp_all add: watch_inv_def texts_defs start_thread_def leaving_def)
next
  case (worker e)
  then show ?thesis using assms(1) worker_keeps_result [OF assms(2) worker(2)] by (auto simp: watch_inv_def)
next
  case tick
  then show ?thesis using assms(1,2) by (auto simp: watch_inv_def timer_snap_def snapshot_def leaving_def engine_defs Let_def)
next
  case (decide snap)
  then show ?thesis using assms(1) not_running_result [OF assms(2)] by (auto simp: watch_inv_def timer_decide_def leaving_def)
next
  case quit
  then show ?thesis using assms(1,2) by (auto simp: watch_inv_def on_quit_def ask_stop_def leaving_def)
qed (use assms(1) in \<open>auto simp: watch_inv_def handler_defs set_paused_def drain_def take_logs_def join_thread_def leaving_def Let_def\<close>)

lemma watch_reachable: "(frame_step clock)\<^sup>*\<^sup>* (frame_init dev) s \<Longrightarrow> watch_inv s"
proof (induction rule: rtranclp_induct)
  case base
  show ?case by (simp add: watch_inv_def frame_init_def engine_init_def progress_init_def)
next
  case (step s s')
  then show ?case using watch_step frame.engine_sound by blast
qed

section \<open>What the window shows while a run is going on\<close>

definition shows_run :: "frame \<Rightarrow> bool" where
  "shows_run s \<longleftrightarrow> paused_flag (eg_pause (fr_eng s)) = fr_paused s \<and> fr_resume_label s = fr_paused s \<and>
     fr_work s = (if fr_paused s then WPause else WRun)"

definition ui_inv :: "frame \<Rightarrow> bool" where
  "ui_inv s \<longleftrightarrow> (eg_running (fr_eng s) \<longrightarrow>
     (\<forall>i \<in> settings_items. \<not> fr_menu s i) \<and>
     (\<not> stop_flag (eg_pause (fr_eng s)) \<and> \<not> leaving (fr_main s) \<longrightarrow> shows_run s))"

lemma worker_keeps_flags:
  "engine_ok e \<Longrightarrow> worker_step e e' \<Longrightarrow> eg_pause e' = eg_pause e \<and> (eg_running e' \<longrightarrow> eg_running e)"
  by (erule worker_step_cases) (auto simp: thread_work_def thread_return_def thread_store_def thread_over_def engine_ok_def)

lemma ui_step:
  assumes "ui_inv s" and "engine_ok (fr_eng s)" and "watch_inv s" and "frame_step clock s s'"
  shows "ui_inv s'"
  using assms(4)
proof cases
  case (start now mounts)
  show ?thesis
    unfolding start(1) using start_run_cases [OF start(3), of now mounts] assms(1)
    by (elim disjE conjE)
      (simp_all add: ui_inv_def shows_run_def texts_defs start_thread_def running_ui_locks running_ui_work leaving_def start(2))
next
  case (worker e)
  then show ?thesis using assms(1) worker_keeps_flags [OF assms(2) worker(2)] by (auto simp: ui_inv_def shows_run_def)
next
  case ended
  then have "\<not> eg_running (fr_eng s)" using assms(2,3) by (auto simp: watch_inv_def engine_ok_def leaving_def)
  then show ?thesis using ended by (simp add: ui_inv_def drain_def)
next
  case (menus snap)
  then show ?thesis using assms(1) by (auto simp: ui_inv_def shows_run_def timer_menus_menu leaving_def)
next
  case (raw mounts)
  then have "\<not> eg_running (fr_eng s)" using assms(1) by (auto simp: ui_inv_def settings_items_def)
  then show ?thesis using raw by (simp add: ui_inv_def handler_defs)
next
  case (files yes fstype mounts)
  then have "\<not> eg_running (fr_eng s)" using assms(1) by (auto simp: ui_inv_def settings_items_def)
  then show ?thesis using files by (simp add: ui_inv_def handler_defs)
next
  case (manifest db mounts)
  then show ?thesis using assms(1) by (auto simp: ui_inv_def shows_run_def new_manifest_def db_ui_menu leaving_def)
qed (use assms(1) in \<open>auto simp: ui_inv_def shows_run_def handler_defs drain_def join_thread_def leaving_def Let_def\<close>)

lemma ui_reachable: "(frame_step clock)\<^sup>*\<^sup>* (frame_init dev) s \<Longrightarrow> ui_inv s"
proof (induction rule: rtranclp_induct)
  case base
  show ?case by (simp add: ui_inv_def frame_init_def engine_init_def)
next
  case (step s s')
  then show ?case using ui_step watch_reachable frame.engine_sound by blast
qed

text \<open>C26: from the start of a run until the interface has joined its worker the timer is on or the join is
  next, unless the program is being left; while the worker runs, every menu item that would change what
  it works on is disabled, and until a stop is asked for the flag of \<open>PauseControl\<close>, the label of the
  pause item and the icon all say the same.\<close>

theorem run_is_watched:
  assumes "(frame_step clock)\<^sup>*\<^sup>* (frame_init dev) s" and "\<not> leaving (fr_main s)"
  shows "(eg_thread (fr_eng s) \<noteq> NoThread \<longleftrightarrow> fr_timer s \<or> fr_main s = FrameEnding) \<and>
    (eg_running (fr_eng s) \<longrightarrow> (\<forall>i \<in> settings_items. \<not> fr_menu s i) \<and>
       (\<not> stop_flag (eg_pause (fr_eng s)) \<longrightarrow> shows_run s))"
  using watch_reachable [OF assms(1)] ui_reachable [OF assms(1)] assms(2) by (simp add: watch_inv_def ui_inv_def)

definition started :: frame where
  "started = start_run 1 True (frame_init ''/dev/sdb'')"

lemma started_reachable: "(frame_step clock)\<^sup>*\<^sup>* (frame_init ''/dev/sdb'') started"
  unfolding started_def
  by (rule r_into_rtranclp, rule frame_step.start) (simp_all add: frame_init_def engine_init_def joinable_def)

lemma started_state:
  "fr_eng started = start_thread 1 (engine_init ''/dev/sdb'')" "fr_main started = FrameFree" "fr_timer started"
  by (simp_all add: started_def start_run_def frame_init_def engine_init_def join_thread_def start_refused_def texts_defs Let_def)

lemma run_is_watched_witness:
  "fr_timer started \<and> \<not> fr_menu started MPrefs \<and> shows_run started"
  using run_is_watched [OF started_reachable [of "\<lambda>_. []"]]
  by (simp add: started_state start_thread_def leaving_def settings_items_def)

text \<open>The items of the manifest are disabled for the run and enabled again at once, by the last call of
  \<open>set_running_ui\<close>.\<close>

lemma manifest_items_stay_enabled:
  "fr_menu (set_running_ui mounts True s) MDbOpen" "fr_menu (set_running_ui mounts True s) MDbMounts"
  "fr_menu (set_running_ui mounts True s) MDbClose = fr_db_open s"
  by (simp_all add: set_running_ui_def update_db_ui_def update_drive_ui_def enable_items_def texts_defs Let_def)

text \<open>Whatever the user and the worker did before, starting a run never waits for an old one: when the
  engine does not refuse, the old worker is over or there is none.\<close>

theorem start_joins_at_once:
  assumes "(frame_step clock)\<^sup>*\<^sup>* (frame_init dev) s" and "start_refused (fr_eng s) = None"
  shows "joinable (fr_eng s)"
  by (rule frame.start_never_waits [OF _ assms]) blast

lemma start_joins_at_once_witness: "joinable (fr_eng (frame_init ''/dev/sdb''))"
  by (rule start_joins_at_once [where clock = "\<lambda>_. []" and dev = "''/dev/sdb''"])
    (simp_all add: frame_init_def engine_init_def start_refused_def)

section \<open>The end of a run\<close>

definition row_content :: "log_row \<Rightarrow> log_level \<times> string" where
  "row_content r = (lr_level r, lr_message r)"

definition entry_content :: "log_entry \<Rightarrow> log_level \<times> string" where
  "entry_content e = (le_level e, row_message e)"

definition log_inv :: "frame \<Rightarrow> bool" where
  "log_inv s \<longleftrightarrow> list_in_step (fr_log s) \<and> map row_content (lp_rows (fr_log s)) = map entry_content (fr_shown s)"

lemma append_all:
  "list_in_step lp \<Longrightarrow> map row_content (lp_rows lp) = xs \<Longrightarrow>
   list_in_step (fold (log_append clock now) es lp) \<and>
   map row_content (lp_rows (fold (log_append clock now) es lp)) = xs @ map entry_content es"
proof (induction es arbitrary: lp xs)
  case (Cons e es)
  from Cons.IH [of "log_append clock now e lp" "xs @ [entry_content e]"] Cons.prems show ?case
    by (simp add: list_in_step_append panel_step_rows row_content_def entry_content_def row_of_entry_def)
qed simp

lemma show_lines_log: "fr_log (show_lines clock now s) = fold (log_append clock now) (p_pending_logs (eg_prog (fr_eng s))) (fr_log s)"
  by (simp add: show_lines_def take_logs_def Let_def)

lemma log_step:
  assumes "log_inv s" and "frame_step clock s s'"
  shows "log_inv s'"
  using assms(2)
proof cases
  case (start now mounts)
  show ?thesis
    unfolding start(1) using start_run_cases [OF start(3), of now mounts] assms(1)
    by (elim disjE conjE) (simp_all add: log_inv_def texts_defs list_in_step_clear panel_step_rows)
qed (use assms(1) in \<open>auto simp: log_inv_def handler_defs list_in_step_level panel_step_rows append_all show_lines_log Let_def\<close>)

lemma log_reachable: "(frame_step clock)\<^sup>*\<^sup>* (frame_init dev) s \<Longrightarrow> log_inv s"
proof (induction rule: rtranclp_induct)
  case base
  show ?case by (simp add: log_inv_def frame_init_def panel_init_def list_in_step_def)
qed (rule log_step)

text \<open>C27: when the interface has joined the worker, the end of the timer's handler stops the timer and says
  Finished with the icon of success exactly when the worker returned 0, and Failed otherwise, never
  Stopped; the log then ends with every line that the run logged since the last reset, in order.\<close>

theorem run_end_shown:
  assumes "(frame_step clock)\<^sup>*\<^sup>* (frame_init dev) s" and "fr_main s = FrameEnded"
  shows "let s' = timer_end clock now mounts s in
    (\<exists>rc. eg_result (fr_eng s) = Some rc \<and> eg_exit (fr_eng s) = rc \<and>
       fr_msg s' = (if rc = 0 then ''Finished'' else ''Failed'') \<and> fr_work s' = (if rc = 0 then WOk else WErr)) \<and>
    \<not> fr_timer s' \<and> fr_main s' = FrameFree \<and>
    suffix (map entry_content (eg_logged (fr_eng s))) (map row_content (lp_rows (fr_log s')))"
proof -
  let ?s' = "timer_end clock now mounts s" and ?e = "fr_eng s"
  note w = watch_reachable [OF assms(1)] and l = log_reachable [OF assms(1)]
  have ok: "engine_ok ?e" "lines_ok ?e (fr_shown s)"
    using frame.engine_sound [OF _ assms(1)] frame.lines_sound [OF _ assms(1)] by blast+
  obtain rc where rc: "eg_result ?e = Some rc" using w assms(2) by (auto simp: watch_inv_def)
  have "eg_thread ?e = NoThread" "\<not> fr_timer s" using w assms(2) by (auto simp: watch_inv_def leaving_def)
  then have "eg_exit ?e = rc" "p_finished (eg_prog ?e)" "p_failed (eg_prog ?e) \<longleftrightarrow> rc \<noteq> 0"
    using ok(1) rc by (auto simp: engine_defs)
  moreover have "map row_content (lp_rows (fr_log ?s')) = map entry_content (fr_shown s @ p_pending_logs (eg_prog ?e))"
    using l append_all [of "fr_log s" "map entry_content (fr_shown s)"] by (simp add: log_inv_def)
  then have "suffix (map entry_content (eg_logged ?e)) (map row_content (lp_rows (fr_log ?s')))"
    using ok(2) unfolding lines_ok_def by (metis map_mono_suffix)
  ultimately show ?thesis
    using rc \<open>\<not> fr_timer s\<close> by (auto simp: timer_end_def texts_defs offer_badblocks_def snapshot_def Let_def)
qed

text \<open>Once the worker is over, the timer's next event leads to the end of the run.\<close>

lemma tick_ends:
  assumes "fr_main s = FrameFree" and "fr_timer s" and "eg_thread (fr_eng s) = Over" and "\<not> eg_running (fr_eng s)"
  shows "\<exists>s'. (frame_step clock)\<^sup>*\<^sup>* s s' \<and> fr_main s' = FrameEnded \<and> eg_result (fr_eng s') = eg_result (fr_eng s)"
proof -
  define snap where "snap = snapshot (eg_prog (fr_eng s))"
  define s1 where "s1 = show_lines clock 0 (timer_snap s)\<lparr>fr_main := FrameMenus snap\<rparr>"
  define s2 where "s2 = timer_menus snap s1\<lparr>fr_main := FrameDecide snap\<rparr>"
  define s3 where "s3 = timer_decide snap s2"
  define s4 where "s4 = s3\<lparr>fr_eng := join_thread (fr_eng s3), fr_main := FrameEnded\<rparr>"
  have e: "fr_eng s1 = drain (fr_eng s)" "fr_eng s2 = drain (fr_eng s)" "fr_eng s3 = drain (fr_eng s)" "fr_main s3 = FrameEnding"
    using assms(4) by (simp_all add: s1_def s2_def s3_def timer_snap_def timer_decide_def drain_def Let_def)
  have "frame_step clock s (timer_snap s)" using assms(1,2) by (rule frame_step.tick)
  moreover have "frame_step clock (timer_snap s) s1"
    unfolding s1_def by (rule frame_step.lines) (simp add: timer_snap_def snap_def Let_def)
  moreover have "frame_step clock s1 s2" unfolding s2_def by (rule frame_step.menus) (simp add: s1_def)
  moreover have "frame_step clock s2 s3" unfolding s3_def by (rule frame_step.decide) (simp add: s2_def)
  moreover have "frame_step clock s3 s4"
    unfolding s4_def by (rule frame_step.ending) (use e assms(3) in \<open>simp_all add: joinable_def drain_def\<close>)
  ultimately have "(frame_step clock)\<^sup>*\<^sup>* s s4" by (meson converse_rtranclp_into_rtranclp rtranclp.rtrancl_refl)
  moreover have "fr_main s4 = FrameEnded" "eg_result (fr_eng s4) = eg_result (fr_eng s)"
    using e by (simp_all add: s4_def drain_def join_thread_def)
  ultimately show ?thesis by blast
qed

lemma worker_frame: "worker_step e e' \<Longrightarrow> frame_step clock (s\<lparr>fr_eng := e\<rparr>) (s\<lparr>fr_eng := e'\<rparr>)"
  using frame_step.worker [of "s\<lparr>fr_eng := e\<rparr>" e' clock] by simp

lemma ended_reachable:
  "\<exists>s. (frame_step clock)\<^sup>*\<^sup>* (frame_init ''/dev/sdb'') s \<and> fr_main s = FrameEnded \<and> eg_result (fr_eng s) = Some 1"
proof -
  let ?e1 = "thread_return 1 (fr_eng started)"
  let ?e2 = "thread_store 1 ?e1"
  have "eg_thread (fr_eng started) = Busy" by (simp add: started_state start_thread_def)
  then have "frame_step clock started (started\<lparr>fr_eng := ?e1\<rparr>)"
    using worker_frame [OF worker_step.return, of "fr_eng started" clock started 1] by simp
  moreover have "frame_step clock (started\<lparr>fr_eng := ?e1\<rparr>) (started\<lparr>fr_eng := ?e2\<rparr>)"
    by (rule worker_frame, rule worker_step.store) (simp add: thread_return_def)
  moreover have "frame_step clock (started\<lparr>fr_eng := ?e2\<rparr>) (started\<lparr>fr_eng := thread_over ?e2\<rparr>)"
    by (rule worker_frame, rule worker_step.over) (simp add: thread_store_def)
  ultimately have run: "(frame_step clock)\<^sup>*\<^sup>* (frame_init ''/dev/sdb'') (started\<lparr>fr_eng := thread_over ?e2\<rparr>)"
    using started_reachable [of clock] by (meson rtranclp.rtrancl_into_rtrancl)
  obtain s' where s': "(frame_step clock)\<^sup>*\<^sup>* (started\<lparr>fr_eng := thread_over ?e2\<rparr>) s'" "fr_main s' = FrameEnded"
    "eg_result (fr_eng s') = eg_result (thread_over ?e2)"
    using tick_ends [of "started\<lparr>fr_eng := thread_over ?e2\<rparr>" clock] by (auto simp: started_state thread_over_def)
  moreover have "eg_result (thread_over ?e2) = Some 1" by (simp add: thread_over_def thread_store_def thread_return_def)
  ultimately show ?thesis using rtranclp_trans [OF run s'(1)] by (intro exI [of _ s']) simp
qed

lemma run_end_shown_witness:
  "\<exists>s. fr_main s = FrameEnded \<and> fr_msg (timer_end (\<lambda>_. []) 0 True s) = ''Failed'' \<and> fr_work (timer_end (\<lambda>_. []) 0 True s) = WErr"
proof -
  obtain s where "(frame_step (\<lambda>_. []))\<^sup>*\<^sup>* (frame_init ''/dev/sdb'') s" "fr_main s = FrameEnded" "eg_result (fr_eng s) = Some 1"
    using ended_reachable by blast
  with run_end_shown [OF this(1,2), of 0 True] show ?thesis by (auto simp: Let_def)
qed

end
