(* ===== verification/Target.thy ===== *)
theory Target
  imports Massage MountFrame Session Devices
begin

text \<open>
  What the main window works on (\<open>src/gui/main_frame.cpp\<close>): choosing a target and its manifest database,
  closing, ejecting, the menus of drives, the browser that is opened on it, the list of bad blocks that
  is written.  The window is a record on top of the machine state; it calls the routines of
  \<open>Automount\<close>, \<open>Device\<close>, \<open>Detect\<close>, \<open>Store\<close>, \<open>Session\<close> and \<open>Devices\<close>.  Titles, icons and the enabling
  of menus are left out here (the latter is in \<open>RunControl\<close>), and whether a run is going on is an argument.
\<close>

section \<open>State\<close>

record 'w window = "'w mach" +
  wd_opts :: options
  wd_catalog :: store
  wd_db_open :: bool
  wd_db_explicit :: bool
  wd_fs_ok :: bool
  wd_fstype :: string
  wd_browser :: bool
  wd_devices :: "block_dev_info list"
  wd_status :: string
  wd_alerts :: "string list"

type_synonym ('w, 'z, 'a) win = "(('w, 'z) window_scheme, 'a) io"

record 'w win_env =
  we_os :: "'w sys"
  we_host :: "'w host"
  we_conf :: "'w conf_sys"
  we_mx :: "'w run_sys"
  we_sql :: sql_env

definition on_catalog :: "'a db \<Rightarrow> ('w, 'z, 'a) win" where
  "on_catalog m = (\<lambda>s. obind (m (wd_catalog s)) (\<lambda>(a, st). Ret (a, s\<lparr>wd_catalog := st\<rparr>)))"

definition say_status :: "string \<Rightarrow> ('w, 'z, unit) win" where
  "say_status m = ioupd (\<lambda>s. s\<lparr>wd_status := m\<rparr>)"

definition alert_box :: "string \<Rightarrow> ('w, 'z, unit) win" where
  "alert_box m = ioupd (\<lambda>s. s\<lparr>wd_alerts := wd_alerts s @ [m]\<rparr>)"

definition target :: "('w, 'z, string) win" where
  "target = ioget (\<lambda>s. op_target (wd_opts s))"

definition save_session :: "'w win_env \<Rightarrow> ('w, 'z, unit) win" where
  "save_session we = iob (ioget wd_opts) (\<lambda>o1. save_gui_session (we_conf we) o1)"

section \<open>The file system of the target\<close>

definition fstype_supported :: "string \<Rightarrow> bool" where
  "fstype_supported fs \<longleftrightarrow>
     to_lower fs \<in> {''vfat'', ''fat'', ''fat12'', ''fat16'', ''fat32'', ''exfat'', ''ntfs'', ''ntfs3'', ''ext2'', ''ext3'', ''ext4''}"

definition found_fs :: "bool \<Rightarrow> string \<Rightarrow> ('w, 'z, unit) win" where
  "found_fs ok fs = ioupd (\<lambda>s. s\<lparr>wd_fs_ok := ok, wd_fstype := fs\<rparr>)"

definition refresh_target_fs :: "'w win_env \<Rightarrow> string \<Rightarrow> ('w, 'z, unit) win" where
  "refresh_target_fs we hint =
     (if fstype_supported hint then found_fs True hint
      else
        iob (found_fs False []) (\<lambda>_.
        iob target (\<lambda>path.
        if path = [] then ioret ()
        else
          iob (dev_open (we_os we) path device_init) (\<lambda>(ok, d).
          if \<not> ok then found_fs (fstype_supported hint) hint
          else
            iob (detect_fs (pread_all (we_os we) d) 0) (\<lambda>(ft, _).
            iob (dev_close (we_os we) d) (\<lambda>_.
            if ft \<noteq> FsUnknown then found_fs True (fs_type_name ft)
            else if fstype_supported hint then found_fs True hint
            else found_fs False hint))))))"

section \<open>The manifest database\<close>

definition open_database :: "'w win_env \<Rightarrow> string \<Rightarrow> ('w, 'z, unit) win" where
  "open_database we path =
     (if path = [] then ioret ()
      else
        iob (if CHR ''/'' \<in> set path \<and> before_slash path \<noteq> [] then sysc (hs_mkdir (we_host we) (before_slash path)) else ioret ()) (\<lambda>_.
        iob (sysc (mx_db_file (we_mx we) path)) (\<lambda>found.
        iob (on_catalog (open_store (we_sql we) found path)) (\<lambda>r.
        case r of
          Some err \<Rightarrow> alert_box err
        | None \<Rightarrow>
            iob (on_catalog (sha1_valid_days (we_sql we))) (\<lambda>days.
            iob (ioupd (\<lambda>s. s\<lparr>wd_opts := (wd_opts s)\<lparr>op_sqlite_db := path, op_sha1_valid_days := days\<rparr>, wd_db_open := True\<rparr>)) (\<lambda>_.
            save_session we))))))"

definition close_browser :: "('w, 'z, unit) win" where
  "close_browser = ioupd (\<lambda>s. s\<lparr>wd_browser := False\<rparr>)"

definition close_database :: "'w win_env \<Rightarrow> ('w, 'z, unit) win" where
  "close_database we =
     iob (ioget wd_db_open) (\<lambda>open.
     if \<not> open then ioret ()
     else
       iob close_browser (\<lambda>_.
       iob (on_catalog close_store) (\<lambda>_.
       iob (ioupd (\<lambda>s. s\<lparr>wd_db_open := False, wd_opts := (wd_opts s)\<lparr>op_sqlite_db := []\<rparr>\<rparr>)) (\<lambda>_.
       save_session we))))"

definition maybe_open_builtin_manifest :: "'w win_env \<Rightarrow> ('w, 'z, unit) win" where
  "maybe_open_builtin_manifest we =
     iob target (\<lambda>dev.
     iob (ioget wd_db_explicit) (\<lambda>explicit.
     if explicit \<or> dev = [] then ioret ()
     else
       iob (find_builtin_manifest_db (we_host we) dev) (\<lambda>builtin.
       iob (ioget (\<lambda>s. wd_db_open s \<and> op_sqlite_db (wd_opts s) = builtin)) (\<lambda>same.
       if builtin = [] \<or> same then ioret ()
       else iob (open_database we builtin) (\<lambda>_. say_status (''Built-in manifest: '' @ builtin))))))"

text \<open>Where a new manifest goes: the one that is there, the target itself, its first mount, or the default.\<close>

definition without_slash :: "string \<Rightarrow> string" where
  "without_slash p = (if p \<noteq> [] \<and> last p = CHR ''/'' then butlast p else p)"

definition default_manifest :: "'w win_env \<Rightarrow> string \<Rightarrow> ('w, 'z, string) win" where
  "default_manifest we dev =
     iob (find_builtin_manifest_db (we_host we) dev) (\<lambda>path.
     if path \<noteq> [] then ioret path
     else
       iob (path_is_directory (we_host we) dev) (\<lambda>dir.
       if dir then ioret (without_slash dev @ ''/manifest.db'')
       else
         iob (find_mounts_for_device (we_host we) dev) (\<lambda>ms.
         if ms \<noteq> [] then ioret (without_slash (mr_target (hd ms)) @ ''/manifest.db'')
         else iob (sysc (mx_home (we_mx we))) (\<lambda>home. ioret (default_db_path home dev)))))"

definition on_db_create_default :: "'w win_env \<Rightarrow> bool \<Rightarrow> ('w, 'z, unit) win" where
  "on_db_create_default we running =
     (if running then ioret ()
      else
        iob target (\<lambda>dev.
        if dev = [] then alert_box ''Open a drive (disk, loop, or image) first.''
        else
          iob (default_manifest we dev) (\<lambda>path.
          iob (open_database we path) (\<lambda>_.
          iob (ioget wd_db_open) (\<lambda>open.
          if open then say_status (''Manifest: '' @ path) else ioret ())))))"

section \<open>Opening, closing and ejecting the target\<close>

text \<open>Whether a path is a directory or below it; \<open>realpath\<close> is asked for both.\<close>

definition below :: "string \<Rightarrow> string \<Rightarrow> bool" where
  "below p r \<longleftrightarrow> length r \<le> length p \<and> take (length r) p = r \<and> (length p = length r \<or> p ! length r = CHR ''/'')"

definition path_under :: "'w win_env \<Rightarrow> string \<Rightarrow> string \<Rightarrow> ('w, 'z, bool) win" where
  "path_under we path rt =
     (if rt = [] \<or> path = [] then ioret False
      else
        iob (real_or_self (we_host we) path) (\<lambda>p.
        iob (real_or_self (we_host we) rt) (\<lambda>r.
        ioret (below p r))))"

fun under_mounts :: "'w win_env \<Rightarrow> string \<Rightarrow> mount_record list \<Rightarrow> ('w, 'z, bool) win" where
  "under_mounts we db [] = ioret False"
| "under_mounts we db (m # ms) =
     iob (if mr_target m \<noteq> [] then path_under we db (mr_target m) else ioret False) (\<lambda>hit.
     if hit then ioret True else under_mounts we db ms)"

definition manifest_on_target :: "'w win_env \<Rightarrow> ('w, 'z, bool) win" where
  "manifest_on_target we =
     iob (ioget (\<lambda>s. (wd_db_open s, op_sqlite_db (wd_opts s), op_target (wd_opts s)))) (\<lambda>(open, db, dev).
     if \<not> open \<or> db = [] \<or> dev = [] then ioret False
     else
       iob (path_is_directory (we_host we) dev) (\<lambda>dir.
       iob (if dir then path_under we db dev else ioret False) (\<lambda>inside.
       if inside then ioret True
       else
         iob (find_builtin_manifest_db (we_host we) dev) (\<lambda>builtin.
         iob (if builtin = [] then ioret False
              else
                iob (real_or_self (we_host we) db) (\<lambda>a.
                iob (real_or_self (we_host we) builtin) (\<lambda>b. ioret (a = b)))) (\<lambda>same.
         if same then ioret True
         else
           iob (find_mounts_for_device (we_host we) dev) (\<lambda>ms. under_mounts we db ms))))))"

text \<open>The menus of drives: entries with the id of the device, and the recent targets.\<close>

definition device_id_max :: nat where
  "device_id_max = 500"

definition device_label :: "block_dev_info \<Rightarrow> string" where
  "device_label d =
     bd_path d @ (if bd_label d \<noteq> [] then ''   '' @ bd_label d else []) @ (if bd_fstype d \<noteq> [] then ''   '' @ bd_fstype d else []) @
     (if bd_size d \<noteq> [] then ''   '' @ bd_size d else []) @ (if bd_mountpoint d \<noteq> [] then ''   ['' @ bd_mountpoint d @ '']'' else [])"

text \<open>The disks, the loop devices and the table that the ids point into.\<close>

type_synonym drive_menus = "(nat \<times> string) list \<times> (nat \<times> string) list \<times> block_dev_info list"

fun append_dev :: "block_dev_info \<Rightarrow> drive_menus \<Rightarrow> drive_menus" where
  "append_dev d (disks, loops, table) =
     (if device_id_max \<le> length table then (disks, loops, table)
      else if device_group_label d = ''Loop'' then (disks, loops @ [(length table, device_label d)], table @ [d])
      else (disks @ [(length table, device_label d)], loops, table @ [d]))"

definition fill_devices :: "block_dev_info list \<Rightarrow> drive_menus" where
  "fill_devices ds = fold append_dev ds ([], [], [])"

definition fill_drive_menu :: "'w win_env \<Rightarrow> ('w, 'z, (nat \<times> string) list \<times> (nat \<times> string) list \<times> string list) win" where
  "fill_drive_menu we =
     iob (list_block_devices (we_host we)) (\<lambda>ds.
     let (disks, loops, table) = fill_devices ds in
     iob (ioupd (\<lambda>s. s\<lparr>wd_devices := table\<rparr>)) (\<lambda>_.
     iob (load_recent_targets (we_conf we) 12) (\<lambda>recent.
     ioret (disks, loops, take 100 recent))))"

text \<open>The status that \<open>set_running_ui\<close> leaves when no run is going on.\<close>

definition blocked_status :: "('w, 'z, unit) win" where
  "blocked_status =
     ioupd (\<lambda>s. if op_mode (wd_opts s) = RunRecursive \<and> \<not> wd_fs_ok s \<and> op_target (wd_opts s) \<noteq> []
       then s\<lparr>wd_status := ''Files mode: filesystem not supported''\<rparr> else s)"

definition open_target :: "'w win_env \<Rightarrow> string \<Rightarrow> string \<Rightarrow> ('w, 'z, unit) win" where
  "open_target we path hint =
     iob target (\<lambda>old.
     iob (if path \<noteq> old then close_browser else ioret ()) (\<lambda>_.
     iob (ioupd (\<lambda>s. s\<lparr>wd_opts := (wd_opts s)\<lparr>op_target := path\<rparr>\<rparr>)) (\<lambda>_.
     iob (refresh_target_fs we hint) (\<lambda>_.
     iob (remember_recent_target (we_conf we) path 12) (\<lambda>_.
     iob (fill_drive_menu we) (\<lambda>_.
     iob (maybe_open_builtin_manifest we) (\<lambda>_.
     iob (say_status (''Target: '' @ path)) (\<lambda>_.
     iob blocked_status (\<lambda>_.
     save_session we)))))))))"

definition on_device_pick :: "'w win_env \<Rightarrow> bool \<Rightarrow> nat \<Rightarrow> ('w, 'z, unit) win" where
  "on_device_pick we running idx =
     iob (ioget wd_devices) (\<lambda>ds.
     if running \<or> length ds \<le> idx then ioret () else open_target we (bd_path (ds ! idx)) (bd_fstype (ds ! idx)))"

definition on_recent_pick :: "'w win_env \<Rightarrow> bool \<Rightarrow> nat \<Rightarrow> ('w, 'z, unit) win" where
  "on_recent_pick we running idx =
     (if running then ioret ()
      else iob (load_recent_targets (we_conf we) 12) (\<lambda>recent.
           if length recent \<le> idx then ioret () else open_target we (recent ! idx) []))"

text \<open>What \<open>close_target\<close> and \<open>eject_or_remove\<close> begin with.\<close>

definition leave_manifest :: "'w win_env \<Rightarrow> ('w, 'z, unit) win" where
  "leave_manifest we =
     iob close_browser (\<lambda>_.
     iob (manifest_on_target we) (\<lambda>on.
     if on then close_database we else ioret ()))"

definition close_target :: "'w win_env \<Rightarrow> bool \<Rightarrow> ('w, 'z, unit) win" where
  "close_target we running =
     (if running then ioret ()
      else
        iob (leave_manifest we) (\<lambda>_.
        iob (ioupd (\<lambda>s. s\<lparr>wd_opts := (wd_opts s)\<lparr>op_target := []\<rparr>, wd_fs_ok := False, wd_fstype := [],
               wd_status := ''No target''\<rparr>)) (\<lambda>_.
        save_session we)))"

text \<open>The call that makes the medium go, and what is said about it.\<close>

definition send_away :: "'w win_env \<Rightarrow> bool \<Rightarrow> string \<Rightarrow> ('w, 'z, bool \<times> string) win" where
  "send_away we power_off dev =
     (if power_off then safely_remove_device (we_host we) dev [] else eject_device (we_host we) dev [])"

definition tell_sent :: "bool \<Rightarrow> string \<Rightarrow> bool \<Rightarrow> string \<Rightarrow> ('w, 'z, unit) win" where
  "tell_sent power_off dev ok err =
     (if \<not> ok then
        iob (alert_box (if err = [] then (if power_off then ''Safely remove failed.'' else ''Eject failed.'') else err)) (\<lambda>_.
        say_status (if power_off then ''Safely remove failed'' else ''Eject failed''))
      else say_status ((if power_off then ''Safely removed: '' else ''Ejected: '') @ dev))"

definition eject_or_remove :: "'w win_env \<Rightarrow> bool \<Rightarrow> bool \<Rightarrow> ('w, 'z, unit) win" where
  "eject_or_remove we running power_off =
     iob target (\<lambda>dev.
     if running \<or> dev = [] then ioret ()
     else
       iob (leave_manifest we) (\<lambda>_.
       iob (send_away we power_off dev) (\<lambda>(ok, err).
       iob (close_target we running) (\<lambda>_. tell_sent power_off dev ok err))))"

section \<open>The list of bad blocks\<close>

text \<open>The block numbers that are written for one extent, and for all.\<close>

definition blocks_of :: "u64 \<Rightarrow> extent_record \<Rightarrow> u64 list" where
  "blocks_of bs e =
     (let start = word_of_int (er_offset e) div bs; stop = (word_of_int (er_offset e + er_length e) + bs - 1) div bs
      in map u64_of [unat start..<unat stop])"

definition bad_blocks :: "u64 \<Rightarrow> extent_record list \<Rightarrow> u64 list" where
  "bad_blocks bs0 es = (let bs = (if bs0 = 0 then 512 else bs0) in concat (map (blocks_of bs) es))"

definition bad_block_text :: "u64 \<Rightarrow> extent_record list \<Rightarrow> string" where
  "bad_block_text bs es = concat (map (\<lambda>b. show_u64 b @ [CHR 0x0A]) (bad_blocks bs es))"

section \<open>The ids of the menus\<close>

definition names_devices :: "(nat \<times> string) list \<Rightarrow> block_dev_info list \<Rightarrow> bool \<Rightarrow> bool" where
  "names_devices items table is_loop \<longleftrightarrow>
     set items = {(i, device_label (table ! i)) |i. i < length table \<and> (device_group_label (table ! i) = ''Loop'') = is_loop}"

lemma names_none: "names_devices [] [] b"
  by (simp add: names_devices_def)

lemma pairs_snoc:
  "{(i, f ((xs @ [x]) ! i)) |i. i < length (xs @ [x]) \<and> Q ((xs @ [x]) ! i)} =
   {(i, f (xs ! i)) |i. i < length xs \<and> Q (xs ! i)} \<union> (if Q x then {(length xs, f x)} else {})"
  (is "?L = ?R")
proof (rule set_eqI)
  fix z
  have old: "z = (i, f ((xs @ [x]) ! i)) \<and> i < length xs \<and> Q ((xs @ [x]) ! i) \<longleftrightarrow> z = (i, f (xs ! i)) \<and> i < length xs \<and> Q (xs ! i)" for i
    by (cases "i < length xs") (simp_all add: nth_append)
  have "z \<in> ?L \<longleftrightarrow> (\<exists>i. z = (i, f ((xs @ [x]) ! i)) \<and> (i = length xs \<or> i < length xs) \<and> Q ((xs @ [x]) ! i))"
    by (simp add: less_Suc_eq disj_commute)
  also have "\<dots> \<longleftrightarrow> z = (length xs, f x) \<and> Q x \<or> (\<exists>i. z = (i, f ((xs @ [x]) ! i)) \<and> i < length xs \<and> Q ((xs @ [x]) ! i))"
    by (simp add: conj_disj_distribL conj_disj_distribR ex_disj_distrib)
  also have "\<dots> \<longleftrightarrow> z \<in> ?R" unfolding old by auto
  finally show "z \<in> ?L \<longleftrightarrow> z \<in> ?R" .
qed

lemma names_more:
  assumes "names_devices items table b"
  shows "(device_group_label d = ''Loop'') = b \<Longrightarrow> names_devices (items @ [(length table, device_label d)]) (table @ [d]) b"
    and "(device_group_label d = ''Loop'') \<noteq> b \<Longrightarrow> names_devices items (table @ [d]) b"
  using assms unfolding names_devices_def pairs_snoc [where f = device_label and Q = "\<lambda>x. (device_group_label x = ''Loop'') = b"]
  by (simp_all only: set_append list.set if_True if_False Un_empty_right simp_thms)

lemma append_all_devs:
  assumes "names_devices disks0 table0 False" and "names_devices loops0 table0 True" and "length table0 \<le> device_id_max"
  shows "case fold append_dev ds (disks0, loops0, table0) of (disks, loops, table) \<Rightarrow>
    table = table0 @ take (device_id_max - length table0) ds \<and> names_devices disks table False \<and> names_devices loops table True"
  using assms
proof (induction ds arbitrary: disks0 loops0 table0)
  case (Cons d ds)
  show ?case
  proof (cases "device_id_max \<le> length table0")
    case True
    then show ?thesis using Cons.IH [of disks0 table0 loops0] Cons.prems by simp
  next
    case False
    then have take: "take (device_id_max - length table0) (d # ds) = d # take (device_id_max - Suc (length table0)) ds"
      by (simp add: take_Cons' Suc_diff_Suc)
    note more = names_more [OF Cons.prems(1), of d] names_more [OF Cons.prems(2), of d]
    show ?thesis
    proof (cases "device_group_label d = ''Loop''")
      case True
      then show ?thesis
        using Cons.IH [of disks0 "table0 @ [d]" "loops0 @ [(length table0, device_label d)]"] more False take by simp
    next
      case not_loop: False
      then show ?thesis
        using Cons.IH [of "disks0 @ [(length table0, device_label d)]" "table0 @ [d]" loops0] more False take by simp
    qed
  qed
qed simp

text \<open>The ids of the two drive menus point at the devices that their entries name: the table holds the
  first 500 devices in the order of the system, every one of them has an entry with its own label, and
  it is in the menu of loop devices exactly when it is one.\<close>

theorem menu_ids_name_devices:
  "case fill_devices ds of (disks, loops, table) \<Rightarrow>
     table = take 500 ds \<and> names_devices disks table False \<and> names_devices loops table True"
  using append_all_devs [OF names_none names_none, of ds] by (simp add: fill_devices_def device_id_max_def split: prod.splits)

section \<open>The bad blocks\<close>

lemma ceil_bound: "0 < b \<Longrightarrow> x < (n + b - 1) div b \<longleftrightarrow> x * b < n" for x n b :: nat
  using ceil_div_le_iff [of b n x] unfolding ceil_div_def by (metis not_le)

lemma floor_bound: "0 < b \<Longrightarrow> n div b \<le> x \<longleftrightarrow> n < (x + 1) * b" for x n b :: nat
proof -
  assume "0 < b"
  then have "n div b < x + 1 \<longleftrightarrow> n < (x + 1) * b" by (rule div_less_iff_less_mult)
  then show ?thesis by linarith
qed

lemma unat_of_int_u64: "0 \<le> k \<Longrightarrow> k < 18446744073709551616 \<Longrightarrow> unat (word_of_int k :: u64) = nat k"
  by (simp add: unat_eq_nat_uint uint_word_of_int)

lemma blocks_of_values:
  assumes "bs \<noteq> 0" and "0 \<le> er_offset e" and "0 \<le> er_length e" and "er_offset e + er_length e + int (unat bs) \<le> 18446744073709551616"
  shows "map unat (blocks_of bs e) =
    [nat (er_offset e) div unat bs..<(nat (er_offset e) + nat (er_length e) + unat bs - 1) div unat bs]"
proof -
  let ?o = "nat (er_offset e)" and ?l = "nat (er_length e)"
  have pos: "0 < unat bs" using assms(1) by (simp add: unat_gt_0)
  have o: "unat (word_of_int (er_offset e) :: u64) = ?o"
    using assms pos by (intro unat_of_int_u64) linarith+
  have fit: "?o + ?l < 18446744073709551616" "?o + ?l + unat bs \<le> 18446744073709551616"
    using assms pos by linarith+
  have ol: "unat (word_of_int (er_offset e + er_length e) :: u64) = ?o + ?l"
  proof (subst unat_of_int_u64)
    show "er_offset e + er_length e < 18446744073709551616" using assms pos by linarith
  qed (use assms in \<open>simp_all add: nat_add_distrib\<close>)
  have start: "unat (word_of_int (er_offset e) div bs) = ?o div unat bs" using o by (simp add: unat_div)
  have stop: "unat ((word_of_int (er_offset e + er_length e) + bs - 1) div bs) = (?o + ?l + unat bs - 1) div unat bs"
    using unat_ceil_div_u64 [of "word_of_int (er_offset e + er_length e)" bs] ol fit assms(1) by (simp add: ceil_div_def)
  have "map unat (blocks_of bs e) = map (\<lambda>n. unat (u64_of n)) [?o div unat bs..<(?o + ?l + unat bs - 1) div unat bs]"
    unfolding blocks_of_def Let_def start stop by (simp add: comp_def)
  also have "\<dots> = [?o div unat bs..<(?o + ?l + unat bs - 1) div unat bs]"
  proof (rule map_idI)
    fix n assume "n \<in> set [?o div unat bs..<(?o + ?l + unat bs - 1) div unat bs]"
    then have "n < 18446744073709551616"
      using fit(2) pos by (auto intro: less_le_trans [OF _ order_trans [OF div_le_dividend]])
    then show "unat (u64_of n) = n" by simp
  qed
  finally show ?thesis .
qed



section \<open>The manifest is released before the medium goes\<close>

text \<open>A routine that asks the outside world keeps what does not depend on it.\<close>

definition worldly :: "(('w, 'z) mach_scheme \<Rightarrow> bool) \<Rightarrow> bool" where
  "worldly P \<longleftrightarrow> (\<forall>s w. P s \<longrightarrow> P (s\<lparr>world := w\<rparr>))"

lemma sysc_worldly [stays_intros]: "worldly P \<Longrightarrow> stays t k P (sysc f)"
  by (simp add: stays_def worldly_def split_def)

lemma mkdir_p_worldly: "worldly P \<Longrightarrow> stays t k P (mkdir_p cs dir)"
proof (induction cs dir rule: mkdir_p.induct)
  case (1 cs dir)
  show ?case by (subst mkdir_p.simps) (intro stays_intros 1)
qed

lemma conf_puts_worldly: "worldly P \<Longrightarrow> stays t k P (conf_puts cs path kvs)"
  by (induction cs path kvs rule: conf_puts.induct) (unfold conf_puts.simps, (intro stays_intros; simp)+)

lemma save_session_worldly: "worldly P \<Longrightarrow> stays t k P (save_session we)"
  unfolding save_session_def save_gui_session_def gui_session_path_def config_dir_def conf_save_def mkdir_p_parent_def
  by (intro stays_intros conf_puts_worldly mkdir_p_worldly)

definition released :: "('w, 'z) window_scheme \<Rightarrow> bool" where
  "released s \<longleftrightarrow> \<not> wd_browser s \<and> \<not> wd_db_open s \<and> \<not> st_open (wd_catalog s) \<and> op_sqlite_db (wd_opts s) = []"

lemma close_database_releases:
  "wd_db_open s \<Longrightarrow> twp (close_database we) (\<lambda>_ s'. released s' \<and> op_target (wd_opts s') = op_target (wd_opts s)) s"
  unfolding close_database_def close_browser_def on_catalog_def close_store_def
  by (simp add: iob_def ioget_def ioupd_def wpx_def obind_def)
    (rule stays_wpx [OF save_session_worldly, unfolded wpx_def], auto simp: worldly_def released_def)

text \<open>What the host says about a target: the mounts it has, whether it is a directory, and its manifest.\<close>

definition host_says :: "'w host \<Rightarrow> string \<Rightarrow> mount_record list \<Rightarrow> bool \<Rightarrow> string \<Rightarrow> ('w, 'z) window_scheme itself \<Rightarrow> bool" where
  "host_says hs dev ms dir builtin T \<longleftrightarrow>
     (\<forall>s :: ('w, 'z) window_scheme. find_mounts_for_device hs dev s = Ret (ms, s) \<and> path_is_directory hs dev s = Ret (dir, s) \<and>
        find_builtin_manifest_db hs dev s = Ret (builtin, s) \<and> (\<forall>p. real_or_self hs p s = Ret (p, s)))"

lemma below_itself: "below p p"
  by (simp add: below_def)

lemma under_mounts_iff:
  assumes "\<And>p. real_or_self (we_host we) p s = Ret (p, s)" and "db \<noteq> []"
  shows "under_mounts we db ms s = Ret ((\<exists>m \<in> set ms. mr_target m \<noteq> [] \<and> below db (mr_target m)), s)"
  by (induction ms) (auto simp: iob_def ioret_def obind_def path_under_def assms)

lemma manifest_on_target_iff:
  assumes "host_says (we_host we) (op_target (wd_opts s)) ms dir builtin TYPE(('w, 'z) window_scheme)"
    and "wd_db_open s" and "op_sqlite_db (wd_opts s) \<noteq> []" and "op_target (wd_opts s) \<noteq> []"
  shows "manifest_on_target we (s :: ('w, 'z) window_scheme) =
    Ret ((dir \<and> below (op_sqlite_db (wd_opts s)) (op_target (wd_opts s)) \<or> builtin \<noteq> [] \<and> op_sqlite_db (wd_opts s) = builtin \<or>
      (\<exists>m \<in> set ms. mr_target m \<noteq> [] \<and> below (op_sqlite_db (wd_opts s)) (mr_target m))), s)"
  using assms by (auto simp: manifest_on_target_def iob_def ioget_def ioret_def obind_def host_says_def path_under_def under_mounts_iff)


text \<open>A disk with one mount, and a manifest on it.\<close>

definition mounted_host :: "'w host" where
  "mounted_host = ram_host\<lparr>hs_proc_mounts := \<lambda>w. (''/dev/sda /mnt ext4 rw'', w), hs_stat := \<lambda>p w. (None, w)\<rparr>"

definition blank_conf :: "'w conf_sys" where
  "blank_conf = \<lparr>cf_getenv = \<lambda>k w. (None, w), cf_exists = \<lambda>p w. (False, w), cf_mkdir = \<lambda>p w. ((), w), cf_read_str = \<lambda>p k w. (None, w),
     cf_read_num = \<lambda>p k w. (None, w), cf_write = \<lambda>p k x w. ((), w), cf_flush = \<lambda>p w. ((), w)\<rparr>"

definition mounted_env :: "bytes win_env" where
  "mounted_env = \<lparr>we_os = ram_sys, we_host = mounted_host, we_conf = blank_conf,
     we_mx = \<lparr>mx_home = \<lambda>w. (None, w), mx_db_file = \<lambda>p w. (Inl ''cannot open'', w), mx_errno = \<lambda>w. ([], w), mx_sync_polls = \<lambda>w. (0, w)\<rparr>,
     we_sql = \<lparr>se_prep = \<lambda>_. None, se_step = \<lambda>_. None, se_now = \<lambda>_. 0, se_check = \<lambda>_. []\<rparr>\<rparr>"

definition mounted_window :: "bytes window" where
  "mounted_window = \<lparr>world = [], wd_opts = options_init\<lparr>op_target := ''/dev/sda'', op_sqlite_db := ''/mnt/manifest.db''\<rparr>,
     wd_catalog = new_store, wd_db_open = True, wd_db_explicit = False, wd_fs_ok = True, wd_fstype = ''ext4'', wd_browser = True,
     wd_devices = [], wd_status = [], wd_alerts = []\<rparr>"

lemma mounted_host_says:
  "host_says mounted_host ''/dev/sda'' [record_of_mount ''/dev/sda'' ''/mnt'' ''ext4'' ''rw'' False] False [] T"
proof -
  have kinds: "path_is_regular_file mounted_host p s = Ret (False, s)" "path_is_block mounted_host p s = Ret (False, s)"
    "path_is_directory mounted_host p s = Ret (False, s)" "real_or_self mounted_host p s = Ret (p, s)"
    for p and s :: "('a, 'b) window_scheme"
    by (simp_all add: path_is_regular_file_def path_is_block_def path_is_directory_def real_or_self_def
        is_kind_def iob_def sysc_def mounted_host_def ram_host_def)
  have calls: "sysc (hs_proc_mounts mounted_host) s = Ret (''/dev/sda /mnt ext4 rw'', s)" "sysc (hs_readable mounted_host p) s = Ret (False, s)"
    for p and s :: "('a, 'b) window_scheme"
    by (simp_all add: sysc_def mounted_host_def ram_host_def)
  have found: "find_mounts_for_device mounted_host ''/dev/sda'' s = Ret ([record_of_mount ''/dev/sda'' ''/mnt'' ''ext4'' ''rw'' False], s)"
    for s :: "('a, 'b) window_scheme"
    by (simp add: find_mounts_for_device_def iob_def kinds calls getlines_def mount_of_line_def tokens_def is_space_def
        is_related_device_def record_of_mount_def map_filter_simps)
  show ?thesis
    by (simp add: host_says_def found kinds find_builtin_manifest_db_def iob_def manifest_at_def calls record_of_mount_def Let_def)
qed

lemma mounted_state:
  "we_host mounted_env = mounted_host" "op_target (wd_opts mounted_window) = ''/dev/sda''"
  "op_sqlite_db (wd_opts mounted_window) = ''/mnt/manifest.db''" "wd_db_open mounted_window"
  by (simp_all add: mounted_env_def mounted_window_def)


text \<open>The comparison misses a mount at the root: no path is below it.\<close>

lemma nothing_below_root: "\<not> below ''/manifest.db'' ''/''"
  by (simp add: below_def)

end
