(* ===== verification/Window.thy ===== *)
theory Window
  imports Target
begin

text \<open>
  The handlers of the main window that change its settings, ask for files, or open the browser, and how
  the window begins (\<open>src/gui/main_frame.cpp\<close>), on the state of \<open>Target\<close>.  The answers of dialogs are
  arguments; so is whether the user may mount file systems, and what a choice in a popped up menu does.
\<close>

section \<open>Settings\<close>

definition set_opts :: "(options \<Rightarrow> options) \<Rightarrow> ('w, 'z, unit) win" where
  "set_opts f = ioupd (\<lambda>s. s\<lparr>wd_opts := f (wd_opts s)\<rparr>)"

definition on_edit_dry_run :: "'w win_env \<Rightarrow> bool \<Rightarrow> ('w, 'z, unit) win" where
  "on_edit_dry_run we checked =
     iob (set_opts (\<lambda>o1. o1\<lparr>op_dry_run := checked\<rparr>)) (\<lambda>_.
     iob (say_status (if checked then ''Dry-run (read only)'' else ''Dry-run off'')) (\<lambda>_.
     save_session we))"

fun cache_status :: "write_cache_mode \<Rightarrow> string" where
  "cache_status WriteThrough = ''Write through''"
| "cache_status CacheMincore = ''Flush detect: mincore''"
| "cache_status CacheCachestat = ''Flush detect: cachestat''"

definition on_edit_write_cache :: "'w win_env \<Rightarrow> write_cache_mode \<Rightarrow> ('w, 'z, unit) win" where
  "on_edit_write_cache we m =
     iob (set_opts (\<lambda>o1. o1\<lparr>op_write_cache := m\<rparr>)) (\<lambda>_.
     iob (say_status (cache_status m)) (\<lambda>_.
     save_session we))"

definition on_edit_verify_writes :: "'w win_env \<Rightarrow> bool \<Rightarrow> ('w, 'z, unit) win" where
  "on_edit_verify_writes we checked =
     iob (set_opts (\<lambda>o1. o1\<lparr>op_verify_writes := checked\<rparr>)) (\<lambda>_.
     iob (say_status (if checked then ''Verify writes on'' else ''Verify writes off'')) (\<lambda>_.
     save_session we))"

text \<open>The controls of the preferences when they are left with OK.\<close>

record prefs_controls =
  pc_days :: int
  pc_block :: int
  pc_poll :: int
  pc_verify :: bool
  pc_dry :: bool
  pc_cache :: nat
  pc_files :: bool

definition cache_choice :: "nat \<Rightarrow> write_cache_mode" where
  "cache_choice n = (if n = 0 then WriteThrough else if n = 2 then CacheMincore else CacheCachestat)"

text \<open>\<open>yes\<close> is the answer to the warning, which is asked for when the mode of files is chosen anew.\<close>

definition new_mode :: "prefs_controls \<Rightarrow> bool \<Rightarrow> run_mode \<Rightarrow> run_mode" where
  "new_mode c yes old = (if \<not> pc_files c then RunLinear else if old \<noteq> RunRecursive \<and> \<not> yes then old else RunRecursive)"

definition prefs_opts :: "prefs_controls \<Rightarrow> bool \<Rightarrow> options \<Rightarrow> options" where
  "prefs_opts c yes o1 =
     o1\<lparr>op_sha1_valid_days := pc_days c, op_block_size := word_of_int (pc_block c), op_flush_poll_ms := pc_poll c,
        op_verify_writes := pc_verify c, op_dry_run := pc_dry c, op_write_cache := cache_choice (pc_cache c),
        op_mode := new_mode c yes (op_mode o1)\<rparr>"

definition prefs_effects :: "'w win_env \<Rightarrow> prefs_controls \<Rightarrow> ('w, 'z, unit) win" where
  "prefs_effects we c =
     iob (ioget wd_db_open) (\<lambda>open.
     iob (if open then on_catalog (set_sha1_valid_days (we_sql we) (pc_days c)) else ioret None) (\<lambda>r.
     iob (case r of Some err \<Rightarrow> alert_box err | None \<Rightarrow> ioret ()) (\<lambda>_.
     iob (say_status (''Preferences saved (SHA-1 '' @ show_int (pc_days c) @ '' days, poll '' @ show_int (pc_poll c) @ '' ms)'')) (\<lambda>_.
     blocked_status))))"

definition on_edit_prefs :: "'w win_env \<Rightarrow> prefs_controls \<Rightarrow> bool \<Rightarrow> ('w, 'z, unit) win" where
  "on_edit_prefs we c yes =
     iob (set_opts (prefs_opts c yes)) (\<lambda>_.
     iob (prefs_effects we c) (\<lambda>_.
     save_session we))"

section \<open>Files, menus and the browser\<close>

definition on_image_file :: "'w win_env \<Rightarrow> bool \<Rightarrow> string option \<Rightarrow> ('w, 'z, unit) win" where
  "on_image_file we running answer =
     (if running then ioret () else case answer of None \<Rightarrow> ioret () | Some path \<Rightarrow> open_target we path [])"

definition on_db_open :: "'w win_env \<Rightarrow> bool \<Rightarrow> string option \<Rightarrow> ('w, 'z, unit) win" where
  "on_db_open we running answer =
     (if running then ioret () else case answer of None \<Rightarrow> ioret () | Some path \<Rightarrow> open_database we path)"

text \<open>The menu is filled for the popup, a choice in it is handled, and the menu of the window is filled.\<close>

definition on_drive_tool :: "'w win_env \<Rightarrow> bool \<Rightarrow> ('w, 'z, unit) win \<Rightarrow> ('w, 'z, unit) win" where
  "on_drive_tool we running choice =
     (if running then ioret ()
      else
        iob target (\<lambda>dev.
        if dev \<noteq> [] then close_target we running
        else
          iob (fill_drive_menu we) (\<lambda>_.
          iob choice (\<lambda>_.
          iob (fill_drive_menu we) (\<lambda>_. ioret ())))))"

definition on_manifest_tool :: "'w win_env \<Rightarrow> bool \<Rightarrow> string option \<Rightarrow> ('w, 'z, unit) win" where
  "on_manifest_tool we running answer =
     (if running then ioret ()
      else iob (ioget wd_db_open) (\<lambda>open. if open then close_database we else on_db_open we running answer))"

text \<open>Before the browser is opened there has to be a manifest: the one on the target, or one that is made.\<close>

definition need_manifest :: "'w win_env \<Rightarrow> string \<Rightarrow> ('w, 'z, bool) win" where
  "need_manifest we dev =
     iob (ioget wd_db_open) (\<lambda>open.
     if open then ioret True
     else
       iob (maybe_open_builtin_manifest we) (\<lambda>_.
       iob (ioget wd_db_open) (\<lambda>open.
       iob (if open then ioret () else iob (sysc (mx_home (we_mx we))) (\<lambda>home. open_database we (default_db_path home dev))) (\<lambda>_.
       ioget wd_db_open))))"

text \<open>What the browser is opened with: the folder, the device, its mounts and whether they go with it.\<close>

type_synonym browser_args = "string \<times> string \<times> mount_record list \<times> bool"

definition open_browser :: "'w win_env \<Rightarrow> string \<Rightarrow> ('w, 'z, browser_args option) win" where
  "open_browser we dev =
     iob (mount_for_browse (we_os we) (we_host we) dev []) (\<lambda>(ok, mounts, temp, err).
     if \<not> ok \<or> mounts = [] then
       iob (alert_box (if err = [] then ''Could not open the drive for browsing.'' else err)) (\<lambda>_. ioret None)
     else
       iob (path_is_directory (we_host we) dev) (\<lambda>dir.
       iob (ioupd (\<lambda>s. s\<lparr>wd_browser := True\<rparr>)) (\<lambda>_.
       iob (say_status (''Manifest & Files: '' @ dev)) (\<lambda>_.
       ioret (Some (mr_target (hd mounts), if dir then ([], [], False) else (dev, mounts, temp)))))))"

definition on_db_browser :: "'w win_env \<Rightarrow> bool \<Rightarrow> ('w, 'z, browser_args option) win" where
  "on_db_browser we mounts_ok =
     iob target (\<lambda>dev.
     if \<not> mounts_ok then
       iob (alert_box (''Browsing support is not set up yet.'' @ [CHR 0x0A] @
         ''Open Manifest '' @ [CHR 0xE2, CHR 0x86, CHR 0x92] @ '' User mounts support to finish setup.'')) (\<lambda>_. ioret None)
     else if dev = [] then iob (alert_box ''Open a drive (disk, loop, or image) first.'') (\<lambda>_. ioret None)
     else
       iob (need_manifest we dev) (\<lambda>open.
       if \<not> open then iob (alert_box ''Could not open or create a manifest database.'') (\<lambda>_. ioret None)
       else
         iob (ioget wd_browser) (\<lambda>there.
         if there then ioret None else open_browser we dev)))"

section \<open>The window begins\<close>

text \<open>The target of the session or of the command line; \<open>start\<close> is the start of a run.
  The widgets are built before; what they show is not part of the state here.\<close>

definition begin_target :: "'w win_env \<Rightarrow> ('w, 'z, unit) win \<Rightarrow> bool \<Rightarrow> ('w, 'z, unit) win" where
  "begin_target we start cli_target =
     iob target (\<lambda>dev.
     if dev = [] then ioret ()
     else
       iob (refresh_target_fs we []) (\<lambda>_.
       iob (remember_recent_target (we_conf we) dev 12) (\<lambda>_.
       iob (maybe_open_builtin_manifest we) (\<lambda>_.
       if cli_target then start else say_status (''Target: '' @ dev)))))"

definition window_begin :: "'w win_env \<Rightarrow> ('w, 'z, unit) win \<Rightarrow> options \<Rightarrow> ('w, 'z, unit) win" where
  "window_begin we start o1 =
     (let cli_target = op_target o1 \<noteq> [] in
      iob (ioupd (\<lambda>s. s\<lparr>wd_db_explicit := op_sqlite_db_explicit o1\<rparr>)) (\<lambda>_.
      iob (restore_gui_session (we_conf we) o1 cli_target (op_sqlite_db_explicit o1)) (\<lambda>o2.
      iob (set_opts (\<lambda>_. o2)) (\<lambda>_.
      iob (say_status ''Ready'') (\<lambda>_.
      iob blocked_status (\<lambda>_.
      iob (begin_target we start cli_target) (\<lambda>_.
      iob (ioget (\<lambda>s. (wd_db_open s, op_sqlite_db (wd_opts s)))) (\<lambda>(open, db).
      if \<not> open \<and> db \<noteq> [] then open_database we db else ioret ()))))))))"

section \<open>Preferences come back\<close>

text \<open>The ranges of the controls.\<close>

definition controls_in_range :: "prefs_controls \<Rightarrow> bool" where
  "controls_in_range c \<longleftrightarrow> 1 \<le> pc_days c \<and> pc_days c \<le> 3650 \<and> 0 \<le> pc_block c \<and> pc_block c \<le> 1048576 \<and>
     50 \<le> pc_poll c \<and> pc_poll c \<le> 60000"

definition savable_paths :: "options \<Rightarrow> bool" where
  "savable_paths o1 \<longleftrightarrow> op_target o1 \<noteq> [] \<and> op_sqlite_db o1 \<noteq> [] \<and> plain_text (op_target o1) \<and> plain_text (op_sqlite_db o1)"

lemma prefs_saveable: "controls_in_range c \<Longrightarrow> savable_paths o1 \<Longrightarrow> saveable (prefs_opts c yes o1)"
proof -
  assume c: "controls_in_range c" "savable_paths o1"
  have "nat (pc_block c) < nat 9223372036854775808" using c(1) by (subst nat_less_eq_zless) (simp_all add: controls_in_range_def)
  then show ?thesis
    using c by (simp add: controls_in_range_def savable_paths_def saveable_def prefs_opts_def unat_of_int_u64)
qed

lemma set_days_returns: "\<exists>r st'. set_sha1_valid_days e days st = Ret (r, st')"
proof -
  have tick: "replies False (\<lambda>_. True) tick" unfolding tick_def by (intro stays_intros stays_upd) simp
  have step: "replies False (\<lambda>_. True) (step_stmt e f)" for f
    unfolding step_stmt_def by (intro stays_intros tick; simp add: stays_upd)
  have "replies False (\<lambda>_. True) (set_sha1_valid_days e days)"
    unfolding set_sha1_valid_days_def set_meta_def run_stmt_def prepare_def by (intro stays_intros tick step)
  from repliesD [OF this] show ?thesis by auto
qed

lemma on_catalog_keeps:
  fixes w :: 'w
  assumes "\<And>st. \<exists>r st'. m st = Ret (r, st')"
  shows "replies False (\<lambda>s :: ('w, 'z) window_scheme. wd_opts s = o1 \<and> world s = w) (on_catalog m)"
  unfolding stays_def
proof (intro allI impI)
  fix s :: "('w, 'z) window_scheme" assume s: "wd_opts s = o1 \<and> world s = w"
  obtain r st where "m (wd_catalog s) = Ret (r, st)" using assms by blast
  then show "wpx False False (on_catalog m) (\<lambda>_ s. wd_opts s = o1 \<and> world s = w) s"
    using s by (simp add: on_catalog_def wpx_def)
qed

lemma effects_keep: "replies False (\<lambda>s. wd_opts s = o1 \<and> world s = w) (prefs_effects we c)"
  unfolding prefs_effects_def alert_box_def say_status_def blocked_status_def
  by (intro stays_intros stays_upd on_catalog_keeps set_days_returns) simp_all

lemma prefs_run:
  "\<exists>s1. on_edit_prefs we c yes s = save_session we s1 \<and> wd_opts s1 = prefs_opts c yes (wd_opts s) \<and> world s1 = world s"
proof -
  let ?s = "s\<lparr>wd_opts := prefs_opts c yes (wd_opts s)\<rparr>"
  obtain s1 where "prefs_effects we c ?s = Ret ((), s1)" "wd_opts s1 = prefs_opts c yes (wd_opts s)" "world s1 = world s"
    using repliesD [OF effects_keep [of "prefs_opts c yes (wd_opts s)" "world s" we c], of ?s] by auto
  then show ?thesis by (intro exI [of _ s1]) (simp add: on_edit_prefs_def set_opts_def iob_apply_Ret)
qed



end
