(* ===== verification/Browser.thy ===== *)
theory Browser
  imports Sha1Pass Session "HOL-Library.Multiset"
begin

text \<open>
  The listing of the browser (\<open>src/gui/browser.cpp\<close>): the rows of a folder, made of what the directory
  and the catalog hold, their order, and what the status column says.  Rows are kept in the order of
  their names, as a \<open>std::map\<close> keeps them; the drawing is left out.
\<close>

section \<open>Rows\<close>

record list_row =
  lr_name :: string
  lr_is_dir :: bool
  lr_in_fs :: bool
  lr_in_db :: bool
  lr_db :: dir_entry
  lr_abs :: string
  lr_db_path :: string
  lr_mtime :: int
  lr_order :: int

record fs_row =
  fr_name :: string
  fr_is_dir :: bool
  fr_in_fs :: bool
  fr_in_db :: bool
  fr_db :: dir_entry
  fr_size :: int
  fr_mtime :: int
  fr_order :: int

definition dir_entry_init :: dir_entry where
  "dir_entry_init = \<lparr>de_name = [], de_directory = False, de_id = 0, de_size = 0, de_sha1 = None,
     de_verify_status = VsUnknown, de_verified_at = 0\<rparr>"

definition fresh_row :: "string \<Rightarrow> fs_row" where
  "fresh_row k = \<lparr>fr_name = k, fr_is_dir = False, fr_in_fs = False, fr_in_db = False, fr_db = dir_entry_init,
     fr_size = 0, fr_mtime = 0, fr_order = 0\<rparr>"

text \<open>\<open>map[k]\<close>, changed: an element that is missing is made first.\<close>

fun edit_at :: "('a \<Rightarrow> string) \<Rightarrow> 'a \<Rightarrow> ('a \<Rightarrow> 'a) \<Rightarrow> string \<Rightarrow> 'a list \<Rightarrow> 'a list" where
  "edit_at key fresh f k [] = [f fresh]"
| "edit_at key fresh f k (x # xs) =
     (if k = key x then f x # xs
      else if k < key x then f fresh # x # xs
      else x # edit_at key fresh f k xs)"

definition join_root :: "string \<Rightarrow> string \<Rightarrow> string" where
  "join_root rt rel =
     (if rel = [] then rt
      else if rt \<noteq> [] \<and> last rt = CHR ''/'' then rt @ rel
      else rt @ ''/'' @ rel)"

definition db_path_for :: "string \<Rightarrow> string \<Rightarrow> string" where
  "db_path_for rel name = (if rel = [] then ''/'' @ name else ''/'' @ rel @ ''/'' @ name)"

definition hidden :: "bool \<Rightarrow> string \<Rightarrow> bool" where
  "hidden show_hidden name \<longleftrightarrow> \<not> show_hidden \<and> name \<noteq> [] \<and> hd name = CHR ''.''"

section \<open>A folder\<close>

text \<open>What the directory has: \<open>opendir\<close> may be refused (\<open>Inl True\<close>) or fail otherwise.\<close>

record file_stat =
  fs_dir :: bool
  fs_size :: int
  fs_mtime :: int

record 'w browse_sys =
  bs_opendir :: "string \<Rightarrow> 'w \<Rightarrow> (bool + fd) \<times> 'w"
  bs_readdir :: "fd \<Rightarrow> 'w \<Rightarrow> string option \<times> 'w"
  bs_closedir :: "fd \<Rightarrow> 'w \<Rightarrow> unit \<times> 'w"
  bs_stat :: "string \<Rightarrow> 'w \<Rightarrow> file_stat option \<times> 'w"

definition fs_entry :: "string \<Rightarrow> file_stat \<Rightarrow> fs_row list \<times> int \<Rightarrow> fs_row list \<times> int" where
  "fs_entry name st acc =
     (case acc of (rows, order) \<Rightarrow>
       (edit_at fr_name (fresh_row name)
          (\<lambda>r. r\<lparr>fr_name := name, fr_is_dir := fs_dir st, fr_in_fs := True,
             fr_size := (if fs_dir st then fr_size r else fs_size st), fr_mtime := fs_mtime st, fr_order := order\<rparr>)
          name rows, order + 1))"

fun fs_loop ::
  "nat \<Rightarrow> 'w browse_sys \<Rightarrow> bool \<Rightarrow> string \<Rightarrow> fd \<Rightarrow> fs_row list \<times> int \<Rightarrow> (('w, 'z) mach_scheme, fs_row list \<times> int) io" where
  "fs_loop 0 bs show_hidden dir d acc = iostuck"
| "fs_loop (Suc n) bs show_hidden dir d acc =
     iob (sysc (bs_readdir bs d)) (\<lambda>ent.
     case ent of
       None \<Rightarrow> ioret acc
     | Some name \<Rightarrow>
         if name = ''.'' \<or> name = ''..'' \<or> hidden show_hidden name then fs_loop n bs show_hidden dir d acc
         else
           iob (sysc (bs_stat bs (dir @ ''/'' @ name))) (\<lambda>st.
           fs_loop n bs show_hidden dir d (case st of None \<Rightarrow> acc | Some st \<Rightarrow> fs_entry name st acc)))"

definition db_entry :: "bool \<Rightarrow> dir_entry \<Rightarrow> fs_row list \<times> int \<Rightarrow> fs_row list \<times> int" where
  "db_entry show_hidden e acc =
     (if hidden show_hidden (de_name e) then acc
      else
        (case acc of (rows, order) \<Rightarrow>
          let in_fs = (\<exists>r \<in> set rows. fr_name r = de_name e \<and> fr_in_fs r) in
          (edit_at fr_name (fresh_row (de_name e))
             (\<lambda>r. let r = r\<lparr>fr_name := de_name e, fr_in_db := True, fr_db := e\<rparr> in
                if fr_in_fs r then r else r\<lparr>fr_is_dir := de_directory e, fr_size := de_size e, fr_order := order\<rparr>)
             (de_name e) rows, if in_fs then order else order + 1)))"

text \<open>The entries of the catalog by name: of two with one name the later one stays.\<close>

definition db_map :: "dir_entry list \<Rightarrow> dir_entry list" where
  "db_map es = fold (\<lambda>e. edit_at de_name e (\<lambda>_. e) (de_name e)) es []"

definition list_row_of :: "string \<Rightarrow> string \<Rightarrow> fs_row \<Rightarrow> list_row" where
  "list_row_of dir rel r =
     \<lparr>lr_name = fr_name r, lr_is_dir = fr_is_dir r, lr_in_fs = fr_in_fs r, lr_in_db = fr_in_db r,
      lr_db = (if fr_in_fs r \<and> \<not> fr_is_dir r then (fr_db r)\<lparr>de_size := fr_size r\<rparr> else fr_db r),
      lr_abs = dir @ ''/'' @ fr_name r, lr_db_path = db_path_for rel (fr_name r), lr_mtime = fr_mtime r,
      lr_order = fr_order r\<rparr>"

text \<open>The rows of the folder \<open>rel\<close> below \<open>rt\<close>, known to the catalog as \<open>i\<close>; none if it cannot be
  opened for lack of rights.\<close>

definition folder_rows ::
  "nat \<Rightarrow> 'w browse_sys \<Rightarrow> sql_env \<Rightarrow> bool \<Rightarrow> bool \<Rightarrow> string \<Rightarrow> string \<Rightarrow> int \<Rightarrow>
   (('w, 'z) engine_scheme, list_row list option) io" where
  "folder_rows fuel bs e has_store show_hidden rt rel i =
     (let dir = join_root rt rel in
      iob (if has_store \<and> (i \<noteq> 0 \<or> rel = []) then on_store (list_db_dir e i) else ioret ([], [])) (\<lambda>(es, _).
      iob (sysc (bs_opendir bs dir)) (\<lambda>d.
      iob (case d of
             Inl denied \<Rightarrow> ioret (if denied then None else Some ([], 0))
           | Inr d \<Rightarrow>
               iob (fs_loop fuel bs show_hidden dir d ([], 0)) (\<lambda>acc.
               iob (sysc (bs_closedir bs d)) (\<lambda>_. ioret (Some acc)))) (\<lambda>acc.
      ioret (case acc of
          None \<Rightarrow> None
        | Some acc \<Rightarrow> Some (map (list_row_of dir rel) (fst (fold (db_entry show_hidden) (db_map es) acc))))))))"

text \<open>The children of a folder in the tree: the directories on the disk and those of the catalog.\<close>

record tree_node =
  nd_rel :: string
  nd_folder_id :: int
  nd_on_disk :: bool

fun tree_loop ::
  "nat \<Rightarrow> 'w browse_sys \<Rightarrow> bool \<Rightarrow> string \<Rightarrow> fd \<Rightarrow> (string \<times> bool) list \<Rightarrow> (('w, 'z) mach_scheme, (string \<times> bool) list) io" where
  "tree_loop 0 bs show_hidden dir d names = iostuck"
| "tree_loop (Suc n) bs show_hidden dir d names =
     iob (sysc (bs_readdir bs d)) (\<lambda>ent.
     case ent of
       None \<Rightarrow> ioret names
     | Some name \<Rightarrow>
         if name = ''.'' \<or> name = ''..'' \<or> hidden show_hidden name then tree_loop n bs show_hidden dir d names
         else
           iob (sysc (bs_stat bs (dir @ ''/'' @ name))) (\<lambda>st.
           tree_loop n bs show_hidden dir d
             (case st of
                None \<Rightarrow> names
              | Some st \<Rightarrow> if fs_dir st then edit_at fst (name, True) (\<lambda>_. (name, True)) name names else names)))"

definition tree_children :: "string \<Rightarrow> bool \<Rightarrow> dir_entry list \<Rightarrow> (string \<times> bool) list \<Rightarrow> tree_node list" where
  "tree_children rel show_hidden es names =
     (let dirs = filter de_directory es;
          names = fold (\<lambda>e names. if hidden show_hidden (de_name e) then names
                    else edit_at fst (de_name e, False) id (de_name e) names) (db_map dirs) names
      in map (\<lambda>(name, there). \<lparr>nd_rel = (if rel = [] then name else rel @ ''/'' @ name),
           nd_folder_id = (case find (\<lambda>e. de_name e = name) (db_map dirs) of None \<Rightarrow> 0 | Some e \<Rightarrow> de_id e),
           nd_on_disk = there\<rparr>) names)"

definition populate_tree_children ::
  "nat \<Rightarrow> 'w browse_sys \<Rightarrow> sql_env \<Rightarrow> bool \<Rightarrow> bool \<Rightarrow> string \<Rightarrow> tree_node \<Rightarrow>
   (('w, 'z) engine_scheme, tree_node list option) io" where
  "populate_tree_children fuel bs e has_store show_hidden rt node =
     (let dir = join_root rt (nd_rel node) in
      iob (if has_store \<and> (nd_folder_id node \<noteq> 0 \<or> nd_rel node = []) then on_store (list_db_dir e (nd_folder_id node))
           else ioret ([], [])) (\<lambda>(es, _).
      iob (sysc (bs_opendir bs dir)) (\<lambda>d.
      case d of
        Inl denied \<Rightarrow> ioret (if denied then None else Some (tree_children (nd_rel node) show_hidden es []))
      | Inr d \<Rightarrow>
          iob (tree_loop fuel bs show_hidden dir d []) (\<lambda>names.
          iob (sysc (bs_closedir bs d)) (\<lambda>_.
          ioret (Some (tree_children (nd_rel node) show_hidden es names)))))))"

section \<open>Order\<close>

datatype arrange_by = ArrManual | ArrName | ArrSize | ArrType | ArrMtime

definition order3 :: "'a::linorder \<Rightarrow> 'a \<Rightarrow> int" where
  "order3 a b = (if a < b then -1 else if b < a then 1 else 0)"

definition after_last_dot :: "string \<Rightarrow> string" where
  "after_last_dot s = (if CHR ''.'' \<in> set s then rev (takeWhile (\<lambda>c. c \<noteq> CHR ''.'') (rev s)) else [])"

definition type_key :: "list_row \<Rightarrow> string" where
  "type_key r = (if lr_is_dir r then [] else to_lower (after_last_dot (lr_name r)))"

definition row_size :: "list_row \<Rightarrow> int" where
  "row_size r = (if lr_is_dir r then 0 else de_size (lr_db r))"

fun arranged :: "arrange_by \<Rightarrow> list_row \<Rightarrow> list_row \<Rightarrow> int" where
  "arranged ArrManual a b = lr_order a - lr_order b"
| "arranged ArrSize a b = order3 (row_size a) (row_size b)"
| "arranged ArrType a b = order3 (type_key a) (type_key b)"
| "arranged ArrMtime a b = order3 (lr_mtime a) (lr_mtime b)"
| "arranged ArrName a b = order3 (lr_name a) (lr_name b)"

definition row_less :: "arrange_by \<Rightarrow> bool \<Rightarrow> list_row \<Rightarrow> list_row \<Rightarrow> bool" where
  "row_less arr rv a b =
     (if lr_is_dir a \<noteq> lr_is_dir b then lr_is_dir a
      else
        let c = arranged arr a b;
            c = (if c = 0 then order3 (lr_name a) (lr_name b) else c)
        in if rv then 0 < c else c < 0)"

definition manual_less :: "list_row \<Rightarrow> list_row \<Rightarrow> bool" where
  "manual_less a b = (if lr_is_dir a \<noteq> lr_is_dir b then lr_is_dir a else lr_order a < lr_order b)"

text \<open>\<open>std::stable_sort\<close>: the result is determined by the order and the input.\<close>

fun insert_by :: "('a \<Rightarrow> 'a \<Rightarrow> bool) \<Rightarrow> 'a \<Rightarrow> 'a list \<Rightarrow> 'a list" where
  "insert_by lt x [] = [x]"
| "insert_by lt x (y # ys) = (if lt y x then y # insert_by lt x ys else x # y # ys)"

definition stable_sort :: "('a \<Rightarrow> 'a \<Rightarrow> bool) \<Rightarrow> 'a list \<Rightarrow> 'a list" where
  "stable_sort lt xs = foldr (insert_by lt) xs []"

definition sort_list_rows :: "arrange_by \<Rightarrow> bool \<Rightarrow> list_row list \<Rightarrow> list_row list" where
  "sort_list_rows arr rv rows = stable_sort (if arr = ArrManual \<and> \<not> rv then manual_less else row_less arr rv) rows"

section \<open>Status\<close>

definition mark_ok :: string where
  "mark_ok = [CHR 0xE2, CHR 0x9C, CHR 0x85]"

definition mark_bad :: string where
  "mark_bad = [CHR 0xE2, CHR 0x9D, CHR 0x8C]"

definition verify_ttl :: "int \<Rightarrow> int" where
  "verify_ttl months = max 1 months * 30 * 86400"

definition recent :: "int \<Rightarrow> int \<Rightarrow> dir_entry \<Rightarrow> bool" where
  "recent now ttl e \<longleftrightarrow> 0 < de_verified_at e \<and> now - de_verified_at e < ttl \<and> de_verify_status e \<noteq> VsUnknown"

definition row_status :: "int \<Rightarrow> int \<Rightarrow> list_row \<Rightarrow> string" where
  "row_status now ttl r =
     (let status = (if lr_in_fs r \<and> lr_in_db r then (if lr_is_dir r then [] else ''...'')
                    else if lr_in_fs r then ''new'' else ''missing'')
      in if lr_in_fs r \<and> lr_in_db r \<and> \<not> lr_is_dir r \<and> recent now ttl (lr_db r)
         then (if de_verify_status (lr_db r) = VsOk then mark_ok else mark_bad)
         else status)"

record verify_job =
  vj_gen :: nat
  vj_row :: nat
  vj_abs :: string
  vj_db_path :: string

definition wants_verify :: "int \<Rightarrow> int \<Rightarrow> list_row \<Rightarrow> bool" where
  "wants_verify now ttl r \<longleftrightarrow> lr_in_fs r \<and> lr_in_db r \<and> \<not> lr_is_dir r \<and> \<not> recent now ttl (lr_db r)"

definition verify_jobs :: "int \<Rightarrow> int \<Rightarrow> nat \<Rightarrow> list_row list \<Rightarrow> verify_job list" where
  "verify_jobs now ttl gen rows =
     map (\<lambda>(i, r). \<lparr>vj_gen = gen, vj_row = i, vj_abs = lr_abs r, vj_db_path = lr_db_path r\<rparr>)
       (filter (\<lambda>(i, r). wants_verify now ttl r) (enumerate 0 rows))"

section \<open>Lemmas: sorting\<close>

locale weak_order =
  fixes lt :: "'a \<Rightarrow> 'a \<Rightarrow> bool"
  assumes asym: "lt a b \<Longrightarrow> \<not> lt b a"
    and not_less_trans: "\<not> lt a b \<Longrightarrow> \<not> lt b c \<Longrightarrow> \<not> lt a c"
begin

lemma insert_mset: "mset (insert_by lt x xs) = add_mset x (mset xs)"
  by (induction xs) auto

lemma insert_set: "set (insert_by lt x xs) = insert x (set xs)"
  using insert_mset [of x xs] by (metis set_mset_add_mset_insert set_mset_mset)

lemma insert_sorted: "sorted_wrt (\<lambda>a b. \<not> lt b a) xs \<Longrightarrow> sorted_wrt (\<lambda>a b. \<not> lt b a) (insert_by lt x xs)"
  by (induction xs) (auto simp: insert_set dest: asym not_less_trans)

lemma insert_equal:
  "sorted_wrt (\<lambda>a b. \<not> lt b a) xs \<Longrightarrow> \<not> lt y x \<Longrightarrow> \<not> lt x y \<Longrightarrow>
   filter (\<lambda>z. \<not> lt y z \<and> \<not> lt z y) (insert_by lt x xs) = x # filter (\<lambda>z. \<not> lt y z \<and> \<not> lt z y) xs"
  by (induction xs) (auto dest: not_less_trans asym)

lemma insert_other:
  "lt y x \<or> lt x y \<Longrightarrow>
   filter (\<lambda>z. \<not> lt y z \<and> \<not> lt z y) (insert_by lt x xs) = filter (\<lambda>z. \<not> lt y z \<and> \<not> lt z y) xs"
  by (induction xs) auto

lemma sorts:
  "mset (stable_sort lt xs) = mset xs" "sorted_wrt (\<lambda>a b. \<not> lt b a) (stable_sort lt xs)"
  by (induction xs) (simp_all add: stable_sort_def insert_mset insert_sorted)

lemma stable: "filter (\<lambda>z. \<not> lt y z \<and> \<not> lt z y) (stable_sort lt xs) = filter (\<lambda>z. \<not> lt y z \<and> \<not> lt z y) xs"
proof (induction xs)
  case (Cons x xs)
  then show ?case
    using sorts(2) [of xs] by (cases "lt y x \<or> lt x y") (auto simp: stable_sort_def insert_equal insert_other)
qed (simp add: stable_sort_def)

lemma sorted_stays: "sorted_wrt (\<lambda>a b. \<not> lt b a) xs \<Longrightarrow> stable_sort lt xs = xs"
proof (induction xs)
  case (Cons x xs)
  then show ?case by (cases xs) (auto simp: stable_sort_def)
qed (simp add: stable_sort_def)

lemma sort_again: "stable_sort lt (stable_sort lt xs) = stable_sort lt xs"
  by (rule sorted_stays [OF sorts(2)])

end

lemma order3_simps [simp]:
  "order3 a b < 0 \<longleftrightarrow> a < b" "0 < order3 a b \<longleftrightarrow> b < a" "order3 a b = 0 \<longleftrightarrow> a = b"
  by (auto simp: order3_def)

lemma order3_neg: "order3 a b = - order3 b a"
  by (auto simp: order3_def)

interpretation rows: weak_order "row_less arr rv" for arr rv
proof
  fix a b c
  show "row_less arr rv a b \<Longrightarrow> \<not> row_less arr rv b a"
    by (cases arr) (auto simp: row_less_def Let_def split: if_splits)
  show "\<not> row_less arr rv a b \<Longrightarrow> \<not> row_less arr rv b c \<Longrightarrow> \<not> row_less arr rv a c"
    by (cases arr) (auto simp: row_less_def Let_def split: if_splits)
qed

interpretation manual: weak_order manual_less
  by unfold_locales (auto simp: manual_less_def split: if_splits)

section \<open>Lemmas: maps as sorted lists\<close>

definition named :: "('a \<Rightarrow> string) \<Rightarrow> 'a list \<Rightarrow> string \<Rightarrow> 'a option" where
  "named key xs k = find (\<lambda>x. key x = k) xs"

definition by_name :: "('a \<Rightarrow> string) \<Rightarrow> 'a list \<Rightarrow> bool" where
  "by_name key xs \<longleftrightarrow> sorted_wrt (<) (map key xs)"

lemma named_simps [simp]:
  "named key [] k = None" "named key (x # xs) k = (if key x = k then Some x else named key xs k)"
  by (simp_all add: named_def)

lemma named_Some_iff: "by_name key xs \<Longrightarrow> named key xs k = Some x \<longleftrightarrow> x \<in> set xs \<and> key x = k"
  by (induction xs) (auto simp: by_name_def)

lemma named_None_iff: "named key xs k = None \<longleftrightarrow> k \<notin> key ` set xs"
  by (auto simp: named_def find_None_iff)

definition gives_key :: "('a \<Rightarrow> string) \<Rightarrow> 'a \<Rightarrow> ('a \<Rightarrow> 'a) \<Rightarrow> string \<Rightarrow> bool" where
  "gives_key key fresh f k \<longleftrightarrow> key (f fresh) = k \<and> (\<forall>x. key x = k \<longrightarrow> key (f x) = k)"

lemma edit_at_keys:
  assumes "gives_key key fresh f k"
  shows "key ` set (edit_at key fresh f k xs) = insert k (key ` set xs)"
  using assms by (induction xs) (auto simp: gives_key_def)

lemma edit_at_sorted:
  assumes "gives_key key fresh f k" and "by_name key xs"
  shows "by_name key (edit_at key fresh f k xs)"
  using assms(2)
proof (induction xs)
  case (Cons x xs)
  have "key ` set (edit_at key fresh f k xs) = insert k (key ` set xs)" by (rule edit_at_keys [OF assms(1)])
  then show ?case using Cons assms(1) by (force simp: by_name_def gives_key_def image_iff)
qed (simp add: by_name_def)

lemma named_edit_at:
  assumes "gives_key key fresh f k" and "by_name key xs"
  shows "named key (edit_at key fresh f k xs) j =
    (if j = k then Some (f (case named key xs k of None \<Rightarrow> fresh | Some x \<Rightarrow> x)) else named key xs j)"
  using assms(2)
proof (induction xs)
  case (Cons x xs)
  have tl: "by_name key xs" "\<forall>y \<in> set xs. key x < key y" using Cons.prems by (auto simp: by_name_def)
  have "named key xs k = None" if "k < key x" using tl(2) that by (force simp: named_None_iff)
  have k: "key (f fresh) = k" "key x = k \<Longrightarrow> key (f x) = k" using assms(1) by (auto simp: gives_key_def)
  consider "k = key x" | "k < key x" | "key x < k" by force
  then show ?case
  proof cases
    case 3
    then show ?thesis using Cons.IH [OF tl(1)] by auto
  qed (use k \<open>k < key x \<Longrightarrow> named key xs k = None\<close> in auto)
qed (use assms(1) in \<open>simp add: gives_key_def\<close>)

section \<open>Rows are arranged\<close>

text \<open>C35: the rows of the list are those of the folder, directories before files in either direction, and in
  each group in the chosen order, by name where that leaves them equal.\<close>

theorem rows_arranged:
  "let rs = sort_list_rows arr rv rows in
    mset rs = mset rows \<and>
    sorted_wrt (\<lambda>a b. lr_is_dir b \<longrightarrow> lr_is_dir a) rs \<and>
    sorted_wrt (\<lambda>a b. lr_is_dir a = lr_is_dir b \<longrightarrow> (if rv then 0 \<le> arranged arr a b else arranged arr a b \<le> 0)) rs \<and>
    (arr \<noteq> ArrManual \<longrightarrow>
      sorted_wrt (\<lambda>a b. lr_is_dir a = lr_is_dir b \<and> arranged arr a b = 0 \<longrightarrow>
        (if rv then lr_name b \<le> lr_name a else lr_name a \<le> lr_name b)) rs)"
proof (cases "arr = ArrManual \<and> \<not> rv")
  case True
  note s = manual.sorts [of rows]
  show ?thesis
    using True by (auto simp: sort_list_rows_def Let_def s(1) manual_less_def intro!: sorted_wrt_mono_rel [OF _ s(2)] split: if_splits)
next
  case False
  note s = rows.sorts [of arr rv rows]
  have neg: "arranged arr b a = - arranged arr a b" for a b by (cases arr) (auto intro: order3_neg)
  have le: "lr_is_dir b \<longrightarrow> lr_is_dir a"
    "lr_is_dir a = lr_is_dir b \<longrightarrow> (if rv then 0 \<le> arranged arr a b else arranged arr a b \<le> 0)"
    "lr_is_dir a = lr_is_dir b \<and> arranged arr a b = 0 \<longrightarrow> (if rv then lr_name b \<le> lr_name a else lr_name a \<le> lr_name b)"
    if "\<not> row_less arr rv b a" for a b
    using that neg [of b a] by (auto simp: row_less_def Let_def split: if_splits)
  have lt: "sorted_wrt (\<lambda>a b. \<not> row_less arr rv b a) (sort_list_rows arr rv rows)"
    "mset (sort_list_rows arr rv rows) = mset rows"
    using False s by (auto simp: sort_list_rows_def)
  show ?thesis
    unfolding Let_def
  proof (intro conjI impI)
    show "mset (sort_list_rows arr rv rows) = mset rows" by (rule lt(2))
  qed (rule sorted_wrt_mono_rel [OF _ lt(1)], erule le)+
qed

lemma rows_arranged_witness:
  "sorted_wrt (\<lambda>a b. lr_is_dir b \<longrightarrow> lr_is_dir a)
     (sort_list_rows ArrSize True (map (list_row_of ''/m'' []) [fresh_row ''b'', (fresh_row ''a'')\<lparr>fr_is_dir := True\<rparr>]))"
  using rows_arranged [of ArrSize True "map (list_row_of ''/m'' []) [fresh_row ''b'', (fresh_row ''a'')\<lparr>fr_is_dir := True\<rparr>]"]
  by (simp only: Let_def)

section \<open>A folder is listed whole\<close>

text \<open>What a directory promises: \<open>rest\<close> are the names not read yet, \<open>st\<close> what \<open>stat\<close> says of them.\<close>

definition dir_reads :: "'w browse_sys \<Rightarrow> string \<Rightarrow> fd \<Rightarrow> ('w \<Rightarrow> string list) \<Rightarrow> (string \<Rightarrow> file_stat option) \<Rightarrow> bool" where
  "dir_reads bs dir d rest st \<longleftrightarrow>
     (\<forall>w. case rest w of [] \<Rightarrow> fst (bs_readdir bs d w) = None
        | n # ns \<Rightarrow> fst (bs_readdir bs d w) = Some n \<and> rest (snd (bs_readdir bs d w)) = ns) \<and>
     (\<forall>n w. fst (bs_stat bs (dir @ ''/'' @ n) w) = st n \<and> rest (snd (bs_stat bs (dir @ ''/'' @ n) w)) = rest w)"

definition shown :: "bool \<Rightarrow> string \<Rightarrow> bool" where
  "shown show_hidden n \<longleftrightarrow> n \<noteq> ''.'' \<and> n \<noteq> ''..'' \<and> \<not> hidden show_hidden n"

definition add_name :: "(string \<Rightarrow> file_stat option) \<Rightarrow> bool \<Rightarrow> string \<Rightarrow> fs_row list \<times> int \<Rightarrow> fs_row list \<times> int" where
  "add_name st show_hidden n acc =
     (if shown show_hidden n then case st n of None \<Rightarrow> acc | Some f \<Rightarrow> fs_entry n f acc else acc)"

lemma fs_loop_reads:
  assumes "dir_reads bs dir d rest st" and "length (rest (world s)) < fuel"
  shows "\<exists>s'. fs_loop fuel bs show_hidden dir d acc s = Ret (fold (add_name st show_hidden) (rest (world s)) acc, s')"
  using assms(2)
proof (induction fuel arbitrary: acc s)
  case (Suc fuel)
  obtain r w where rd: "bs_readdir bs d (world s) = (r, w)" by force
  show ?case
  proof (cases "rest (world s)")
    case Nil
    then have "r = None" using assms(1) rd by (auto simp: dir_reads_def split: list.splits)
    then show ?thesis using rd Nil by (simp add: iob_def sysc_def)
  next
    case (Cons n ns)
    then have r: "r = Some n" "rest w = ns"
      using assms(1) rd by (auto simp: dir_reads_def dest!: spec [of _ "world s"])
    obtain f w2 where st: "bs_stat bs (dir @ ''/'' @ n) w = (f, w2)" by force
    then have f: "f = st n" "rest w2 = ns"
      using assms(1) r(2) by (auto simp: dir_reads_def dest!: spec [of _ n] spec [of _ w])
    have small: "length ns < fuel" using Suc.prems Cons by simp
    show ?thesis
      using Suc.IH [of "s\<lparr>world := w\<rparr>"] Suc.IH [of "s\<lparr>world := w2\<rparr>"] rd r st f small
      by (auto simp: Cons add_name_def shown_def iob_def sysc_def split: option.splits)
  qed
qed simp

text \<open>The rows after the directory, and after the catalog: each name once, with what is known of it.\<close>

definition disk_row :: "(string \<Rightarrow> file_stat option) \<Rightarrow> fs_row \<Rightarrow> bool" where
  "disk_row st r \<longleftrightarrow> (\<exists>f. st (fr_name r) = Some f \<and> fr_is_dir r = fs_dir f \<and> fr_mtime r = fs_mtime f \<and>
     (\<not> fs_dir f \<longrightarrow> fr_size r = fs_size f))"

definition row_known ::
  "(string \<Rightarrow> file_stat option) \<Rightarrow> (string \<Rightarrow> dir_entry) \<Rightarrow> string set \<Rightarrow> string set \<Rightarrow> fs_row \<Rightarrow> bool" where
  "row_known st db S D r \<longleftrightarrow> fr_name r \<in> S \<union> D \<and> fr_in_fs r = (fr_name r \<in> S) \<and> fr_in_db r = (fr_name r \<in> D) \<and>
     (fr_name r \<in> S \<longrightarrow> disk_row st r) \<and> (fr_name r \<in> D \<longrightarrow> fr_db r = db (fr_name r)) \<and>
     (fr_name r \<notin> S \<longrightarrow> fr_is_dir r = de_directory (db (fr_name r)) \<and> fr_size r = de_size (db (fr_name r)))"

definition rows_known ::
  "(string \<Rightarrow> file_stat option) \<Rightarrow> (string \<Rightarrow> dir_entry) \<Rightarrow> string set \<Rightarrow> string set \<Rightarrow> fs_row list \<Rightarrow> bool" where
  "rows_known st db S D rows \<longleftrightarrow> by_name fr_name rows \<and> fr_name ` set rows = S \<union> D \<and>
     (\<forall>k r. named fr_name rows k = Some r \<longrightarrow> row_known st db S D r)"

lemma named_key: "named key xs k = Some x \<Longrightarrow> key x = k"
  by (auto simp: named_def find_Some_iff)

lemma fs_entry_known:
  assumes "rows_known st db S {} (fst acc)" and "st n = Some f"
  shows "rows_known st db (insert n S) {} (fst (fs_entry n f acc))"
proof -
  obtain rows i where acc: "acc = (rows, i)" by (cases acc)
  let ?f = "\<lambda>r. r\<lparr>fr_name := n, fr_is_dir := fs_dir f, fr_in_fs := True,
    fr_size := (if fs_dir f then fr_size r else fs_size f), fr_mtime := fs_mtime f, fr_order := i\<rparr>"
  have s: "by_name fr_name rows" and names: "fr_name ` set rows = S"
    and r: "\<And>k r. named fr_name rows k = Some r \<Longrightarrow> row_known st db S {} r"
    using assms(1) by (auto simp: acc rows_known_def)
  have k: "gives_key fr_name (fresh_row n) ?f n" by (simp add: gives_key_def)
  have new: "row_known st db (insert n S) {} (?f (case named fr_name rows n of None \<Rightarrow> fresh_row n | Some x \<Rightarrow> x))"
    using assms(2) r [of n] by (auto simp: row_known_def disk_row_def fresh_row_def split: option.splits dest!: named_key)
  show ?thesis
    using new edit_at_sorted [OF k s] edit_at_keys [OF k, of rows] named_edit_at [OF k s] names r
    by (auto simp: rows_known_def acc fs_entry_def row_known_def split: if_splits)
qed

lemma db_entry_known:
  assumes "rows_known st db S D (fst acc)" and "db (de_name e) = e" and "\<not> hidden show_hidden (de_name e)"
  shows "rows_known st db S (insert (de_name e) D) (fst (db_entry show_hidden e acc))"
proof -
  obtain rows i where acc: "acc = (rows, i)" by (cases acc)
  let ?f = "\<lambda>r. let r = r\<lparr>fr_name := de_name e, fr_in_db := True, fr_db := e\<rparr> in
    if fr_in_fs r then r else r\<lparr>fr_is_dir := de_directory e, fr_size := de_size e, fr_order := i\<rparr>"
  have s: "by_name fr_name rows" and names: "fr_name ` set rows = S \<union> D"
    and r: "\<And>k r. named fr_name rows k = Some r \<Longrightarrow> row_known st db S D r"
    using assms(1) by (auto simp: acc rows_known_def)
  have k: "gives_key fr_name (fresh_row (de_name e)) ?f (de_name e)" by (simp add: gives_key_def Let_def)
  have new: "row_known st db S (insert (de_name e) D)
      (?f (case named fr_name rows (de_name e) of None \<Rightarrow> fresh_row (de_name e) | Some x \<Rightarrow> x))"
  proof (cases "named fr_name rows (de_name e)")
    case None
    then have "de_name e \<notin> S" using names by (auto simp: named_None_iff)
    then show ?thesis using assms(2) None by (simp add: row_known_def fresh_row_def Let_def)
  next
    case (Some x)
    then show ?thesis
      using r [OF Some] named_key [OF Some] assms(2) by (auto simp: row_known_def disk_row_def Let_def)
  qed
  have other: "row_known st db S (insert (de_name e) D) x" if "named fr_name rows j = Some x" "j \<noteq> de_name e" for j x
    using r [OF that(1)] named_key [OF that(1)] that(2) by (auto simp: row_known_def)
  show ?thesis
    using new other edit_at_sorted [OF k s] edit_at_keys [OF k, of rows] named_edit_at [OF k s] names
    by (auto simp: rows_known_def acc db_entry_def assms(3) Let_def split: if_splits)
qed

lemma rows_of_disk_known:
  "rows_known st db {n \<in> set ns. shown show_hidden n \<and> st n \<noteq> None} {} (fst (fold (add_name st show_hidden) ns ([], 0)))"
proof (induction ns rule: rev_induct)
  case (snoc n ns)
  have eq: "{m \<in> set (ns @ [n]). shown show_hidden m \<and> st m \<noteq> None} =
      (if shown show_hidden n \<and> st n \<noteq> None then insert n {m \<in> set ns. shown show_hidden m \<and> st m \<noteq> None}
       else {m \<in> set ns. shown show_hidden m \<and> st m \<noteq> None})" by auto
  show ?case
    unfolding eq using snoc.IH fs_entry_known [OF snoc.IH]
    by (auto simp: add_name_def split: option.splits)
qed (simp add: rows_known_def by_name_def)

lemma db_entry_hidden: "hidden show_hidden (de_name e) \<Longrightarrow> db_entry show_hidden e acc = acc"
  by (simp add: db_entry_def)

lemma both_known:
  assumes "rows_known st db S {} (fst acc)" and "\<And>e. e \<in> set es \<Longrightarrow> db (de_name e) = e"
  shows "rows_known st db S {n \<in> de_name ` set es. \<not> hidden show_hidden n} (fst (fold (db_entry show_hidden) es acc))"
  using assms(2)
proof (induction es rule: rev_induct)
  case (snoc e es)
  let ?D = "{n \<in> de_name ` set es. \<not> hidden show_hidden n}"
  have IH: "rows_known st db S ?D (fst (fold (db_entry show_hidden) es acc))" using snoc by simp
  have eq: "{n \<in> de_name ` set (es @ [e]). \<not> hidden show_hidden n} =
      (if hidden show_hidden (de_name e) then ?D else insert (de_name e) ?D)" by auto
  show ?case
    using IH db_entry_known [OF IH, of e show_hidden] snoc.prems [of e] unfolding eq by (simp add: db_entry_hidden)
qed (use assms(1) in simp)

definition last_named :: "dir_entry list \<Rightarrow> string \<Rightarrow> dir_entry" where
  "last_named es n = last (filter (\<lambda>e. de_name e = n) es)"

lemma db_map_last:
  "by_name de_name (db_map es) \<and> de_name ` set (db_map es) = de_name ` set es \<and>
   (\<forall>e \<in> set (db_map es). last_named es (de_name e) = e)"
proof (induction es rule: rev_induct)
  case (snoc e es)
  have k: "gives_key de_name e (\<lambda>_. e) (de_name e)" by (simp add: gives_key_def)
  have s: "by_name de_name (db_map es)" using snoc.IH by simp
  have eq: "db_map (es @ [e]) = edit_at de_name e (\<lambda>_. e) (de_name e) (db_map es)" by (simp add: db_map_def)
  have "last_named (es @ [e]) (de_name x) = x" if "x \<in> set (db_map (es @ [e]))" for x
  proof -
    have "named de_name (db_map (es @ [e])) (de_name x) = Some x"
      using that edit_at_sorted [OF k s] named_Some_iff [of de_name] unfolding eq by blast
    then have "x = e \<and> de_name x = de_name e \<or> de_name x \<noteq> de_name e \<and> x \<in> set (db_map es)"
      unfolding eq named_edit_at [OF k s] by (auto simp: named_Some_iff [OF s] split: if_splits)
    then show ?thesis using snoc.IH by (auto simp: last_named_def)
  qed
  then show ?case using edit_at_sorted [OF k s] edit_at_keys [OF k, of "db_map es"] snoc.IH by (simp add: eq)
qed (simp add: db_map_def by_name_def)

text \<open>What a row of the listing says of its name.\<close>

definition listed ::
  "(string \<Rightarrow> file_stat option) \<Rightarrow> string set \<Rightarrow> dir_entry list \<Rightarrow> string \<Rightarrow> string \<Rightarrow> list_row \<Rightarrow> bool" where
  "listed st disk es dir rel r \<longleftrightarrow>
     lr_in_fs r = (lr_name r \<in> disk) \<and> lr_in_db r = (lr_name r \<in> de_name ` set es) \<and>
     (lr_in_fs r \<longrightarrow> (\<exists>f. st (lr_name r) = Some f \<and> lr_is_dir r = fs_dir f \<and> (\<not> fs_dir f \<longrightarrow> de_size (lr_db r) = fs_size f))) \<and>
     (lr_in_db r \<longrightarrow> (lr_db r)\<lparr>de_size := 0\<rparr> = (last_named es (lr_name r))\<lparr>de_size := 0\<rparr>) \<and>
     (\<not> lr_in_fs r \<longrightarrow> lr_is_dir r = de_directory (lr_db r) \<and> lr_db r = last_named es (lr_name r)) \<and>
     lr_abs r = dir @ ''/'' @ lr_name r \<and> lr_db_path r = db_path_for rel (lr_name r)"

lemma listed_rows:
  assumes "rows_known st (last_named es) disk {n \<in> de_name ` set es. \<not> hidden show_hidden n} rows"
    and "\<forall>n \<in> disk. \<not> hidden show_hidden n"
  shows "sorted_wrt (<) (map lr_name (map (list_row_of dir rel) rows)) \<and>
    lr_name ` set (map (list_row_of dir rel) rows) = disk \<union> {n \<in> de_name ` set es. \<not> hidden show_hidden n} \<and>
    (\<forall>r \<in> set (map (list_row_of dir rel) rows). listed st disk es dir rel r)"
proof -
  let ?D = "{n \<in> de_name ` set es. \<not> hidden show_hidden n}"
  have s: "by_name fr_name rows" and names: "fr_name ` set rows = disk \<union> ?D" using assms(1) by (simp_all add: rows_known_def)
  have ls: "listed st disk es dir rel (list_row_of dir rel r)" if "r \<in> set rows" for r
  proof -
    have "named fr_name rows (fr_name r) = Some r" using that by (simp add: named_Some_iff [OF s])
    then have "row_known st (last_named es) disk ?D r" using assms(1) by (simp add: rows_known_def)
    moreover have "\<not> hidden show_hidden (fr_name r)"
      using imageI [OF that, of fr_name] assms(2) unfolding names by auto
    ultimately show ?thesis
      by (auto simp: listed_def row_known_def disk_row_def list_row_of_def)
  qed
  have "lr_name \<circ> list_row_of dir rel = fr_name" by (rule ext) (simp add: list_row_of_def)
  then show ?thesis using s names ls by (simp add: by_name_def image_image list_row_of_def)
qed

text \<open>C34: the rows of a folder are the names that its directory or the catalog holds and that are to be shown,
  each once and in order; each row says where the name was found, and has the kind and size from the
  disk if the disk has it and the rest from the catalog.\<close>

theorem folder_listed:
  assumes "list_db_dir e i (cat s) = Ret ((es, msg), c)" and "i \<noteq> 0 \<or> rel = []"
    and "bs_opendir bs (join_root rt rel) (world s) = (Inr d, w)"
    and "dir_reads bs (join_root rt rel) d rest st" and "length (rest w) < fuel"
  shows "\<exists>rows s'. folder_rows fuel bs e True show_hidden rt rel i s = Ret (Some rows, s') \<and>
    sorted_wrt (<) (map lr_name rows) \<and>
    (let disk = {n \<in> set (rest w). shown show_hidden n \<and> st n \<noteq> None} in
     lr_name ` set rows = disk \<union> {n \<in> de_name ` set es. \<not> hidden show_hidden n} \<and>
     (\<forall>r \<in> set rows. listed st disk es (join_root rt rel) rel r))"
proof -
  let ?dir = "join_root rt rel" and ?acc = "fold (add_name st show_hidden) (rest w) ([], 0)"
  let ?disk = "{n \<in> set (rest w). shown show_hidden n \<and> st n \<noteq> None}"
  let ?rows = "fst (fold (db_entry show_hidden) (db_map es) ?acc)"
  obtain s1 where 1: "fs_loop fuel bs show_hidden ?dir d ([], 0) (s\<lparr>cat := c, world := w\<rparr>) = Ret (?acc, s1)"
    using fs_loop_reads [OF assms(4), where s = "s\<lparr>cat := c, world := w\<rparr>" and fuel = fuel and show_hidden = show_hidden and acc = "([], 0)"] assms(5) by auto
  have "on_store (list_db_dir e i) s = Ret ((es, msg), s\<lparr>cat := c\<rparr>)"
    by (simp add: on_store_def assms(1))
  then have run: "\<exists>s'. folder_rows fuel bs e True show_hidden rt rel i s = Ret (Some (map (list_row_of ?dir rel) ?rows), s')"
    using assms(2,3) 1 by (auto simp: folder_rows_def Let_def iob_def sysc_def split: prod.splits)
  note m = db_map_last [of es]
  have k: "rows_known st (last_named es) ?disk {n \<in> de_name ` set es. \<not> hidden show_hidden n} ?rows"
    using both_known [OF rows_of_disk_known [of st "last_named es" "rest w" show_hidden], where es = "db_map es" and show_hidden = show_hidden] m by simp
  have "\<forall>n \<in> ?disk. \<not> hidden show_hidden n" by (simp add: shown_def)
  from listed_rows [OF k this, of ?dir rel] run show ?thesis unfolding Let_def by auto
qed

text \<open>A directory in memory, for the witness.\<close>

definition listing_sys :: "string list browse_sys" where
  "listing_sys = \<lparr>bs_opendir = \<lambda>_ w. (Inr 3, w),
     bs_readdir = \<lambda>_ w. (case w of [] \<Rightarrow> (None, []) | n # ns \<Rightarrow> (Some n, ns)), bs_closedir = \<lambda>_ w. ((), w),
     bs_stat = \<lambda>_ w. (Some \<lparr>fs_dir = False, fs_size = 7, fs_mtime = 1\<rparr>, w)\<rparr>"

lemma folder_listed_witness:
  "\<exists>rows s'. folder_rows 9 listing_sys calm_env True False ''/m'' [] 0
      \<lparr>world = [''.'', ''x'', ''.z'', ''a''], prog = progress_init, cat = usr_store\<lparr>st_open := False\<rparr>\<rparr> = Ret (Some rows, s') \<and>
     sorted_wrt (<) (map lr_name rows) \<and> lr_name ` set rows = {''x'', ''a''}"
proof -
  let ?s = "\<lparr>world = [''.'', ''x'', ''.z'', ''a''], prog = progress_init, cat = usr_store\<lparr>st_open := False\<rparr>\<rparr>"
  have 1: "list_db_dir calm_env 0 (cat ?s) = Ret (([], not_open), usr_store\<lparr>st_open := False\<rparr>)"
    by (simp add: list_db_dir_def iob_def ioget_def)
  have 2: "bs_opendir listing_sys (join_root ''/m'' []) (world ?s) = (Inr 3, [''.'', ''x'', ''.z'', ''a''])"
    by (simp add: listing_sys_def)
  have 3: "dir_reads listing_sys (join_root ''/m'' []) 3 id (\<lambda>_. Some \<lparr>fs_dir = False, fs_size = 7, fs_mtime = 1\<rparr>)"
    by (simp add: dir_reads_def listing_sys_def split: list.splits)
  have "{n \<in> {''.'', ''x'', ''.z'', ''a''}. shown False n} = {''x'', ''a''}" by (auto simp: shown_def hidden_def)
  then show ?thesis using folder_listed [OF 1 disjI2 [OF refl] 2 3, of 9 False] by (auto simp: Let_def)
qed

end
