(* ===== verification/BrowserSync.thy ===== *)
theory BrowserSync
  imports Browser
begin

text \<open>
  Hashing and synchronising in the browser (\<open>src/gui/browser.cpp\<close>): \<open>hash_file\<close>, what the worker does
  for one file, and \<open>sync_rows\<close>, which brings the catalog in line with the rows of the list and asks
  what to do where a file has not the recorded hash.  Dialogs and message boxes are functions of the
  outside world: the answer is the button that was pressed and the two boxes, or none if the dialog
  was closed.
\<close>

section \<open>Hashing\<close>

fun hash_read :: "nat \<Rightarrow> 'w files_sys \<Rightarrow> fd \<Rightarrow> bytes \<Rightarrow> (('w, 'z) mach_scheme, bytes option) io" where
  "hash_read 0 fx f acc = iostuck"
| "hash_read (Suc n) fx f acc =
     iob (sysc (fx_read fx f buf_size)) (\<lambda>r.
     case r of
       Inl err \<Rightarrow> if err = EINTR then hash_read n fx f acc else ioret None
     | Inr bs \<Rightarrow> if bs = [] then ioret (Some acc) else hash_read n fx f (acc @ bs))"

text \<open>The digest and the number of bytes.\<close>

definition hash_file :: "nat \<Rightarrow> 'w files_sys \<Rightarrow> string \<Rightarrow> (('w, 'z) mach_scheme, (bytes \<times> nat) option) io" where
  "hash_file fuel fx path =
     iob (sysc (fx_open fx path)) (\<lambda>r.
     case r of
       Inl _ \<Rightarrow> ioret None
     | Inr f \<Rightarrow>
         iob (sysc (fx_digest_init fx)) (\<lambda>ok.
         if \<not> ok then iob (sysc (fx_close fx f)) (\<lambda>_. ioret None)
         else
           iob (hash_read fuel fx f []) (\<lambda>r.
           iob (sysc (fx_close fx f)) (\<lambda>_.
           ioret (case r of
               None \<Rightarrow> None
             | Some bs \<Rightarrow> if length (fx_digest fx bs) = 20 then Some (fx_digest fx bs, length bs) else None)))))"

section \<open>The worker's turn\<close>

text \<open>One file of the queue: whether it is fine, its digest, and the bytes that were counted.\<close>

definition verify_file ::
  "nat \<Rightarrow> 'w files_sys \<Rightarrow> sql_env \<Rightarrow> bool \<Rightarrow> verify_job \<Rightarrow> (('w, 'z) engine_scheme, bool \<times> (bytes \<times> nat) option) io" where
  "verify_file fuel fx e has_store job =
     iob (hash_file fuel fx (vj_abs job)) (\<lambda>h.
     if \<not> has_store then ioret (False, h)
     else
       (case h of
          Some (dig, n) \<Rightarrow>
            iob (on_store (get_object e (vj_db_path job) (object_init []))) (\<lambda>r.
            let st = verdict (found r) dig in
            iob (on_store (bump_verify e (vj_db_path job) st (Some dig))) (\<lambda>_.
            ioret (st = VsOk, h)))
        | None \<Rightarrow>
            iob (on_store (bump_verify e (vj_db_path job) VsFail None)) (\<lambda>_. ioret (False, h))))"

section \<open>Conflicts\<close>

definition conflict_delete :: int where "conflict_delete = 0"
definition conflict_overwrite :: int where "conflict_overwrite = 1"
definition conflict_ignore :: int where "conflict_ignore = 2"

record 'w sync_env =
  sy_fuel :: nat
  sy_depth :: nat
  sy_fx :: "'w files_sys"
  sy_cs :: "'w conf_sys"
  sy_sql :: sql_env
  sy_dialog :: "string \<Rightarrow> 'w \<Rightarrow> (int option \<times> bool \<times> bool) \<times> 'w"
  sy_unlink :: "string \<Rightarrow> 'w \<Rightarrow> string option \<times> 'w"
  sy_time :: "'w \<Rightarrow> int \<times> 'w"
  sy_alert :: "string \<Rightarrow> 'w \<Rightarrow> unit \<times> 'w"

record conflict_result =
  cr_choice :: int
  cr_apply_rest :: bool
  cr_remember :: bool

definition ask_conflict :: "'w sync_env \<Rightarrow> string \<Rightarrow> (('w, 'z) mach_scheme, conflict_result) io" where
  "ask_conflict sy path =
     iob (load_conflict_pref (sy_cs sy)) (\<lambda>(saved, rem).
     if rem \<and> conflict_delete \<le> saved \<and> saved \<le> conflict_ignore
     then ioret \<lparr>cr_choice = saved, cr_apply_rest = True, cr_remember = True\<rparr>
     else
       iob (sysc (sy_dialog sy path)) (\<lambda>(button, app, dont).
       case button of
         None \<Rightarrow> ioret \<lparr>cr_choice = conflict_ignore, cr_apply_rest = False, cr_remember = False\<rparr>
       | Some choice \<Rightarrow>
           iob (if dont then save_conflict_pref (sy_cs sy) choice True else ioret ()) (\<lambda>_.
           ioret \<lparr>cr_choice = choice, cr_apply_rest = app, cr_remember = dont\<rparr>)))"

section \<open>Synchronising\<close>

record sync_state =
  sc_added :: int
  sc_removed :: int
  sc_conflicts :: int
  sc_overwritten :: int
  sc_deleted :: int
  sc_ignored :: int
  sc_sticky :: int
  sc_files :: nat
  sc_bytes :: nat

definition sync_init :: sync_state where
  "sync_init = \<lparr>sc_added = 0, sc_removed = 0, sc_conflicts = 0, sc_overwritten = 0, sc_deleted = 0, sc_ignored = 0,
     sc_sticky = -1, sc_files = 0, sc_bytes = 0\<rparr>"

definition note_scanned :: "nat \<Rightarrow> sync_state \<Rightarrow> sync_state" where
  "note_scanned n c = c\<lparr>sc_files := sc_files c + 1, sc_bytes := sc_bytes c + n\<rparr>"

text \<open>The choice: the one that was made for the rest, or the answer.\<close>

definition decide :: "'w sync_env \<Rightarrow> string \<Rightarrow> sync_state \<Rightarrow> (('w, 'z) mach_scheme, int \<times> sync_state) io" where
  "decide sy path c =
     (if 0 \<le> sc_sticky c then ioret (sc_sticky c, c)
      else
        iob (ask_conflict sy path) (\<lambda>r.
        ioret (cr_choice r, if cr_apply_rest r \<or> cr_remember r then c\<lparr>sc_sticky := cr_choice r\<rparr> else c)))"

definition resolve_conflict ::
  "'w sync_env \<Rightarrow> list_row \<Rightarrow> bytes \<Rightarrow> sync_state \<Rightarrow> (('w, 'z) engine_scheme, sync_state) io" where
  "resolve_conflict sy r dig c =
     iob (decide sy (lr_abs r) (c\<lparr>sc_conflicts := sc_conflicts c + 1\<rparr>)) (\<lambda>(choice, c).
     if choice = conflict_delete then
       iob (sysc (sy_unlink sy (lr_abs r))) (\<lambda>err.
       case err of
         Some msg \<Rightarrow> iob (sysc (sy_alert sy (''Could not delete '' @ lr_abs r @ '': '' @ msg))) (\<lambda>_. ioret c)
       | None \<Rightarrow> ioret (c\<lparr>sc_deleted := sc_deleted c + 1\<rparr>))
     else if choice = conflict_overwrite then
       iob (on_store (set_sha1 (sy_sql sy) (lr_db_path r) dig)) (\<lambda>_.
       iob (on_store (bump_verify (sy_sql sy) (lr_db_path r) VsOk (Some dig))) (\<lambda>_.
       ioret (c\<lparr>sc_overwritten := sc_overwritten c + 1\<rparr>)))
     else
       iob (on_store (bump_verify (sy_sql sy) (lr_db_path r) VsFail (Some dig))) (\<lambda>_.
       ioret (c\<lparr>sc_ignored := sc_ignored c + 1\<rparr>)))"

definition differs :: "list_row \<Rightarrow> bytes \<Rightarrow> bool" where
  "differs r dig \<longleftrightarrow> (case de_sha1 (lr_db r) of Some h \<Rightarrow> h \<noteq> dig | None \<Rightarrow> False) \<or> de_verify_status (lr_db r) = VsFail"

definition sync_known :: "'w sync_env \<Rightarrow> list_row \<Rightarrow> sync_state \<Rightarrow> (('w, 'z) engine_scheme, sync_state) io" where
  "sync_known sy r c =
     iob (hash_file (sy_fuel sy) (sy_fx sy) (lr_abs r)) (\<lambda>h.
     case h of
       None \<Rightarrow> ioret c
     | Some (dig, n) \<Rightarrow>
         let c = note_scanned n c in
         if differs r dig then resolve_conflict sy r dig c
         else iob (on_store (bump_verify (sy_sql sy) (lr_db_path r) VsOk (Some dig))) (\<lambda>_. ioret c))"

definition sync_new :: "'w sync_env \<Rightarrow> list_row \<Rightarrow> sync_state \<Rightarrow> (('w, 'z) engine_scheme, sync_state) io" where
  "sync_new sy r c =
     iob (hash_file (sy_fuel sy) (sy_fx sy) (lr_abs r)) (\<lambda>h.
     case h of
       None \<Rightarrow> iob (sysc (sy_alert sy (''Could not hash '' @ lr_abs r))) (\<lambda>_. ioret c)
     | Some (dig, n) \<Rightarrow>
         iob (sysc (sy_time sy)) (\<lambda>t.
         iob (on_store (upsert_object (sy_sql sy)
               ((object_init (lr_db_path r))\<lparr>or_size := de_size (lr_db r), or_sha1 := dig, or_has_sha1 := True,
                  or_verify_status := VsOk, or_verified_at := t\<rparr>))) (\<lambda>_.
         ioret ((note_scanned n c)\<lparr>sc_added := sc_added c + 1\<rparr>))))"

definition sync_dir :: "'w sync_env \<Rightarrow> int \<Rightarrow> list_row \<Rightarrow> sync_state \<Rightarrow> (('w, 'z) engine_scheme, sync_state) io" where
  "sync_dir sy parent r c =
     (if lr_in_db r \<and> \<not> lr_in_fs r then
        iob (on_store (delete_folder (sy_depth sy) (sy_sql sy) (de_id (lr_db r)))) (\<lambda>_.
        ioret (c\<lparr>sc_removed := sc_removed c + 1\<rparr>))
      else if lr_in_fs r \<and> \<not> lr_in_db r then
        iob (on_store (ensure_folder (sy_sql sy) parent (lr_name r))) (\<lambda>_.
        ioret (c\<lparr>sc_added := sc_added c + 1\<rparr>))
      else ioret c)"

definition sync_row :: "'w sync_env \<Rightarrow> int \<Rightarrow> list_row \<Rightarrow> sync_state \<Rightarrow> (('w, 'z) engine_scheme, sync_state) io" where
  "sync_row sy parent r c =
     (if lr_is_dir r then sync_dir sy parent r c
      else if lr_in_fs r \<and> \<not> lr_in_db r then sync_new sy r c
      else if \<not> lr_in_fs r \<and> lr_in_db r then
        iob (on_store (delete_file (sy_sql sy) (lr_db_path r))) (\<lambda>_.
        ioret (c\<lparr>sc_removed := sc_removed c + 1\<rparr>))
      else if lr_in_fs r \<and> lr_in_db r then sync_known sy r c
      else ioret c)"

fun sync_loop :: "'w sync_env \<Rightarrow> int \<Rightarrow> list_row list \<Rightarrow> sync_state \<Rightarrow> (('w, 'z) engine_scheme, sync_state) io" where
  "sync_loop sy parent [] c = ioret c"
| "sync_loop sy parent (r # rs) c = iob (sync_row sy parent r c) (\<lambda>c. sync_loop sy parent rs c)"

text \<open>The rows in a folder that the catalog knows as \<open>parent\<close>, 0 if it does not; without a catalog
  nothing is done but to say so.\<close>

definition sync_rows ::
  "'w sync_env \<Rightarrow> bool \<Rightarrow> int \<Rightarrow> list_row list \<Rightarrow> (('w, 'z) engine_scheme, sync_state option) io" where
  "sync_rows sy has_store parent rows =
     (if \<not> has_store then iob (sysc (sy_alert sy ''No database is open.'')) (\<lambda>_. ioret None)
      else iob (sync_loop sy parent rows sync_init) (\<lambda>c. ioret (Some c)))"

section \<open>Lemmas: the hash of the browser is that of the pass\<close>

definition plain_hash :: "string + bytes \<Rightarrow> bytes option" where
  "plain_hash r = (case r of Inl _ \<Rightarrow> None | Inr bs \<Rightarrow> Some bs)"

lemma hash_read_sha1: "hash_read fuel fx f acc s = obind (sha1_read fuel fx f acc s) (\<lambda>(r, s'). Ret (plain_hash r, s'))"
proof (induction fuel arbitrary: acc s)
  case (Suc fuel)
  obtain r w where "fx_read fx f buf_size (world s) = (r, w)" by force
  then show ?case
    using Suc by (cases r; cases "projl r") (auto simp: iob_def sysc_def plain_hash_def)
qed (simp add: iostuck_def)

lemma hash_file_sha1:
  assumes "\<And>bs. length (fx_digest fx bs) = 20"
  shows "obind (hash_file fuel fx path s) (\<lambda>(h, s'). Ret (map_option fst h, s')) =
    obind (sha1_file fuel fx path s) (\<lambda>(r, s'). Ret (plain_hash r, s'))"
proof -
  obtain r w where op: "fx_open fx path (world s) = (r, w)" by force
  obtain b w2 where ini: "fx_digest_init fx w = (b, w2)" by force
  let ?s = "s\<lparr>world := w2\<rparr>"
  show ?thesis
  proof (cases r)
    case (Inr f)
    show ?thesis
      using op ini Inr hash_read_sha1 [of fuel fx f "[]" ?s] assms
      by (cases "sha1_read fuel fx f [] ?s")
        (auto simp: hash_file_def sha1_file_def iob_def sysc_def plain_hash_def split: prod.splits sum.splits)
  qed (simp add: hash_file_def sha1_file_def iob_def sysc_def op plain_hash_def)
qed

section \<open>Lemmas: what does not touch the catalog\<close>

abbreviation same_cat :: "store \<Rightarrow> (('w, 'z) engine_scheme, 'a) io \<Rightarrow> bool" where
  "same_cat c m \<equiv> keeps (\<lambda>s :: ('w, 'z) engine_scheme. cat s) c m"

lemma same_cat_sysc: "same_cat c (sysc f)"
  by (simp add: stays_def split_def)

lemma hash_file_keeps: "same_cat c (hash_file fuel fx path)"
proof -
  have "same_cat c (hash_read fuel fx f acc)" for f acc
    by (induction fuel arbitrary: acc; simp only: hash_read.simps; intro stays_intros same_cat_sysc; assumption?)
  then show ?thesis
    unfolding hash_file_def by (intro stays_intros same_cat_sysc)
qed

lemma mkdirs_keep: "same_cat c (mkdir_p cs dir)" "same_cat c (mkdir_p_parent cs file)"
proof -
  show *: "same_cat c (mkdir_p cs dir)" for dir
  proof (induction dir rule: measure_induct_rule [of length])
    case (less dir)
    show ?case by (subst mkdir_p.simps) (intro stays_intros less same_cat_sysc before_slash_shorter; simp)
  qed
  show "same_cat c (mkdir_p_parent cs file)" unfolding mkdir_p_parent_def by (intro stays_intros *)
qed

lemma prefs_keep: "same_cat c (load_conflict_pref cs)" "same_cat c (save_conflict_pref cs act rem)"
proof -
  have dir: "same_cat c (config_dir cs)" unfolding config_dir_def by (intro stays_intros same_cat_sysc mkdirs_keep)
  have path: "same_cat c (gui_session_path cs)" unfolding gui_session_path_def by (intro stays_intros same_cat_sysc dir)
  show "same_cat c (load_conflict_pref cs)"
    unfolding load_conflict_pref_def session_source_def legacy_gui_session_path_def path_exists_def
    by (intro stays_intros same_cat_sysc path)
  have puts: "same_cat c (conf_puts cs p kvs)" for p kvs
    by (induction cs p kvs rule: conf_puts.induct; simp only: conf_puts.simps; intro stays_intros same_cat_sysc; assumption)
  show "same_cat c (save_conflict_pref cs act rem)"
    unfolding save_conflict_pref_def conf_save_def by (intro stays_intros path mkdirs_keep puts)
qed

lemma decide_keeps: "same_cat c (decide sy path st)"
  unfolding decide_def ask_conflict_def by (intro stays_intros same_cat_sysc prefs_keep)

lemma on_store_Ret: "m (cat s) = Ret (a, c) \<Longrightarrow> on_store m s = Ret (a, s\<lparr>cat := c\<rparr>)"
  by (simp add: on_store_def)

section \<open>New files\<close>

lemma on_store_bind: "m (cat s) = Ret (a, c) \<Longrightarrow> iob (on_store m) f s = f a (s\<lparr>cat := c\<rparr>)"
  by (simp add: on_store_def iob_def)

text \<open>Synchronising a file that the catalog does not list makes a record of it, with the digest of its
  bytes, the size of the listing and the verdict that it is fine, and changes no other record.\<close>

theorem new_file_recorded:
  assumes "healthy (sy_sql sy)" and "ready (cat s) vol rt" and "key_ok (lr_db_path r)"
    and "\<not> lr_is_dir r" and "lr_in_fs r" and "\<not> lr_in_db r"
    and "hash_file (sy_fuel sy) (sy_fx sy) (lr_abs r) s = Ret (Some (dig, n), s1)"
  shows "\<exists>c' s' d. sync_row sy parent r c s = Ret (c', s') \<and> sc_added c' = sc_added c + 1 \<and> ready (cat s') vol rt \<and>
    (\<forall>q. lookup (cat s') vol rt q = (if path_key q = path_key (lr_db_path r) then Some d else lookup (cat s) vol rt q)) \<and>
    rw_sha1 d = Some dig \<and> rw_size d = de_size (lr_db r) \<and> rw_verify_status d = int_of_vs VsOk"
proof -
  obtain t w where t: "sy_time sy (world s1) = (t, w)" by force
  let ?o = "(object_init (lr_db_path r))\<lparr>or_size := de_size (lr_db r), or_sha1 := dig, or_has_sha1 := True,
    or_verify_status := VsOk, or_verified_at := t\<rparr>" and ?s = "s1\<lparr>world := w\<rparr>"
  have c: "cat ?s = cat s" using keepsD [OF hash_file_keeps refl assms(7)] by simp
  have path: "or_path ?o = lr_db_path r" by (simp add: object_init_def)
  obtain c1 where up: "upsert_object (sy_sql sy) ?o (cat ?s) = Ret (None, c1)" "stores vol rt (cat s) (lr_db_path r) (row_of ?o) c1"
    using upsert_object_does [OF assms(1,2), of ?o] assms(3) path c by auto
  have store: "on_store (upsert_object (sy_sql sy) ?o) ?s = Ret (None, ?s\<lparr>cat := c1\<rparr>)"
    using up(1) by (simp add: on_store_def)
  have run: "sync_row sy parent r c s = Ret ((note_scanned n c)\<lparr>sc_added := sc_added c + 1\<rparr>, ?s\<lparr>cat := c1\<rparr>)"
    using assms(4-7) t by (simp add: sync_row_def sync_new_def iob_apply_Ret store note_scanned_def sysc_def)
  let ?d = "stored_row (lookup (cat s) vol rt (lr_db_path r)) (row_of ?o)"
  have "rw_sha1 ?d = Some dig" "rw_size ?d = de_size (lr_db r)" "rw_verify_status ?d = int_of_vs VsOk"
    by (auto simp: stored_row_def merge_row_def row_of_def split: option.split)
  then show ?thesis
    using run up(2) by (intro exI conjI) (auto simp: stores_def)
qed

section \<open>Files of both sides\<close>

definition verified :: "verify_status \<Rightarrow> bytes \<Rightarrow> int \<Rightarrow> row_data \<Rightarrow> row_data" where
  "verified vs dig t d =
     d\<lparr>rw_sha1 := Some dig, rw_verify_status := int_of_vs vs, rw_verify_count := rw_verify_count d + 1, rw_verified_at := t\<rparr>"

text \<open>What becomes of the record of a file that differs, by the choice.\<close>

definition after_choice :: "int \<Rightarrow> bytes \<Rightarrow> int \<Rightarrow> row_data \<Rightarrow> row_data" where
  "after_choice choice dig t d =
     (if choice = conflict_delete then d
      else if choice = conflict_overwrite then verified VsOk dig t d
      else verified VsFail dig t d)"

lemma lookup_key: "path_key q = path_key p \<Longrightarrow> lookup s vol rt q = lookup s vol rt p"
  by (auto simp: path_key_def lookup_def split: if_splits prod.splits)
    (metis resolve_cstr)

lemma bump_verified:
  assumes "healthy e" and "ready c vol rt" and "key_ok p" and "lookup c vol rt p = Some d"
  shows "\<exists>c' t. bump_verify e p vs (Some dig) c = Ret (None, c') \<and> ready c' vol rt \<and>
    (\<forall>q. lookup c' vol rt q = (if path_key q = path_key p then Some (verified vs dig t d) else lookup c vol rt q))"
  using bump_verify_does [OF assms, of vs dig] by (auto simp: verified_def with_hash_def)

lemma resolve_conflict_does:
  assumes "healthy (sy_sql sy)" and "ready (cat s) vol rt" and "key_ok (lr_db_path r)"
    and "lookup (cat s) vol rt (lr_db_path r) = Some d"
    and "decide sy (lr_abs r) (c\<lparr>sc_conflicts := sc_conflicts c + 1\<rparr>) s = Ret ((choice, c1), s1)"
  shows "\<exists>c' s' t. resolve_conflict sy r dig c s = Ret (c', s') \<and> ready (cat s') vol rt \<and>
    (\<forall>q. lookup (cat s') vol rt q =
      (if path_key q = path_key (lr_db_path r) then Some (after_choice choice dig t d) else lookup (cat s) vol rt q))"
proof -
  let ?p = "lr_db_path r" and ?e = "sy_sql sy"
  have c: "cat s1 = cat s" by (rule keepsD [OF decide_keeps refl assms(5)])
  have d: "lookup (cat s) vol rt q = Some d" if "path_key q = path_key ?p" for q
    using lookup_key [OF that, of "cat s" vol rt] assms(4) by simp
  note bv = bump_verified [OF assms(1)]
  consider "choice = conflict_delete" | "choice = conflict_overwrite"
    | "choice \<noteq> conflict_delete" "choice \<noteq> conflict_overwrite" by blast
  then show ?thesis
  proof cases
    case 1
    obtain err w where u: "sy_unlink sy (lr_abs r) (world s1) = (err, w)" by force
    have "\<exists>c' w'. resolve_conflict sy r dig c s = Ret (c', s1\<lparr>world := w'\<rparr>)"
      using assms(5) u 1 by (cases err) (auto simp: resolve_conflict_def iob_apply_Ret sysc_def split: prod.split)
    then show ?thesis using assms(2) c d 1 by (fastforce simp: after_choice_def)
  next
    case 2
    obtain c2 where 3: "set_sha1 ?e ?p dig (cat s1) = Ret (None, c2)" "ready c2 vol rt"
        "\<And>q. lookup c2 vol rt q = (if path_key q = path_key ?p then Some (with_hash dig d) else lookup (cat s) vol rt q)"
      using set_sha1_does [OF assms(1-4), of dig] c by auto
    obtain c3 t where 4: "bump_verify ?e ?p VsOk (Some dig) c2 = Ret (None, c3)" "ready c3 vol rt"
        "\<And>q. lookup c3 vol rt q = (if path_key q = path_key ?p then Some (verified VsOk dig t (with_hash dig d)) else lookup c2 vol rt q)"
      using bv [OF 3(2) assms(3), of "with_hash dig d" VsOk dig] 3(3) [of ?p] by auto
    have "resolve_conflict sy r dig c s = Ret (c1\<lparr>sc_overwritten := sc_overwritten c1 + 1\<rparr>, s1\<lparr>cat := c2\<rparr>\<lparr>cat := c3\<rparr>)"
      using assms(5) 2 3(1) 4(1)
      by (simp add: resolve_conflict_def iob_apply_Ret on_store_bind conflict_delete_def conflict_overwrite_def)
    then show ?thesis using 3(3) 4(2,3) 2
      by (intro exI [of _ t] exI conjI) (auto simp: after_choice_def verified_def with_hash_def conflict_delete_def conflict_overwrite_def)
  next
    case 3
    obtain c2 t where 4: "bump_verify ?e ?p VsFail (Some dig) (cat s1) = Ret (None, c2)" "ready c2 vol rt"
        "\<And>q. lookup c2 vol rt q = (if path_key q = path_key ?p then Some (verified VsFail dig t d) else lookup (cat s) vol rt q)"
      using bv [OF assms(2-4), of VsFail dig] c by auto
    have "resolve_conflict sy r dig c s = Ret (c1\<lparr>sc_ignored := sc_ignored c1 + 1\<rparr>, s1\<lparr>cat := c2\<rparr>)"
      using assms(5) 3 4(1) by (simp add: resolve_conflict_def iob_apply_Ret on_store_bind)
    then show ?thesis using 4(2,3) 3
      by (intro exI [of _ t] exI conjI) (auto simp: after_choice_def)
  qed
qed


text \<open>Twenty bytes on the disk, for the witnesses.\<close>

definition sync_witness :: "bytes sync_env" where
  "sync_witness = \<lparr>sy_fuel = 3, sy_depth = 1, sy_fx = mem_files,
     sy_cs = \<lparr>cf_getenv = \<lambda>_ w. (Some ''/c'', w), cf_exists = \<lambda>_ w. (False, w), cf_mkdir = \<lambda>_ w. ((), w),
       cf_read_str = \<lambda>_ _ w. (None, w), cf_read_num = \<lambda>_ _ w. (None, w), cf_write = \<lambda>_ _ _ w. ((), w), cf_flush = \<lambda>_ w. ((), w)\<rparr>,
     sy_sql = calm_env, sy_dialog = \<lambda>_ w. ((Some 2, False, False), w), sy_unlink = \<lambda>_ w. (None, w),
     sy_time = \<lambda>w. (9, w), sy_alert = \<lambda>_ w. ((), w)\<rparr>"

definition x_row :: "bool \<Rightarrow> list_row" where
  "x_row known = \<lparr>lr_name = ''x'', lr_is_dir = False, lr_in_fs = True, lr_in_db = known,
     lr_db = dir_entry_init\<lparr>de_sha1 := Some (replicate 20 5), de_size := 20\<rparr>, lr_abs = ''/m/x'', lr_db_path = ''/x'',
     lr_mtime = 0, lr_order = 0\<rparr>"

definition twenty :: "bytes engine" where
  "twenty = \<lparr>world = replicate 20 9, prog = progress_init, cat = usr_store\<rparr>"

lemma twenty_hash: "\<exists>s1. hash_file (sy_fuel sync_witness) (sy_fx sync_witness) p twenty = Ret (Some (replicate 20 9, 20), s1)"
proof -
  have "take buf_size (replicate 20 (9 :: u8)) = replicate 20 9" "drop buf_size (replicate 20 (9 :: u8)) = []"
    by (simp_all add: buf_size_def)
  moreover have "replicate 20 (9 :: u8) \<noteq> []" by simp
  ultimately show ?thesis
    by (simp add: hash_file_def mem_files_def sync_witness_def iob_def sysc_def twenty_def numeral_3_eq_3)
qed

lemma new_file_recorded_witness:
  "\<exists>c' s' d. sync_row sync_witness 0 (x_row False) sync_init twenty = Ret (c', s') \<and> sc_added c' = 1 \<and>
     lookup (cat s') 1 1 ''/x'' = Some d \<and> rw_sha1 d = Some (replicate 20 9)"
proof -
  obtain s1 where h: "hash_file (sy_fuel sync_witness) (sy_fx sync_witness) (lr_abs (x_row False)) twenty = Ret (Some (replicate 20 9, 20), s1)"
    using twenty_hash by blast
  have e: "healthy (sy_sql sync_witness)" "ready (cat twenty) 1 1" "key_ok (lr_db_path (x_row False))"
    by (simp_all add: sync_witness_def calm_healthy twenty_def usr_store_ready x_row_def usr_store_lookup(2))
  show ?thesis
    using new_file_recorded [OF e _ _ _ h, of 0 sync_init] by (fastforce simp: x_row_def sync_init_def)
qed


section \<open>What a decision is worth\<close>

text \<open>The worker's verdict on a file that has a record.\<close>

lemma verify_file_does:
  assumes "healthy e" and "ready (cat s) vol rt" and "key_ok (vj_db_path job)" and "lookup (cat s) vol rt (vj_db_path job) = Some d"
    and "hash_file fuel fx (vj_abs job) s = Ret (Some (dig, n), s1)"
  shows "\<exists>ok s' t. verify_file fuel fx e True job s = Ret ((ok, Some (dig, n)), s') \<and>
    (ok \<longleftrightarrow> (\<forall>h. rw_sha1 d = Some h \<and> length h = 20 \<longrightarrow> h = dig)) \<and>
    lookup (cat s') vol rt (vj_db_path job) = Some (verified (if ok then VsOk else VsFail) dig t d)"
proof -
  let ?p = "vj_db_path job"
  have c: "cat s1 = cat s" by (rule keepsD [OF hash_file_keeps refl assms(5)])
  obtain k where get: "get_object e ?p (object_init []) (cat s1) = Ret (Inr (Some (as_record ?p (object_init []) d)), cat s\<lparr>st_ticks := k\<rparr>)"
    using get_object_does [OF assms(1,2), of ?p "object_init []"] assms(4) c by auto
  let ?c = "cat s\<lparr>st_ticks := k\<rparr>" and ?ok = "verdict (Some (as_record ?p (object_init []) d)) dig = VsOk"
  have ready: "ready ?c vol rt" and look: "lookup ?c vol rt ?p = Some d" using assms(2,4) by simp_all
  obtain c2 t where 1: "bump_verify e ?p (if ?ok then VsOk else VsFail) (Some dig) ?c = Ret (None, c2)"
      "lookup c2 vol rt ?p = Some (verified (if ?ok then VsOk else VsFail) dig t d)"
    using bump_verified [OF assms(1) ready assms(3) look, of "if ?ok then VsOk else VsFail" dig] by auto
  have vs: "verdict (Some (as_record ?p (object_init []) d)) dig = (if ?ok then VsOk else VsFail)"
    by (simp add: verdict_def)
  have "verify_file fuel fx e True job s = Ret ((?ok, Some (dig, n)), s1\<lparr>cat := ?c\<rparr>\<lparr>cat := c2\<rparr>)"
    using assms(5) get 1(1) by (simp add: verify_file_def iob_apply_Ret on_store_bind Let_def vs [symmetric])
  moreover have "?ok \<longleftrightarrow> (\<forall>h. rw_sha1 d = Some h \<and> length h = 20 \<longrightarrow> h = dig)"
    using as_record_sha1 [where p = ?p and d = d] by (auto simp: verdict_def)
  ultimately show ?thesis using 1(2) by (intro exI [of _ ?ok] exI [of _ "s1\<lparr>cat := ?c\<rparr>\<lparr>cat := c2\<rparr>"] exI [of _ t] conjI) auto
qed

text \<open>A conflict that was ignored: the record has the new hash, so the next verification of the same
  bytes finds nothing wrong.\<close>

lemma ignored_conflict_passes:
  assumes "healthy e" and "ready (cat s) vol rt" and "key_ok (vj_db_path job)"
    and "lookup (cat s) vol rt (vj_db_path job) = Some (after_choice conflict_ignore dig t d)"
    and "hash_file fuel fx (vj_abs job) s = Ret (Some (dig, n), s1)"
  shows "\<exists>h s'. verify_file fuel fx e True job s = Ret ((True, h), s')"
  using verify_file_does [OF assms]
  by (auto simp: after_choice_def verified_def conflict_ignore_def conflict_delete_def conflict_overwrite_def)

text \<open>A new directory in a folder that the catalog does not know becomes a folder of the root.\<close>

lemma nested_folder_misplaced:
  assumes "healthy (sy_sql sy)" and "ready (cat s) vol rt"
    and "lr_is_dir r" and "lr_in_fs r" and "\<not> lr_in_db r"
  shows "\<exists>c' s' j. sync_row sy 0 r c s = Ret (c', s') \<and> first_row (find_folder vol rt (cstr (lr_name r)) (cat s')) = Some j"
proof -
  have rt: "rt \<in> fd_id ` set (st_folders (cat s))" using assms(2) by (auto simp: ready_def dest: find_folder_in)
  have op: "st_open (cat s)" using assms(2) by (simp add: ready_def)
  obtain c1 j where 1: "does (ensure_folder_locked (sy_sql sy) vol rt (lr_name r)) (cat s) (j, []) c1"
      "first_row (find_folder vol rt (cstr (lr_name r)) c1) = Some j"
    using ensure_folder_does [OF assms(1,2) rt] by blast
  have "does (iob (ensure_root_folder_locked (sy_sql sy) vol) (\<lambda>i. ensure_folder_locked (sy_sql sy) vol i (lr_name r))) (cat s) (j, []) c1"
    by (rule does_bind [OF ensure_root_does [OF assms(1,2)]], rule 1(1))
  then have "does (ensure_folder (sy_sql sy) 0 (lr_name r)) (cat s) (j, []) c1"
    unfolding ensure_folder_def
    by (intro does_bind [OF get_opened [OF op]]) (simp, rule does_bind [OF ensure_volume_does [OF assms(1,2)]], simp)
  from does_result [OF this] obtain k where "ensure_folder (sy_sql sy) 0 (lr_name r) (cat s) = Ret ((j, []), c1\<lparr>st_ticks := k\<rparr>)" by blast
  then show ?thesis using assms(3-5) 1(2) by (simp add: sync_row_def sync_dir_def on_store_bind)
qed

end
