(* ===== verification/VerifyQueue.thy ===== *)
theory VerifyQueue
  imports Browser
begin

text \<open>
  The queue between the browser and its worker thread (\<open>src/gui/browser.cpp\<close>: \<open>fill_list_ctrl\<close>,
  \<open>enqueue_verifies\<close>, \<open>worker_main\<close>), as a step relation.  A step is what one thread does between two
  looks at what they share: the queue under its lock, the atomic counters, and the events that the
  worker posts to the interface.  The verdict on a file is left open here; it is that of \<open>verify_file\<close>, which
  records it in the catalog in the same step.
\<close>

section \<open>State\<close>

datatype work_state = WorkIdle | WorkRun | WorkSync | WorkOk | WorkErr

datatype queue_msg = Cancel nat | Verify verify_job

text \<open>Where the worker is: waiting, with a message, after the test of the generation, after the verdict,
  after the count (with what it left), or gone.\<close>

datatype worker_at = Waiting | Took queue_msg | Checked verify_job | Decided verify_job bool | Counted verify_job bool int | Gone

text \<open>The interface is free, or between the new generation and the new queue.\<close>

datatype gui_at = GuiFree | GuiFilled nat "verify_job list"

record post =
  po_gen :: nat
  po_row :: nat
  po_ok :: bool
  po_left :: int

text \<open>A row is the path of its record and the mark that the worker's answer has put there;
  \<open>vq_recorded\<close> are the verdicts that went to the catalog.\<close>

record verify_queue =
  vq_epoch :: nat
  vq_queue :: "queue_msg list"
  vq_pending :: int
  vq_work :: work_state
  vq_stop :: bool
  vq_worker :: worker_at
  vq_gui :: gui_at
  vq_posts :: "post list"
  vq_rows :: "(string \<times> bool option) list"
  vq_recorded :: "(string \<times> bool) list"

definition vq_init :: verify_queue where
  "vq_init = \<lparr>vq_epoch = 1, vq_queue = [], vq_pending = 0, vq_work = WorkIdle, vq_stop = False, vq_worker = Waiting,
     vq_gui = GuiFree, vq_posts = [], vq_rows = [], vq_recorded = []\<rparr>"

section \<open>The interface\<close>

definition fill_list :: "int \<Rightarrow> int \<Rightarrow> bool \<Rightarrow> list_row list \<Rightarrow> verify_queue \<Rightarrow> verify_queue" where
  "fill_list now ttl enq rows s =
     (let gen = vq_epoch s + 1 in
      s\<lparr>vq_epoch := gen, vq_gui := GuiFilled gen (if enq then verify_jobs now ttl gen rows else []),
        vq_rows := map (\<lambda>r. (lr_db_path r, None)) rows\<rparr>)"

definition enqueue_verifies :: "nat \<Rightarrow> verify_job list \<Rightarrow> verify_queue \<Rightarrow> verify_queue" where
  "enqueue_verifies gen jobs s =
     s\<lparr>vq_queue := Cancel gen # map Verify jobs, vq_pending := int (length jobs),
       vq_work := (if jobs \<noteq> [] then WorkRun else if vq_work s = WorkRun then WorkIdle else vq_work s),
       vq_gui := GuiFree\<rparr>"

definition deny_folder :: "verify_queue \<Rightarrow> verify_queue" where
  "deny_folder s = s\<lparr>vq_work := WorkErr, vq_rows := []\<rparr>"

definition run_post :: "post \<Rightarrow> verify_queue \<Rightarrow> verify_queue" where
  "run_post p s =
     (if po_gen p \<noteq> vq_epoch s \<or> length (vq_rows s) \<le> po_row p then s
      else s\<lparr>vq_work := (if po_left p \<le> 0 \<and> vq_work s = WorkRun then WorkIdle else vq_work s),
             vq_rows := (vq_rows s)[po_row p := (fst (vq_rows s ! po_row p), Some (po_ok p))]\<rparr>)"

definition stop_worker :: "verify_queue \<Rightarrow> verify_queue" where
  "stop_worker s = s\<lparr>vq_queue := [], vq_stop := True\<rparr>"

section \<open>The worker\<close>

definition worker_check :: "queue_msg \<Rightarrow> verify_queue \<Rightarrow> verify_queue" where
  "worker_check m s =
     s\<lparr>vq_worker := (case m of
         Cancel _ \<Rightarrow> Waiting
       | Verify j \<Rightarrow> if vj_gen j \<noteq> vq_epoch s then Waiting else Checked j)\<rparr>"

definition worker_decide :: "verify_job \<Rightarrow> bool \<Rightarrow> verify_queue \<Rightarrow> verify_queue" where
  "worker_decide j ok s = s\<lparr>vq_worker := Decided j ok, vq_recorded := vq_recorded s @ [(vj_db_path j, ok)]\<rparr>"

definition worker_count :: "verify_job \<Rightarrow> bool \<Rightarrow> verify_queue \<Rightarrow> verify_queue" where
  "worker_count j ok s = s\<lparr>vq_pending := vq_pending s - 1, vq_worker := Counted j ok (vq_pending s - 1)\<rparr>"

definition worker_post :: "verify_job \<Rightarrow> bool \<Rightarrow> int \<Rightarrow> verify_queue \<Rightarrow> verify_queue" where
  "worker_post j ok left s =
     s\<lparr>vq_worker := Waiting, vq_posts := vq_posts s @ [\<lparr>po_gen = vj_gen j, po_row = vj_row j, po_ok = ok, po_left = left\<rparr>]\<rparr>"

section \<open>Steps\<close>

inductive vq_step :: "verify_queue \<Rightarrow> verify_queue \<Rightarrow> bool" where
  fill: "vq_gui s = GuiFree \<Longrightarrow> vq_step s (fill_list now ttl enq rows s)"
| enqueue: "vq_gui s = GuiFilled gen jobs \<Longrightarrow> vq_step s (enqueue_verifies gen jobs s)"
| deny: "vq_gui s = GuiFree \<Longrightarrow> vq_step s (deny_folder s)"
| sync: "vq_gui s = GuiFree \<Longrightarrow> w \<in> {WorkSync, WorkOk} \<Longrightarrow> vq_step s (s\<lparr>vq_work := w\<rparr>)"
| run: "vq_gui s = GuiFree \<Longrightarrow> vq_posts s = p # ps \<Longrightarrow> vq_step s (run_post p (s\<lparr>vq_posts := ps\<rparr>))"
| stop: "vq_gui s = GuiFree \<Longrightarrow> vq_step s (stop_worker s)"
| pop: "vq_worker s = Waiting \<Longrightarrow> vq_queue s = m # ms \<Longrightarrow> vq_step s (s\<lparr>vq_queue := ms, vq_worker := Took m\<rparr>)"
| gone: "vq_worker s = Waiting \<Longrightarrow> vq_stop s \<Longrightarrow> vq_queue s = [] \<Longrightarrow> vq_step s (s\<lparr>vq_worker := Gone\<rparr>)"
| check: "vq_worker s = Took m \<Longrightarrow> vq_step s (worker_check m s)"
| decide: "vq_worker s = Checked j \<Longrightarrow> vq_step s (worker_decide j ok s)"
| count: "vq_worker s = Decided j ok \<Longrightarrow> vq_step s (worker_count j ok s)"
| post: "vq_worker s = Counted j ok left \<Longrightarrow> vq_step s (worker_post j ok left s)"

inductive_cases vq_stepE: "vq_step s s'"

section \<open>Invariants\<close>

text \<open>The jobs that are under way: queued, in the worker's hands before the count, and after it.\<close>

fun at_work :: "worker_at \<Rightarrow> verify_job list" where
  "at_work (Took (Verify j)) = [j]"
| "at_work (Checked j) = [j]"
| "at_work (Decided j _) = [j]"
| "at_work _ = []"

fun counted :: "worker_at \<Rightarrow> verify_job list" where
  "counted (Counted j _ _) = [j]"
| "counted _ = []"

fun verdict_of :: "worker_at \<Rightarrow> (verify_job \<times> bool) list" where
  "verdict_of (Decided j ok) = [(j, ok)]"
| "verdict_of (Counted j ok _) = [(j, ok)]"
| "verdict_of _ = []"

fun msg_jobs :: "queue_msg \<Rightarrow> verify_job list" where
  "msg_jobs (Verify j) = [j]"
| "msg_jobs (Cancel _) = []"

definition open_jobs :: "verify_queue \<Rightarrow> verify_job list" where
  "open_jobs s = at_work (vq_worker s) @ concat (map msg_jobs (vq_queue s))"

definition current_jobs :: "verify_queue \<Rightarrow> verify_job list" where
  "current_jobs s = filter (\<lambda>j. vj_gen j = vq_epoch s) (open_jobs s)"

text \<open>A job of this generation is one of the row it names, if the list still has it.\<close>

definition job_fits :: "verify_queue \<Rightarrow> verify_job \<Rightarrow> bool" where
  "job_fits s j \<longleftrightarrow> vj_gen j \<le> vq_epoch s \<and>
     (vj_gen j = vq_epoch s \<and> vj_row j < length (vq_rows s) \<longrightarrow> fst (vq_rows s ! vj_row j) = vj_db_path j)"

definition recorded_rows :: "verify_queue \<Rightarrow> bool" where
  "recorded_rows s \<longleftrightarrow> (\<forall>(path, mark) \<in> set (vq_rows s). \<forall>ok. mark = Some ok \<longrightarrow> (path, ok) \<in> set (vq_recorded s))"

definition queue_inv :: "verify_queue \<Rightarrow> bool" where
  "queue_inv s \<longleftrightarrow>
     (\<forall>j \<in> set (open_jobs s @ counted (vq_worker s)). job_fits s j) \<and>
     (\<forall>(j, ok) \<in> set (verdict_of (vq_worker s)). (vj_db_path j, ok) \<in> set (vq_recorded s)) \<and>
     (\<forall>p \<in> set (vq_posts s). po_gen p \<le> vq_epoch s \<and>
        (po_gen p = vq_epoch s \<and> po_row p < length (vq_rows s) \<longrightarrow> (fst (vq_rows s ! po_row p), po_ok p) \<in> set (vq_recorded s))) \<and>
     (\<forall>gen jobs. vq_gui s = GuiFilled gen jobs \<longrightarrow> gen = vq_epoch s \<and>
        (\<forall>j \<in> set jobs. vj_gen j = gen \<and> job_fits s j \<and> vj_row j < length (vq_rows s)) \<and>
        (\<forall>j \<in> set (open_jobs s @ counted (vq_worker s)). vj_gen j < gen)) \<and>
     recorded_rows s"

lemma verify_jobs_fit:
  "j \<in> set (verify_jobs now ttl gen rows) \<Longrightarrow>
   vj_gen j = gen \<and> vj_row j < length rows \<and> vj_db_path j = lr_db_path (rows ! vj_row j)"
  by (auto simp: verify_jobs_def in_set_enumerate_eq)

lemmas queue_defs = queue_inv_def open_jobs_def job_fits_def recorded_rows_def

lemma inv_fill:
  assumes "queue_inv s" and "vq_gui s = GuiFree"
  shows "queue_inv (fill_list now ttl enq rows s)"
proof -
  have old: "vj_gen j \<le> vq_epoch s" if "j \<in> set (open_jobs s @ counted (vq_worker s))" for j
    using assms(1) that by (simp add: queue_inv_def job_fits_def)
  have same: "open_jobs (fill_list now ttl enq rows s) = open_jobs s" "vq_worker (fill_list now ttl enq rows s) = vq_worker s"
    by (simp_all add: fill_list_def open_jobs_def Let_def)
  show ?thesis
    using assms(1) old unfolding queue_inv_def same
    by (auto simp: fill_list_def Let_def job_fits_def recorded_rows_def less_Suc_eq_le dest!: verify_jobs_fit split: if_splits)
      fastforce+
qed

lemma inv_enqueue:
  assumes "queue_inv s" and "vq_gui s = GuiFilled gen jobs"
  shows "queue_inv (enqueue_verifies gen jobs s)"
proof -
  have "open_jobs (enqueue_verifies gen jobs s) = at_work (vq_worker s) @ jobs"
    by (simp add: open_jobs_def enqueue_verifies_def comp_def)
  then show ?thesis
    using assms by (auto simp: queue_inv_def job_fits_def recorded_rows_def enqueue_verifies_def open_jobs_def)
qed

lemma inv_run:
  assumes "queue_inv s" and "vq_posts s = p # ps"
  shows "queue_inv (run_post p (s\<lparr>vq_posts := ps\<rparr>))"
proof (cases "po_gen p \<noteq> vq_epoch s \<or> length (vq_rows s) \<le> po_row p")
  case True
  then show ?thesis using assms by (simp add: run_post_def queue_defs)
next
  case False
  let ?s = "run_post p (s\<lparr>vq_posts := ps\<rparr>)"
  have fst: "fst (vq_rows ?s ! i) = fst (vq_rows s ! i)" if "i < length (vq_rows s)" for i
    using False that by (simp add: run_post_def nth_list_update)
  have rec: "(fst (vq_rows s ! po_row p), po_ok p) \<in> set (vq_recorded s)"
    using assms False by (simp add: queue_inv_def)
  have "recorded_rows ?s"
    using assms(1) False rec set_update_subset_insert [of "vq_rows s" "po_row p"]
    by (fastforce simp: run_post_def queue_inv_def recorded_rows_def)
  then show ?thesis
    using assms(1,2) False fst by (auto simp: queue_inv_def job_fits_def run_post_def open_jobs_def)
qed

lemma inv_fewer:
  assumes "queue_inv s"
    and "vq_epoch s' = vq_epoch s" "vq_rows s' = vq_rows s" "vq_recorded s' = vq_recorded s" "vq_posts s' = vq_posts s" "vq_gui s' = vq_gui s"
    and "set (open_jobs s' @ counted (vq_worker s')) \<subseteq> set (open_jobs s @ counted (vq_worker s))"
    and "set (verdict_of (vq_worker s')) \<subseteq> set (verdict_of (vq_worker s))"
  shows "queue_inv s'"
  using assms(1) subsetD [OF assms(7)] subsetD [OF assms(8)]
  unfolding queue_inv_def job_fits_def recorded_rows_def assms(2-6) by blast

lemma inv_step:
  assumes "queue_inv s" and "vq_step s s'"
  shows "queue_inv s'"
  using assms(2)
proof cases
  case (fill now ttl enq rows)
  then show ?thesis using inv_fill [OF assms(1)] by simp
next
  case (enqueue gen jobs)
  then show ?thesis using inv_enqueue [OF assms(1)] by simp
next
  case (run p ps)
  then show ?thesis using inv_run [OF assms(1)] by simp
next
  case (pop m ms)
  show ?thesis
    unfolding pop(1) by (rule inv_fewer [OF assms(1)]) (use pop in \<open>cases m; auto simp: open_jobs_def\<close>)+
next
  case (check m)
  show ?thesis
    unfolding check(1) by (rule inv_fewer [OF assms(1)]) (use check in \<open>cases m; auto simp: open_jobs_def worker_check_def\<close>)+
next
  case deny
  then show ?thesis using assms(1) by (simp add: queue_defs deny_folder_def)
next
  case (sync w)
  then show ?thesis using assms(1) by (simp add: queue_defs)
next
  case stop
  show ?thesis
    unfolding stop(1) by (rule inv_fewer [OF assms(1)]) (auto simp: open_jobs_def stop_worker_def)
next
  case gone
  show ?thesis
    unfolding gone(1) by (rule inv_fewer [OF assms(1)]) (auto simp: open_jobs_def)
next
  case (decide j ok)
  then show ?thesis using assms(1) unfolding worker_decide_def by (fastforce simp: queue_defs)
next
  case (count j ok)
  then show ?thesis using assms(1) by (auto simp: queue_defs worker_count_def)
next
  case (post j ok left)
  then show ?thesis using assms(1) by (auto simp: queue_defs worker_post_def)
qed

lemma inv_reachable: "vq_step\<^sup>*\<^sup>* vq_init s \<Longrightarrow> queue_inv s"
proof (induction rule: rtranclp_induct)
  case base
  show ?case by (simp add: queue_defs vq_init_def)
qed (rule inv_step)

text \<open>C37: whatever the interleaving of listing, zooming, synchronising and verifying, a mark that the
  worker's answer puts on a row is a verdict that was recorded for the file of that very row.\<close>

theorem marks_are_recorded:
  assumes "vq_step\<^sup>*\<^sup>* vq_init s" and "i < length (vq_rows s)" and "vq_rows s ! i = (path, Some ok)"
  shows "(path, ok) \<in> set (vq_recorded s)"
proof -
  have "(path, Some ok) \<in> set (vq_rows s)" using assms(2,3) by (metis nth_mem)
  then show ?thesis using inv_reachable [OF assms(1)] by (auto simp: queue_inv_def recorded_rows_def)
qed

section \<open>The state of the work\<close>

text \<open>While the interface shows that files are being verified, there is a job of the list under way, or an
  event that will end it.\<close>

definition ends_run :: "verify_queue \<Rightarrow> nat \<Rightarrow> nat \<Rightarrow> int \<Rightarrow> bool" where
  "ends_run s gen row left \<longleftrightarrow> gen = vq_epoch s \<and> row < length (vq_rows s) \<and> left \<le> 0"

fun worker_ends :: "verify_queue \<Rightarrow> worker_at \<Rightarrow> bool" where
  "worker_ends s (Counted j _ left) = ends_run s (vj_gen j) (vj_row j) left"
| "worker_ends s _ = False"

definition run_ends :: "verify_queue \<Rightarrow> bool" where
  "run_ends s \<longleftrightarrow> current_jobs s \<noteq> [] \<or> worker_ends s (vq_worker s) \<or>
     (\<exists>p \<in> set (vq_posts s). ends_run s (po_gen p) (po_row p) (po_left p))"

definition run_inv :: "verify_queue \<Rightarrow> bool" where
  "run_inv s \<longleftrightarrow> (vq_gui s = GuiFree \<and> \<not> vq_stop s \<longrightarrow>
     vq_pending s \<le> int (length (current_jobs s)) \<and>
     (vq_work s = WorkRun \<longrightarrow> run_ends s \<and> (\<forall>j \<in> set (current_jobs s). vj_row j < length (vq_rows s))))"

lemma run_enqueue:
  assumes "queue_inv s" and "vq_gui s = GuiFilled gen jobs"
  shows "run_inv (enqueue_verifies gen jobs s)"
proof -
  have old: "vj_gen j < vq_epoch s" if "j \<in> set (at_work (vq_worker s))" for j
    using assms that by (auto simp: queue_inv_def open_jobs_def)
  have "filter (\<lambda>j. vj_gen j = vq_epoch s) (at_work (vq_worker s)) = []" "filter (\<lambda>j. vj_gen j = vq_epoch s) jobs = jobs"
    "\<forall>j \<in> set jobs. vj_row j < length (vq_rows s)"
    using assms by (auto simp: queue_inv_def filter_empty_conv filter_id_conv dest: old)
  moreover have "open_jobs (enqueue_verifies gen jobs s) = at_work (vq_worker s) @ jobs"
    by (simp add: open_jobs_def enqueue_verifies_def comp_def)
  ultimately have "current_jobs (enqueue_verifies gen jobs s) = jobs"
    by (simp add: current_jobs_def enqueue_verifies_def)
  then show ?thesis
    using \<open>\<forall>j \<in> set jobs. vj_row j < length (vq_rows s)\<close> by (auto simp: run_inv_def run_ends_def enqueue_verifies_def)
qed

lemma run_run:
  assumes "run_inv s" and "vq_posts s = p # ps"
  shows "run_inv (run_post p (s\<lparr>vq_posts := ps\<rparr>))"
proof -
  let ?s = "run_post p (s\<lparr>vq_posts := ps\<rparr>)"
  have same: "current_jobs ?s = current_jobs s" "vq_worker ?s = vq_worker s" "vq_epoch ?s = vq_epoch s" "vq_posts ?s = ps"
    "length (vq_rows ?s) = length (vq_rows s)" "vq_gui ?s = vq_gui s" "vq_stop ?s = vq_stop s" "vq_pending ?s = vq_pending s"
    by (simp_all add: run_post_def current_jobs_def open_jobs_def)
  have ends: "worker_ends ?s w = worker_ends s w" "ends_run ?s g i l = ends_run s g i l" for w g i l
    using same(3,5) by (cases w; simp add: ends_run_def)+
  have "vq_work ?s \<noteq> WorkRun" if "ends_run s (po_gen p) (po_row p) (po_left p)"
    using that by (simp add: ends_run_def run_post_def)
  moreover have "vq_work ?s = WorkRun \<Longrightarrow> vq_work s = WorkRun" by (simp add: run_post_def split: if_splits)
  ultimately show ?thesis
    using assms unfolding run_inv_def run_ends_def same ends by auto
qed

lemma run_count:
  assumes "run_inv s" and "vq_worker s = Decided j ok"
  shows "run_inv (worker_count j ok s)"
proof -
  let ?s = "worker_count j ok s" and ?cur = "vj_gen j = vq_epoch s"
  have "current_jobs s = (if ?cur then j # current_jobs ?s else current_jobs ?s)"
    using assms(2) by (simp add: current_jobs_def open_jobs_def worker_count_def)
  moreover have "run_ends ?s" if "vq_pending s \<le> int (length (current_jobs s))" "run_ends s"
      "\<forall>j \<in> set (current_jobs s). vj_row j < length (vq_rows s)"
    using that assms(2) calculation
    by (cases "current_jobs ?s") (auto simp: run_ends_def ends_run_def worker_count_def split: if_splits)
  ultimately show ?thesis
    using assms(1) by (auto simp: run_inv_def worker_count_def split: if_splits)
qed

lemma run_same:
  assumes "run_inv s" and "current_jobs s' = current_jobs s" "run_ends s \<Longrightarrow> vq_work s' = WorkRun \<Longrightarrow> run_ends s'"
    and "vq_gui s' = vq_gui s" "vq_stop s' = vq_stop s" "vq_pending s' = vq_pending s"
    and "vq_work s' = WorkRun \<Longrightarrow> vq_work s = WorkRun \<and> vq_rows s' = vq_rows s"
  shows "run_inv s'"
  using assms unfolding run_inv_def by auto

lemmas run_defs = current_jobs_def open_jobs_def run_ends_def ends_run_def

lemma run_step:
  assumes "queue_inv s" and "run_inv s" and "vq_step s s'"
  shows "run_inv s'"
  using assms(3)
proof cases
  case (fill now ttl enq rows)
  then show ?thesis by (simp add: run_inv_def fill_list_def Let_def)
next
  case (enqueue gen jobs)
  then show ?thesis using run_enqueue [OF assms(1)] by simp
next
  case deny
  show ?thesis unfolding deny(1) by (rule run_same [OF assms(2)]) (auto simp: run_defs deny_folder_def)
next
  case (sync w)
  show ?thesis unfolding sync(1) by (rule run_same [OF assms(2)]) (use sync in \<open>auto simp: run_defs\<close>)
next
  case (run p ps)
  then show ?thesis using run_run [OF assms(2)] by simp
next
  case stop
  then show ?thesis by (simp add: run_inv_def stop_worker_def)
next
  case (pop m ms)
  show ?thesis unfolding pop(1) by (rule run_same [OF assms(2)]) (use pop in \<open>cases m; auto simp: run_defs\<close>)+
next
  case gone
  show ?thesis unfolding gone(1) by (rule run_same [OF assms(2)]) (use gone in \<open>auto simp: run_defs\<close>)
next
  case (check m)
  show ?thesis unfolding check(1) by (rule run_same [OF assms(2)]) (use check in \<open>cases m; auto simp: run_defs worker_check_def\<close>)+
next
  case (decide j ok)
  show ?thesis unfolding decide(1) by (rule run_same [OF assms(2)]) (use decide in \<open>auto simp: run_defs worker_decide_def\<close>)
next
  case (count j ok)
  then show ?thesis using run_count [OF assms(2)] by simp
next
  case (post j ok left)
  show ?thesis unfolding post(1) by (rule run_same [OF assms(2)]) (use post in \<open>auto simp: run_defs worker_post_def\<close>)
qed

lemma run_reachable: "vq_step\<^sup>*\<^sup>* vq_init s \<Longrightarrow> run_inv s"
proof (induction rule: rtranclp_induct)
  case base
  show ?case by (simp add: run_inv_def vq_init_def)
next
  case (step s s')
  then show ?case using run_step inv_reachable by blast
qed


section \<open>Runs of the queue\<close>

text \<open>The worker alone, each file being fine, and the interface alone.\<close>

definition worker_turn :: "verify_queue \<Rightarrow> verify_queue" where
  "worker_turn s =
     (case vq_worker s of
        Waiting \<Rightarrow> (case vq_queue s of [] \<Rightarrow> s | m # ms \<Rightarrow> s\<lparr>vq_queue := ms, vq_worker := Took m\<rparr>)
      | Took m \<Rightarrow> worker_check m s
      | Checked j \<Rightarrow> worker_decide j True s
      | Decided j ok \<Rightarrow> worker_count j ok s
      | Counted j ok left \<Rightarrow> worker_post j ok left s
      | Gone \<Rightarrow> s)"

definition gui_turn :: "verify_queue \<Rightarrow> verify_queue" where
  "gui_turn s =
     (case vq_gui s of
        GuiFilled gen jobs \<Rightarrow> enqueue_verifies gen jobs s
      | GuiFree \<Rightarrow> (case vq_posts s of [] \<Rightarrow> s | p # ps \<Rightarrow> run_post p (s\<lparr>vq_posts := ps\<rparr>)))"

lemma turn_reaches: "vq_step\<^sup>*\<^sup>* s (worker_turn s)" "vq_step\<^sup>*\<^sup>* s (gui_turn s)"
  by (auto simp: worker_turn_def gui_turn_def split: worker_at.split gui_at.split list.split intro: vq_step.intros)

lemma turns_reach: "vq_step\<^sup>*\<^sup>* r s \<Longrightarrow> vq_step\<^sup>*\<^sup>* r ((worker_turn ^^ n) s)"
proof (induction n)
  case (Suc n)
  then show ?case by (simp add: rtranclp_trans [OF _ turn_reaches(1)])
qed simp

definition row_x :: list_row where
  "row_x = list_row_of ''/m'' [] ((fresh_row ''x'')\<lparr>fr_in_fs := True, fr_in_db := True\<rparr>)"

definition row_y :: list_row where
  "row_y = list_row_of ''/m'' [] ((fresh_row ''y'')\<lparr>fr_in_fs := True, fr_in_db := True\<rparr>)"

definition one_verified :: verify_queue where
  "one_verified = gui_turn ((worker_turn ^^ 7) (gui_turn (fill_list 0 0 True [row_x] vq_init)))"

lemmas turn_defs = gui_turn_def worker_turn_def fill_list_def enqueue_verifies_def worker_check_def worker_decide_def
  worker_count_def worker_post_def run_post_def vq_init_def eval_nat_numeral(3) eval_nat_numeral(2)

lemma first_jobs:
  "verify_jobs 0 0 gen [row_x] = [\<lparr>vj_gen = gen, vj_row = 0, vj_abs = ''/m/x'', vj_db_path = ''/x''\<rparr>]"
  "verify_jobs 0 0 gen [row_x, row_y] =
     [\<lparr>vj_gen = gen, vj_row = 0, vj_abs = ''/m/x'', vj_db_path = ''/x''\<rparr>,
      \<lparr>vj_gen = gen, vj_row = 1, vj_abs = ''/m/y'', vj_db_path = ''/y''\<rparr>]"
  "lr_db_path row_x = ''/x''" "lr_db_path row_y = ''/y''"
  by (simp_all add: verify_jobs_def row_x_def row_y_def list_row_of_def fresh_row_def wants_verify_def recent_def
      dir_entry_init_def db_path_for_def)

lemma one_verified_reached: "vq_step\<^sup>*\<^sup>* vq_init one_verified"
proof -
  have "vq_step vq_init (fill_list 0 0 True [row_x] vq_init)" by (rule vq_step.fill) (simp add: vq_init_def)
  then have "vq_step\<^sup>*\<^sup>* vq_init (gui_turn (fill_list 0 0 True [row_x] vq_init))"
    using turn_reaches(2) by (meson r_into_rtranclp rtranclp_trans)
  from turns_reach [OF this, of 7] show ?thesis
    unfolding one_verified_def using turn_reaches(2) rtranclp_trans by metis
qed

lemma one_verified_state:
  "vq_rows one_verified = [(''/x'', Some True)]" "vq_recorded one_verified = [(''/x'', True)]" "vq_queue one_verified = []"
  "vq_worker one_verified = Waiting" "vq_posts one_verified = []" "vq_gui one_verified = GuiFree" "\<not> vq_stop one_verified"
  by (simp_all add: one_verified_def first_jobs turn_defs)

lemma marks_are_recorded_witness: "(''/x'', True) \<in> set (vq_recorded one_verified)"
  by (rule marks_are_recorded [OF one_verified_reached, of 0]) (simp_all add: one_verified_state)


text \<open>A file in the worker's hands when the list is made anew is counted off the new list: the state may
  say idle while a file is left.\<close>

definition listed_twice :: verify_queue where
  "listed_twice =
     (let s1 = (worker_turn ^^ 4) (gui_turn (fill_list 0 0 True [row_x] vq_init));
          s2 = (worker_turn ^^ 10) (gui_turn (fill_list 0 0 True [row_x, row_y] s1))
      in gui_turn (gui_turn s2))"

lemma listed_twice_reached: "vq_step\<^sup>*\<^sup>* vq_init listed_twice"
proof -
  let ?f = "fill_list 0 0 True"
  have 1: "vq_step\<^sup>*\<^sup>* r (gui_turn (?f rows s))" if "vq_step\<^sup>*\<^sup>* r s" "vq_gui s = GuiFree" for r s rows
    using that vq_step.fill [OF that(2)] turn_reaches(2) by (meson rtranclp.rtrancl_into_rtrancl rtranclp_trans)
  let ?s = "(worker_turn ^^ 4) (gui_turn (?f [row_x] vq_init))"
  have 2: "vq_step\<^sup>*\<^sup>* vq_init ?s" by (rule turns_reach, rule 1) (simp_all add: vq_init_def)
  have "vq_gui ?s = GuiFree" by (simp add: first_jobs turn_defs)
  from turns_reach [OF 1 [OF 2 this], of 10 "[row_x, row_y]"] show ?thesis
    unfolding listed_twice_def Let_def using turn_reaches(2) rtranclp_trans by metis
qed

lemma first_half:
  "(worker_turn ^^ 4) (gui_turn (fill_list 0 0 True [row_x] vq_init)) =
   \<lparr>vq_epoch = 2, vq_queue = [], vq_pending = 1, vq_work = WorkRun, vq_stop = False,
    vq_worker = Checked \<lparr>vj_gen = 2, vj_row = 0, vj_abs = ''/m/x'', vj_db_path = ''/x''\<rparr>,
    vq_gui = GuiFree, vq_posts = [], vq_rows = [(''/x'', None)], vq_recorded = []\<rparr>"
  by (simp add: first_jobs turn_defs)

lemma listed_twice_state:
  "listed_twice = \<lparr>vq_epoch = 3, vq_queue = [Verify \<lparr>vj_gen = 3, vj_row = 1, vj_abs = ''/m/y'', vj_db_path = ''/y''\<rparr>],
    vq_pending = 0, vq_work = WorkIdle, vq_stop = False, vq_worker = Waiting, vq_gui = GuiFree, vq_posts = [],
    vq_rows = [(''/x'', Some True), (''/y'', None)], vq_recorded = [(''/x'', True), (''/x'', True)]\<rparr>"
  unfolding listed_twice_def first_half Let_def by (simp add: first_jobs turn_defs)

lemma idle_too_early:
  "vq_step\<^sup>*\<^sup>* vq_init listed_twice" "vq_work listed_twice = WorkIdle" "length (current_jobs listed_twice) = 1"
  by (rule listed_twice_reached, simp_all add: listed_twice_state current_jobs_def open_jobs_def)

end
