(* ===== verification/BrowserView.thy ===== *)
theory BrowserView
  imports Browser Massage
begin

text \<open>
  How the browser shows what it lists (\<open>src/gui/browser.cpp\<close>): the settings of the view and the handlers
  that change them, the texts of the status line and of the columns, the sizes of icons and fonts.
  The fields of the window that hold settings are a \<open>browser_settings\<close>; what was written to the
  settings file last is kept beside it.  The controls of the preferences return values of their ranges.
\<close>

section \<open>Texts\<close>

definition hex_digit :: "nat \<Rightarrow> char" where
  "hex_digit n = (if n < 10 then char_of (48 + n) else char_of (87 + n))"

definition sha1_hex :: "bytes \<Rightarrow> bool \<Rightarrow> string" where
  "sha1_hex dig has =
     (if \<not> has then [] else concat (map (\<lambda>b. [hex_digit (unat b div 16), hex_digit (unat b mod 16)]) (take 20 dig)))"

definition in_unit :: "u64 \<Rightarrow> nat \<Rightarrow> rat" where
  "in_unit n unit = of_nat (unat n) / of_nat unit"

definition format_bytes :: "u64 \<Rightarrow> string" where
  "format_bytes n =
     (if 1073741824 \<le> n then show_fixed 1 (in_unit n 1073741824) @ '' GB''
      else if 1048576 \<le> n then show_fixed 1 (in_unit n 1048576) @ '' MB''
      else if 1024 \<le> n then show_fixed 1 (in_unit n 1024) @ '' KB''
      else show_u64 n @ '' B'')"

fun insert_commas :: "nat \<Rightarrow> string \<Rightarrow> int \<Rightarrow> string" where
  "insert_commas 0 s ins = s"
| "insert_commas (Suc k) s ins =
     (if 0 < ins then insert_commas k (take (nat ins) s @ CHR '','' # drop (nat ins) s) (ins - 3) else s)"

text \<open>As many rounds as there are characters are enough.\<close>

definition format_count :: "int \<Rightarrow> string" where
  "format_count n = (let s = show_int n in insert_commas (length s) s (int (length s) - 3))"

definition is_image_name :: "string \<Rightarrow> bool" where
  "is_image_name name \<longleftrightarrow> CHR ''.'' \<in> set name \<and> after_last_dot name \<noteq> [] \<and>
     to_lower (after_last_dot name) \<in>
       {''png'', ''jpg'', ''jpeg'', ''gif'', ''bmp'', ''webp'', ''tif'', ''tiff'', ''ico'', ''xpm''}"

section \<open>The view\<close>

abbreviation zoom_min :: int where "zoom_min \<equiv> -2"

abbreviation zoom_max :: int where "zoom_max \<equiv> 3"

text \<open>\<open>bv_saved\<close> is what the settings file holds, \<open>bv_days\<close> the life time of hashes that was handed to the database last.\<close>

record browser_view =
  bv_set :: browser_settings
  bv_rows :: "list_row list"
  bv_saved :: browser_settings
  bv_days :: "int option"

definition arrange_of :: "int \<Rightarrow> arrange_by" where
  "arrange_of n = (if n = 0 then ArrManual else if n = 2 then ArrSize else if n = 3 then ArrType else if n = 4 then ArrMtime else ArrName)"

definition clamp :: "int \<Rightarrow> int \<Rightarrow> int \<Rightarrow> int" where
  "clamp lo hi n = (if n < lo then lo else if hi < n then hi else n)"

definition icon_sizes :: "int list" where "icon_sizes = [32, 48, 64, 96, 128, 160]"

definition small_sizes :: "int list" where "small_sizes = [12, 14, 16, 18, 22, 28]"

definition list_icon_size :: "browser_settings \<Rightarrow> int" where
  "list_icon_size b =
     (let idx = nat (clamp 0 5 (bw_zoom_level b - zoom_min))
      in if bw_view_mode b = 0 then icon_sizes ! idx else small_sizes ! idx)"

definition list_font_size :: "browser_settings \<Rightarrow> int" where
  "list_font_size b = clamp 8 18 (10 + bw_zoom_level b)"

definition load_settings :: "browser_settings \<Rightarrow> browser_settings" where
  "load_settings b =
     b\<lparr>bw_view_mode := (if bw_view_mode b < 0 \<or> 2 < bw_view_mode b then 1 else bw_view_mode b),
       bw_arrange := (if bw_arrange b < 0 \<or> 4 < bw_arrange b then 1 else bw_arrange b),
       bw_zoom_level := clamp zoom_min zoom_max (bw_zoom_level b),
       bw_auto_rewrite_months := clamp 1 120 (bw_auto_rewrite_months b)\<rparr>"

definition save_settings :: "browser_view \<Rightarrow> browser_view" where
  "save_settings s = s\<lparr>bv_saved := bv_set s\<rparr>"

definition sort_rows :: "browser_view \<Rightarrow> browser_view" where
  "sort_rows s = s\<lparr>bv_rows := sort_list_rows (arrange_of (bw_arrange (bv_set s))) (bw_arrange_rev (bv_set s)) (bv_rows s)\<rparr>"

text \<open>A folder is listed: its rows, with or without the hidden ones, in the order of the settings.\<close>

type_synonym folder_view = "bool \<Rightarrow> list_row list"

definition view_folder :: "folder_view \<Rightarrow> browser_view \<Rightarrow> browser_view" where
  "view_folder rows s = sort_rows (s\<lparr>bv_rows := rows (bw_show_hidden (bv_set s))\<rparr>)"

definition apply_auto_rewrite_months :: "int \<Rightarrow> browser_view \<Rightarrow> browser_view" where
  "apply_auto_rewrite_months months s =
     (let m = clamp 1 120 months in s\<lparr>bv_set := (bv_set s)\<lparr>bw_auto_rewrite_months := m\<rparr>, bv_days := Some (m * 30)\<rparr>)"

definition set_zoom_level :: "int \<Rightarrow> browser_view \<Rightarrow> browser_view" where
  "set_zoom_level level s =
     (let z = clamp zoom_min zoom_max level
      in if z = bw_zoom_level (bv_set s) then s
         else save_settings (sort_rows (s\<lparr>bv_set := (bv_set s)\<lparr>bw_zoom_level := z\<rparr>\<rparr>)))"

definition set_view_mode :: "int \<Rightarrow> browser_view \<Rightarrow> browser_view" where
  "set_view_mode mode s =
     (if mode = bw_view_mode (bv_set s) then s
      else save_settings (sort_rows (s\<lparr>bv_set := (bv_set s)\<lparr>bw_view_mode := mode\<rparr>\<rparr>)))"

definition on_list_wheel :: "bool \<Rightarrow> int \<Rightarrow> browser_view \<Rightarrow> browser_view" where
  "on_list_wheel ctrl rot s =
     (if \<not> ctrl \<or> rot = 0 then s
      else set_zoom_level (bw_zoom_level (bv_set s) + (if 0 < rot then 1 else -1)) s)"

definition on_view_zoom_in :: "browser_view \<Rightarrow> browser_view" where
  "on_view_zoom_in s = set_zoom_level (bw_zoom_level (bv_set s) + 1) s"

definition on_view_zoom_out :: "browser_view \<Rightarrow> browser_view" where
  "on_view_zoom_out s = set_zoom_level (bw_zoom_level (bv_set s) - 1) s"

definition on_view_zoom_normal :: "browser_view \<Rightarrow> browser_view" where
  "on_view_zoom_normal s = set_zoom_level 0 s"

datatype view_item = ViewIcon | ViewList | ViewCompact

fun view_num :: "view_item \<Rightarrow> int" where
  "view_num ViewIcon = 0"
| "view_num ViewList = 1"
| "view_num ViewCompact = 2"

definition on_view_mode :: "view_item \<Rightarrow> browser_view \<Rightarrow> browser_view" where
  "on_view_mode m s = set_view_mode (view_num m) s"

definition on_view_reset :: "folder_view \<Rightarrow> browser_view \<Rightarrow> browser_view" where
  "on_view_reset rows s =
     save_settings (view_folder rows (s\<lparr>bv_set := (bv_set s)\<lparr>bw_view_mode := 1, bw_arrange := 1, bw_arrange_rev := False,
       bw_show_hidden := False, bw_show_thumbs := False, bw_zoom_level := 0\<rparr>\<rparr>))"

definition on_view_hidden :: "bool \<Rightarrow> folder_view \<Rightarrow> browser_view \<Rightarrow> browser_view" where
  "on_view_hidden b rows s = save_settings (view_folder rows (s\<lparr>bv_set := (bv_set s)\<lparr>bw_show_hidden := b\<rparr>\<rparr>))"

definition on_view_thumbs :: "bool \<Rightarrow> browser_view \<Rightarrow> browser_view" where
  "on_view_thumbs b s = save_settings (s\<lparr>bv_set := (bv_set s)\<lparr>bw_show_thumbs := b\<rparr>\<rparr>)"

fun arrange_num :: "arrange_by \<Rightarrow> int" where
  "arrange_num ArrManual = 0"
| "arrange_num ArrName = 1"
| "arrange_num ArrSize = 2"
| "arrange_num ArrType = 3"
| "arrange_num ArrMtime = 4"

definition on_view_arrange :: "arrange_by \<Rightarrow> browser_view \<Rightarrow> browser_view" where
  "on_view_arrange arr s = save_settings (sort_rows (s\<lparr>bv_set := (bv_set s)\<lparr>bw_arrange := arrange_num arr\<rparr>\<rparr>))"

definition on_view_reverse :: "bool \<Rightarrow> browser_view \<Rightarrow> browser_view" where
  "on_view_reverse b s = save_settings (sort_rows (s\<lparr>bv_set := (bv_set s)\<lparr>bw_arrange_rev := b\<rparr>\<rparr>))"

text \<open>The preferences, left with OK, and the values of their controls.\<close>

definition on_prefs :: "browser_settings \<Rightarrow> browser_view \<Rightarrow> browser_view" where
  "on_prefs c s =
     (let s1 = apply_auto_rewrite_months (bw_auto_rewrite_months c) s;
          s2 = s1\<lparr>bv_set := (bv_set s1)\<lparr>bw_arrange := bw_arrange c, bw_arrange_rev := bw_arrange_rev c, bw_show_hidden := bw_show_hidden c,
                 bw_show_thumbs := bw_show_thumbs c, bw_zoom_level := bw_zoom_level c, bw_view_mode := bw_view_mode c\<rparr>\<rparr>
      in save_settings (sort_rows s2))"

datatype view_op = VFolder folder_view | VZoomIn | VZoomOut | VZoomNormal | VMode view_item | VWheel bool int
  | VReset folder_view | VHidden bool folder_view | VThumbs bool | VArrange arrange_by | VReverse bool | VPrefs browser_settings

fun view_step :: "view_op \<Rightarrow> browser_view \<Rightarrow> browser_view" where
  "view_step (VFolder rows) s = view_folder rows s"
| "view_step VZoomIn s = on_view_zoom_in s"
| "view_step VZoomOut s = on_view_zoom_out s"
| "view_step VZoomNormal s = on_view_zoom_normal s"
| "view_step (VMode m) s = on_view_mode m s"
| "view_step (VWheel ctrl rot) s = on_list_wheel ctrl rot s"
| "view_step (VReset rows) s = on_view_reset rows s"
| "view_step (VHidden b rows) s = on_view_hidden b rows s"
| "view_step (VThumbs b) s = on_view_thumbs b s"
| "view_step (VArrange arr) s = on_view_arrange arr s"
| "view_step (VReverse b) s = on_view_reverse b s"
| "view_step (VPrefs c) s = on_prefs c s"

text \<open>The window is opened with the settings \<open>b\<close> of the file, whose months it writes to the database.\<close>

definition view_open :: "browser_settings \<Rightarrow> browser_view" where
  "view_open b =
     (let c = load_settings b in
      apply_auto_rewrite_months (bw_auto_rewrite_months c) \<lparr>bv_set = c, bv_rows = [], bv_saved = b, bv_days = None\<rparr>)"

section \<open>The texts\<close>

lemma insert_commas_only: "filter (\<lambda>c. c \<noteq> CHR '','') (insert_commas k s i) = filter (\<lambda>c. c \<noteq> CHR '','') s"
proof (induction k arbitrary: s i)
  case (Suc k)
  have "filter (\<lambda>c. c \<noteq> CHR '','') (take n s) @ filter (\<lambda>c. c \<noteq> CHR '','') (drop n s) = filter (\<lambda>c. c \<noteq> CHR '','') s" for n
    by (metis append_take_drop_id filter_append)
  then show ?case using Suc by simp
qed simp

text \<open>Separators are all that \<open>format_count\<close> adds to the number.\<close>

lemma format_count_digits: "filter (\<lambda>c. c \<noteq> CHR '','') (format_count n) = filter (\<lambda>c. c \<noteq> CHR '','') (show_int n)"
  by (simp add: format_count_def Let_def insert_commas_only)

lemma sha1_hex_length: "length dig = 20 \<Longrightarrow> length (sha1_hex dig True) = 40"
  by (simp add: sha1_hex_def length_concat comp_def sum_list_triv)

section \<open>The view stays in step with its settings\<close>

fun controls_ok :: "view_op \<Rightarrow> bool" where
  "controls_ok (VPrefs c) = settings_ok c"
| "controls_ok _ = True"

definition view_inv :: "browser_view \<Rightarrow> bool" where
  "view_inv s \<longleftrightarrow> settings_ok (bv_set s) \<and> bv_saved s = bv_set s \<and> bv_days s = Some (bw_auto_rewrite_months (bv_set s) * 30) \<and>
     (\<exists>rows. bv_rows s = sort_list_rows (arrange_of (bw_arrange (bv_set s))) (bw_arrange_rev (bv_set s)) rows)"

lemmas view_defs = view_folder_def sort_rows_def save_settings_def apply_auto_rewrite_months_def set_zoom_level_def set_view_mode_def
  on_list_wheel_def on_view_zoom_in_def on_view_zoom_out_def on_view_zoom_normal_def on_view_mode_def on_view_reset_def
  on_view_hidden_def on_view_thumbs_def on_view_arrange_def on_view_reverse_def on_prefs_def clamp_def Let_def

lemma arrange_num_range [simp]: "0 \<le> arrange_num a" "arrange_num a \<le> 4"
  by (cases a; simp)+

lemma view_num_range [simp]: "0 \<le> view_num m" "view_num m \<le> 2"
  by (cases m; simp)+

lemma view_inv_step: "view_inv s \<Longrightarrow> controls_ok x \<Longrightarrow> view_inv (view_step x s)"
  by (cases x) (auto simp: view_inv_def view_defs settings_ok_def split: if_splits)

lemma view_inv_open: "settings_ok b \<Longrightarrow> view_inv (view_open b)"
  by (auto simp: view_inv_def view_open_def load_settings_def view_defs settings_ok_def sort_list_rows_def stable_sort_def
      intro!: exI [of _ "[]"])

lemma view_inv_steps: "view_inv s \<Longrightarrow> \<forall>x \<in> set xs. controls_ok x \<Longrightarrow> view_inv (fold view_step xs s)"
  by (induction xs arbitrary: s) (simp_all add: view_inv_step)

text \<open>Directories come before files in any order that a list of the browser has.\<close>

lemma sorted_dirs_first: "sorted_wrt (\<lambda>a b. lr_is_dir b \<longrightarrow> lr_is_dir a) (sort_list_rows arr rv rows)"
proof (cases "arr = ArrManual \<and> \<not> rv")
  case True
  then show ?thesis
    by (auto simp: sort_list_rows_def manual_less_def intro!: sorted_wrt_mono_rel [OF _ manual.sorts(2)] split: if_splits)
next
  case False
  then show ?thesis
    by (auto simp: sort_list_rows_def row_less_def Let_def intro!: sorted_wrt_mono_rel [OF _ rows.sorts(2)] split: if_splits)
qed

lemma sorted_again: "sort_list_rows arr rv (sort_list_rows arr rv rows) = sort_list_rows arr rv rows"
  by (simp add: sort_list_rows_def manual.sort_again rows.sort_again)

lemma list_icon_size_ok: "settings_ok c \<Longrightarrow>
  list_icon_size c = (if bw_view_mode c = 0 then icon_sizes else small_sizes) ! nat (bw_zoom_level c + 2)"
  by (auto simp: list_icon_size_def settings_ok_def clamp_def Let_def)

text \<open>C39: whatever the user does with the view, its settings stay in their ranges and are those of the settings
  file, the database keeps hashes valid for thirty days a month of them, the rows are in the order that the settings
  name, directories first, and the icons have a size of the table of their view.\<close>

theorem view_in_step:
  assumes "settings_ok b" and "\<forall>x \<in> set xs. controls_ok x"
  shows "let s = fold view_step xs (view_open b); c = bv_set s; rows = bv_rows s in
    settings_ok c \<and> bv_saved s = c \<and> bv_days s = Some (bw_auto_rewrite_months c * 30) \<and>
    sort_list_rows (arrange_of (bw_arrange c)) (bw_arrange_rev c) rows = rows \<and>
    sorted_wrt (\<lambda>r q. lr_is_dir q \<longrightarrow> lr_is_dir r) rows \<and>
    list_icon_size c = (if bw_view_mode c = 0 then icon_sizes else small_sizes) ! nat (bw_zoom_level c + 2)"
  using view_inv_steps [OF view_inv_open [OF assms(1)] assms(2)]
  by (auto simp: Let_def view_inv_def sorted_again sorted_dirs_first list_icon_size_ok)

lemma view_in_step_witness:
  "let s = fold view_step [VZoomIn, VArrange ArrSize, VPrefs (browser_init\<lparr>bw_auto_rewrite_months := 2\<rparr>)] (view_open browser_init) in
    settings_ok (bv_set s) \<and> bv_saved s = bv_set s \<and> bv_days s = Some (bw_auto_rewrite_months (bv_set s) * 30)"
  using view_in_step [of browser_init "[VZoomIn, VArrange ArrSize, VPrefs (browser_init\<lparr>bw_auto_rewrite_months := 2\<rparr>)]"]
  by (simp add: settings_ok_def browser_init_def Let_def)

text \<open>The preferences arrange the rows that are there: hidden files do not come or go before the folder is listed again.\<close>

lemma prefs_keep_rows: "mset (bv_rows (on_prefs c s)) = mset (bv_rows s)"
  by (simp add: on_prefs_def apply_auto_rewrite_months_def save_settings_def sort_rows_def Let_def sort_list_rows_def
      manual.sorts(1) rows.sorts(1))

end
