(* ===== verification/Actions.thy ===== *)
theory Actions
  imports BrowserView Window FuseUser
begin

text \<open>
  Actions of the windows that are neither runs nor settings: finding and showing folders in the tree of
  the browser, choosing what is synchronised or opened (\<open>src/gui/browser.cpp\<close>), the dialog of user mounts
  and the start of a database tool (\<open>src/gui/main_frame.cpp\<close>).  Of the tree only the names below each
  folder are kept, as \<open>populate_tree_children\<close> of \<open>Browser\<close> finds them.
\<close>

section \<open>The tree of folders\<close>

definition child_rel :: "string \<Rightarrow> string \<Rightarrow> string" where
  "child_rel cur name = (if cur = [] then name else cur @ ''/'' @ name)"

definition first_part :: "string \<Rightarrow> string" where
  "first_part rest = takeWhile (\<lambda>c. c \<noteq> CHR ''/'') rest"

definition other_parts :: "string \<Rightarrow> string" where
  "other_parts rest = drop (Suc (length (first_part rest))) rest"

lemma other_parts_shorter [termination_simp]: "rest \<noteq> [] \<Longrightarrow> length (other_parts rest) < length rest"
  by (simp add: other_parts_def)

text \<open>The loop goes down from \<open>cur\<close>, one name at a time.\<close>

fun find_below :: "(string \<Rightarrow> string list) \<Rightarrow> string \<Rightarrow> string \<Rightarrow> string option" where
  "find_below kids cur rest =
     (if rest = [] then Some cur
      else if first_part rest \<in> set (kids cur) then find_below kids (child_rel cur (first_part rest)) (other_parts rest)
      else None)"

declare find_below.simps [simp del]

definition find_tree_by_rel :: "(string \<Rightarrow> string list) \<Rightarrow> string \<Rightarrow> string option" where
  "find_tree_by_rel kids rel = find_below kids [] rel"

text \<open>Folders that are selected quickly one after another are shown once, the last of them.\<close>

record tree_show =
  ts_rel :: string
  ts_pending :: bool
  ts_posts :: nat

definition schedule_show_folder :: "string \<Rightarrow> tree_show \<Rightarrow> tree_show" where
  "schedule_show_folder rel s =
     (if ts_pending s then s\<lparr>ts_rel := rel\<rparr> else s\<lparr>ts_rel := rel, ts_pending := True, ts_posts := ts_posts s + 1\<rparr>)"

definition show_scheduled :: "(string \<Rightarrow> string list) \<Rightarrow> bool \<Rightarrow> tree_show \<Rightarrow> string option \<times> tree_show" where
  "show_scheduled kids guard s =
     (if guard then None else find_tree_by_rel kids (ts_rel s), s\<lparr>ts_pending := False, ts_posts := ts_posts s - 1\<rparr>)"

section \<open>What is opened and synchronised\<close>

definition selected_file_path :: "list_row list \<Rightarrow> nat option \<Rightarrow> string" where
  "selected_file_path rows sel =
     (case sel of None \<Rightarrow> []
      | Some i \<Rightarrow> if length rows \<le> i \<or> lr_is_dir (rows ! i) \<or> \<not> lr_in_fs (rows ! i) then [] else lr_abs (rows ! i))"

datatype activation = ActNothing | ActFolder string | ActOpen string

definition on_list_activate :: "(string \<Rightarrow> string list) \<Rightarrow> string \<Rightarrow> list_row list \<Rightarrow> nat \<Rightarrow> activation" where
  "on_list_activate kids cur rows i =
     (if length rows \<le> i then ActNothing
      else
        let r = rows ! i in
        if lr_is_dir r then (if lr_name r \<in> set (kids cur) then ActFolder (child_rel cur (lr_name r)) else ActNothing)
        else if lr_in_fs r then ActOpen (lr_abs r) else ActNothing)"

text \<open>The rows that are synchronised: the folder, or what is selected in it.\<close>

definition on_sync_folder :: "list_row list \<Rightarrow> list_row list option" where
  "on_sync_folder rows = (if rows \<noteq> [] then Some rows else None)"

definition on_sync_selection :: "list_row list \<Rightarrow> nat list \<Rightarrow> list_row list option" where
  "on_sync_selection rows sel =
     (let picked = map (\<lambda>i. rows ! i) (filter (\<lambda>i. i < length rows) sel)
      in if picked = [] then on_sync_folder rows else Some picked)"

definition double_quoted :: "string \<Rightarrow> string" where
  "double_quoted p = CHR 0x22 # p @ [CHR 0x22]"

text \<open>The command that opens a regular file; \<open>app\<close> is the program that was picked.\<close>

definition open_command :: "string option \<Rightarrow> string \<Rightarrow> string" where
  "open_command app path =
     (case app of
        None \<Rightarrow> ''xdg-open '' @ double_quoted path
      | Some p \<Rightarrow> p @ '' '' @ (if CHR '' '' \<notin> set p then double_quoted path else CHR 0x27 # path @ [CHR 0x27]))"

datatype open_choice = OpenNothing | OpenAlert string | OpenCancelled | OpenRun string

definition open_path :: "string \<Rightarrow> bool \<Rightarrow> bool \<Rightarrow> string option \<Rightarrow> open_choice" where
  "open_path path regular pick_app answer =
     (if path = [] then OpenNothing
      else if \<not> regular then OpenAlert ''Select a file on disk.''
      else if pick_app then (case answer of None \<Rightarrow> OpenCancelled | Some p \<Rightarrow> OpenRun (open_command (Some p) path))
      else OpenRun (open_command None path))"

section \<open>User mounts\<close>

definition fuse_ready :: "fuse_status \<Rightarrow> bool" where
  "fuse_ready st \<longleftrightarrow> fs_setuid st \<or> fs_cap st"

definition user_mounts_ready :: "'w fuse_sys \<Rightarrow> 'w host \<Rightarrow> ('w, 'z, bool) priv_io" where
  "user_mounts_ready fu hs =
     iob (probe_fuse_user_mounts fu) (\<lambda>st. if fuse_ready st then ioret True else sysc (hs_in_ns hs))"

text \<open>The boxes of the dialog, what they are set to, and what they ask for; whether the button turns on or off.\<close>

record mounts_dialog =
  md_boxes :: fuse_desire
  md_turns_off :: bool
  md_alerts :: "string list"

definition refresh_from_probe :: "'w fuse_sys \<Rightarrow> mounts_dialog \<Rightarrow> ('w, 'z, mounts_dialog) priv_io" where
  "refresh_from_probe fu d =
     iob (probe_fuse_user_mounts fu) (\<lambda>st.
     ioret (d\<lparr>md_boxes := \<lparr>fd_group = fs_group_exists st, fd_member = fs_user_in_group st, fd_setuid = fs_setuid st, fd_cap = fs_cap st\<rparr>,
              md_turns_off := fuse_ready st\<rparr>))"

definition run_priv_async :: "'w fuse_sys \<Rightarrow> ('w, 'z, bool \<times> string) priv_io \<Rightarrow> mounts_dialog \<Rightarrow> ('w, 'z, mounts_dialog) priv_io" where
  "run_priv_async fu work d =
     iob work (\<lambda>(ok, err).
     iob (refresh_from_probe fu d) (\<lambda>d.
     ioret (d\<lparr>md_alerts := md_alerts d @
       (if \<not> ok then [if err = [] then ''Could not change mount settings.'' else err] else if err \<noteq> [] then [err] else [])\<rparr>)))"

definition on_mounts_toggle :: "'w pipe_sys \<Rightarrow> 'w fuse_sys \<Rightarrow> mounts_dialog \<Rightarrow> ('w, 'z, mounts_dialog) priv_io" where
  "on_mounts_toggle ps fu =
     run_priv_async fu (iob (probe_fuse_user_mounts fu) (\<lambda>st.
       if fuse_ready st then disable_fuse_user_mounts ps fu []
       else apply_fuse_user_mounts ps fu \<lparr>fd_group = True, fd_member = True, fd_setuid = True, fd_cap = True\<rparr> []))"

definition on_mounts_apply :: "'w pipe_sys \<Rightarrow> 'w fuse_sys \<Rightarrow> mounts_dialog \<Rightarrow> ('w, 'z, mounts_dialog) priv_io" where
  "on_mounts_apply ps fu d = run_priv_async fu (apply_fuse_user_mounts ps fu (md_boxes d) []) d"

section \<open>A tool for the database\<close>

fun try_tools :: "(string \<Rightarrow> 'w \<Rightarrow> bool \<times> 'w) \<Rightarrow> string \<Rightarrow> string list \<Rightarrow> ('w, 'z, unit) win" where
  "try_tools exec quoted [] =
     alert_box (''No SQLite GUI found.'' @ [CHR 0x0A] @ ''Install sqlitebrowser (recommended) or sqlitestudio,'' @ [CHR 0x0A] @
       ''then try Manifest '' @ [CHR 0xE2, CHR 0x86, CHR 0x92] @ '' SQLite admin again.'')"
| "try_tools exec quoted (t # ts) =
     iob (sysc (exec (t @ '' '' @ quoted))) (\<lambda>started.
     if started then say_status (''SQLite admin: '' @ t) else try_tools exec quoted ts)"

definition on_db_admin :: "(string \<Rightarrow> 'w \<Rightarrow> bool \<times> 'w) \<Rightarrow> ('w, 'z, unit) win" where
  "on_db_admin exec =
     iob (ioget (\<lambda>s. (wd_db_open s, op_sqlite_db (wd_opts s)))) (\<lambda>(open, db).
     if \<not> open \<or> db = [] then alert_box ''Open a manifest database first.''
     else try_tools exec (shell_quote db) [''sqlitebrowser'', ''sqlitestudio''])"

section \<open>Lemmas\<close>

lemma parts_join:
  assumes "rest \<noteq> []" and "last rest \<noteq> CHR ''/''"
  shows "rest = (if other_parts rest = [] then first_part rest else first_part rest @ ''/'' @ other_parts rest) \<and>
    (other_parts rest \<noteq> [] \<longrightarrow> last (other_parts rest) \<noteq> CHR ''/'')"
proof (cases "dropWhile (\<lambda>c. c \<noteq> CHR ''/'') rest")
  case Nil
  then have "first_part rest = rest" by (simp add: first_part_def takeWhile_eq_all_conv dropWhile_eq_Nil_conv)
  then show ?thesis by (simp add: other_parts_def)
next
  case (Cons c cs)
  have c: "c = CHR ''/''" using hd_dropWhile [of "\<lambda>c. c \<noteq> CHR ''/''" rest] Cons by simp
  have split: "rest = first_part rest @ CHR ''/'' # cs"
    using takeWhile_dropWhile_id [of "\<lambda>c. c \<noteq> CHR ''/''" rest] Cons c by (simp add: first_part_def)
  have "drop (Suc (length (first_part rest))) (first_part rest @ CHR ''/'' # cs) = cs" by simp
  then have o: "other_parts rest = cs" using split by (simp add: other_parts_def)
  have "cs \<noteq> []" using split assms(2) by (metis last_snoc)
  then show ?thesis using split o assms(2) by (metis append_Cons append_Nil last_appendR last_ConsR list.simps(3))
qed

text \<open>The folder that is found for a path is the folder of that path.\<close>

lemma found_by_rel:
  assumes "\<forall>c. [] \<notin> set (kids c)" and "rest = [] \<or> last rest \<noteq> CHR ''/''" and "find_below kids cur rest = Some r"
  shows "r = (if rest = [] then cur else child_rel cur rest)"
  using assms
proof (induction kids cur rest rule: find_below.induct)
  case (1 kids cur rest)
  show ?case
  proof (cases "rest = []")
    case False
    then have p: "first_part rest \<in> set (kids cur)" "find_below kids (child_rel cur (first_part rest)) (other_parts rest) = Some r"
      using "1.prems"(3) by (auto simp: find_below.simps [of kids cur rest] split: if_splits)
    have j: "rest = (if other_parts rest = [] then first_part rest else first_part rest @ ''/'' @ other_parts rest)"
      "other_parts rest = [] \<or> last (other_parts rest) \<noteq> CHR ''/''"
      using parts_join [OF False] False "1.prems"(2) by auto
    have ne: "child_rel cur (first_part rest) \<noteq> []" using p(1) "1.prems"(1) by (auto simp: child_rel_def)
    have "r = (if other_parts rest = [] then child_rel cur (first_part rest) else child_rel (child_rel cur (first_part rest)) (other_parts rest))"
      by (rule "1.IH" [OF False p(1) "1.prems"(1) j(2) p(2)])
    then show ?thesis using False j(1) ne by (auto simp: child_rel_def split: if_splits)
  qed (use 1 in \<open>simp add: find_below.simps\<close>)
qed

lemma find_tree_by_rel_finds: "\<forall>c. [] \<notin> set (kids c) \<Longrightarrow> rel = [] \<or> last rel \<noteq> CHR ''/'' \<Longrightarrow> find_tree_by_rel kids rel = Some r \<Longrightarrow> r = rel"
  using found_by_rel [of kids rel "[]" r] by (simp add: find_tree_by_rel_def child_rel_def split: if_splits)

text \<open>However many folders are selected before the posted call runs, one call is posted, and it shows the last.\<close>

lemma last_folder_shown:
  assumes "\<not> ts_pending s" and "rels \<noteq> []"
  shows "let s' = fold schedule_show_folder rels s in
    ts_posts s' = ts_posts s + 1 \<and> fst (show_scheduled kids False s') = find_tree_by_rel kids (last rels)"
proof -
  have *: "fold schedule_show_folder rels s = s\<lparr>ts_rel := last (ts_rel s # rels)\<rparr>" if "ts_pending s" for rels and s :: tree_show
    using that by (induction rels arbitrary: s) (simp_all add: schedule_show_folder_def)
  obtain x xs where "rels = x # xs" using assms(2) by (cases rels) auto
  then show ?thesis
    using assms(1) by (simp add: * schedule_show_folder_def show_scheduled_def Let_def)
qed

text \<open>Paths are put between double quotes as they are: one with a double quote is not one argument.\<close>

lemma quote_in_path: "open_command None (CHR 0x22 # '' x'') = ''xdg-open '' @ [CHR 0x22, CHR 0x22] @ '' x'' @ [CHR 0x22]"
  by (simp add: open_command_def double_quoted_def)

end
