(* ===== verification/Startup.thy ===== *)
theory Startup
  imports Agent MountFrame Options
begin

text \<open>
  The start of the program (\<open>main\<close>, \<open>src/main.cpp\<close>): the command line, the privilege agent and the name
  space, which both have to come before the first thread, and the choice between the window and the
  run without one (\<open>RunControl\<close> and \<open>Lifecycle\<close>).
\<close>

section \<open>From the command line to the run\<close>

text \<open>How it goes on: the end with an exit code, the window, or a run of the engine with these options.\<close>

datatype main_next = MainReturn int | MainGui options | MainRun options

definition set_text :: "string option \<Rightarrow> bool" where
  "set_text v \<longleftrightarrow> v \<noteq> None \<and> v \<noteq> Some []"

definition display_available :: "'w script_sys \<Rightarrow> ('w, 'z, bool) priv_io" where
  "display_available ss =
     iob (sysc (sc_getenv ss ''DISPLAY'')) (\<lambda>d.
     if set_text d then ioret True
     else iob (sysc (sc_getenv ss ''WAYLAND_DISPLAY'')) (\<lambda>w. ioret (set_text w)))"

text \<open>The choice, after the agent and the name space; the lines on \<open>stderr\<close> come with the result.\<close>

definition main_decide :: "'w script_sys \<Rightarrow> options \<Rightarrow> string list \<Rightarrow> ('w, 'z, string list \<times> main_next) priv_io" where
  "main_decide ss o1 m =
     (let want = op_gui o1 \<and> op_action o1 \<noteq> ActTest in
      iob (if want then display_available ss else ioret False) (\<lambda>display.
      let m = m @ (if want \<and> \<not> display then [''reflash: --gui requested but no display available; running headless''] else []) in
      ioret (if want \<and> display then (m, MainGui o1)
             else if op_target o1 = [] then (m @ [''reflash: missing DEVICE/FILE''], MainReturn 2)
             else (m, MainRun o1))))"

definition main_host :: "'w script_sys \<Rightarrow> 'w host \<Rightarrow> options \<Rightarrow> ('w, 'z, string list \<times> main_next) priv_io" where
  "main_host ss hs o1 =
     iob (start_host_priv_agent ss) (\<lambda>agent.
     let m1 = (if \<not> agent \<and> 0 < op_verbosity o1 then [''reflash: host privilege agent failed to start''] else []) in
     iob (ensure_user_mount_ns hs []) (\<lambda>(ns, err).
     main_decide ss o1 (m1 @ (if \<not> ns \<and> 0 < op_verbosity o1 then [''reflash: user mount namespace: '' @ err] else []))))"

definition main_options :: "'w script_sys \<Rightarrow> 'w host \<Rightarrow> options \<Rightarrow> ('w, 'z, string list \<times> main_next) priv_io" where
  "main_options ss hs o1 = iob (if op_gui o1 then set_host_priv_gui True else ioret ()) (\<lambda>_. main_host ss hs o1)"

definition main_start :: "'w script_sys \<Rightarrow> 'w host \<Rightarrow> getopt_result list \<Rightarrow> string list \<Rightarrow> ('w, 'z, string list \<times> main_next) priv_io" where
  "main_start ss hs args rest =
     (case parse_options args rest options_init of
        Rejected \<Rightarrow> ioret ([], MainReturn 2)
      | Exited \<Rightarrow> ioret ([], MainReturn 0)
      | Parsed o1 \<Rightarrow> main_options ss hs o1)"

section \<open>What is chosen\<close>

lemma any_world: "host_frame hs (\<lambda>_ _. True) (\<lambda>s :: ('w, 'z) priv_scheme. pv_gui s = g)"
  by unfold_locales (simp_all add: host_moves_def)

lemma sysc_any: "stays False False (\<lambda>s :: ('w, 'z) priv_scheme. pv_gui s = g) (sysc f)"
  by (simp add: stays_def split_def)

lemma agent_keeps_gui: "stays False False (\<lambda>s. pv_gui s = g) (start_host_priv_agent ss)"
proof -
  have "stays False False (\<lambda>s. pv_gui s = g) (snap_env ss ks)" for ks
    by (induction ks) (simp_all only: snap_env.simps, (intro stays_intros sysc_any | simp)+)
  then show ?thesis
    unfolding start_host_priv_agent_def snap_session_env_def
    by (intro stays_intros sysc_any) (simp_all add: stays_upd)
qed

text \<open>What the environment says about a display, whatever else happened.\<close>

definition display_is :: "'w script_sys \<Rightarrow> bool \<Rightarrow> bool" where
  "display_is ss b \<longleftrightarrow> (\<forall>w. (set_text (fst (sc_getenv ss ''DISPLAY'' w)) \<or>
     set_text (fst (sc_getenv ss ''WAYLAND_DISPLAY'' (snd (sc_getenv ss ''DISPLAY'' w))))) = b)"

lemma display_twp: "display_is ss b \<Longrightarrow> pv_gui s = g \<Longrightarrow> twp (display_available ss) (\<lambda>r s'. r = b \<and> pv_gui s' = g) s"
  by (auto simp: display_available_def display_is_def Let_def split_def)

definition main_choice :: "bool \<Rightarrow> options \<Rightarrow> main_next" where
  "main_choice display o1 =
     (if op_gui o1 \<and> op_action o1 \<noteq> ActTest \<and> display then MainGui o1
      else if op_target o1 = [] then MainReturn 2 else MainRun o1)"

lemma main_decide_choice:
  assumes "display_is ss display" and "pv_gui s = g"
  shows "twp (main_decide ss o1 m) (\<lambda>(_, next) s'. next = main_choice display o1 \<and> pv_gui s' = g) s"
proof (cases "op_gui o1 \<and> op_action o1 \<noteq> ActTest")
  case True
  show ?thesis
    unfolding main_decide_def Let_def wpx_bind using True
    by (simp only: if_True simp_thms) (rule wpx_weaken [OF display_twp [OF assms]], auto simp: main_choice_def)
next
  case False
  then show ?thesis using assms(2) by (auto simp: main_decide_def main_choice_def)
qed

lemma stays_then: "stays False False P m \<Longrightarrow> P s \<Longrightarrow> (\<And>a s'. P s' \<Longrightarrow> twp (f a) Q s') \<Longrightarrow> twp (iob m f) Q s"
  unfolding wpx_bind by (rule stays_wpx)

lemma main_host_choice:
  assumes "display_is ss display" and "pv_gui s = g"
  shows "twp (main_host ss hs o1) (\<lambda>(_, next) s'. next = main_choice display o1 \<and> pv_gui s' = g) s"
  unfolding main_host_def Let_def
  by (rule stays_then [OF agent_keeps_gui [of g] assms(2)],
      rule stays_then [OF host_frame.name_space [OF any_world [of _ g]]], assumption)
    (simp only: split_def, rule main_decide_choice [OF assms(1), unfolded split_def], assumption)

text \<open>C40: whatever becomes of the agent and of the name space, a command line that is accepted leads to the
  window exactly when one is asked for, the action is not the test and there is a display; else to a run
  on its target, and to exit code 2 when there is none.  The agent's flag for a graphical interface is
  set for good when one was asked for, also when the run then goes without.\<close>

theorem start_chooses:
  assumes "parse_options args rest options_init = Parsed o1" and "display_is ss display"
  shows "twp (main_start ss hs args rest) (\<lambda>(_, next) s'. next = main_choice display o1 \<and> pv_gui s' = (op_gui o1 \<or> pv_gui s)) s"
proof -
  have "twp (main_options ss hs o1) (\<lambda>(_, next) s'. next = main_choice display o1 \<and> pv_gui s' = (op_gui o1 \<or> pv_gui s)) s"
    unfolding main_options_def set_host_priv_gui_def wpx_bind
    using main_host_choice [OF assms(2), of "s\<lparr>pv_gui := True\<rparr>" True] main_host_choice [OF assms(2), of s "pv_gui s"]
    by (cases "op_gui o1") simp_all
  then show ?thesis by (simp add: main_start_def assms(1))
qed

lemma start_chooses_witness:
  "\<exists>m s'. main_start (approving 0) ram_host [OptGui] [''/dev/sdb''] (\<lparr>world = (), pv_req_w = -1, pv_rep_r = -1, pv_pid = 0, pv_gui = False, pv_env = []\<rparr>)
     = Ret ((m, MainRun (options_init\<lparr>op_gui := True, op_target := ''/dev/sdb''\<rparr>)), s') \<and> pv_gui s'"
proof -
  let ?s = "\<lparr>world = (), pv_req_w = -1, pv_rep_r = -1, pv_pid = 0, pv_gui = False, pv_env = []\<rparr>"
  let ?o = "options_init\<lparr>op_gui := True, op_target := ''/dev/sdb''\<rparr>"
  have "parse_options [OptGui] [''/dev/sdb''] options_init = Parsed ?o" by (simp add: parse_operands_def options_init_def)
  moreover have "display_is (approving 0) False" by (simp add: display_is_def set_text_def approving_def)
  ultimately show ?thesis
    using twp_returns [OF start_chooses [of "[OptGui]" "[''/dev/sdb'']" ?o "approving 0" False ram_host ?s]]
    by (auto simp: main_choice_def options_init_def)
qed

end
