(* ===== verification/Spec2Isabelle.thy ===== *)
theory Spec2Isabelle
  imports Runs Validate ImageMount Shell MountOrder Session Devices FuseUser RunControl Window BrowserSync VerifyQueue BrowserView Actions Startup
begin

text \<open>
  reflash rewrites a storage medium in place, so that its cells are charged anew, keeps a catalog of
  what it rewrote in an SQLite database, and hashes the files on the medium.  This development models
  the program under \<open>src/src\<close> and states what it promises.

  \<^bold>\<open>Language and machine.\<close>  \<open>Prelude\<close> has the outcomes of C++ code (\<open>Ret\<close>, a normal return;
  \<open>Trap\<close>, behaviour the language leaves undefined; \<open>Stuck\<close>, fuel used up) and the monad of stateful
  routines, with the one predicate \<open>stays\<close> on which all frame and termination arguments are built, and
  its rules \<open>stays_intros\<close>.  Integers are words of the width of the source, times and rates rationals.
  \<open>Sys\<close> has the system calls, as functions of the outside world, and the contract of a disk; \<open>Machine\<close>
  adds the progress object that every routine of the worker shares; \<open>Host\<close> the calls of \<open>src/mount\<close>.

  \<^bold>\<open>Devices and blocks.\<close>  \<open>Device\<close> (\<open>io/device.cpp\<close>): opening, exact reads and writes.
  \<open>PageCache\<close> (\<open>io/page_cache.cpp\<close>): whether a written range has reached the media.  \<open>BlockIo\<close>
  (\<open>io/block_io.cpp\<close>): \<open>rewrite_range\<close>, block after block, with its retries, its cells and errors.
  \<open>Partition\<close> (\<open>io/partition.cpp\<close>): MBR and GPT.  \<open>Devices\<close> (\<open>io/devices.cpp\<close>): the list of devices.

  \<^bold>\<open>File systems.\<close>  \<open>Extents\<close> and \<open>Chains\<close> hold what the scanners share; \<open>Fat\<close>, \<open>Exfat\<close>, \<open>Ntfs\<close>,
  \<open>Ext\<close> and \<open>Detect\<close> are the files of \<open>fs\<close> of these names.  The scanners read through the locale
  \<open>reader\<close>, interpreted on \<open>pread_all\<close> of an open device; \<open>Scanners\<close> shows that they only read.

  \<^bold>\<open>Catalog.\<close>  \<open>Catalog\<close>, \<open>Store\<close> and \<open>Validate\<close> (\<open>db/store.cpp\<close>): the tables in place of SQLite,
  every statement with the failures it can have, every operation of \<open>Store\<close>, and the validation.

  \<^bold>\<open>Engine.\<close>  \<open>Progress\<close> and \<open>Pause\<close> (\<open>engine/progress.cpp\<close>, \<open>pause.cpp\<close>): what the worker shows and
  how it is stopped.  \<open>Sha1Pass\<close> (\<open>engine/sha1_pass.cpp\<close>).  \<open>Massage\<close> (\<open>engine/massage.cpp\<close>): a whole
  run, which calls the device, the scanners, the catalog, the hashes and the mounts.  \<open>Silent\<close>,
  \<open>Returns\<close> and \<open>Runs\<close> prove what a run leaves alone, that it comes back, and what it records.

  \<^bold>\<open>Mounts and privileges.\<close>  \<open>Automount\<close> (\<open>mount/automount.cpp\<close>, \<open>userns.cpp\<close>): finding, undoing and
  restoring mounts.  \<open>MountFrame\<close> states as interfaces what these routines do to the host; \<open>ImageMount\<close>
  and \<open>MountOrder\<close> use them, \<open>Shell\<close> reads the commands back as a shell does.  \<open>Agent\<close>
  (\<open>mount/host_priv.cpp\<close>): the agent process and its protocol.  \<open>FuseUser\<close> (\<open>mount/fuse_user.cpp\<close>).

  \<^bold>\<open>Threads and programs.\<close>  \<open>Options\<close> (\<open>options.cpp\<close>): the command line.  \<open>Startup\<close>
  (\<open>main.cpp\<close>): agent, name space, and the choice of the interface.  \<open>Lifecycle\<close> (\<open>engine/massage.cpp\<close>,
  \<open>main.cpp\<close>): start, end and join of the worker's thread as steps that interleave with those of its user.
  The locale \<open>engine_user\<close> says what any user of the engine may do; it is interpreted on the headless
  loop and, in \<open>RunControl\<close> (\<open>gui/main_frame.cpp\<close>), on the main window with its menus and its timer.

  \<^bold>\<open>Windows.\<close>  \<open>Grid\<close> and \<open>LogPanel\<close> are the panels of these names.  \<open>Target\<close> and \<open>Window\<close>
  (\<open>gui/main_frame.cpp\<close>): target, manifest, menus of drives, settings, bad blocks.  \<open>Session\<close>
  (\<open>gui/session.cpp\<close>): what is kept between sessions.  The browser (\<open>gui/browser.cpp\<close>): \<open>Browser\<close>
  lists folders and sorts rows, \<open>BrowserSync\<close> hashes files and synchronises catalog and disk,
  \<open>VerifyQueue\<close> is the queue between the window and its verifying thread, \<open>BrowserView\<close> the settings
  of the view.  \<open>Actions\<close> has the rest of what both windows do: navigation, opening files, user mounts.

  \<^bold>\<open>What is shown.\<close>  Rewriting leaves every byte as it was, on every outcome, for a range and for a
  whole run; errors are recorded and shown; runs come back; opening leaks nothing.  The scanners stay
  inside their buffers and give the bytes of each file in order.  The catalog implements a map from
  paths to records, keeps its keys under any failures, and its validation finds exactly the dangling
  rows.  Mounts are undone inside out and restored in the opposite order, image files never ask for a
  password, command lines survive quoting, a refused unmount ends the run with an error.  The agent's
  protocol gives what a direct call would give.  In every interleaving the window watches a run to its
  end, with its settings locked, and shows the result that the worker returned, which is also the exit
  code of a run without a window.  Folders are listed whole, each name once; marks of the list are the
  verdicts that were recorded; verification ends.  A manifest on the target is closed before the target
  is ejected; preferences come back.  Some lemmas state where the code falls short, such as a restored
  session that overrides the command line.

  \<^bold>\<open>Fuel and bounds.\<close>  Recursion on what a device holds (directory trees, extent trees, chains of
  attributes) and reading and writing with interruptions is counted by fuel; running out is \<open>Stuck\<close>, never a result.
  The theorems that a routine returns say how much is enough: for \<open>rewrite_range\<close> the length of the
  range in blocks, for the ext scanner the number of inodes, for a pipe that makes progress one more
  than the bytes to move.

  \<^bold>\<open>Not modelled.\<close>  What wxWidgets does: building windows, menus and dialogs, drawing icons and
  thumbnails, the selection, the loop of events; the answers of dialogs are arguments, and the
  window that shows a validation only shows what \<open>Validate\<close> publishes.  The text of usage, version and
  translations.  What the worker's run does is
  in \<open>Massage\<close>, while \<open>Lifecycle\<close> leaves it open and takes from it only how it ends.  SQLite, OpenSSL,
  wxWidgets, the kernel and the programs that are run are parameters, with what is assumed of them in the
  statements.
\<close>

end
